(* ===== verification/Prelude.thy ===== *)
theory Prelude
  imports Main "HOL-Library.Word" "HOL-Library.Signed_Division"
begin

text \<open>
  The prelude of the ToxSuite development: the machine types of the program (LP64,
  the only platform the README names), the faults that an execution of the C code can
  run into, the result type of a computation that may fault, and the generic lemmas on
  results, lists and checked arithmetic that the component theories share.
\<close>

section \<open>Theorem collections\<close>

named_theorems res_simps \<open>rewriting of results of computations that may fault\<close>
named_theorems range_simps \<open>the ranges of the signed machine types\<close>

section \<open>Machine types\<close>

type_synonym u8 = "8 word"
type_synonym u16 = "16 word"
type_synonym u32 = "32 word"
type_synonym u64 = "64 word"

text \<open>
  Signed C integers are mathematical integers; an operation whose result does not fit
  its type is undefined behaviour in C and the fault \<open>IntOverflow\<close> here. A conversion to
  a narrower signed type wraps, as gcc documents.
\<close>

definition in_i32 :: "int \<Rightarrow> bool" where
  [range_simps]: "in_i32 x \<longleftrightarrow> - (2 ^ 31) \<le> x \<and> x < 2 ^ 31"

definition in_i64 :: "int \<Rightarrow> bool" where
  [range_simps]: "in_i64 x \<longleftrightarrow> - (2 ^ 63) \<le> x \<and> x < 2 ^ 63"

definition to_i32 :: "int \<Rightarrow> int" where
  "to_i32 x = (x + 2 ^ 31) mod 2 ^ 32 - 2 ^ 31"

definition to_i64 :: "int \<Rightarrow> int" where
  "to_i64 x = (x + 2 ^ 63) mod 2 ^ 64 - 2 ^ 63"

lemma to_i32_id [simp]: "in_i32 x \<Longrightarrow> to_i32 x = x"
  by (simp add: to_i32_def in_i32_def)

lemma to_i64_id [simp]: "in_i64 x \<Longrightarrow> to_i64 x = x"
  by (simp add: to_i64_def in_i64_def)

lemma in_i32_to_i32: "in_i32 (to_i32 x)"
proof -
  have "0 \<le> (x + 2147483648) mod 4294967296" "(x + 2147483648) mod 4294967296 < 4294967296"
    by simp_all
  then show ?thesis by (simp add: to_i32_def in_i32_def)
qed

lemma in_i32_in_i64: "in_i32 x \<Longrightarrow> in_i64 x"
  by (simp add: in_i32_def in_i64_def)

section \<open>Faults and results\<close>

datatype fault =
    NullDeref      \<comment> \<open>a null pointer is dereferenced\<close>
  | OutOfBounds    \<comment> \<open>a byte outside of its allocation is read or written\<close>
  | IntOverflow    \<comment> \<open>signed arithmetic leaves its type\<close>
  | DivByZero      \<comment> \<open>integer division by zero\<close>
  | Uninit         \<comment> \<open>a value that was never written is used\<close>
  | UseAfterFree   \<comment> \<open>freed storage is used, or freed again\<close>
  | TypeConfusion  \<comment> \<open>a member of a union is read that was not the one written\<close>
  | OutOfFuel      \<comment> \<open>the bound on the number of steps of a loop is reached\<close>

type_synonym 'a res = "fault + 'a"

definition r_bind :: "'a res \<Rightarrow> ('a \<Rightarrow> 'b res) \<Rightarrow> 'b res" where
  "r_bind m f = (case m of Inl e \<Rightarrow> Inl e | Inr x \<Rightarrow> f x)"

lemma r_bind_Inl [simp, res_simps]: "r_bind (Inl e) f = Inl e"
  by (simp add: r_bind_def)

lemma r_bind_Inr [simp, res_simps]: "r_bind (Inr x) f = f x"
  by (simp add: r_bind_def)

lemma r_bind_assoc: "r_bind (r_bind m f) g = r_bind m (\<lambda>x. r_bind (f x) g)"
  by (cases m) simp_all

lemma r_bind_eq_Inr: "r_bind m f = Inr y \<longleftrightarrow> (\<exists>x. m = Inr x \<and> f x = Inr y)"
  by (cases m) simp_all

lemma r_bind_eq_Inl:
  "r_bind m f = Inl e \<longleftrightarrow> m = Inl e \<or> (\<exists>x. m = Inr x \<and> f x = Inl e)"
  by (cases m) simp_all

lemma r_bind_cong [fundef_cong]:
  "m = m' \<Longrightarrow> (\<And>x. m' = Inr x \<Longrightarrow> f x = f' x) \<Longrightarrow> r_bind m f = r_bind m' f'"
  by (cases m') simp_all

text \<open>\<open>r_ok P m\<close>: the computation does not fault and its result satisfies \<open>P\<close>.\<close>

definition r_ok :: "('a \<Rightarrow> bool) \<Rightarrow> 'a res \<Rightarrow> bool" where
  "r_ok P m \<longleftrightarrow> (case m of Inl e \<Rightarrow> False | Inr x \<Rightarrow> P x)"

lemma r_ok_simps [simp, res_simps]: "r_ok P (Inr x) = P x" "r_ok P (Inl e) = False"
  by (simp_all add: r_ok_def)

lemma r_ok_iff: "r_ok P m \<longleftrightarrow> (\<exists>x. m = Inr x \<and> P x)"
  by (cases m) simp_all

lemma r_ok_bind [intro]:
  "r_ok P m \<Longrightarrow> (\<And>x. P x \<Longrightarrow> r_ok Q (f x)) \<Longrightarrow> r_ok Q (r_bind m f)"
  by (cases m) simp_all

lemma r_ok_mono: "r_ok P m \<Longrightarrow> (\<And>x. P x \<Longrightarrow> Q x) \<Longrightarrow> r_ok Q m"
  by (cases m) simp_all

section \<open>Checked arithmetic\<close>

definition chk32 :: "int \<Rightarrow> int res" where
  "chk32 x = (if in_i32 x then Inr x else Inl IntOverflow)"

definition chk64 :: "int \<Rightarrow> int res" where
  "chk64 x = (if in_i64 x then Inr x else Inl IntOverflow)"

lemma chk32_ok [simp]: "in_i32 x \<Longrightarrow> chk32 x = Inr x"
  by (simp add: chk32_def)

lemma chk64_ok [simp]: "in_i64 x \<Longrightarrow> chk64 x = Inr x"
  by (simp add: chk64_def)

lemma chk32_eq_Inr [simp]: "chk32 x = Inr y \<longleftrightarrow> in_i32 x \<and> y = x"
  by (auto simp: chk32_def)

lemma chk64_eq_Inr [simp]: "chk64 x = Inr y \<longleftrightarrow> in_i64 x \<and> y = x"
  by (auto simp: chk64_def)

text \<open>An unsigned word read as a number, and back.\<close>

lemma uint_word_of_int64: "0 \<le> x \<Longrightarrow> x < 2 ^ 64 \<Longrightarrow> uint (word_of_int x :: u64) = x"
  by (simp add: uint_word_of_int)

lemma unat_word_of_nat64: "n < 2 ^ 64 \<Longrightarrow> unat (word_of_nat n :: u64) = n"
  by (simp add: unat_of_nat)

lemma uint_word_of_int32: "0 \<le> k \<Longrightarrow> k < 2 ^ 32 \<Longrightarrow> uint (word_of_int k :: u32) = k"
  by (simp add: uint_word_of_int)

lemma unat_ucast_32_64 [simp]: "unat (ucast (x :: u32) :: u64) = unat x"
proof -
  have "unat x < 2 ^ 32" using unsigned_less [of x, where 'a = nat] by simp
  then have "unat x < 2 ^ 64" by (rule less_trans) simp
  then show ?thesis by (simp add: unsigned_ucast_eq take_bit_nat_eq_self)
qed

section \<open>Searching with a test that may fault\<close>

fun find_res :: "('e \<Rightarrow> bool res) \<Rightarrow> 'e list \<Rightarrow> 'e option res" where
  "find_res P [] = Inr None"
| "find_res P (e # es) = r_bind (P e) (\<lambda>b. if b then Inr (Some e) else find_res P es)"

text \<open>The results of a list of computations, or the first fault.\<close>

fun those_res :: "'a res list \<Rightarrow> 'a list res" where
  "those_res [] = Inr []"
| "those_res (r # rs) = r_bind r (\<lambda>x. r_bind (those_res rs) (\<lambda>xs. Inr (x # xs)))"

lemma those_res_pure: "\<forall>x\<in>set xs. f x = Inr (g x) \<Longrightarrow> those_res (map f xs) = Inr (map g xs)"
  by (induction xs) auto

text \<open>The same for the index, counted from \<open>i\<close>.\<close>

fun find_index_res :: "('e \<Rightarrow> bool res) \<Rightarrow> nat \<Rightarrow> 'e list \<Rightarrow> nat option res" where
  "find_index_res P i [] = Inr None"
| "find_index_res P i (e # es) = r_bind (P e) (\<lambda>b. if b then Inr (Some i) else find_index_res P (Suc i) es)"

lemma find_res_pure: "\<forall>f\<in>set fs. P f = Inr (Q f) \<Longrightarrow> find_res P fs = Inr (List.find Q fs)"
  by (induction fs) auto

lemma find_index_res_pure:
  assumes "\<forall>f\<in>set fs. P f = Inr (Q f)"
  shows "\<exists>r. find_index_res P i fs = Inr r \<and>
    (case r of None \<Rightarrow> \<forall>f\<in>set fs. \<not> Q f
     | Some t \<Rightarrow> i \<le> t \<and> t < i + length fs \<and> Q (fs ! (t - i)))"
  using assms
proof (induction fs arbitrary: i)
  case (Cons f fs)
  show ?case
  proof (cases "Q f")
    case False
    with Cons.IH [of "Suc i"] Cons.prems obtain r where r: "find_index_res P (Suc i) fs = Inr r"
      "case r of None \<Rightarrow> \<forall>f\<in>set fs. \<not> Q f
       | Some t \<Rightarrow> Suc i \<le> t \<and> t < Suc i + length fs \<and> Q (fs ! (t - Suc i))" by auto
    have "(f # fs) ! (t - i) = fs ! (t - Suc i)" if "Suc i \<le> t" for t
      using that by (metis Suc_diff_le diff_Suc_Suc nth_Cons_Suc)
    with r False Cons.prems show ?thesis by (cases r) auto
  qed (use Cons.prems in simp)
qed simp

section \<open>Lists\<close>

lemma takeWhile_dropWhile_hd:
  "dropWhile P xs = y # ys \<Longrightarrow> \<not> P y"
  by (induction xs) (auto split: if_splits)

lemma takeWhile_append_stop [simp]:
  "\<forall>x\<in>set xs. P x \<Longrightarrow> \<not> P y \<Longrightarrow> takeWhile P (xs @ y # ys) = xs"
  by (induction xs) auto

lemma dropWhile_append_stop [simp]:
  "\<forall>x\<in>set xs. P x \<Longrightarrow> \<not> P y \<Longrightarrow> dropWhile P (xs @ y # ys) = y # ys"
  by (induction xs) auto

lemma find_eq_hd_filter:
  "List.find P xs = (case filter P xs of [] \<Rightarrow> None | x # _ \<Rightarrow> Some x)"
  by (induction xs) auto

section \<open>Machines\<close>

text \<open>What every step of a machine keeps holds in every state that can be reached.\<close>

locale machine_invariant =
  fixes move :: "'s \<Rightarrow> 's \<Rightarrow> bool" and ok :: "'s \<Rightarrow> bool"
  assumes move_ok: "move s t \<Longrightarrow> ok s \<Longrightarrow> ok t"
begin

lemma reach_ok: "move\<^sup>*\<^sup>* s t \<Longrightarrow> ok s \<Longrightarrow> ok t"
  by (induction rule: rtranclp_induct) (auto intro: move_ok)

end

end
