(* ===== verification/Timespec.thy ===== *)
theory Timespec
  imports Prelude
begin

text \<open>
  \<^verbatim>\<open>src/timespec.c\<close> and \<^verbatim>\<open>src/timespec.h\<close>: the arithmetic on
  \<^verbatim>\<open>struct timespec\<close> that the polling loop, the call tester and the friend purge
  rest on. \<^verbatim>\<open>time_t\<close> and \<^verbatim>\<open>long\<close> are 64 bits wide and signed;
  an overflow of them is the fault \<open>IntOverflow\<close>. \<^verbatim>\<open>uint64_t\<close> wraps.
  The mathematical value of a timespec is \<open>ts_ns\<close>; the lemmas relate the code to it.
\<close>

section \<open>Data\<close>

record timespec =
  tv_sec :: int
  tv_nsec :: int

abbreviation HOUR_PER_DAY :: int where "HOUR_PER_DAY \<equiv> 24"
abbreviation SEC_PER_HOUR :: int where "SEC_PER_HOUR \<equiv> 3600"
abbreviation MSEC_PER_SEC :: int where "MSEC_PER_SEC \<equiv> 1000"
abbreviation USEC_PER_SEC :: int where "USEC_PER_SEC \<equiv> 1000000"
abbreviation NSEC_PER_USEC :: int where "NSEC_PER_USEC \<equiv> 1000"
abbreviation NSEC_PER_MSEC :: int where "NSEC_PER_MSEC \<equiv> 1000000"
abbreviation NSEC_PER_SEC :: int where "NSEC_PER_SEC \<equiv> 1000000000"
abbreviation MAX_NS :: int where "MAX_NS \<equiv> 999999999"

text \<open>The mathematical value in nanoseconds, and the timespecs that a clock returns.\<close>

definition ts_ns :: "timespec \<Rightarrow> int" where
  "ts_ns t = tv_sec t * NSEC_PER_SEC + tv_nsec t"

definition ts_norm :: "timespec \<Rightarrow> bool" where
  "ts_norm t \<longleftrightarrow> 0 \<le> tv_nsec t \<and> tv_nsec t < NSEC_PER_SEC"

text \<open>A normalised timespec whose value in nanoseconds is between 0 and \<open>2\<^sup>6\<^sup>3\<close>: about 292 years.\<close>

definition ts_clock :: "timespec \<Rightarrow> bool" where
  "ts_clock t \<longleftrightarrow> ts_norm t \<and> 0 \<le> tv_sec t \<and> tv_sec t < 9223372036"

section \<open>Comparisons\<close>

definition margin_cmp :: "u64 \<Rightarrow> u64 \<Rightarrow> u64 \<Rightarrow> bool" where
  "margin_cmp v ref margin = (if v > ref then v - margin < ref else v + margin > ref)"

definition timed_out :: "u64 \<Rightarrow> u64 \<Rightarrow> u64 \<Rightarrow> bool" where
  "timed_out timestamp curtime timeout \<longleftrightarrow> timestamp + timeout \<le> curtime"

definition timespec_equal :: "timespec \<Rightarrow> timespec \<Rightarrow> bool" where
  "timespec_equal a b \<longleftrightarrow> tv_sec a = tv_sec b \<and> tv_nsec a = tv_nsec b"

definition timespec_compare :: "timespec \<Rightarrow> timespec \<Rightarrow> int res" where
  "timespec_compare lhs rhs =
     (if tv_sec lhs < tv_sec rhs then Inr (- 1)
      else if tv_sec lhs > tv_sec rhs then Inr 1
      else r_bind (chk64 (tv_nsec lhs - tv_nsec rhs)) (\<lambda>d. Inr (to_i32 d)))"

definition timespec_valid :: "timespec \<Rightarrow> bool" where
  "timespec_valid ts =
     (if tv_sec ts < 0 then False
      else if (word_of_int (tv_nsec ts) :: u64) \<ge> word_of_int NSEC_PER_SEC then False
      else True)"

section \<open>Conversions\<close>

definition timespec_to_ns :: "timespec \<Rightarrow> int res" where
  "timespec_to_ns ts =
     r_bind (chk64 (tv_sec ts * NSEC_PER_SEC)) (\<lambda>s. chk64 (s + tv_nsec ts))"

definition timespec_milliseconds :: "timespec \<Rightarrow> int res" where
  "timespec_milliseconds a =
     r_bind (chk64 (tv_sec a * MSEC_PER_SEC)) (\<lambda>s. chk64 (s + tv_nsec a sdiv NSEC_PER_MSEC))"

definition timespec_microseconds :: "timespec \<Rightarrow> int res" where
  "timespec_microseconds a =
     r_bind (chk64 (tv_sec a * USEC_PER_SEC)) (\<lambda>s. chk64 (s + tv_nsec a sdiv NSEC_PER_USEC))"

section \<open>Subtraction\<close>

definition timespec_subtract :: "timespec \<Rightarrow> timespec \<Rightarrow> timespec res" where
  "timespec_subtract a b =
     r_bind (chk64 (tv_nsec a - tv_nsec b)) (\<lambda>ns.
     r_bind (if ns < 0
             then r_bind (chk64 (ns + NSEC_PER_SEC)) (\<lambda>ns'.
                  r_bind (chk64 (tv_sec a - 1)) (\<lambda>s'. Inr (s', ns')))
             else Inr (tv_sec a, ns)) (\<lambda>(s, ns).
     r_bind (chk64 (s - tv_sec b)) (\<lambda>s. Inr \<lparr>tv_sec = s, tv_nsec = ns\<rparr>)))"

definition nanosec_diff :: "timespec \<Rightarrow> timespec \<Rightarrow> timespec res" where
  "nanosec_diff start end' =
     r_bind (chk64 (tv_nsec end' - tv_nsec start)) (\<lambda>d.
     if d < 0
     then r_bind (chk64 (tv_sec end' - tv_sec start)) (\<lambda>s.
          r_bind (chk64 (s - 1)) (\<lambda>s.
          r_bind (chk64 (NSEC_PER_SEC + tv_nsec end')) (\<lambda>n.
          r_bind (chk64 (n - tv_nsec start)) (\<lambda>n. Inr \<lparr>tv_sec = s, tv_nsec = n\<rparr>))))
     else r_bind (chk64 (tv_sec end' - tv_sec start)) (\<lambda>s. Inr \<lparr>tv_sec = s, tv_nsec = d\<rparr>))"

definition nanosec_timeout :: "timespec \<Rightarrow> timespec \<Rightarrow> u64 \<Rightarrow> bool res" where
  "nanosec_timeout timestamp curtime timeout =
     r_bind (timespec_subtract curtime timestamp) (\<lambda>diff.
     r_bind (timespec_to_ns diff) (\<lambda>ns. Inr ((word_of_int ns :: u64) \<ge> timeout)))"

section \<open>Addition\<close>

text \<open>
  \<^verbatim>\<open>timespec_addms\<close>, \<^verbatim>\<open>timespec_addmicros\<close> and \<^verbatim>\<open>timespec_addns\<close>
  are the same code for three units: \<open>per_sec\<close> units in a second, \<open>to_ns\<close> nanoseconds in a
  unit. The quotient is stored in an \<^verbatim>\<open>int\<close>, which narrows it.
\<close>

definition timespec_add_units :: "int \<Rightarrow> int \<Rightarrow> timespec \<Rightarrow> int \<Rightarrow> timespec res" where
  "timespec_add_units per_sec to_ns ts x =
     (let sec = to_i32 (x sdiv per_sec) in
      r_bind (chk64 (x - sec * per_sec)) (\<lambda>x.
      r_bind (chk64 (x * to_ns)) (\<lambda>d.
      r_bind (chk64 (tv_nsec ts + d)) (\<lambda>ns.
      r_bind (chk64 (tv_sec ts + (ns sdiv NSEC_PER_SEC + sec))) (\<lambda>s.
      Inr \<lparr>tv_sec = s, tv_nsec = ns smod NSEC_PER_SEC\<rparr>)))))"

definition timespec_addms :: "timespec \<Rightarrow> int \<Rightarrow> timespec res" where
  "timespec_addms ts ms = timespec_add_units MSEC_PER_SEC NSEC_PER_MSEC ts ms"

definition timespec_addmicros :: "timespec \<Rightarrow> int \<Rightarrow> timespec res" where
  "timespec_addmicros ts micro = timespec_add_units USEC_PER_SEC NSEC_PER_USEC ts micro"

definition timespec_addns :: "timespec \<Rightarrow> int \<Rightarrow> timespec res" where
  "timespec_addns ts ns = timespec_add_units NSEC_PER_SEC 1 ts ns"

text \<open>
  \<^verbatim>\<open>__iter_div_u64_rem\<close> divides by repeated subtraction and does not return for a
  zero divisor; the quotient is a \<^verbatim>\<open>uint32_t\<close> and wraps.
\<close>

partial_function (option) iter_div_loop :: "u64 \<Rightarrow> u64 \<Rightarrow> u32 \<Rightarrow> (u32 \<times> u64) option" where
  "iter_div_loop dividend divisor ret =
     (if dividend \<ge> divisor then iter_div_loop (dividend - divisor) divisor (ret + 1)
      else Some (ret, dividend))"

definition iter_div_u64_rem :: "u64 \<Rightarrow> u32 \<Rightarrow> (u32 \<times> u64) option" where
  "iter_div_u64_rem dividend divisor = iter_div_loop dividend (ucast divisor) 0"

definition timespec_add_ns :: "timespec \<Rightarrow> u64 \<Rightarrow> timespec res option" where
  "timespec_add_ns a ns =
     map_option (\<lambda>(q, r). r_bind (chk64 (tv_sec a + uint q)) (\<lambda>s.
         Inr \<lparr>tv_sec = s, tv_nsec = to_i64 (uint r)\<rparr>))
       (iter_div_u64_rem (word_of_int (tv_nsec a) + ns) (word_of_int NSEC_PER_SEC))"

definition ns_to_timespecme :: "timespec \<Rightarrow> u64 \<Rightarrow> timespec res option" where
  "ns_to_timespecme a ns =
     (let a = a\<lparr>tv_sec := 0\<rparr>; a = a\<lparr>tv_sec := 0\<rparr> in
      map_option (\<lambda>(q, r). r_bind (chk64 (tv_sec a + uint q)) (\<lambda>s.
          Inr \<lparr>tv_sec = s, tv_nsec = to_i64 (uint r)\<rparr>))
        (iter_div_u64_rem (word_of_int (tv_nsec a) + ns) (word_of_int NSEC_PER_SEC)))"

section \<open>Lemmas on the value of a timespec\<close>

lemmas ts_defs = ts_ns_def ts_norm_def ts_clock_def

lemma ts_clock_ns: "ts_clock t \<Longrightarrow> 0 \<le> ts_ns t \<and> ts_ns t < 2 ^ 63"
  by (auto simp: ts_defs)

lemma ts_eqI: "tv_sec a = tv_sec b \<Longrightarrow> tv_nsec a = tv_nsec b \<Longrightarrow> a = (b :: timespec)"
  by simp

text \<open>A normalised timespec is determined by its value: the order of values is lexicographic.\<close>

lemma ts_norm_ns_less:
  assumes "ts_norm a" "ts_norm b"
  shows "ts_ns a < ts_ns b \<longleftrightarrow>
    tv_sec a < tv_sec b \<or> (tv_sec a = tv_sec b \<and> tv_nsec a < tv_nsec b)"
  using assms unfolding ts_ns_def ts_norm_def by auto

lemma timespec_to_ns_clock: "ts_clock t \<Longrightarrow> timespec_to_ns t = Inr (ts_ns t)"
  by (auto simp: timespec_to_ns_def ts_defs in_i64_def)

text \<open>The subtraction of two clock readings borrows at most once and keeps the value.\<close>

lemma timespec_subtract_value:
  assumes "ts_clock a" "ts_clock b"
  shows "r_ok (\<lambda>r. ts_norm r \<and> ts_ns r = ts_ns a - ts_ns b) (timespec_subtract a b)"
  using assms by (auto simp: timespec_subtract_def ts_defs in_i64_def)

lemma timespec_subtract_clock:
  assumes "ts_clock a" "ts_clock b" "timespec_subtract a b = Inr d"
  shows "timespec_to_ns d = Inr (ts_ns a - ts_ns b)"
  using assms
  by (auto simp: timespec_subtract_def timespec_to_ns_def ts_defs in_i64_def
      chk64_def r_bind_eq_Inr split: if_splits)

lemma nanosec_timeout_value:
  assumes "ts_clock stamp" "ts_clock cur"
  shows "nanosec_timeout stamp cur timeout =
    Inr ((word_of_int (ts_ns cur - ts_ns stamp) :: u64) \<ge> timeout)"
proof -
  obtain d where d: "timespec_subtract cur stamp = Inr d"
    using timespec_subtract_value [OF assms(2,1)] by (auto simp: r_ok_iff)
  show ?thesis
    by (simp add: nanosec_timeout_def d timespec_subtract_clock [OF assms(2,1) d])
qed

text \<open>
  The division loop: every pass takes one divisor off, so the quotient and the remainder
  of the whole are those of the rest, and a non-zero divisor ends it.
\<close>

lemma iter_div_loop_pos:
  assumes "0 < v"
  shows "iter_div_loop d v r = Some (r + word_of_nat (unat d div unat v), d mod v)"
proof (induction "unat d" arbitrary: d r rule: less_induct)
  case less
  have v: "0 < unat v" using assms by (simp add: unat_gt_0)
  show ?case
  proof (cases "v \<le> d")
    case True
    then have u: "unat (d - v) = unat d - unat v" and le: "unat v \<le> unat d"
      by (simp_all add: unat_sub word_le_nat_alt)
    have "unat (d - v) < unat d" using u v le by linarith
    from less [OF this, of "r + 1"] True
    have "iter_div_loop d v r =
        Some (r + 1 + word_of_nat (unat (d - v) div unat v), (d - v) mod v)"
      by (simp add: iter_div_loop.simps [of d])
    moreover have "unat d div unat v = Suc (unat (d - v) div unat v)"
      using u le v by (simp add: le_div_geq)
    moreover have "(d - v) mod v = d mod v"
      using u le v by (simp add: word_unat_eq_iff unat_mod_distrib le_mod_geq [of "unat v"])
    ultimately show ?thesis by (simp add: algebra_simps)
  next
    case False
    then have lt: "unat d < unat v" by (simp add: word_less_nat_alt not_le)
    then have "d mod v = d" by (simp add: word_unat_eq_iff unat_mod_distrib)
    with False lt show ?thesis by (simp add: iter_div_loop.simps [of d])
  qed
qed

lemma iter_div_u64_rem_pos:
  assumes "v \<noteq> 0"
  shows "iter_div_u64_rem d v = Some (word_of_nat (unat d div unat v), d mod ucast v)"
proof -
  have "0 < unat (ucast v :: u64)" using assms by (simp add: unat_gt_0)
  then have "0 < (ucast v :: u64)" by (simp add: word_less_nat_alt)
  then show ?thesis by (simp add: iter_div_u64_rem_def iter_div_loop_pos)
qed

text \<open>A zero divisor never ends it: subtracting nothing makes no progress.\<close>

lemma iter_div_loop_zero: "iter_div_loop d 0 r = None"
proof (rule ccontr)
  assume "iter_div_loop d 0 r \<noteq> None"
  then obtain y where y: "iter_div_loop d 0 r = Some y" by blast
  have "v = 0 \<Longrightarrow> False" if "iter_div_loop d v r = Some y" for d v r
    by (rule iter_div_loop.raw_induct [where P = "\<lambda>d v r y. v = 0 \<longrightarrow> False",
        OF _ that, THEN mp]) (auto split: if_splits)
  with y show False by blast
qed

text \<open>The three additions keep the value; the result is normalised when the amount is not negative.\<close>

lemma timespec_add_units_value:
  assumes unit: "0 < per_sec" "0 < to_ns" "per_sec * to_ns = NSEC_PER_SEC"
    and ts: "ts_norm ts" "\<bar>tv_sec ts\<bar> < 2 ^ 62"
    and x: "in_i64 x" "in_i32 (x sdiv per_sec)"
  shows "r_ok (\<lambda>r. ts_ns r = ts_ns ts + x * to_ns \<and> (0 \<le> x \<longrightarrow> ts_norm r))
    (timespec_add_units per_sec to_ns ts x)"
proof -
  define q m where "q = x sdiv per_sec" and "m = x smod per_sec"
  have x_eq: "x - q * per_sec = m"
    using sdiv_mult_smod_eq [of x per_sec] by (simp add: q_def m_def)
  have m: "\<bar>m\<bar> < per_sec" "0 \<le> x \<Longrightarrow> 0 \<le> m"
    using smod_int_range [of per_sec x] smod_int_compares(2) [of x per_sec] unit(1)
    by (auto simp: m_def)
  have le: "per_sec \<le> NSEC_PER_SEC"
    using unit mult_left_mono [of 1 to_ns per_sec] by simp
  have "\<bar>m * to_ns\<bar> < per_sec * to_ns"
    using m(1) unit(2) by (simp add: abs_mult)
  then have d: "\<bar>m * to_ns\<bar> < NSEC_PER_SEC" using unit(3) by simp
  define ns where "ns = tv_nsec ts + m * to_ns"
  have ns: "\<bar>ns\<bar> < 2 * NSEC_PER_SEC" "0 \<le> x \<Longrightarrow> 0 \<le> ns"
    using d ts(1) m(2) unit(2) by (auto simp: ns_def ts_norm_def)
  have carry: "\<bar>ns sdiv NSEC_PER_SEC\<bar> \<le> 1"
    using ns(1) by (auto simp: signed_divide_int_def sgn_if)
  have parts: "ns sdiv NSEC_PER_SEC * NSEC_PER_SEC + ns smod NSEC_PER_SEC = ns"
    by (rule sdiv_mult_smod_eq)
  have ranges: "in_i64 m" "in_i64 (m * to_ns)" "in_i64 ns"
    "in_i64 (tv_sec ts + (ns sdiv NSEC_PER_SEC + q))"
    using m(1) le d ns(1) carry ts(2) x(2) by (auto simp: range_simps q_def)
  have eq: "timespec_add_units per_sec to_ns ts x =
      Inr \<lparr>tv_sec = tv_sec ts + (ns sdiv NSEC_PER_SEC + q), tv_nsec = ns smod NSEC_PER_SEC\<rparr>"
    using ranges x(2) by (simp add: timespec_add_units_def q_def [symmetric] x_eq ns_def [symmetric])
  have "x * to_ns = (q * per_sec + m) * to_ns" using x_eq by simp
  also have "\<dots> = q * NSEC_PER_SEC + m * to_ns" by (simp add: distrib_right unit(3) [symmetric])
  finally have "x * to_ns = q * NSEC_PER_SEC + m * to_ns" .
  with parts have val: "ts_ns \<lparr>tv_sec = tv_sec ts + (ns sdiv NSEC_PER_SEC + q),
      tv_nsec = ns smod NSEC_PER_SEC\<rparr> = ts_ns ts + x * to_ns"
    by (simp add: ts_ns_def ns_def)
  have "0 \<le> x \<longrightarrow> 0 \<le> ns smod NSEC_PER_SEC \<and> ns smod NSEC_PER_SEC < NSEC_PER_SEC"
    using ns(2) smod_int_compares(1,2) [of ns NSEC_PER_SEC] by simp
  with eq val show ?thesis by (simp add: ts_norm_def)
qed

section \<open>Properties\<close>

text \<open>
  C37 (functional): between two readings of a clock, the test of the polling loop is true
  exactly when the elapsed time reached the delay; when the second reading is earlier,
  the negative difference is converted to \<^verbatim>\<open>uint64_t\<close> and counts as nearly \<open>2\<^sup>6\<^sup>4\<close>
  nanoseconds, so every delay up to \<open>2\<^sup>6\<^sup>3\<close> has passed. No addition overflows.
\<close>

theorem nanosec_timeout_elapsed:
  assumes "ts_clock stamp" and "ts_clock cur"
  shows "nanosec_timeout stamp cur timeout =
    Inr (uint timeout \<le> (if ts_ns stamp \<le> ts_ns cur then ts_ns cur - ts_ns stamp
                          else 2 ^ 64 - (ts_ns stamp - ts_ns cur)))"
proof -
  let ?d = "ts_ns cur - ts_ns stamp"
  have r: "\<bar>?d\<bar> < 2 ^ 63" using ts_clock_ns [OF assms(1)] ts_clock_ns [OF assms(2)] by auto
  have "uint (word_of_int ?d :: u64) = (if 0 \<le> ?d then ?d else 2 ^ 64 + ?d)"
  proof (cases "0 \<le> ?d")
    case True
    with r show ?thesis by (subst uint_word_of_int64) auto
  next
    case False
    have "?d mod 2 ^ 64 = (2 ^ 64 + ?d) mod 2 ^ 64" by simp
    also have "\<dots> = 2 ^ 64 + ?d" using False r by (intro mod_pos_pos_trivial) auto
    finally show ?thesis using False by (subst uint_word_of_int) simp
  qed
  then show ?thesis
    by (auto simp: nanosec_timeout_value [OF assms] word_le_def)
qed

theorem nanosec_timeout_elapsed_witness:
  "nanosec_timeout \<lparr>tv_sec = 1, tv_nsec = 999999999\<rparr> \<lparr>tv_sec = 2, tv_nsec = 4\<rparr> 5 = Inr True"
  using nanosec_timeout_elapsed [of "\<lparr>tv_sec = 1, tv_nsec = 999999999\<rparr>"
      "\<lparr>tv_sec = 2, tv_nsec = 4\<rparr>" 5]
  by (simp add: ts_defs)

text \<open>
  The repeated subtraction of \<^verbatim>\<open>__iter_div_u64_rem\<close> is division
  with remainder, the quotient wrapped to 32 bits, for every non-zero divisor, and does not
  return for a zero divisor.
\<close>

theorem iter_div_u64_rem_correct:
  "iter_div_u64_rem d v =
     (if v = 0 then None
      else Some (word_of_nat (unat d div unat v), d mod ucast v))"
proof (cases "v = 0")
  case True
  then show ?thesis by (simp add: iter_div_u64_rem_def iter_div_loop_zero)
next
  case False
  then show ?thesis by (simp add: iter_div_u64_rem_pos)
qed

text \<open>
  Adding milliseconds to a normalised time keeps the value for every
  amount whose seconds fit an \<^verbatim>\<open>int\<close>, negative ones included, without overflow;
  the result is normalised again when the amount is not negative.
\<close>

theorem timespec_addms_value:
  assumes "ts_norm ts" and "\<bar>tv_sec ts\<bar> < 2 ^ 62" and "\<bar>ms\<bar> < 2147483648000"
  shows "r_ok (\<lambda>r. ts_ns r = ts_ns ts + ms * NSEC_PER_MSEC \<and> (0 \<le> ms \<longrightarrow> ts_norm r))
    (timespec_addms ts ms)"
proof -
  have "\<bar>ms sdiv 1000\<bar> < 2147483648"
    using assms(3) by (auto simp: signed_divide_int_def sgn_if)
  with assms show ?thesis
    unfolding timespec_addms_def
    by (intro timespec_add_units_value) (auto simp: range_simps)
qed

theorem timespec_addms_value_witness:
  "r_ok (\<lambda>r. ts_ns r = 5999 * NSEC_PER_MSEC + 7 \<and> ts_norm r)
     (timespec_addms \<lparr>tv_sec = 4, tv_nsec = 999000007\<rparr> 1000)"
  using timespec_addms_value [of "\<lparr>tv_sec = 4, tv_nsec = 999000007\<rparr>" 1000]
  by (simp add: ts_defs)

text \<open>
  \<^verbatim>\<open>timespec_compare\<close> on normalised times has the sign of the
  difference of their values, as its comment promises; the conversion of the difference
  to \<^verbatim>\<open>int\<close> loses nothing.
\<close>

theorem timespec_compare_sign:
  assumes "ts_norm a" and "ts_norm b"
  shows "r_ok (\<lambda>c. (c < 0 \<longleftrightarrow> ts_ns a < ts_ns b) \<and> (c = 0 \<longleftrightarrow> a = b) \<and> (c > 0 \<longleftrightarrow> ts_ns b < ts_ns a))
    (timespec_compare a b)"
proof -
  have "in_i32 (tv_nsec a - tv_nsec b)" using assms by (auto simp: ts_norm_def in_i32_def)
  then have "timespec_compare a b = Inr (if tv_sec a < tv_sec b then - 1
      else if tv_sec a > tv_sec b then 1 else tv_nsec a - tv_nsec b)"
    by (simp add: timespec_compare_def in_i32_in_i64)
  then show ?thesis
    by (auto simp: ts_norm_ns_less [OF assms] ts_norm_ns_less [OF assms(2,1)])
qed

theorem timespec_compare_sign_witness:
  "r_ok (\<lambda>c. c < 0) (timespec_compare \<lparr>tv_sec = 4, tv_nsec = 1\<rparr> \<lparr>tv_sec = 4, tv_nsec = 2\<rparr>)"
  using timespec_compare_sign [of "\<lparr>tv_sec = 4, tv_nsec = 1\<rparr>" "\<lparr>tv_sec = 4, tv_nsec = 2\<rparr>"]
  by (auto simp: ts_defs r_ok_iff)

text \<open>
  \<^verbatim>\<open>margin_cmp\<close> tests \<open>\<bar>v - ref\<bar> < margin\<close> wherever the
  subtraction and the addition do not wrap; the comment in \<^verbatim>\<open>timespec.h\<close> gives the
  closed interval instead. Where \<open>v > ref\<close> and \<open>margin > v\<close> the subtraction wraps and the
  answer is false although \<open>v\<close> lies within the margin.
\<close>

theorem margin_cmp_cases:
  "margin_cmp v ref margin \<longleftrightarrow>
     (if ref < v then margin \<le> v \<and> uint v - uint ref < uint margin
      else uint v + uint margin < 2 ^ 64 \<and> uint ref - uint v < uint margin)"
proof (cases "ref < v")
  case True
  have "v - margin < ref \<longleftrightarrow> margin \<le> v \<and> uint v - uint ref < uint margin"
    using True unsigned_less [of margin, where 'a = int] unsigned_less [of v, where 'a = int]
    by (auto simp: word_less_def word_le_def uint_sub_if')
  with True show ?thesis by (simp add: margin_cmp_def)
next
  case False
  then have "v + margin > ref \<longleftrightarrow>
      uint v + uint margin < 2 ^ 64 \<and> uint ref - uint v < uint margin"
    using unsigned_less [of margin, where 'a = int] by (auto simp: word_less_def word_le_def uint_plus_if')
  with False show ?thesis by (simp add: margin_cmp_def)
qed

text \<open>
  \<^verbatim>\<open>timespec_add_ns\<close> adds any 64-bit amount that does not wrap its
  sum with the nanoseconds and whose quotient fits the 32-bit counter of the division
  loop; the result is normalised whatever the nanoseconds were.
\<close>

theorem timespec_add_ns_value:
  assumes "0 \<le> tv_nsec a" and "tv_nsec a + uint ns < 4294967296 * NSEC_PER_SEC"
    and "\<bar>tv_sec a\<bar> < 2 ^ 62"
  shows "\<exists>r. timespec_add_ns a ns = Some (Inr r) \<and> ts_norm r \<and> ts_ns r = ts_ns a + uint ns"
proof -
  define t where "t = tv_nsec a + uint ns"
  define w :: u64 where "w = word_of_int (tv_nsec a) + ns"
  have "0 \<le> t" "t < 2 ^ 64" using assms by (auto simp: t_def)
  moreover have "w = word_of_int t" by (simp add: w_def t_def)
  ultimately have w: "uint w = t" by (simp only: uint_word_of_int64)
  have q: "t div NSEC_PER_SEC < 4294967296" "0 \<le> t div NSEC_PER_SEC"
    using assms(2) \<open>0 \<le> t\<close> by (auto simp: t_def)
  have "unat w div 1000000000 = nat (t div NSEC_PER_SEC)"
    using w \<open>0 \<le> t\<close> by (simp add: unat_eq_nat_uint nat_div_distrib)
  then have "uint (word_of_nat (unat w div 1000000000) :: u32) = t div NSEC_PER_SEC"
    using q by (simp add: uint_word_of_int32)
  moreover have "uint (w mod 1000000000) = t mod NSEC_PER_SEC"
    using w by (simp add: uint_mod_distrib)
  moreover have "iter_div_u64_rem w 1000000000 =
      Some (word_of_nat (unat w div 1000000000), w mod 1000000000)"
    by (simp add: iter_div_u64_rem_pos)
  moreover have "in_i64 (tv_sec a + t div NSEC_PER_SEC)" "in_i64 (t mod NSEC_PER_SEC)"
    using q assms(3) by (auto simp: range_simps)
  ultimately have "timespec_add_ns a ns =
      Some (Inr \<lparr>tv_sec = tv_sec a + t div NSEC_PER_SEC, tv_nsec = t mod NSEC_PER_SEC\<rparr>)"
    by (simp add: timespec_add_ns_def w_def)
  then show ?thesis by (simp add: ts_defs t_def)
qed

theorem timespec_add_ns_value_witness:
  "\<exists>r. timespec_add_ns \<lparr>tv_sec = 1, tv_nsec = 999999999\<rparr> 3000000002 = Some (Inr r) \<and>
     ts_norm r \<and> ts_ns r = 5 * NSEC_PER_SEC + 1"
  using timespec_add_ns_value [of "\<lparr>tv_sec = 1, tv_nsec = 999999999\<rparr>" 3000000002]
  by (simp add: ts_defs)

text \<open>
  \<^verbatim>\<open>ns_to_timespecme\<close> clears
  \<^verbatim>\<open>tv_sec\<close> twice and never \<^verbatim>\<open>tv_nsec\<close>, so it adds the amount to whatever
  nanoseconds the target held: its result is that of \<^verbatim>\<open>timespec_add_ns\<close> on a
  time of zero seconds and the old nanoseconds, not the conversion of its argument.
\<close>

theorem ns_to_timespecme_keeps_nsec:
  "ns_to_timespecme a ns = timespec_add_ns (a\<lparr>tv_sec := 0\<rparr>) ns \<and>
   ns_to_timespecme \<lparr>tv_sec = 7, tv_nsec = 999999999\<rparr> 1 = Some (Inr \<lparr>tv_sec = 1, tv_nsec = 0\<rparr>)"
proof
  show "ns_to_timespecme a ns = timespec_add_ns (a\<lparr>tv_sec := 0\<rparr>) ns"
    by (simp add: ns_to_timespecme_def timespec_add_ns_def Let_def)
  show "ns_to_timespecme \<lparr>tv_sec = 7, tv_nsec = 999999999\<rparr> 1 = Some (Inr \<lparr>tv_sec = 1, tv_nsec = 0\<rparr>)"
    by (simp add: ns_to_timespecme_def Let_def iter_div_u64_rem_pos in_i64_def)
qed

end
