(* ===== verification/C_Lib.thy ===== *)
theory C_Lib
  imports Prelude
begin

text \<open>
  The part of the C standard library that the program's own functions call, on byte
  strings (\<open>char\<close> is a byte, a \<open>string\<close> a sequence of bytes). A pointer into a buffer is
  the rest of the buffer from there to the end of its allocation; a function that looks at
  a byte past that end reads out of bounds.
\<close>

section \<open>Bytes\<close>

abbreviation NUL :: char where "NUL \<equiv> CHR 0x00"

definition byte :: "char \<Rightarrow> nat" where
  "byte c = of_char c"

lemma byte_less [simp]: "byte c < 256"
  using mod_less_divisor [of 256 "byte c"] unfolding byte_def by (simp only: of_char_mod_256)

lemma byte_char_of [simp]: "n < 256 \<Longrightarrow> byte (char_of n) = n"
  by (simp add: byte_def)

lemma byte_inj: "byte c = byte d \<longleftrightarrow> c = d"
  by (simp add: byte_def)

definition isdigit :: "char \<Rightarrow> bool" where
  "isdigit c \<longleftrightarrow> 48 \<le> byte c \<and> byte c \<le> 57"

definition isspace :: "char \<Rightarrow> bool" where
  "isspace c \<longleftrightarrow> byte c = 32 \<or> (9 \<le> byte c \<and> byte c \<le> 13)"

definition toupper :: "char \<Rightarrow> char" where
  "toupper c = (if 97 \<le> byte c \<and> byte c \<le> 122 then char_of (byte c - 32) else c)"

definition digit_val :: "char \<Rightarrow> nat" where
  "digit_val c = byte c - 48"

section \<open>C strings\<close>

text \<open>The C string at a pointer: the bytes up to the first NUL.\<close>

definition cstr :: "string \<Rightarrow> string" where
  "cstr s = takeWhile (\<lambda>c. c \<noteq> NUL) s"

definition no_nul :: "string \<Rightarrow> bool" where
  "no_nul s \<longleftrightarrow> (\<forall>c\<in>set s. c \<noteq> NUL)"

lemma cstr_no_nul [simp]: "no_nul s \<Longrightarrow> cstr s = s"
  by (simp add: cstr_def no_nul_def takeWhile_eq_all_conv)

lemma cstr_terminated [simp]: "no_nul s \<Longrightarrow> cstr (s @ NUL # t) = s"
  by (auto simp: cstr_def no_nul_def)

lemma cstr_append: "no_nul s \<Longrightarrow> cstr (s @ t) = s @ cstr t"
  by (simp add: cstr_def no_nul_def)

lemma no_nul_cstr [simp]: "no_nul (cstr s)"
  by (auto simp: cstr_def no_nul_def dest: set_takeWhileD)

lemma no_nul_simps [simp]:
  "no_nul []" "no_nul (c # s) \<longleftrightarrow> c \<noteq> NUL \<and> no_nul s" "no_nul (s @ t) \<longleftrightarrow> no_nul s \<and> no_nul t"
  by (auto simp: no_nul_def)

text \<open>\<^verbatim>\<open>strrchr\<close>: the suffix from the last occurrence of a byte.\<close>

fun strrchr :: "string \<Rightarrow> char \<Rightarrow> string option" where
  "strrchr [] c = None"
| "strrchr (x # xs) c = (case strrchr xs c of Some r \<Rightarrow> Some r
     | None \<Rightarrow> if x = c then Some (x # xs) else None)"

text \<open>\<^verbatim>\<open>strncmp(a, b, n) == 0\<close> on C strings.\<close>

definition strncmp_eq :: "string \<Rightarrow> string \<Rightarrow> nat \<Rightarrow> bool" where
  "strncmp_eq a b n \<longleftrightarrow> take n (cstr a) = take n (cstr b)"

text \<open>
  \<^verbatim>\<open>strtok\<close>: skip the delimiters, take the bytes up to the next delimiter; the rest
  starts after that delimiter. \<open>None\<close> is the null pointer.
\<close>

definition strtok :: "string \<Rightarrow> string \<Rightarrow> (string \<times> string) option" where
  "strtok s delim =
     (let s1 = dropWhile (\<lambda>c. c \<in> set delim) s in
      if s1 = [] then None
      else Some (takeWhile (\<lambda>c. c \<notin> set delim) s1, drop 1 (dropWhile (\<lambda>c. c \<notin> set delim) s1)))"

lemma strtok_rest_shorter: "strtok s d = Some (t, r) \<Longrightarrow> length r < length s"
proof -
  assume a: "strtok s d = Some (t, r)"
  define s1 where "s1 = dropWhile (\<lambda>c. c \<in> set d) s"
  from a have "s1 \<noteq> []" and r: "r = drop 1 (dropWhile (\<lambda>c. c \<notin> set d) s1)"
    by (auto simp: strtok_def s1_def Let_def split: if_splits)
  moreover have "length s1 \<le> length s" by (simp add: s1_def length_dropWhile_le)
  moreover have "length (dropWhile (\<lambda>c. c \<notin> set d) s1) \<le> length s1"
    by (rule length_dropWhile_le)
  ultimately show ?thesis by (cases s1) auto
qed

section \<open>Decimal numbers\<close>

definition dec_val :: "string \<Rightarrow> nat" where
  "dec_val ds = foldl (\<lambda>a d. 10 * a + digit_val d) 0 ds"

fun show_nat :: "nat \<Rightarrow> string" where
  "show_nat n = (if n < 10 then [char_of (48 + n)]
                 else show_nat (n div 10) @ [char_of (48 + n mod 10)])"

declare show_nat.simps [simp del]

text \<open>\<^verbatim>\<open>%lld\<close>, \<^verbatim>\<open>%lli\<close>, \<^verbatim>\<open>%d\<close> and \<^verbatim>\<open>%i\<close> of printf.\<close>

definition show_int :: "int \<Rightarrow> string" where
  "show_int i = (if i < 0 then CHR ''-'' # show_nat (nat (- i)) else show_nat (nat i))"

lemma dec_val_snoc: "dec_val (ds @ [d]) = 10 * dec_val ds + digit_val d"
  by (simp add: dec_val_def)

lemma digit_char:
  "n < 10 \<Longrightarrow> isdigit (char_of (48 + n))"
  "n < 10 \<Longrightarrow> digit_val (char_of (48 + n)) = n"
  by (simp_all add: isdigit_def digit_val_def)

lemma show_nat_digits: "\<forall>d\<in>set (show_nat n). isdigit d"
proof (induction n rule: show_nat.induct)
  case (1 n)
  then show ?case
    by (subst show_nat.simps) (auto intro!: digit_char(1))
qed

lemma dec_val_show_nat [simp]: "dec_val (show_nat n) = n"
proof (induction n rule: show_nat.induct)
  case (1 n)
  show ?case
  proof (cases "n < 10")
    case True
    then show ?thesis
      by (subst show_nat.simps) (simp add: dec_val_def digit_char(2))
  next
    case False
    with 1 show ?thesis
      by (subst show_nat.simps) (simp add: dec_val_snoc digit_char(2))
  qed
qed

lemma show_nat_not_Nil [simp]: "show_nat n \<noteq> []"
  by (subst show_nat.simps) simp

lemma isdigit_not:
  "isdigit c \<Longrightarrow> c \<noteq> NUL \<and> c \<noteq> CHR '':'' \<and> c \<noteq> CHR ''e'' \<and> c \<noteq> CHR ''-'' \<and> c \<noteq> CHR ''+''
    \<and> \<not> isspace c \<and> c \<noteq> CHR ''i'' \<and> c \<noteq> CHR ''l'' \<and> c \<noteq> CHR ''d'' \<and> c \<noteq> CHR '',''"
  by (auto simp: isdigit_def isspace_def byte_def)

lemma no_nul_show_nat [simp]: "no_nul (show_nat n)"
  using show_nat_digits [of n] isdigit_not by (auto simp: no_nul_def)

lemma no_nul_show_int [simp]: "no_nul (show_int i)"
  by (simp add: show_int_def)

text \<open>
  \<^verbatim>\<open>strtoll(p, &endp, 10)\<close>: skip white space, an optional sign, the digits; the value
  saturates; without digits the value is 0 and nothing is consumed. It looks at one byte
  past the digits, which has to be inside of the allocation.
\<close>

definition clamp64 :: "int \<Rightarrow> int" where
  "clamp64 x = max (- (2 ^ 63)) (min (2 ^ 63 - 1) x)"

definition strtoll :: "string \<Rightarrow> (int \<times> string) res" where
  "strtoll s =
     (case dropWhile isspace s of
        [] \<Rightarrow> Inl OutOfBounds
      | c # cs \<Rightarrow>
          (let s2 = (if c = CHR ''-'' \<or> c = CHR ''+'' then cs else c # cs);
               ds = takeWhile isdigit s2; s3 = dropWhile isdigit s2 in
           if s3 = [] then Inl OutOfBounds
           else if ds = [] then Inr (0, s)
           else Inr (clamp64 ((if c = CHR ''-'' then - 1 else 1) * int (dec_val ds)), s3)))"

text \<open>\<^verbatim>\<open>atoi\<close> on a C string: as \<^verbatim>\<open>strtoll\<close>, narrowed to \<^verbatim>\<open>int\<close>.\<close>

definition atoi :: "string \<Rightarrow> int" where
  "atoi s = (case strtoll (cstr s @ [NUL]) of Inl e \<Rightarrow> 0 | Inr (v, r) \<Rightarrow> to_i32 v)"

lemma strtoll_rest_le: "strtoll s = Inr (v, r) \<Longrightarrow> length r \<le> length s"
proof (cases "dropWhile isspace s")
  case (Cons c cs)
  assume r: "strtoll s = Inr (v, r)"
  have "length (c # cs) \<le> length s" using Cons length_dropWhile_le [of isspace s] by simp
  moreover have "length (dropWhile isdigit xs) \<le> length xs" for xs
    by (rule length_dropWhile_le)
  ultimately have "length (dropWhile isdigit cs) \<le> length s" "length (dropWhile isdigit (c # cs)) \<le> length s"
    by (fastforce intro: order_trans)+
  with r Cons show ?thesis
    by (auto simp: strtoll_def Let_def split: if_splits)
qed (simp add: strtoll_def)

text \<open>A leading digit makes it consume at least that digit.\<close>

lemma strtoll_digit:
  assumes "isdigit c" "strtoll (c # cs) = Inr (v, r)"
  shows "length r < length (c # cs)"
  using assms isdigit_not [OF assms(1)] length_dropWhile_le [of isdigit cs]
  by (auto simp: strtoll_def Let_def split: if_splits)

lemma strtoll_show_nat:
  assumes "int n < 2 ^ 63" "\<not> isdigit c"
  shows "strtoll (show_nat n @ c # rest) = Inr (int n, c # rest)"
proof -
  obtain d ds where s: "show_nat n = d # ds" by (cases "show_nat n") auto
  then have dig: "isdigit d" "\<forall>x\<in>set ds. isdigit x" using show_nat_digits [of n] by auto
  have v: "dec_val (d # ds) = n" by (simp flip: s)
  show ?thesis
    using dig isdigit_not [OF dig(1)] assms
    by (simp add: strtoll_def s v clamp64_def)
qed

lemma strtoll_show_int:
  assumes "in_i64 i" "\<not> isdigit c"
  shows "strtoll (show_int i @ c # rest) = Inr (i, c # rest)"
proof (cases "i < 0")
  case False
  with assms strtoll_show_nat [of "nat i" c rest] show ?thesis
    by (simp add: show_int_def in_i64_def)
next
  case True
  have "\<forall>x\<in>set (show_nat (nat (- i))). isdigit x" by (rule show_nat_digits)
  with True assms show ?thesis
    by (simp add: show_int_def strtoll_def isspace_def byte_def clamp64_def in_i64_def)
qed

section \<open>Writing to a buffer\<close>

text \<open>
  A buffer of bytes is a string of the length of its allocation. \<open>mem_store\<close> writes bytes
  at a position; a byte outside of the allocation is a fault.
\<close>

definition mem_store :: "string \<Rightarrow> nat \<Rightarrow> string \<Rightarrow> string res" where
  "mem_store mem p bs =
     (if p + length bs \<le> length mem then Inr (take p mem @ bs @ drop (p + length bs) mem)
      else Inl OutOfBounds)"

text \<open>
  \<^verbatim>\<open>snprintf(mem + p, n, ...)\<close> with the text that the format describes: at most
  \<open>n - 1\<close> bytes and a terminating NUL. The size is a \<^verbatim>\<open>size_t\<close>: a negative
  argument is converted to a huge one.
\<close>

definition snprintf_at :: "string \<Rightarrow> nat \<Rightarrow> int \<Rightarrow> string \<Rightarrow> string res" where
  "snprintf_at mem p n txt =
     (let k = nat (n mod 2 ^ 64) in
      if k = 0 then Inr mem else mem_store mem p (take (k - 1) txt @ [NUL]))"

definition strlen_at :: "string \<Rightarrow> nat \<Rightarrow> nat res" where
  "strlen_at mem p =
     (if NUL \<in> set (drop p mem) then Inr (length (cstr (drop p mem))) else Inl OutOfBounds)"

lemma mem_store_ok:
  "p + length bs \<le> length mem \<Longrightarrow>
   mem_store mem p bs = Inr (take p mem @ bs @ drop (p + length bs) mem)"
  by (simp add: mem_store_def)

end
