(* ===== verification/Bencode.thy ===== *)
theory Bencode
  imports C_Lib
begin

text \<open>
  \<^verbatim>\<open>src/bencode/bencode.c\<close>, the reader and the constructors: the node type, the
  recursive-descent decoder over a byte buffer with its running length, the functions
  that build nodes, and the dump of a node as text.

  The decoder keeps a pointer into the buffer and a signed count of the bytes left. The
  model keeps the rest of the allocation (the pointer) and the count separately, as the
  code does, since the code tests the count only at the start of an item: reading past the
  end of the allocation is the fault \<open>OutOfBounds\<close>. A null result is \<open>None\<close>. Allocation is
  taken to succeed.
\<close>

section \<open>Nodes\<close>

text \<open>
  \<^verbatim>\<open>struct be_node\<close>, a tagged union. A string carries its length, so it may hold any
  byte; its pointer may be null (\<open>None\<close>). A dictionary keeps its pairs in order.
\<close>

datatype be_node =
    BE_STR "string option"
  | BE_INT int
  | BE_LIST "be_node list"
  | BE_DICT "(string \<times> be_node) list"

definition be_str_len :: "string option \<Rightarrow> nat" where
  "be_str_len s = (case s of None \<Rightarrow> 0 | Some t \<Rightarrow> length t)"

section \<open>Decoding\<close>

definition be_decode_int :: "string \<Rightarrow> int \<Rightarrow> (int \<times> string \<times> int) res" where
  "be_decode_int data data_len =
     r_bind (strtoll data) (\<lambda>(ret, endp).
       Inr (ret, endp, data_len - (int (length data) - int (length endp))))"

definition be_decode_str :: "string \<Rightarrow> int \<Rightarrow> (string option \<times> string \<times> int) res" where
  "be_decode_str data data_len =
     r_bind (be_decode_int data data_len) (\<lambda>(sllen, data, data_len).
       if sllen < 0 then Inr (None, data, data_len)
       else if sllen > data_len - 1 then Inr (None, data, data_len)
       else case data of
           [] \<Rightarrow> Inl OutOfBounds
         | c # rest \<Rightarrow>
             if c = CHR '':'' then
               (let len = nat sllen in
                if length rest < len then Inl OutOfBounds
                else Inr (Some (take len rest), drop len rest, data_len - (sllen + 1)))
             else Inr (None, data, data_len))"

text \<open>
  \<^verbatim>\<open>_be_decode\<close> and its two loops, over lists and over dictionaries. The first
  argument bounds the depth of calls; \<open>be_decoden\<close> passes a bound that is always enough.
  A loop that meets a null item gives up with a null result. The dictionary loop decodes
  the value even when the key was null, and only then looks at both.
\<close>

fun be_decode_node :: "nat \<Rightarrow> string \<Rightarrow> int \<Rightarrow> (be_node option \<times> string \<times> int) res"
and be_decode_list :: "nat \<Rightarrow> string \<Rightarrow> int \<Rightarrow> (be_node list option \<times> string \<times> int) res"
and be_decode_dict :: "nat \<Rightarrow> string \<Rightarrow> int \<Rightarrow> ((string \<times> be_node) list option \<times> string \<times> int) res"
where
  "be_decode_node 0 data data_len = Inl OutOfFuel"
| "be_decode_node (Suc fuel) data data_len =
     (if data_len = 0 then Inr (None, data, data_len)
      else case data of
          [] \<Rightarrow> Inl OutOfBounds
        | c # rest \<Rightarrow>
            if c = CHR ''l'' then
              r_bind (be_decode_list fuel rest (data_len - 1)) (\<lambda>(l, data, data_len).
                Inr (map_option BE_LIST l, data, data_len))
            else if c = CHR ''d'' then
              r_bind (be_decode_dict fuel rest (data_len - 1)) (\<lambda>(d, data, data_len).
                Inr (map_option BE_DICT d, data, data_len))
            else if c = CHR ''i'' then
              r_bind (be_decode_int rest (data_len - 1)) (\<lambda>(i, data, data_len).
                case data of
                    [] \<Rightarrow> Inl OutOfBounds
                  | e # rest \<Rightarrow> if e \<noteq> CHR ''e'' then Inr (None, data, data_len)
                              else Inr (Some (BE_INT i), rest, data_len - 1))
            else if isdigit c then
              r_bind (be_decode_str data data_len) (\<lambda>(s, data, data_len).
                Inr (Some (BE_STR s), data, data_len))
            else Inr (None, data, data_len))"
| "be_decode_list 0 data data_len = Inl OutOfFuel"
| "be_decode_list (Suc fuel) data data_len =
     (case data of
        [] \<Rightarrow> Inl OutOfBounds
      | c # rest \<Rightarrow>
          if c = CHR ''e'' then Inr (Some [], rest, data_len - 1)
          else r_bind (be_decode_node fuel data data_len) (\<lambda>(v, data, data_len).
            case v of
                None \<Rightarrow> Inr (None, data, data_len)
              | Some v \<Rightarrow> r_bind (be_decode_list fuel data data_len) (\<lambda>(l, data, data_len).
                  Inr (map_option (\<lambda>l. v # l) l, data, data_len))))"
| "be_decode_dict 0 data data_len = Inl OutOfFuel"
| "be_decode_dict (Suc fuel) data data_len =
     (case data of
        [] \<Rightarrow> Inl OutOfBounds
      | c # rest \<Rightarrow>
          if c = CHR ''e'' then Inr (Some [], rest, data_len - 1)
          else r_bind (be_decode_str data data_len) (\<lambda>(key, data, data_len).
            r_bind (be_decode_node fuel data data_len) (\<lambda>(v, data, data_len).
            case (key, v) of
                (Some key, Some v) \<Rightarrow>
                  r_bind (be_decode_dict fuel data data_len) (\<lambda>(d, data, data_len).
                    Inr (map_option (\<lambda>d. (key, v) # d) d, data, data_len))
              | _ \<Rightarrow> Inr (None, data, data_len))))"

definition be_decoden :: "string \<Rightarrow> int \<Rightarrow> be_node option res" where
  "be_decoden data len =
     r_bind (be_decode_node (2 * length data + 1) data len) (\<lambda>(ret, _, _). Inr ret)"

text \<open>\<^verbatim>\<open>be_decode\<close> measures the C string at its argument.\<close>

definition be_decode :: "string \<Rightarrow> be_node option res" where
  "be_decode data = r_bind (strlen_at data 0) (\<lambda>len. be_decoden data (int len))"

section \<open>Building nodes\<close>

text \<open>
  \<^verbatim>\<open>be_create_dict\<close> and \<^verbatim>\<open>be_create_list\<close> decode a literal, which has a
  terminating NUL in memory.
\<close>

definition be_create_dict :: "be_node option res" where
  "be_create_dict = be_decode (''de'' @ [NUL])"

definition be_create_list :: "be_node option res" where
  "be_create_list = be_decode (''le'' @ [NUL])"

definition be_create_str :: "string \<Rightarrow> be_node" where
  "be_create_str str = BE_STR (Some (cstr str))"

text \<open>\<^verbatim>\<open>be_create_str_wlen\<close> copies \<open>len\<close> bytes from its argument, which has to hold them.\<close>

definition be_create_str_wlen :: "string \<Rightarrow> nat \<Rightarrow> be_node res" where
  "be_create_str_wlen str len =
     (if length str < len then Inl OutOfBounds else Inr (BE_STR (Some (take len str))))"

definition be_create_int :: "int \<Rightarrow> be_node" where
  "be_create_int num = BE_INT num"

definition be_add_keypair :: "be_node \<Rightarrow> string \<Rightarrow> be_node \<Rightarrow> be_node \<times> int" where
  "be_add_keypair dict str node =
     (case dict of BE_DICT d \<Rightarrow> (BE_DICT (d @ [(cstr str, node)]), 1) | _ \<Rightarrow> (dict, 0))"

definition be_add_list :: "be_node \<Rightarrow> be_node \<Rightarrow> be_node \<times> int" where
  "be_add_list list node =
     (case list of BE_LIST l \<Rightarrow> (BE_LIST (l @ [node]), 1) | _ \<Rightarrow> (list, 0))"

section \<open>Printing nodes\<close>

text \<open>The output of \<^verbatim>\<open>be_dump_str\<close> and \<^verbatim>\<open>be_dump\<close>; \<open>char\<close> is signed.\<close>

definition schar :: "char \<Rightarrow> int" where
  "schar c = (if byte c < 128 then int (byte c) else int (byte c) - 256)"

definition be_dump_char :: "char \<Rightarrow> string" where
  "be_dump_char c = (if 31 < schar c \<and> schar c < 127 then [c]
                     else ''['' @ show_int (schar c) @ '']'')"

definition be_dump_str :: "be_node \<Rightarrow> string" where
  "be_dump_str node =
     (case node of
        BE_STR s \<Rightarrow>
          (let len = to_i32 (int (be_str_len s)) in
           ''str['' @ show_int len @ ''] = '' @
           concat (map be_dump_char (take (nat len) (case s of None \<Rightarrow> [] | Some t \<Rightarrow> t))) @
           [CHR 0x0A])
      | _ \<Rightarrow> ''be_dump_str(): error not a string'' @ [CHR 0x0A])"

definition be_dump_indent :: "int \<Rightarrow> string" where
  "be_dump_indent indent = concat (replicate (nat indent) ''    '')"

fun be_dump_node :: "be_node \<Rightarrow> int \<Rightarrow> string"
and be_dump_list :: "be_node list \<Rightarrow> int \<Rightarrow> string"
and be_dump_dict :: "(string \<times> be_node) list \<Rightarrow> int \<Rightarrow> string"
where
  "be_dump_node (BE_STR s) indent = be_dump_indent indent @ be_dump_str (BE_STR s)"
| "be_dump_node (BE_INT i) indent =
     be_dump_indent indent @ ''int = '' @ show_int i @ [CHR 0x0A]"
| "be_dump_node (BE_LIST l) indent =
     be_dump_indent indent @ ''list ['' @ [CHR 0x0A] @ be_dump_list l \<bar>indent\<bar> @
     be_dump_indent \<bar>indent\<bar> @ '']'' @ [CHR 0x0A]"
| "be_dump_node (BE_DICT d) indent =
     be_dump_indent indent @ ''dict {'' @ [CHR 0x0A] @ be_dump_dict d \<bar>indent\<bar> @
     be_dump_indent \<bar>indent\<bar> @ ''}'' @ [CHR 0x0A]"
| "be_dump_list [] indent = []"
| "be_dump_list (v # l) indent = be_dump_node v (indent + 1) @ be_dump_list l indent"
| "be_dump_dict [] indent = []"
| "be_dump_dict ((key, v) # d) indent =
     be_dump_indent (indent + 1) @ cstr key @ '' => '' @ be_dump_node v (- (indent + 1)) @
     be_dump_dict d indent"

definition be_dump :: "be_node \<Rightarrow> string" where
  "be_dump node = be_dump_node node 0"

section \<open>The decoder consumes what it counts\<close>

text \<open>
  Whatever the decoder returns, null or not, its count of the bytes left went down by
  exactly the bytes its pointer moved; and it moved by at least one byte when it returned
  an item.
\<close>

definition decode_sync :: "string \<Rightarrow> int \<Rightarrow> 'v option \<Rightarrow> string \<Rightarrow> int \<Rightarrow> bool" where
  "decode_sync data n v r m \<longleftrightarrow>
     length r \<le> length data \<and> m = n - (int (length data) - int (length r)) \<and>
     (v \<noteq> None \<longrightarrow> length r < length data)"

lemma be_decode_int_sync:
  "be_decode_int data n = Inr (i, r, m) \<Longrightarrow>
   length r \<le> length data \<and> m = n - (int (length data) - int (length r))"
  by (auto simp: be_decode_int_def r_bind_eq_Inr dest: strtoll_rest_le)

lemma be_decode_str_sync:
  "be_decode_str data n = Inr (v, r, m) \<Longrightarrow> decode_sync data n v r m"
  by (auto simp: be_decode_str_def r_bind_eq_Inr decode_sync_def Let_def
      dest!: be_decode_int_sync split: if_splits list.splits)

text \<open>A string item starts with a digit, so it moves even when its string is null.\<close>

lemma be_decode_str_digit:
  assumes "isdigit c" "be_decode_str (c # cs) n = Inr (v, r, m)"
  shows "length r < length (c # cs)"
  using assms(2) strtoll_digit [OF assms(1)]
  by (fastforce simp: be_decode_str_def be_decode_int_def r_bind_eq_Inr Let_def
      split: if_splits list.splits)

lemma be_decode_node_sync:
  "be_decode_node f data n = Inr (v, r, m) \<Longrightarrow> decode_sync data n v r m"
  "be_decode_list f data n = Inr (l, r, m) \<Longrightarrow> decode_sync data n l r m"
  "be_decode_dict f data n = Inr (d, r, m) \<Longrightarrow> decode_sync data n d r m"
proof (induction f data n and f data n and f data n
    arbitrary: v r m and l r m and d r m
    rule: be_decode_node_be_decode_list_be_decode_dict.induct)
  case (2 f data n)
  show ?case
  proof (cases data)
    case Nil
    with 2 show ?thesis by (auto simp: decode_sync_def split: if_splits)
  next
    case [simp]: (Cons c cs)
    consider "n = 0" | (l) "n \<noteq> 0" "c = CHR ''l''" | (d) "n \<noteq> 0" "c = CHR ''d''"
      | (i) "n \<noteq> 0" "c = CHR ''i''" | (s) "n \<noteq> 0" "isdigit c"
      | "n \<noteq> 0" "c \<noteq> CHR ''l''" "c \<noteq> CHR ''d''" "c \<noteq> CHR ''i''" "\<not> isdigit c"
      by blast
    then show ?thesis
    proof cases
      case l
      with 2 obtain xs where "be_decode_list f cs (n - 1) = Inr (xs, r, m)"
        by (auto simp: r_bind_eq_Inr)
      with l 2(1) show ?thesis by (fastforce simp: decode_sync_def)
    next
      case d
      with 2 obtain xs where "be_decode_dict f cs (n - 1) = Inr (xs, r, m)"
        by (auto simp: r_bind_eq_Inr)
      with d 2(2) show ?thesis by (fastforce simp: decode_sync_def)
    next
      case i
      with 2(3) obtain a r1 m1 where a: "be_decode_int cs (n - 1) = Inr (a, r1, m1)"
        by (auto simp: r_bind_eq_Inr)
      from be_decode_int_sync [OF a] i 2(3) a show ?thesis
        by (cases r1) (auto simp: decode_sync_def split: if_splits)
    next
      case s
      with 2(3) obtain x where "be_decode_str data n = Inr (x, r, m)" "v = Some (BE_STR x)"
        using isdigit_not [OF s(2)] by (auto simp: r_bind_eq_Inr)
      with s show ?thesis
        using be_decode_str_sync be_decode_str_digit by (fastforce simp: decode_sync_def)
    qed (use 2 in \<open>auto simp: decode_sync_def\<close>)
  qed
next
  case (4 f data n)
  show ?case
  proof (cases "\<exists>cs. data = CHR ''e'' # cs")
    case True
    with 4 show ?thesis by (auto simp: decode_sync_def)
  next
    case False
    with 4(3) obtain c cs where [simp]: "data = c # cs" and c: "c \<noteq> CHR ''e''"
      by (cases data) auto
    with 4(3) obtain x r1 m1 where x: "be_decode_node f data n = Inr (x, r1, m1)"
      by (auto simp: r_bind_eq_Inr split: if_splits list.splits)
    with c 4(1) have "decode_sync data n x r1 m1" by auto
    moreover have "decode_sync r1 m1 xs r2 m2" if "x = Some y" "be_decode_list f r1 m1 = Inr (xs, r2, m2)" for y xs r2 m2
      using 4(2) c x that by auto
    ultimately show ?thesis
      using 4(3) c x
      by (cases x) (fastforce simp: decode_sync_def r_bind_eq_Inr split: if_splits list.splits)+
  qed
next
  case (6 f data n)
  show ?case
  proof (cases "\<exists>cs. data = CHR ''e'' # cs")
    case True
    with 6 show ?thesis by (auto simp: decode_sync_def)
  next
    case False
    with 6(3) obtain c cs where [simp]: "data = c # cs" and c: "c \<noteq> CHR ''e''"
      by (cases data) auto
    with 6(3) obtain k r0 m0 x r1 m1 where k: "be_decode_str data n = Inr (k, r0, m0)"
      and x: "be_decode_node f r0 m0 = Inr (x, r1, m1)"
      by (auto simp: r_bind_eq_Inr split: if_splits list.splits)
    from be_decode_str_sync [OF k] have "decode_sync data n k r0 m0" .
    moreover from c k x 6(1) have "decode_sync r0 m0 x r1 m1" by auto
    moreover have "decode_sync r1 m1 xs r2 m2"
      if "k = Some y" "x = Some z" "be_decode_dict f r1 m1 = Inr (xs, r2, m2)" for y z xs r2 m2
      using 6(2) c k x that by auto
    ultimately show ?thesis
      using 6(3) c k x
      by (cases k; cases x) (fastforce simp: decode_sync_def r_bind_eq_Inr split: if_splits list.splits)+
  qed
qed simp_all

section \<open>The bound on the calls is enough\<close>

lemma be_decode_int_no_fuel: "be_decode_int data n \<noteq> Inl OutOfFuel"
  by (auto simp: be_decode_int_def r_bind_eq_Inl strtoll_def Let_def split: list.splits if_splits)

lemma be_decode_str_no_fuel: "be_decode_str data n \<noteq> Inl OutOfFuel"
  by (auto simp: be_decode_str_def r_bind_eq_Inl be_decode_int_no_fuel Let_def
      split: list.splits if_splits)

lemma be_decode_fuel:
  "2 * length data + 1 \<le> f \<Longrightarrow> be_decode_node f data n \<noteq> Inl OutOfFuel"
  "2 * length data + 2 \<le> f \<Longrightarrow> be_decode_list f data n \<noteq> Inl OutOfFuel"
  "2 * length data + 2 \<le> f \<Longrightarrow> be_decode_dict f data n \<noteq> Inl OutOfFuel"
proof (induction f data n and f data n and f data n
    rule: be_decode_node_be_decode_list_be_decode_dict.induct)
  case (2 f data n)
  show ?case
  proof (cases "data = [] \<or> n = 0")
    case False
    then obtain c cs where [simp]: "data = c # cs" "n \<noteq> 0" by (cases data) auto
    have l: "be_decode_list f cs (n - 1) \<noteq> Inl OutOfFuel" if "c = CHR ''l''"
      using 2 that by simp
    have d: "be_decode_dict f cs (n - 1) \<noteq> Inl OutOfFuel" if "c = CHR ''d''"
      using 2 that by simp
    from l d be_decode_int_no_fuel [of cs] be_decode_str_no_fuel [of data n] show ?thesis
      by (auto simp: r_bind_eq_Inl split: list.splits)
  qed (auto split: list.splits)
next
  case (4 f data n)
  show ?case
  proof
    assume e: "be_decode_list (Suc f) data n = Inl OutOfFuel"
    then obtain c cs where [simp]: "data = c # cs" and c: "c \<noteq> CHR ''e''"
      by (cases data) (auto split: if_splits)
    from 4 c have "be_decode_node f data n \<noteq> Inl OutOfFuel" by auto
    with e c obtain x r m where x: "be_decode_node f data n = Inr (Some x, r, m)"
      and l: "be_decode_list f r m = Inl OutOfFuel"
      by (auto simp: r_bind_eq_Inl split: option.splits)
    from be_decode_node_sync(1) [OF x] have "length r < length data"
      by (simp add: decode_sync_def)
    with 4(3) have "2 * length r + 2 \<le> f" by simp
    with 4(2) c x l show False by auto
  qed
next
  case (6 f data n)
  show ?case
  proof
    assume e: "be_decode_dict (Suc f) data n = Inl OutOfFuel"
    then obtain c cs where [simp]: "data = c # cs" and c: "c \<noteq> CHR ''e''"
      by (cases data) (auto split: if_splits)
    with e obtain k r0 m0 where k: "be_decode_str data n = Inr (k, r0, m0)"
      by (auto simp: r_bind_eq_Inl be_decode_str_no_fuel)
    from be_decode_str_sync [OF k] have le: "length r0 \<le> length data"
      by (simp add: decode_sync_def)
    with 6 c k have "be_decode_node f r0 m0 \<noteq> Inl OutOfFuel" by auto
    with e c k obtain y x r m where kx: "k = Some y" and x: "be_decode_node f r0 m0 = Inr (Some x, r, m)"
      and l: "be_decode_dict f r m = Inl OutOfFuel"
      by (auto simp: r_bind_eq_Inl split: option.splits)
    from be_decode_node_sync(1) [OF x] le have "length r < length data"
      by (simp add: decode_sync_def)
    with 6(3) have "2 * length r + 2 \<le> f" by simp
    with 6(2) c k kx x l show False by auto
  qed
qed simp_all

section \<open>A terminating NUL keeps the decoder inside of its buffer\<close>

text \<open>
  \<open>terminated data n\<close>: the allocation has exactly one byte more than the count says, and
  that byte is NUL. The bytes before it are arbitrary.
\<close>

definition terminated :: "string \<Rightarrow> int \<Rightarrow> bool" where
  "terminated data n \<longleftrightarrow> data \<noteq> [] \<and> last data = NUL \<and> n = int (length data) - 1"

definition terminated_res :: "('v \<times> string \<times> int) res \<Rightarrow> bool" where
  "terminated_res R \<longleftrightarrow> (case R of Inl e \<Rightarrow> e = OutOfFuel | Inr (v, r, m) \<Rightarrow> terminated r m)"

lemma terminated_Cons: "terminated (c # cs) n \<Longrightarrow> c \<noteq> NUL \<Longrightarrow> terminated cs (n - 1)"
  by (cases cs) (auto simp: terminated_def)

lemma terminated_drop:
  "terminated data n \<Longrightarrow> k < length data \<Longrightarrow> terminated (drop k data) (n - int k)"
  by (auto simp: terminated_def)

lemma terminated_dropWhile:
  assumes "\<not> P NUL" "xs \<noteq> []" "last xs = NUL"
  shows "dropWhile P xs \<noteq> []" "last (dropWhile P xs) = NUL"
  using assms by (induction xs) (auto split: if_splits)

lemma strtoll_terminated:
  assumes "data \<noteq> []" "last data = NUL"
  shows "\<exists>v r. strtoll data = Inr (v, r) \<and> r \<noteq> [] \<and> last r = NUL"
proof -
  have ns: "\<not> isspace NUL" "\<not> isdigit NUL" by (simp_all add: isspace_def isdigit_def byte_def)
  obtain c cs where d: "dropWhile isspace data = c # cs"
    using terminated_dropWhile(1) [where P = isspace, OF ns(1) assms] by (cases "dropWhile isspace data") auto
  have l: "last (c # cs) = NUL" using terminated_dropWhile(2) [where P = isspace, OF ns(1) assms] d by simp
  let ?s2 = "if c = CHR ''-'' \<or> c = CHR ''+'' then cs else c # cs"
  have "?s2 \<noteq> []" "last ?s2 = NUL" using l by (auto split: if_splits)
  from terminated_dropWhile [where P = isdigit, OF ns(2) this] show ?thesis
    using assms by (auto simp: strtoll_def d Let_def)
qed

lemma be_decode_int_terminated:
  assumes "terminated data n"
  shows "\<exists>i r m. be_decode_int data n = Inr (i, r, m) \<and> terminated r m"
proof -
  from strtoll_terminated assms obtain v r where "strtoll data = Inr (v, r)" "r \<noteq> []" "last r = NUL"
    unfolding terminated_def by blast
  with assms show ?thesis by (auto simp: be_decode_int_def terminated_def)
qed

lemma be_decode_str_terminated:
  assumes "terminated data n"
  shows "\<exists>v r m. be_decode_str data n = Inr (v, r, m) \<and> terminated r m"
proof -
  from be_decode_int_terminated [OF assms] obtain i r m
    where i: "be_decode_int data n = Inr (i, r, m)" "terminated r m" by blast
  show ?thesis
  proof (cases "0 \<le> i \<and> i \<le> m - 1")
    case False
    with i show ?thesis by (auto simp: be_decode_str_def)
  next
    case True
    from i(2) obtain c cs where r: "r = c # cs" by (cases r) (auto simp: terminated_def)
    show ?thesis
    proof (cases "c = CHR '':''")
      case False
      with i r True show ?thesis by (auto simp: be_decode_str_def)
    next
      case c: True
      have t: "terminated cs (m - 1)" using i(2) r c terminated_Cons by fastforce
      with True have "nat i < length cs" by (auto simp: terminated_def)
      moreover from terminated_drop [OF t this] True
      have "terminated (drop (nat i) cs) (m - (i + 1))" by (simp add: algebra_simps)
      ultimately show ?thesis using True c i r
        by (auto simp: be_decode_str_def Let_def)
    qed
  qed
qed

lemma be_decode_terminated:
  "terminated data n \<Longrightarrow> terminated_res (be_decode_node f data n)"
  "terminated data n \<Longrightarrow> terminated_res (be_decode_list f data n)"
  "terminated data n \<Longrightarrow> terminated_res (be_decode_dict f data n)"
proof (induction f data n and f data n and f data n
    rule: be_decode_node_be_decode_list_be_decode_dict.induct)
  case (2 f data n)
  show ?case
  proof (cases "n = 0")
    case True
    with 2(3) show ?thesis by (auto simp: terminated_res_def)
  next
    case False
    from 2(3) obtain c cs where [simp]: "data = c # cs" by (cases data) (auto simp: terminated_def)
    have t: "terminated cs (n - 1)" if "c \<noteq> NUL" using 2(3) that terminated_Cons by fastforce
    consider (l) "c = CHR ''l''" | (d) "c = CHR ''d''" | (i) "c = CHR ''i''"
      | (s) "isdigit c" | (o) "c \<noteq> CHR ''l''" "c \<noteq> CHR ''d''" "c \<noteq> CHR ''i''" "\<not> isdigit c"
      by blast
    then show ?thesis
    proof cases
      case l
      with 2(1) False t show ?thesis
        by (cases "be_decode_list f cs (n - 1)") (auto simp: terminated_res_def)
    next
      case d
      with 2(2) False t show ?thesis
        by (cases "be_decode_dict f cs (n - 1)") (auto simp: terminated_res_def)
    next
      case i
      with t have "terminated cs (n - 1)" by simp
      from be_decode_int_terminated [OF this] obtain a r0 m
        where a: "be_decode_int cs (n - 1) = Inr (a, r0, m)" "terminated r0 m" by blast
      then obtain e r where "r0 = e # r" by (cases r0) (auto simp: terminated_def)
      with a have "be_decode_int cs (n - 1) = Inr (a, e # r, m)" "terminated (e # r) m"
        by simp_all
      with i False terminated_Cons [of e r m] show ?thesis
        by (auto simp: terminated_res_def)
    next
      case s
      with be_decode_str_terminated [OF 2(3)] False isdigit_not [OF s] show ?thesis
        by (auto simp: terminated_res_def)
    next
      case o
      with False 2(3) show ?thesis by (auto simp: terminated_res_def)
    qed
  qed
next
  case (4 f data n)
  from 4(3) obtain c cs where [simp]: "data = c # cs" by (cases data) (auto simp: terminated_def)
  show ?case
  proof (cases "c = CHR ''e''")
    case True
    with 4(3) terminated_Cons [of c cs n] show ?thesis by (auto simp: terminated_res_def)
  next
    case False
    with 4(1,3) have x: "terminated_res (be_decode_node f data n)" by auto
    show ?thesis
    proof (cases "be_decode_node f data n")
      case (Inr y)
      then obtain v r m where y: "be_decode_node f data n = Inr (v, r, m)" by (cases y) auto
      with x have t: "terminated r m" by (simp add: terminated_res_def)
      have "terminated_res (be_decode_list f r m)" if "v = Some w" for w
        using 4(2) y t False that by auto
      with y False t show ?thesis
        by (cases v; cases "be_decode_list f r m") (auto simp: terminated_res_def)
    qed (use x False in \<open>auto simp: terminated_res_def\<close>)
  qed
next
  case (6 f data n)
  from 6(3) obtain c cs where [simp]: "data = c # cs" by (cases data) (auto simp: terminated_def)
  show ?case
  proof (cases "c = CHR ''e''")
    case True
    with 6(3) terminated_Cons [of c cs n] show ?thesis by (auto simp: terminated_res_def)
  next
    case False
    from be_decode_str_terminated [OF 6(3)] obtain k r0 m0
      where k: "be_decode_str data n = Inr (k, r0, m0)" "terminated r0 m0" by blast
    with False 6(1) have x: "terminated_res (be_decode_node f r0 m0)" by auto
    show ?thesis
    proof (cases "be_decode_node f r0 m0")
      case (Inr y)
      then obtain v r m where y: "be_decode_node f r0 m0 = Inr (v, r, m)" by (cases y) auto
      with x have t: "terminated r m" by (simp add: terminated_res_def)
      have "terminated_res (be_decode_dict f r m)" if "k = Some z" "v = Some w" for z w
        using 6(2) y t k False that by auto
      with y False k t show ?thesis
        by (cases k; cases v; cases "be_decode_dict f r m") (auto simp: terminated_res_def)
    qed (use x False k in \<open>auto simp: terminated_res_def\<close>)
  qed
qed (simp_all add: terminated_res_def)

section \<open>Properties\<close>

text \<open>
  C26 (termination): the decoder returns on every buffer and every length it is told: the
  bound on the calls in \<open>be_decoden\<close> is never reached, so the loops over items end.
\<close>

theorem be_decoden_terminates: "be_decoden data len \<noteq> Inl OutOfFuel"
proof -
  have "be_decode_node (2 * length data + 1) data len \<noteq> Inl OutOfFuel"
    by (intro be_decode_fuel) simp
  then show ?thesis by (auto simp: be_decoden_def r_bind_eq_Inl split: prod.splits)
qed

text \<open>
  C27 (safety): on a buffer with one NUL after the bytes it is told of, as a C string has,
  the decoder reads and writes nothing outside of the buffer, whatever the bytes are: it
  returns a node or null.
\<close>

theorem be_decoden_nul_safe: "\<exists>ret. be_decoden (s @ [NUL]) (int (length s)) = Inr ret"
proof -
  let ?R = "be_decode_node (2 * length (s @ [NUL]) + 1) (s @ [NUL]) (int (length s))"
  have "terminated (s @ [NUL]) (int (length s))" by (simp add: terminated_def)
  then have "terminated_res ?R" by (rule be_decode_terminated)
  moreover have "?R \<noteq> Inl OutOfFuel" by (intro be_decode_fuel) simp
  ultimately obtain v r m where "?R = Inr (v, r, m)"
    by (cases ?R) (auto simp: terminated_res_def)
  then show ?thesis by (simp add: be_decoden_def)
qed

text \<open>
  Whatever it returns, the decoder has counted exactly the bytes that it
  consumed, and an item that it returns consumed at least one.
\<close>

theorem be_decode_node_counts:
  assumes "be_decode_node fuel data n = Inr (v, r, m)"
  shows "length r \<le> length data \<and> n - m = int (length data - length r) \<and>
    (v \<noteq> None \<longrightarrow> length r < length data)"
  using be_decode_node_sync(1) [OF assms] by (auto simp: decode_sync_def)

theorem be_decode_node_counts_witness:
  "length ''xy'' \<le> length ''3:abcxy'' \<and> 7 - 2 = int (length ''3:abcxy'' - length ''xy'')"
proof -
  have "be_decode_node 1 ''3:abcxy'' 7 = Inr (Some (BE_STR (Some ''abc'')), ''xy'', 2)"
    by (simp add: be_decode_str_def be_decode_int_def strtoll_def isspace_def isdigit_def byte_def
        dec_val_def digit_val_def clamp64_def Let_def)
  from be_decode_node_counts [OF this] show ?thesis by simp
qed

text \<open>
  A byte string whose announced length exceeds the bytes left is not
  rejected: the decoder returns a string node whose pointer is null, and has consumed the
  digits only.
\<close>

theorem be_decode_truncated_string:
  assumes "int (length s) < int n" and "int n < 2 ^ 63"
  shows "be_decoden (show_nat n @ '':'' @ s) (int (length (show_nat n @ '':'' @ s))) =
    Inr (Some (BE_STR None))"
proof -
  have "\<not> isdigit (CHR '':'')" by (simp add: isdigit_def byte_def)
  from strtoll_show_nat [OF assms(2) this, of s]
  have i: "be_decode_int (show_nat n @ '':'' @ s) (int (length (show_nat n @ '':'' @ s))) =
      Inr (int n, '':'' @ s, 1 + int (length s))"
    by (simp add: be_decode_int_def)
  obtain c cs where c: "show_nat n = c # cs" "isdigit c"
    using show_nat_digits [of n] by (cases "show_nat n") auto
  from i assms(1) have "be_decode_str (show_nat n @ '':'' @ s)
      (int (length (show_nat n @ '':'' @ s))) = Inr (None, '':'' @ s, 1 + int (length s))"
    by (simp add: be_decode_str_def)
  with c isdigit_not [OF c(2)] show ?thesis by (simp add: be_decoden_def)
qed

theorem be_decode_truncated_string_witness:
  "be_decoden (show_nat 5 @ '':ab'') (int (length (show_nat 5 @ '':ab''))) = Inr (Some (BE_STR None))"
  using be_decode_truncated_string [of "''ab''" 5] by simp

end
