(* ===== verification/Bencode_Encode.thy ===== *)
theory Bencode_Encode
  imports Bencode
begin

text \<open>
  The writer of \<^verbatim>\<open>src/bencode/bencode.c\<close>: \<^verbatim>\<open>be_encode\<close> prints a node
  into a caller's buffer with \<^verbatim>\<open>snprintf\<close> and \<^verbatim>\<open>memcpy\<close>, and the size
  computation \<^verbatim>\<open>be_node_len\<close> of \<^verbatim>\<open>src/tsfiles.c\<close> with which the callers
  allocate that buffer. The specification is \<open>benc\<close>, the encoding as a byte string; the
  lemmas show that the writer stays inside of a buffer of \<^verbatim>\<open>be_node_len + 1\<close> bytes,
  that it writes \<open>benc\<close>, and that the decoder reads it back.
\<close>

section \<open>The writer\<close>

text \<open>\<^verbatim>\<open>loc\<close> is an \<^verbatim>\<open>int\<close>: a buffer position beyond its range is a fault.\<close>

definition loc_add :: "nat \<Rightarrow> nat \<Rightarrow> nat res" where
  "loc_add loc n = (if loc + n < 2 ^ 31 then Inr (loc + n) else Inl IntOverflow)"

definition str_bytes :: "string option \<Rightarrow> string" where
  "str_bytes s = (case s of None \<Rightarrow> [] | Some t \<Rightarrow> t)"

text \<open>
  \<open>be_encode node mem p len\<close>: \<^verbatim>\<open>str\<close> points to position \<open>p\<close> of the allocation
  \<open>mem\<close>; the result is the allocation after the writes and the value returned.
\<close>

fun be_encode :: "be_node \<Rightarrow> string \<Rightarrow> nat \<Rightarrow> int \<Rightarrow> (string \<times> nat) res"
and be_encode_list :: "be_node list \<Rightarrow> string \<Rightarrow> nat \<Rightarrow> int \<Rightarrow> nat \<Rightarrow> (string \<times> nat) res"
and be_encode_dict :: "(string \<times> be_node) list \<Rightarrow> string \<Rightarrow> nat \<Rightarrow> int \<Rightarrow> nat \<Rightarrow> (string \<times> nat) res"
where
  "be_encode (BE_STR s) mem p len =
     r_bind (snprintf_at mem p len (show_int (int (be_str_len s)) @ '':'')) (\<lambda>mem.
     r_bind (strlen_at mem p) (\<lambda>n.
     r_bind (loc_add 0 n) (\<lambda>loc.
     r_bind (mem_store mem (p + loc) (str_bytes s)) (\<lambda>mem.
     r_bind (loc_add loc (be_str_len s)) (\<lambda>loc. Inr (mem, loc))))))"
| "be_encode (BE_INT i) mem p len =
     r_bind (snprintf_at mem p len (''i'' @ show_int i @ ''e'')) (\<lambda>mem.
     r_bind (strlen_at mem p) (\<lambda>n.
     r_bind (loc_add 0 n) (\<lambda>loc. Inr (mem, loc))))"
| "be_encode (BE_LIST l) mem p len =
     r_bind (snprintf_at mem p len ''l'') (\<lambda>mem.
     r_bind (be_encode_list l mem p len 1) (\<lambda>(mem, loc).
     r_bind (snprintf_at mem (p + loc) (len - int loc) ''e'') (\<lambda>mem.
     r_bind (loc_add loc 1) (\<lambda>loc. Inr (mem, loc)))))"
| "be_encode (BE_DICT d) mem p len =
     r_bind (snprintf_at mem p len ''d'') (\<lambda>mem.
     r_bind (be_encode_dict d mem p len 1) (\<lambda>(mem, loc).
     r_bind (snprintf_at mem (p + loc) (len - int loc) ''e'') (\<lambda>mem.
     r_bind (loc_add loc 1) (\<lambda>loc. Inr (mem, loc)))))"
| "be_encode_list [] mem p len loc = Inr (mem, loc)"
| "be_encode_list (v # l) mem p len loc =
     r_bind (be_encode v mem (p + loc) (len - int loc)) (\<lambda>(mem, n).
     r_bind (loc_add loc n) (\<lambda>loc. be_encode_list l mem p len loc))"
| "be_encode_dict [] mem p len loc = Inr (mem, loc)"
| "be_encode_dict ((key, v) # d) mem p len loc =
     r_bind (snprintf_at mem (p + loc) (len - int loc)
              (show_int (to_i32 (int (length (cstr key)))) @ '':'' @ cstr key)) (\<lambda>mem.
     r_bind (strlen_at mem (p + loc)) (\<lambda>n.
     r_bind (loc_add loc n) (\<lambda>loc.
     r_bind (be_encode v mem (p + loc) (len - int loc)) (\<lambda>(mem, n).
     r_bind (loc_add loc n) (\<lambda>loc. be_encode_dict d mem p len loc)))))"

section \<open>The size computation\<close>

definition NumDigits :: "int \<Rightarrow> nat" where
  "NumDigits x = length (show_int x)"

fun be_node_len :: "be_node \<Rightarrow> nat"
and be_list_len :: "be_node list \<Rightarrow> nat"
and be_dict_len :: "(string \<times> be_node) list \<Rightarrow> nat"
where
  "be_node_len (BE_STR s) = (let tmp = be_str_len s in tmp + NumDigits (int tmp) + 1)"
| "be_node_len (BE_INT i) = NumDigits i + 2"
| "be_node_len (BE_LIST l) = be_list_len l + 2"
| "be_node_len (BE_DICT d) = be_dict_len d + 2"
| "be_list_len [] = 0"
| "be_list_len (v # l) = be_node_len v + be_list_len l"
| "be_dict_len [] = 0"
| "be_dict_len ((key, v) # d) =
     be_node_len v + (let tmp = length (cstr key) in tmp + NumDigits (int tmp) + 1) + be_dict_len d"

section \<open>The encoding as a byte string\<close>

definition benc_str :: "string \<Rightarrow> string" where
  "benc_str s = show_nat (length s) @ '':'' @ s"

fun benc :: "be_node \<Rightarrow> string"
and benc_list :: "be_node list \<Rightarrow> string"
and benc_dict :: "(string \<times> be_node) list \<Rightarrow> string"
where
  "benc (BE_STR s) = benc_str (str_bytes s)"
| "benc (BE_INT i) = ''i'' @ show_int i @ ''e''"
| "benc (BE_LIST l) = ''l'' @ benc_list l @ ''e''"
| "benc (BE_DICT d) = ''d'' @ benc_dict d @ ''e''"
| "benc_list [] = []"
| "benc_list (v # l) = benc v @ benc_list l"
| "benc_dict [] = []"
| "benc_dict ((key, v) # d) = benc_str (cstr key) @ benc v @ benc_dict d"

lemma length_str_bytes [simp]: "length (str_bytes s) = be_str_len s"
  by (simp add: str_bytes_def be_str_len_def split: option.splits)

lemma show_int_nat [simp]: "show_int (int n) = show_nat n"
  by (simp add: show_int_def)

lemma length_benc_pos [simp]: "0 < length (benc v)" "benc v \<noteq> []"
  by (cases v; simp add: benc_str_def)+

lemma be_node_len_benc:
  "be_node_len v = length (benc v)"
  "be_list_len l = length (benc_list l)"
  "be_dict_len d = length (benc_dict d)"
  by (induction v and l and d rule: be_node_len_be_list_len_be_dict_len.induct)
    (simp_all add: benc_str_def NumDigits_def Let_def)

section \<open>Writes inside of the buffer\<close>

definition put :: "string \<Rightarrow> nat \<Rightarrow> string \<Rightarrow> string" where
  "put mem p bs = take p mem @ bs @ drop (p + length bs) mem"

lemma mem_store_put: "p + length bs \<le> length mem \<Longrightarrow> mem_store mem p bs = Inr (put mem p bs)"
  by (simp add: mem_store_def put_def)

lemma length_put [simp]: "p + length bs \<le> length mem \<Longrightarrow> length (put mem p bs) = length mem"
  by (simp add: put_def)

lemma take_put: "p \<le> length mem \<Longrightarrow> take (p + length xs) (put mem p (xs @ ys)) = take p mem @ xs"
  by (simp add: put_def)

lemma take_put_all: "p \<le> length mem \<Longrightarrow> take (p + length xs) (put mem p xs) = take p mem @ xs"
  using take_put [of p mem xs "[]"] by simp

lemma snprintf_put:
  assumes "int (length txt) < n" "n < 2 ^ 31" "p + length txt < length mem"
  shows "snprintf_at mem p n txt = Inr (put mem p (txt @ [NUL]))"
proof -
  have "nat (n mod 2 ^ 64) = nat n" using assms by simp
  moreover have "nat n - 1 \<ge> length txt" "nat n \<noteq> 0" using assms by auto
  ultimately show ?thesis using assms by (simp add: snprintf_at_def mem_store_put)
qed

lemma strlen_put:
  "no_nul txt \<Longrightarrow> p \<le> length mem \<Longrightarrow> strlen_at (put mem p (txt @ [NUL])) p = Inr (length txt)"
  by (simp add: strlen_at_def put_def)

text \<open>The effect of a writer: it fills the bytes from \<open>p\<close> with \<open>s\<close> and keeps those before.\<close>

definition writes :: "string \<Rightarrow> nat \<Rightarrow> string \<Rightarrow> string \<Rightarrow> bool" where
  "writes mem p s mem' \<longleftrightarrow> length mem' = length mem \<and> take (p + length s) mem' = take p mem @ s"

lemma writes_trans:
  assumes "writes mem p s mem1" "writes mem1 (p + length s) t mem2"
  shows "writes mem p (s @ t) mem2"
  using assms by (auto simp: writes_def add.assoc)

lemma writes_put: "p + length s \<le> length mem \<Longrightarrow> writes mem p s (put mem p s)"
  by (simp add: writes_def take_put_all)

lemma writes_put_nul: "p + length s < length mem \<Longrightarrow> writes mem p s (put mem p (s @ [NUL]))"
  by (simp add: writes_def take_put)

lemma writes_length: "writes mem p s mem' \<Longrightarrow> length mem' = length mem"
  by (simp add: writes_def)

text \<open>What a list and a dictionary have in common: a letter, the contents, and an \<open>e\<close>.\<close>

lemma bracket_writes:
  assumes "p + length bs + 2 < length mem" "int (length bs + 2) < len" "len < 2 ^ 31"
    and enc: "\<And>m1. snprintf_at mem p len [c] = Inr m1 \<Longrightarrow> length m1 = length mem \<Longrightarrow> \<exists>m2. enc m1 = Inr (m2, 1 + length bs) \<and> writes m1 (p + 1) bs m2"
  shows "\<exists>mem'. r_bind (snprintf_at mem p len [c]) (\<lambda>mem. r_bind (enc mem) (\<lambda>(mem, loc).
      r_bind (snprintf_at mem (p + loc) (len - int loc) ''e'') (\<lambda>mem.
      r_bind (loc_add loc 1) (\<lambda>loc. Inr (mem, loc))))) = Inr (mem', length (c # bs @ ''e'')) \<and>
    writes mem p (c # bs @ ''e'') mem'"
proof -
  let ?m1 = "put mem p ([c] @ [NUL])" and ?loc = "1 + length bs"
  have m1: "snprintf_at mem p len [c] = Inr ?m1" using assms(1-3) by (intro snprintf_put) auto
  have w1: "writes mem p [c] ?m1" using assms(1) by (intro writes_put_nul) auto
  from enc [OF m1 writes_length [OF w1]] obtain m2 where m2: "enc ?m1 = Inr (m2, ?loc)" "writes ?m1 (p + 1) bs m2" by blast
  let ?m3 = "put m2 (p + ?loc) (''e'' @ [NUL])"
  have len: "length m2 = length mem" using w1 m2(2) by (simp add: writes_def)
  have "snprintf_at m2 (p + ?loc) (len - int ?loc) ''e'' = Inr ?m3"
    using assms(1-3) len by (intro snprintf_put) auto
  moreover have "writes m2 (p + ?loc) ''e'' ?m3" using assms(1) len by (intro writes_put_nul) auto
  moreover have "loc_add ?loc 1 = Inr (?loc + 1)" using assms(2,3) by (auto simp: loc_add_def)
  moreover from w1 m2(2) have "writes mem p ([c] @ bs) m2" by (intro writes_trans) auto
  ultimately show ?thesis using m1 m2 writes_trans [of mem p "[c] @ bs" m2 "''e''" ?m3] by auto
qed

lemma be_encode_writes:
  "p + length (benc v) < length mem \<Longrightarrow> int (length (benc v)) < len \<Longrightarrow> len < 2 ^ 31 \<Longrightarrow>
   \<exists>mem'. be_encode v mem p len = Inr (mem', length (benc v)) \<and> writes mem p (benc v) mem'"
  "p + loc + length (benc_list l) < length mem \<Longrightarrow> int (loc + length (benc_list l)) < len \<Longrightarrow>
   len < 2 ^ 31 \<Longrightarrow>
   \<exists>mem'. be_encode_list l mem p len loc = Inr (mem', loc + length (benc_list l)) \<and>
     writes mem (p + loc) (benc_list l) mem'"
  "p + loc + length (benc_dict d) < length mem \<Longrightarrow> int (loc + length (benc_dict d)) < len \<Longrightarrow>
   len < 2 ^ 31 \<Longrightarrow>
   \<exists>mem'. be_encode_dict d mem p len loc = Inr (mem', loc + length (benc_dict d)) \<and>
     writes mem (p + loc) (benc_dict d) mem'"
proof (induction v mem p len and l mem p len loc and d mem p len loc
    rule: be_encode_be_encode_list_be_encode_dict.induct)
  case (1 s mem p len)
  let ?h = "show_nat (be_str_len s) @ '':''"
  let ?m1 = "put mem p (?h @ [NUL])"
  have room: "p + length ?h + be_str_len s < length mem" "int (length ?h) < len"
    using 1 by (auto simp: benc_str_def)
  then have "snprintf_at mem p len ?h = Inr ?m1" using 1 by (intro snprintf_put) auto
  moreover have "strlen_at ?m1 p = Inr (length ?h)" using room by (intro strlen_put) auto
  moreover have "mem_store ?m1 (p + length ?h) (str_bytes s) = Inr (put ?m1 (p + length ?h) (str_bytes s))"
    using room by (intro mem_store_put) auto
  moreover have "loc_add 0 (length ?h) = Inr (length ?h)"
    "loc_add (length ?h) (be_str_len s) = Inr (length ?h + be_str_len s)"
    using 1 by (auto simp: loc_add_def benc_str_def)
  moreover have "writes mem p (?h @ str_bytes s) (put ?m1 (p + length ?h) (str_bytes s))"
    using room by (intro writes_trans [OF writes_put_nul writes_put]) auto
  ultimately show ?case by (simp add: benc_str_def)
next
  case (2 i mem p len)
  let ?h = "''i'' @ show_int i @ ''e''"
  have "snprintf_at mem p len ?h = Inr (put mem p (?h @ [NUL]))" using 2 by (intro snprintf_put) auto
  moreover have "strlen_at (put mem p (?h @ [NUL])) p = Inr (length ?h)"
    using 2 by (intro strlen_put) auto
  moreover have "writes mem p ?h (put mem p (?h @ [NUL]))" using 2 by (intro writes_put_nul) auto
  moreover have "loc_add 0 (length ?h) = Inr (length ?h)" using 2 by (auto simp: loc_add_def)
  ultimately show ?case by simp
next
  case (3 l mem p len)
  have "\<exists>m2. be_encode_list l m1 p len 1 = Inr (m2, 1 + length (benc_list l)) \<and> writes m1 (p + 1) (benc_list l) m2"
    if "snprintf_at mem p len ''l'' = Inr m1" "length m1 = length mem" for m1
    using 3 that by fastforce
  from bracket_writes [OF _ _ _ this] 3(2-4) show ?case by simp
next
  case (4 d mem p len)
  have "\<exists>m2. be_encode_dict d m1 p len 1 = Inr (m2, 1 + length (benc_dict d)) \<and> writes m1 (p + 1) (benc_dict d) m2"
    if "snprintf_at mem p len ''d'' = Inr m1" "length m1 = length mem" for m1
    using 4 that by fastforce
  from bracket_writes [OF _ _ _ this] 4(2-4) show ?case by simp
next
  case (5 mem p len loc)
  then show ?case by (simp add: writes_def)
next
  case (6 v l mem p len loc)
  obtain m1 where m1: "be_encode v mem (p + loc) (len - int loc) = Inr (m1, length (benc v))"
    and w1: "writes mem (p + loc) (benc v) m1"
    using 6(1) 6(3-5) by fastforce
  have la: "loc_add loc (length (benc v)) = Inr (loc + length (benc v))"
    using 6(4,5) by (auto simp: loc_add_def)
  obtain m2 where m2: "be_encode_list l m1 p len (loc + length (benc v)) =
      Inr (m2, loc + length (benc v) + length (benc_list l))"
    and w2: "writes m1 (p + loc + length (benc v)) (benc_list l) m2"
    using 6(2) [OF m1 refl la] 6(3-5) writes_length [OF w1] by (auto simp: add.assoc)
  from m1 la m2 writes_trans [OF w1 w2] show ?case by (auto simp: add.assoc)
next
  case (7 mem p len loc)
  then show ?case by (simp add: writes_def)
next
  case (8 key v d mem p len loc)
  let ?k = "benc_str (cstr key)"
  have kl: "length (cstr key) < 2 ^ 31" using 8(4,5) by (auto simp: benc_str_def)
  then have k: "show_int (to_i32 (int (length (cstr key)))) @ '':'' @ cstr key = ?k"
    by (simp add: benc_str_def in_i32_def)
  let ?m0 = "put mem (p + loc) (?k @ [NUL])"
  have m0: "snprintf_at mem (p + loc) (len - int loc) ?k = Inr ?m0"
    using 8(3-5) by (intro snprintf_put) auto
  have w0: "writes mem (p + loc) ?k ?m0" using 8(3) by (intro writes_put_nul) auto
  have s0: "strlen_at ?m0 (p + loc) = Inr (length ?k)"
    using 8(3) by (intro strlen_put) (auto simp: benc_str_def)
  have l0: "loc_add loc (length ?k) = Inr (loc + length ?k)"
    using 8(4,5) by (auto simp: loc_add_def)
  let ?l1 = "loc + length ?k"
  have L0: "length ?m0 = length mem" using writes_length [OF w0] .
  obtain m1 where m1: "be_encode v ?m0 (p + ?l1) (len - int ?l1) = Inr (m1, length (benc v))"
    and w1: "writes ?m0 (p + ?l1) (benc v) m1"
    using 8(1) [of ?m0 "length ?k" ?l1] 8(3-5) m0 s0 l0 k L0 by (auto simp: add.assoc)
  have la: "loc_add ?l1 (length (benc v)) = Inr (?l1 + length (benc v))"
    using 8(4,5) by (auto simp: loc_add_def)
  obtain m2 where m2: "be_encode_dict d m1 p len (?l1 + length (benc v)) =
      Inr (m2, ?l1 + length (benc v) + length (benc_dict d))"
    and w2: "writes m1 (p + ?l1 + length (benc v)) (benc_dict d) m2"
    using 8(2) [of ?m0 "length ?k" ?l1 "(m1, length (benc v))" m1 "length (benc v)" "?l1 + length (benc v)"]
      8(3-5) m0 s0 l0 k m1 la writes_length [OF w1] L0 by (auto simp: add.assoc)
  have "writes mem (p + loc) (?k @ benc v) m1"
    using writes_trans [OF w0] w1 by (simp add: add.assoc)
  from writes_trans [OF this, of "benc_dict d" m2] w2
  have "writes mem (p + loc) (?k @ benc v @ benc_dict d) m2" by (simp add: add.assoc)
  with m0 s0 l0 k m1 la m2 show ?case by (auto simp: add.assoc)
qed

section \<open>The decoder reads the encoding back\<close>

text \<open>
  The nodes that the encoding represents: strings are not null, integers and lengths fit
  \<^verbatim>\<open>long long\<close>, keys are C strings (the writer prints them with \<^verbatim>\<open>%s\<close>).
\<close>

fun wf_node :: "be_node \<Rightarrow> bool"
and wf_list :: "be_node list \<Rightarrow> bool"
and wf_dict :: "(string \<times> be_node) list \<Rightarrow> bool"
where
  "wf_node (BE_STR s) = (case s of None \<Rightarrow> False | Some t \<Rightarrow> int (length t) < 2 ^ 63)"
| "wf_node (BE_INT i) = in_i64 i"
| "wf_node (BE_LIST l) = wf_list l"
| "wf_node (BE_DICT d) = wf_dict d"
| "wf_list [] = True"
| "wf_list (v # l) = (wf_node v \<and> wf_list l)"
| "wf_dict [] = True"
| "wf_dict ((key, v) # d) = (no_nul key \<and> int (length key) < 2 ^ 63 \<and> wf_node v \<and> wf_dict d)"

lemma be_decode_str_benc:
  assumes "int (length s) < 2 ^ 63" "0 \<le> k"
  shows "be_decode_str (benc_str s @ rest) (int (length (benc_str s)) + k) = Inr (Some s, rest, k)"
proof -
  have "\<not> isdigit (CHR '':'')" by (simp add: isdigit_def byte_def)
  from strtoll_show_nat [OF assms(1) this]
  have "be_decode_int (benc_str s @ rest) (int (length (benc_str s)) + k) =
      Inr (int (length s), CHR '':'' # s @ rest, 1 + int (length s) + k)"
    by (simp add: be_decode_int_def benc_str_def)
  with assms show ?thesis by (simp add: be_decode_str_def Let_def)
qed

lemma benc_str_hd: "\<exists>c cs. benc_str s = c # cs \<and> isdigit c"
  using show_nat_digits [of "length s"]
  by (cases "show_nat (length s)") (auto simp: benc_str_def)

lemma benc_hd: "\<exists>c cs. benc v = c # cs \<and> c \<noteq> CHR ''e''"
proof (cases v)
  case (BE_STR s)
  with benc_str_hd [of "str_bytes s"] isdigit_not show ?thesis by fastforce
qed auto

lemma be_decode_benc:
  "wf_node v \<Longrightarrow> 2 * length (benc v) + 1 \<le> f \<Longrightarrow> 0 \<le> k \<Longrightarrow>
   be_decode_node f (benc v @ rest) (int (length (benc v)) + k) = Inr (Some v, rest, k)"
  "wf_list l \<Longrightarrow> 2 * length (benc_list l) + 2 \<le> f \<Longrightarrow> 0 \<le> k \<Longrightarrow>
   be_decode_list f (benc_list l @ CHR ''e'' # rest) (int (length (benc_list l)) + (1 + k)) =
     Inr (Some l, rest, k)"
  "wf_dict d \<Longrightarrow> 2 * length (benc_dict d) + 2 \<le> f \<Longrightarrow> 0 \<le> k \<Longrightarrow>
   be_decode_dict f (benc_dict d @ CHR ''e'' # rest) (int (length (benc_dict d)) + (1 + k)) =
     Inr (Some d, rest, k)"
proof (induction v and l and d arbitrary: f rest k and f rest k and f rest k
    rule: benc_benc_list_benc_dict.induct)
  case (1 s)
  then obtain t g where s: "s = Some t" "int (length t) < 2 ^ 63" and f: "f = Suc g"
    by (cases f) (auto split: option.splits)
  obtain c cs where c: "benc_str t = c # cs" "isdigit c" using benc_str_hd by blast
  from be_decode_str_benc [OF s(2) 1(3), of rest]
  show ?case using c isdigit_not [OF c(2)] 1(3) s by (simp add: f str_bytes_def)
next
  case (2 i)
  then obtain g where f: "f = Suc g" by (cases f) auto
  have "\<not> isdigit (CHR ''e'')" by (simp add: isdigit_def byte_def)
  with 2 strtoll_show_int [of i "CHR ''e''" rest] show ?case
    by (simp add: f be_decode_int_def)
next
  case (3 l)
  then obtain g where f: "f = Suc g" by (cases f) auto
  with 3(1) [of g k rest] 3(2-4) show ?case by (simp add: add_ac)
next
  case (4 d)
  then obtain g where f: "f = Suc g" by (cases f) auto
  with 4(1) [of g k rest] 4(2-4) show ?case by (simp add: add_ac)
next
  case (5 f rest k)
  then obtain g where f: "f = Suc g" by (cases f) auto
  then show ?case by simp
next
  case (6 v l)
  from 6(4) obtain g where f: "f = Suc g" by (cases f) auto
  obtain c cs where c: "benc v = c # cs" "c \<noteq> CHR ''e''" using benc_hd by blast
  have "2 * length (benc_list l) + 2 \<le> g"
    using 6(4) f by (cases "benc v") auto
  then have "be_decode_list g (benc_list l @ CHR ''e'' # rest) (int (length (benc_list l)) + (1 + k)) =
      Inr (Some l, rest, k)"
    using 6(2) [of g k rest] 6(3-5) f by simp
  moreover have "be_decode_node g (benc v @ benc_list l @ CHR ''e'' # rest)
      (int (length (benc v)) + (int (length (benc_list l)) + (1 + k))) =
      Inr (Some v, benc_list l @ CHR ''e'' # rest, int (length (benc_list l)) + (1 + k))"
    using 6(1) [of g "int (length (benc_list l)) + (1 + k)" "benc_list l @ CHR ''e'' # rest"] 6(3-5) f
    by simp
  ultimately show ?case using c by (simp add: f add.assoc)
next
  case (7 f rest k)
  then obtain g where f: "f = Suc g" by (cases f) auto
  then show ?case by simp
next
  case (8 key v d)
  from 8(4) obtain g where f: "f = Suc g" by (cases f) auto
  let ?r = "benc_dict d @ CHR ''e'' # rest"
  let ?n = "int (length (benc_dict d)) + (1 + k)"
  from 8(3) have key: "cstr key = key" "int (length key) < 2 ^ 63" by auto
  obtain c cs where c: "benc_str key = c # cs" "isdigit c" using benc_str_hd by blast
  have "2 * length (benc_dict d) + 2 \<le> g"
    using 8(4) f by (cases "benc v") auto
  then have "be_decode_dict g ?r ?n = Inr (Some d, rest, k)"
    using 8(2) [of g k rest] 8(3-5) f by simp
  moreover have "be_decode_node g (benc v @ ?r) (int (length (benc v)) + ?n) = Inr (Some v, ?r, ?n)"
    using 8(1) [of g ?n ?r] 8(3-5) f by simp
  moreover have "be_decode_str (benc_str key @ benc v @ ?r)
      (int (length (benc_str key)) + (int (length (benc v)) + ?n)) =
      Inr (Some key, benc v @ ?r, int (length (benc v)) + ?n)"
    using 8(5) by (intro be_decode_str_benc [OF key(2)]) simp
  ultimately show ?case using c isdigit_not [OF c(2)] key(1) by (simp add: f add.assoc)
qed

text \<open>A list whose closing byte is missing is read past the end of its buffer.\<close>

lemma be_decode_list_unclosed:
  "wf_list l \<Longrightarrow> 2 * length (benc_list l) + 2 \<le> f \<Longrightarrow>
   be_decode_list f (benc_list l) (int (length (benc_list l))) = Inl OutOfBounds"
proof (induction l arbitrary: f)
  case Nil
  then show ?case by (cases f) auto
next
  case (Cons v l)
  then obtain g where f: "f = Suc g" by (cases f) auto
  obtain c cs where c: "benc v = c # cs" "c \<noteq> CHR ''e''" using benc_hd by blast
  have "2 * length (benc_list l) + 2 \<le> g"
    using Cons(3) f by (cases "benc v") auto
  then have "be_decode_list g (benc_list l) (int (length (benc_list l))) = Inl OutOfBounds"
    using Cons(1) [of g] Cons(2) by simp
  moreover have "be_decode_node g (benc v @ benc_list l) (int (length (benc v)) + int (length (benc_list l))) =
      Inr (Some v, benc_list l, int (length (benc_list l)))"
    using be_decode_benc(1) [of v g "int (length (benc_list l))" "benc_list l"] Cons(2,3) f by simp
  ultimately show ?case using c by (simp add: f add.assoc)
qed

section \<open>What a file holds: encode into a fresh buffer, decode its bytes\<close>

text \<open>
  \<open>be_encode_alloc\<close> is the sequence that \<^verbatim>\<open>dump_shrlist\<close> and
  \<^verbatim>\<open>save_senders\<close> share: measure the node, allocate one byte more, encode; the
  bytes are those that \<^verbatim>\<open>fwrite\<close> gets. The contents of fresh memory are a
  parameter.
\<close>

definition be_encode_alloc :: "(nat \<Rightarrow> string) \<Rightarrow> be_node \<Rightarrow> (string \<times> nat) res" where
  "be_encode_alloc garbage root =
     (let blen = be_node_len root + 1 in
      r_bind (chk32 (int blen)) (\<lambda>len.
      r_bind (be_encode root (garbage blen) 0 len) (\<lambda>(msg, blen). Inr (take blen msg, blen))))"

lemma be_encode_alloc_benc:
  assumes "\<And>n. length (garbage n) = n" and "length (benc v) < 2 ^ 31 - 1"
  shows "be_encode_alloc garbage v = Inr (benc v, length (benc v))"
proof -
  let ?n = "length (benc v) + 1"
  obtain mem' where "be_encode v (garbage ?n) 0 (int ?n) = Inr (mem', length (benc v))"
    "writes (garbage ?n) 0 (benc v) mem'"
    using be_encode_writes(1) [of 0 v "garbage ?n" "int ?n"] assms by auto
  moreover have "chk32 (int ?n) = Inr (int ?n)" using assms(2) by (simp add: in_i32_def)
  ultimately show ?thesis
    by (simp add: be_encode_alloc_def be_node_len_benc Let_def writes_def)
qed

lemma be_decoden_benc:
  "wf_node v \<Longrightarrow> be_decoden (benc v) (int (length (benc v))) = Inr (Some v)"
  using be_decode_benc(1) [of v "2 * length (benc v) + 1" 0 "[]"] by (simp add: be_decoden_def)

section \<open>Properties\<close>

text \<open>
  C25 (safety): encoding any node into an allocation of \<^verbatim>\<open>be_node_len + 1\<close> bytes,
  as the callers do, writes inside of the allocation only, returns \<^verbatim>\<open>be_node_len\<close>
  and leaves exactly the encoding in the buffer: the size computation and the writer agree
  on every node, strings with NUL bytes and keys that are cut at their first NUL included.
\<close>

theorem be_encode_fits:
  assumes "length mem = be_node_len v + 1" and "be_node_len v + 1 < 2 ^ 31"
  shows "\<exists>mem'. be_encode v mem 0 (int (be_node_len v + 1)) = Inr (mem', be_node_len v) \<and>
    length mem' = length mem \<and> take (be_node_len v) mem' = benc v"
proof -
  from assms have "0 + length (benc v) < length mem" "int (length (benc v)) < int (be_node_len v + 1)"
    "int (be_node_len v + 1) < 2 ^ 31"
    by (simp_all add: be_node_len_benc)
  from be_encode_writes(1) [OF this] show ?thesis
    by (auto simp: be_node_len_benc writes_def)
qed

theorem be_encode_fits_witness:
  "\<exists>mem'. be_encode (BE_DICT [(''a'', BE_LIST [BE_INT (- 7), BE_STR (Some ''x'')])]) (replicate 15 NUL) 0 15 =
      Inr (mem', 14) \<and> take 14 mem' = ''d1:ali-7e1:xee''"
proof -
  let ?v = "BE_DICT [(''a'', BE_LIST [BE_INT (- 7), BE_STR (Some ''x'')])]"
  have "be_node_len ?v = 14"
    by (simp add: NumDigits_def show_int_def show_nat.simps be_str_len_def cstr_def)
  moreover have "benc ?v = ''d1:ali-7e1:xee''"
    by code_simp
  ultimately show ?thesis
    using be_encode_fits [of "replicate 15 NUL" ?v] by auto
qed

text \<open>
  C17 (roundtrip): the bytes that the program writes for a node with non-null strings,
  64-bit integers and C strings as keys decode to the same node, at the exact length,
  with no byte read outside of them.
\<close>

theorem be_roundtrip:
  assumes "wf_node v" and "be_node_len v + 1 < 2 ^ 31" and "\<And>n. length (garbage n) = n"
  shows "r_bind (be_encode_alloc garbage v) (\<lambda>(msg, blen). be_decoden msg (int blen)) = Inr (Some v)"
proof -
  from assms(2) have "length (benc v) < 2 ^ 31 - 1" by (simp add: be_node_len_benc)
  from be_encode_alloc_benc [OF assms(3) this] be_decoden_benc [OF assms(1)]
  show ?thesis by simp
qed

theorem be_roundtrip_witness:
  "r_bind (be_encode_alloc (\<lambda>n. replicate n NUL) (BE_LIST [BE_INT (- 7), BE_STR (Some [NUL])]))
     (\<lambda>(msg, blen). be_decoden msg (int blen)) = Inr (Some (BE_LIST [BE_INT (- 7), BE_STR (Some [NUL])]))"
  by (rule be_roundtrip)
    (simp_all add: in_i64_def NumDigits_def show_int_def show_nat.simps be_str_len_def)

text \<open>
  A file that holds a list without its closing byte makes the decoder read
  past the buffer, which \<^verbatim>\<open>be_node_loadfile\<close> allocates without a terminator.
\<close>

theorem be_decoden_unclosed_list:
  assumes "wf_list l"
  shows "be_decoden (''l'' @ benc_list l) (int (length (''l'' @ benc_list l))) = Inl OutOfBounds"
  using be_decode_list_unclosed [OF assms, of "2 * length (benc_list l) + 2"]
  by (simp add: be_decoden_def)

theorem be_decoden_unclosed_list_witness:
  "be_decoden (''l'' @ benc_list [BE_INT 1, BE_LIST []]) (int (length (''l'' @ benc_list [BE_INT 1, BE_LIST []]))) =
     Inl OutOfBounds"
  by (rule be_decoden_unclosed_list) (simp add: in_i64_def)

end
