(* ===== verification/Linux_List.thy ===== *)
theory Linux_List
  imports Prelude
begin

text \<open>
  \<^verbatim>\<open>src/list.h\<close>: the circular doubly linked list that every queue and registry of
  the program is made of. The links of all list cells are two functions from addresses to
  addresses; every operation is the sequence of assignments that the C function makes, in
  its order. The representation predicate \<open>dlist\<close> says that a head and its entries form a
  list; the lemmas show that every operation acts on \<open>dlist\<close> as a list function, which is
  the contract \<open>intrusive_list\<close> the other components rely on.
\<close>

section \<open>Cells and the assignments\<close>

type_synonym addr = nat

record links =
  nxt :: "addr \<Rightarrow> addr"
  prv :: "addr \<Rightarrow> addr"

definition set_next :: "addr \<Rightarrow> addr \<Rightarrow> links \<Rightarrow> links" where
  "set_next p q h = h\<lparr>nxt := (nxt h)(p := q)\<rparr>"

definition set_prev :: "addr \<Rightarrow> addr \<Rightarrow> links \<Rightarrow> links" where
  "set_prev p q h = h\<lparr>prv := (prv h)(p := q)\<rparr>"

abbreviation LIST_POISON1 :: addr where "LIST_POISON1 \<equiv> 0x00100100"
abbreviation LIST_POISON2 :: addr where "LIST_POISON2 \<equiv> 0x00200200"

section \<open>Operations\<close>

definition INIT_LIST_HEAD :: "addr \<Rightarrow> links \<Rightarrow> links" where
  "INIT_LIST_HEAD list h = (let h = set_next list list h in set_prev list list h)"

definition list_add_between :: "addr \<Rightarrow> addr \<Rightarrow> addr \<Rightarrow> links \<Rightarrow> links" where
  "list_add_between new prev next h =
     (let h = set_prev next new h; h = set_next new next h; h = set_prev new prev h
      in set_next prev new h)"

definition list_add :: "addr \<Rightarrow> addr \<Rightarrow> links \<Rightarrow> links" where
  "list_add new head h = list_add_between new head (nxt h head) h"

definition list_add_tail :: "addr \<Rightarrow> addr \<Rightarrow> links \<Rightarrow> links" where
  "list_add_tail new head h = list_add_between new (prv h head) head h"

definition list_del_between :: "addr \<Rightarrow> addr \<Rightarrow> links \<Rightarrow> links" where
  "list_del_between prev next h = (let h = set_prev next prev h in set_next prev next h)"

definition list_del_entry :: "addr \<Rightarrow> links \<Rightarrow> links" where
  "list_del_entry entry h = list_del_between (prv h entry) (nxt h entry) h"

definition list_del :: "addr \<Rightarrow> links \<Rightarrow> links" where
  "list_del entry h =
     (let h = list_del_between (prv h entry) (nxt h entry) h; h = set_next entry LIST_POISON1 h
      in set_prev entry LIST_POISON2 h)"

definition list_replace :: "addr \<Rightarrow> addr \<Rightarrow> links \<Rightarrow> links" where
  "list_replace old new h =
     (let h = set_next new (nxt h old) h; h = set_prev (nxt h new) new h;
          h = set_prev new (prv h old) h
      in set_next (prv h new) new h)"

definition list_replace_init :: "addr \<Rightarrow> addr \<Rightarrow> links \<Rightarrow> links" where
  "list_replace_init old new h = INIT_LIST_HEAD old (list_replace old new h)"

definition list_del_init :: "addr \<Rightarrow> links \<Rightarrow> links" where
  "list_del_init entry h = INIT_LIST_HEAD entry (list_del_entry entry h)"

definition list_move :: "addr \<Rightarrow> addr \<Rightarrow> links \<Rightarrow> links" where
  "list_move list head h = list_add list head (list_del_entry list h)"

definition list_move_tail :: "addr \<Rightarrow> addr \<Rightarrow> links \<Rightarrow> links" where
  "list_move_tail list head h = list_add_tail list head (list_del_entry list h)"

definition list_is_last :: "addr \<Rightarrow> addr \<Rightarrow> links \<Rightarrow> bool" where
  "list_is_last list head h \<longleftrightarrow> nxt h list = head"

definition list_empty :: "addr \<Rightarrow> links \<Rightarrow> bool" where
  "list_empty head h \<longleftrightarrow> nxt h head = head"

definition list_empty_careful :: "addr \<Rightarrow> links \<Rightarrow> bool" where
  "list_empty_careful head h = (let next = nxt h head in next = head \<and> next = prv h head)"

definition list_rotate_left :: "addr \<Rightarrow> links \<Rightarrow> links" where
  "list_rotate_left head h =
     (if \<not> list_empty head h then let first = nxt h head in list_move_tail first head h else h)"

definition list_is_singular :: "addr \<Rightarrow> links \<Rightarrow> bool" where
  "list_is_singular head h \<longleftrightarrow> \<not> list_empty head h \<and> nxt h head = prv h head"

definition list_cut_position_raw :: "addr \<Rightarrow> addr \<Rightarrow> addr \<Rightarrow> links \<Rightarrow> links" where
  "list_cut_position_raw list head entry h =
     (let new_first = nxt h entry;
          h = set_next list (nxt h head) h; h = set_prev (nxt h list) list h;
          h = set_prev list entry h; h = set_next entry list h;
          h = set_next head new_first h
      in set_prev new_first head h)"

definition list_cut_position :: "addr \<Rightarrow> addr \<Rightarrow> addr \<Rightarrow> links \<Rightarrow> links" where
  "list_cut_position list head entry h =
     (if list_empty head h then h
      else if list_is_singular head h \<and> nxt h head \<noteq> entry \<and> head \<noteq> entry then h
      else if entry = head then INIT_LIST_HEAD list h
      else list_cut_position_raw list head entry h)"

definition list_splice_between :: "addr \<Rightarrow> addr \<Rightarrow> addr \<Rightarrow> links \<Rightarrow> links" where
  "list_splice_between list prev next h =
     (let first = nxt h list; last = prv h list;
          h = set_prev first prev h; h = set_next prev first h; h = set_next last next h
      in set_prev next last h)"

definition list_splice :: "addr \<Rightarrow> addr \<Rightarrow> links \<Rightarrow> links" where
  "list_splice list head h =
     (if \<not> list_empty list h then list_splice_between list head (nxt h head) h else h)"

definition list_splice_tail :: "addr \<Rightarrow> addr \<Rightarrow> links \<Rightarrow> links" where
  "list_splice_tail list head h =
     (if \<not> list_empty list h then list_splice_between list (prv h head) head h else h)"

definition list_splice_init :: "addr \<Rightarrow> addr \<Rightarrow> links \<Rightarrow> links" where
  "list_splice_init list head h =
     (if \<not> list_empty list h
      then INIT_LIST_HEAD list (list_splice_between list head (nxt h head) h) else h)"

definition list_splice_tail_init :: "addr \<Rightarrow> addr \<Rightarrow> links \<Rightarrow> links" where
  "list_splice_tail_init list head h =
     (if \<not> list_empty list h
      then INIT_LIST_HEAD list (list_splice_between list (prv h head) head h) else h)"

section \<open>Representation\<close>

text \<open>\<open>chain h a xs b\<close>: the links lead from \<open>a\<close> through \<open>xs\<close> to \<open>b\<close>, and back.\<close>

fun chain :: "links \<Rightarrow> addr \<Rightarrow> addr list \<Rightarrow> addr \<Rightarrow> bool" where
  "chain h a [] b \<longleftrightarrow> nxt h a = b \<and> prv h b = a"
| "chain h a (x # xs) b \<longleftrightarrow> nxt h a = x \<and> prv h x = a \<and> chain h x xs b"

definition dlist :: "links \<Rightarrow> addr \<Rightarrow> addr list \<Rightarrow> bool" where
  "dlist h head xs \<longleftrightarrow> distinct (head # xs) \<and> chain h head xs head"

lemma set_links [simp]:
  "nxt (set_next p q h) = (nxt h)(p := q)" "prv (set_next p q h) = prv h"
  "nxt (set_prev p q h) = nxt h" "prv (set_prev p q h) = (prv h)(p := q)"
  by (simp_all add: set_next_def set_prev_def)

lemma chain_append:
  "chain h a (xs @ y # ys) b \<longleftrightarrow> chain h a xs y \<and> chain h y ys b"
  by (induction xs arbitrary: a) auto

lemma chain_nxt: "chain h a xs b \<Longrightarrow> nxt h a = hd (xs @ [b])"
  by (cases xs) auto

lemma chain_prv: "chain h a xs b \<Longrightarrow> prv h b = last (a # xs)"
  by (induction xs arbitrary: a) auto

text \<open>A chain depends on the forward links of its sources and the backward links of its targets.\<close>

lemma chain_frame:
  "\<lbrakk>chain h a xs b; \<forall>p\<in>set (a # xs). nxt h' p = nxt h p; \<forall>p\<in>set (xs @ [b]). prv h' p = prv h p\<rbrakk>
   \<Longrightarrow> chain h' a xs b"
  by (induction xs arbitrary: a) auto

lemma dlist_frame:
  assumes "dlist h head xs" "\<forall>p\<in>set (head # xs). nxt h' p = nxt h p \<and> prv h' p = prv h p"
  shows "dlist h' head xs"
  using assms chain_frame [of h head xs head h'] by (auto simp: dlist_def)

text \<open>Both directions: the list read backwards from the head is the reverse.\<close>

lemma dlist_distinct: "dlist h head xs \<Longrightarrow> distinct xs \<and> head \<notin> set xs"
  by (simp add: dlist_def)

lemma dlist_nxt_head: "dlist h head xs \<Longrightarrow> nxt h head = hd (xs @ [head])"
  by (auto simp: dlist_def dest: chain_nxt)

lemma dlist_prv_head: "dlist h head xs \<Longrightarrow> prv h head = last (head # xs)"
  by (auto simp: dlist_def dest: chain_prv)

lemma dlist_split:
  "dlist h head (us @ x # vs) \<longleftrightarrow>
     distinct (head # us @ x # vs) \<and> chain h head us x \<and> chain h x vs head"
  by (auto simp: dlist_def chain_append)

lemma dlist_nxt: "dlist h head (us @ x # vs) \<Longrightarrow> nxt h x = hd (vs @ [head])"
  by (auto simp: dlist_split dest: chain_nxt)

lemma dlist_prv: "dlist h head (us @ x # vs) \<Longrightarrow> prv h x = last (head # us)"
  by (auto simp: dlist_split dest: chain_prv)

lemma dlist_empty: "dlist h head xs \<Longrightarrow> list_empty head h \<longleftrightarrow> xs = []"
  by (cases xs) (auto simp: list_empty_def dlist_def)

section \<open>Insertion and removal\<close>

lemma dlist_INIT: "dlist (INIT_LIST_HEAD list h) list []"
  by (simp add: INIT_LIST_HEAD_def dlist_def)

text \<open>
  Insertion between neighbours. The chain up to the next cell gets the new cell as its
  last; the chain from there on is not touched.
\<close>

lemma chain_insert_snoc:
  assumes "chain h a us n" "distinct (a # us)" "new \<notin> set (a # us)" "new \<noteq> n" "n \<notin> set us"
  shows "chain (list_add_between new (last (a # us)) n h) a (us @ [new]) n"
  using assms
proof (induction us arbitrary: a)
  case Nil
  then show ?case by (auto simp: list_add_between_def)
next
  case (Cons x us)
  then have "chain (list_add_between new (last (x # us)) n h) x (us @ [new]) n" by auto
  moreover have "last (x # us) \<noteq> a" using Cons.prems by (metis distinct.simps(2) last_in_set list.discI)
  ultimately show ?case using Cons.prems by (auto simp: list_add_between_def Let_def)
qed

lemma dlist_insert:
  assumes d: "dlist h head (us @ vs)" and new: "new \<notin> set (head # us @ vs)"
    and p: "p = last (head # us)" and n: "n = hd (vs @ [head])"
  shows "dlist (list_add_between new p n h) head (us @ new # vs)"
proof (cases vs)
  case Nil
  with d new p n show ?thesis
    using chain_insert_snoc [of h head us head new] by (simp add: dlist_def)
next
  case (Cons v ws)
  let ?h' = "list_add_between new p n h"
  from d Cons have parts: "distinct (head # us @ v # ws)" "chain h head us v" "chain h v ws head"
    by (auto simp: dlist_split)
  have n: "n = v" using n Cons by simp
  from chain_insert_snoc [of h head us v new] parts new p n Cons
  have "chain ?h' head (us @ [new]) v" by auto
  moreover have "p \<noteq> v" "p \<notin> set ws"
  proof -
    have "p \<in> set (head # us)" using p by (metis last_in_set list.discI)
    with parts(1) show "p \<noteq> v" "p \<notin> set ws" by auto
  qed
  then have "chain ?h' v ws head"
    using parts new n Cons
    by (intro chain_frame [OF parts(3)]) (auto simp: list_add_between_def Let_def)
  ultimately show ?thesis using parts(1) new Cons by (auto simp: dlist_def chain_append)
qed

lemma dlist_add:
  assumes "dlist h head xs" "new \<notin> set (head # xs)"
  shows "dlist (list_add new head h) head (new # xs)"
  using dlist_insert [of h head "[]" xs new] assms dlist_nxt_head [OF assms(1)]
  by (simp add: list_add_def)

lemma dlist_add_tail:
  assumes "dlist h head xs" "new \<notin> set (head # xs)"
  shows "dlist (list_add_tail new head h) head (xs @ [new])"
  using dlist_insert [of h head xs "[]" new] assms dlist_prv_head [OF assms(1)]
  by (simp add: list_add_tail_def)

text \<open>\<^verbatim>\<open>list_add_tail\<close> at an entry instead of the head inserts before that entry.\<close>

lemma dlist_add_before:
  assumes "dlist h head (us @ x # vs)" "new \<notin> set (head # us @ x # vs)"
  shows "dlist (list_add_tail new x h) head (us @ new # x # vs)"
  using dlist_insert [of h head us "x # vs" new] assms dlist_prv [OF assms(1)]
  by (simp add: list_add_tail_def)

text \<open>Removal joins the chains before and after the entry.\<close>

lemma chain_join:
  assumes "chain h a us x" "chain h x vs b" "distinct (a # us @ x # vs)" "b \<notin> set (us @ x # vs)"
  shows "chain (list_del_entry x h) a (us @ vs) b"
  using assms
proof (induction us arbitrary: a)
  case Nil
  then have x: "nxt h a = x" "prv h x = a" by simp_all
  show ?case
  proof (cases vs)
    case Nil
    then show ?thesis using x \<open>chain h x vs b\<close>
      by (auto simp: list_del_entry_def list_del_between_def Let_def)
  next
    case (Cons v ws)
    with \<open>chain h x vs b\<close> have "nxt h x = v" "chain h v ws b" by simp_all
    moreover have "chain (list_del_entry x h) v ws b"
      using Nil.prems Cons x \<open>nxt h x = v\<close>
      by (intro chain_frame [OF \<open>chain h v ws b\<close>])
        (auto simp: list_del_entry_def list_del_between_def Let_def)
    ultimately show ?thesis using Cons x
      by (auto simp: list_del_entry_def list_del_between_def Let_def)
  qed
next
  case (Cons u us)
  then have "chain (list_del_entry x h) u (us @ vs) b" by auto
  moreover have "prv h x = last (u # us)" using Cons.prems(1) chain_prv by auto
  then have "prv h x \<noteq> a" using Cons.prems(3)
    by (metis Un_iff distinct.simps(2) last_in_set list.discI set_append append_Cons)
  moreover have "nxt h x \<noteq> u" using chain_nxt [OF Cons.prems(2)] Cons.prems(3,4)
    by (cases vs) auto
  ultimately show ?case using Cons.prems
    by (auto simp: list_del_entry_def list_del_between_def Let_def)
qed

lemma dlist_del_entry:
  assumes "dlist h head (us @ x # vs)"
  shows "dlist (list_del_entry x h) head (us @ vs)"
  using assms chain_join [of h head us x vs head] by (auto simp: dlist_def chain_append)

text \<open>Writing to a cell outside of a list does not change the list.\<close>

lemma dlist_set_other:
  "dlist h head xs \<Longrightarrow> p \<notin> set (head # xs) \<Longrightarrow> dlist (set_next p q h) head xs"
  "dlist h head xs \<Longrightarrow> p \<notin> set (head # xs) \<Longrightarrow> dlist (set_prev p q h) head xs"
  by (auto intro!: dlist_frame [of h])

lemma dlist_del:
  assumes "dlist h head (us @ x # vs)"
  shows "dlist (list_del x h) head (us @ vs)"
proof -
  from assms have "x \<notin> set (head # us @ vs)" by (auto simp: dlist_def)
  then show ?thesis
    using dlist_del_entry [OF assms]
    by (simp add: list_del_def list_del_entry_def Let_def dlist_set_other)
qed

lemma dlist_del_init:
  assumes "dlist h head (us @ x # vs)"
  shows "dlist (list_del_init x h) head (us @ vs)" "dlist (list_del_init x h) x []"
proof -
  from assms have "x \<notin> set (head # us @ vs)" by (auto simp: dlist_def)
  then show "dlist (list_del_init x h) head (us @ vs)"
    using dlist_del_entry [OF assms]
    by (simp add: list_del_init_def INIT_LIST_HEAD_def Let_def dlist_set_other)
qed (simp add: list_del_init_def dlist_INIT)

text \<open>Moving an entry: removal, then insertion of a cell that is on no list any more.\<close>

lemma dlist_move:
  assumes "dlist h head (us @ x # vs)"
  shows "dlist (list_move x head h) head (x # us @ vs)"
proof -
  from assms have "x \<notin> set (head # us @ vs)" by (auto simp: dlist_def)
  from dlist_add [OF dlist_del_entry [OF assms] this] show ?thesis by (simp add: list_move_def)
qed

lemma dlist_move_tail:
  assumes "dlist h head (us @ x # vs)"
  shows "dlist (list_move_tail x head h) head (us @ vs @ [x])"
proof -
  from assms have "x \<notin> set (head # us @ vs)" by (auto simp: dlist_def)
  from dlist_add_tail [OF dlist_del_entry [OF assms] this] show ?thesis by (simp add: list_move_tail_def)
qed

lemma dlist_rotate_left:
  assumes "dlist h head xs"
  shows "dlist (list_rotate_left head h) head (rotate1 xs)"
proof (cases xs)
  case Nil
  with assms dlist_empty [OF assms] show ?thesis by (simp add: list_rotate_left_def)
next
  case (Cons x ys)
  with dlist_move_tail [of h head "[]" x ys] assms dlist_empty [OF assms] dlist_nxt_head [OF assms]
  show ?thesis by (simp add: list_rotate_left_def Let_def)
qed

lemma dlist_is_singular:
  assumes "dlist h head xs"
  shows "list_is_singular head h \<longleftrightarrow> length xs = 1"
proof (cases xs)
  case Nil
  with dlist_empty [OF assms] show ?thesis by (simp add: list_is_singular_def)
next
  case (Cons x ys)
  have "x = last (x # ys) \<longleftrightarrow> ys = []"
    using assms Cons by (cases ys rule: rev_cases) (auto simp: dlist_def)
  with Cons dlist_empty [OF assms] dlist_nxt_head [OF assms] dlist_prv_head [OF assms]
  show ?thesis by (simp add: list_is_singular_def)
qed

lemma dlist_is_last:
  assumes "dlist h head (us @ x # vs)"
  shows "list_is_last x head h \<longleftrightarrow> vs = []"
  using assms dlist_nxt [OF assms] by (cases vs) (auto simp: list_is_last_def dlist_def)

text \<open>
  Redirecting the last link of a chain to another target, and letting a chain start from
  another cell: what replacing, splicing and cutting do to the chains on both sides.
\<close>

lemma chain_retarget:
  assumes "chain h a us n" "distinct (a # us)"
    and "\<forall>q\<in>set (a # us) - {last (a # us)}. nxt h' q = nxt h q" "\<forall>q\<in>set us. prv h' q = prv h q"
    and "nxt h' (last (a # us)) = f" "prv h' f = last (a # us)"
  shows "chain h' a us f"
  using assms
proof (induction us arbitrary: a)
  case (Cons x us)
  have "last (x # us) \<noteq> a" using Cons.prems(2) by (metis distinct.simps(2) last_in_set list.discI)
  then show ?case using Cons by auto
qed auto

lemma chain_resource:
  assumes "chain h x vs b" "nxt h' y = hd (vs @ [b])" "prv h' (hd (vs @ [b])) = y"
    and "\<forall>q\<in>set vs. nxt h' q = nxt h q" "\<forall>q\<in>set (tl (vs @ [b])). prv h' q = prv h q"
  shows "chain h' y vs b"
proof (cases vs)
  case (Cons v ws)
  with assms have "chain h v ws b" by simp
  from chain_frame [OF this, of h'] assms Cons show ?thesis by simp
qed (use assms in auto)

lemma dlist_cut:
  assumes "dlist h head (us @ vs)"
  shows "chain h head us (hd (vs @ [head]))" "vs \<noteq> [] \<Longrightarrow> chain h (hd vs) (tl vs) head"
  using assms by (cases vs; auto simp: dlist_def chain_append)+

lemma dlist_replace:
  assumes d: "dlist h head (us @ x # vs)" and new: "new \<notin> set (head # us @ x # vs)"
  shows "dlist (list_replace x new h) head (us @ new # vs)"
proof -
  define n p where "n = hd (vs @ [head])" and "p = last (head # us)"
  define h' where "h' = list_replace x new h"
  have np: "nxt h x = n" "prv h x = p" using dlist_nxt [OF d] dlist_prv [OF d] by (auto simp: n_def p_def)
  have dist: "distinct (head # us @ x # vs)" and cu: "chain h head us x" and cv: "chain h x vs head"
    using d by (auto simp: dlist_split)
  have nin: "n \<in> set (head # vs)" by (cases vs) (auto simp: n_def)
  have pin: "p \<in> set (head # us)" using last_in_set [of "head # us"] by (simp add: p_def)
  have ne: "n \<noteq> x" "n \<noteq> new" "p \<noteq> x" "p \<noteq> new" using nin pin dist new by auto
  then have N: "nxt h' = ((nxt h)(new := n))(p := new)" and P: "prv h' = ((prv h)(n := new))(new := p)"
    using new by (auto simp: h'_def list_replace_def Let_def np fun_eq_iff)
  have out: "n \<notin> set us" "p \<notin> set vs" "n \<notin> set (tl (vs @ [head]))"
    using nin pin dist by (cases vs; auto simp: n_def)+
  have "chain h' head us new"
  proof (rule chain_retarget [OF cu])
    show "\<forall>q\<in>set (head # us) - {last (head # us)}. nxt h' q = nxt h q"
      using new by (auto simp: N p_def)
  qed (use dist new ne out in \<open>auto simp: N P p_def [symmetric] simp del: last.simps\<close>)
  moreover have "chain h' new vs head"
  proof (rule chain_resource [OF cv])
    show "\<forall>q\<in>set (tl (vs @ [head])). prv h' q = prv h q"
      using new out by (cases vs) (auto simp: P)
  qed (use new ne out in \<open>auto simp: N P n_def [symmetric]\<close>)
  ultimately show ?thesis using dist new by (auto simp: dlist_def chain_append h'_def)
qed

section \<open>Splicing and cutting\<close>

text \<open>
  Joining a list into another one: the chain of its entries is put between two
  neighbouring cells of the other list.
\<close>

lemma dlist_splice_between:
  assumes d: "dlist h head (us @ vs)" and l: "dlist h list ys" and ne: "ys \<noteq> []"
    and disj: "set (head # us @ vs) \<inter> set (list # ys) = {}"
    and p: "p = last (head # us)" and n: "n = hd (vs @ [head])"
  shows "dlist (list_splice_between list p n h) head (us @ ys @ vs)"
proof -
  obtain f fs where ys: "ys = f # fs" using ne by (cases ys) auto
  define e where "e = last (f # fs)"
  have first: "nxt h list = f" and last: "prv h list = e"
    using dlist_nxt_head [OF l] dlist_prv_head [OF l] ys by (auto simp: e_def)
  define h' where "h' = list_splice_between list p n h"
  have N: "nxt h' = ((nxt h)(p := f))(e := n)" and P: "prv h' = ((prv h)(f := p))(n := e)"
    by (auto simp: h'_def list_splice_between_def first last Let_def)
  have pin: "p \<in> set (head # us)" using p last_in_set [of "head # us"] by simp
  have nin: "n \<in> set (head # vs)" using n by (cases vs) auto
  have ein: "e \<in> set ys" using ys e_def last_in_set [of "f # fs"] by simp
  have dist: "distinct (head # us @ vs)" "distinct ys" "list \<notin> set ys"
    using d l by (auto simp: dlist_def)
  have cf: "chain h f fs list" using l ys by (simp add: dlist_def)
  have ep: "e \<noteq> p" "f \<noteq> n" "f \<noteq> p" "e \<noteq> n" using ein pin nin ys disj by auto
  have out: "n \<notin> set us" "f \<notin> set (head # us @ vs)" "e \<notin> set (head # us @ vs)" "p \<notin> set ys" "n \<notin> set ys"
    "p \<notin> set vs"
    using nin ein pin ys disj dist by auto
  have "chain h' head us f"
  proof (rule chain_retarget [OF dlist_cut(1) [OF d]])
    show "\<forall>q\<in>set (head # us) - {last (head # us)}. nxt h' q = nxt h q"
      using out by (auto simp: N p)
    show "\<forall>q\<in>set us. prv h' q = prv h q" using out by (auto simp: P)
  qed (use dist ep in \<open>simp_all add: N P p [symmetric] del: last.simps\<close>)
  moreover have "chain h' f fs n"
  proof (rule chain_retarget [OF cf])
    show "\<forall>q\<in>set (f # fs) - {last (f # fs)}. nxt h' q = nxt h q"
      using out ys by (auto simp: N e_def)
    show "\<forall>q\<in>set fs. prv h' q = prv h q" using out ys dist by (auto simp: P)
  qed (use dist ys ep in \<open>simp_all add: N P e_def [symmetric] del: last.simps\<close>)
  moreover have "chain h' (hd vs) (tl vs) head" if "vs \<noteq> []"
  proof (rule chain_frame [OF dlist_cut(2) [OF d that]])
    show "\<forall>q\<in>set (hd vs # tl vs). nxt h' q = nxt h q"
      using that out by (cases vs) (auto simp: N)
    show "\<forall>q\<in>set (tl vs @ [head]). prv h' q = prv h q"
      using that n dist out by (cases vs) (auto simp: P)
  qed
  moreover have "distinct (head # us @ ys @ vs)" using dist disj by auto
  ultimately show ?thesis using ys n
    by (cases vs) (simp_all add: dlist_def chain_append h'_def)
qed

lemma dlist_splice:
  assumes "dlist h head xs" "dlist h list ys" "set (head # xs) \<inter> set (list # ys) = {}"
  shows "dlist (list_splice list head h) head (ys @ xs)"
  using dlist_splice_between [of h head "[]" xs list ys] assms dlist_empty [OF assms(2)]
    dlist_nxt_head [OF assms(1)]
  by (cases ys) (auto simp: list_splice_def)

lemma dlist_splice_tail:
  assumes "dlist h head xs" "dlist h list ys" "set (head # xs) \<inter> set (list # ys) = {}"
  shows "dlist (list_splice_tail list head h) head (xs @ ys)"
  using dlist_splice_between [of h head xs "[]" list ys] assms dlist_empty [OF assms(2)]
    dlist_prv_head [OF assms(1)]
  by (cases ys) (auto simp: list_splice_tail_def)

lemma dlist_INIT_other: "dlist h head xs \<Longrightarrow> p \<notin> set (head # xs) \<Longrightarrow> dlist (INIT_LIST_HEAD p h) head xs"
  by (simp add: INIT_LIST_HEAD_def Let_def dlist_set_other)

lemma dlist_splice_init:
  assumes "dlist h head xs" "dlist h list ys" "set (head # xs) \<inter> set (list # ys) = {}"
  shows "dlist (list_splice_init list head h) head (ys @ xs)" "dlist (list_splice_init list head h) list []"
proof -
  have "list \<notin> set (head # ys @ xs)" using assms(2,3) by (auto simp: dlist_def)
  from dlist_INIT_other [OF dlist_splice [OF assms] this] assms dlist_empty [OF assms(2)]
  show "dlist (list_splice_init list head h) head (ys @ xs)"
    "dlist (list_splice_init list head h) list []"
    by (cases "ys = []"; simp add: list_splice_init_def list_splice_def dlist_INIT)+
qed

lemma dlist_splice_tail_init:
  assumes "dlist h head xs" "dlist h list ys" "set (head # xs) \<inter> set (list # ys) = {}"
  shows "dlist (list_splice_tail_init list head h) head (xs @ ys)"
    "dlist (list_splice_tail_init list head h) list []"
proof -
  have "list \<notin> set (head # xs @ ys)" using assms(2,3) by (auto simp: dlist_def)
  from dlist_INIT_other [OF dlist_splice_tail [OF assms] this] assms dlist_empty [OF assms(2)]
  show "dlist (list_splice_tail_init list head h) head (xs @ ys)"
    "dlist (list_splice_tail_init list head h) list []"
    by (cases "ys = []"; simp add: list_splice_tail_init_def list_splice_tail_def dlist_INIT)+
qed

lemma dlist_cut_position:
  assumes d: "dlist h head (us @ x # vs)" and new: "list \<notin> set (head # us @ x # vs)"
  shows "dlist (list_cut_position list head x h) list (us @ [x])"
    "dlist (list_cut_position list head x h) head vs"
proof -
  define f n where "f = hd (us @ [x])" and "n = hd (vs @ [head])"
  define h' where "h' = list_cut_position list head x h"
  have dist: "distinct (head # us @ x # vs)" and cu: "chain h head us x" and cv: "chain h x vs head"
    using d by (auto simp: dlist_split)
  have fn: "nxt h head = f" "nxt h x = n"
    using dlist_nxt [OF d] dlist_nxt_head [OF d] by (cases us; auto simp: f_def n_def)+
  have "list_empty head h \<longleftrightarrow> False" using dlist_empty [OF d] by simp
  moreover have "list_is_singular head h \<Longrightarrow> nxt h head = x"
    using dlist_is_singular [OF d] fn by (auto simp: f_def)
  moreover have "x \<noteq> head" using dist by auto
  ultimately have h': "h' = list_cut_position_raw list head x h"
    by (auto simp: h'_def list_cut_position_def)
  have fin: "f \<in> set (us @ [x])" by (cases us) (auto simp: f_def)
  have nin: "n \<in> set (head # vs)" by (cases vs) (auto simp: n_def)
  have ne: "f \<noteq> list" "n \<noteq> list" "f \<noteq> head" "n \<noteq> x" "n \<noteq> f" "x \<noteq> head" "list \<noteq> x" "list \<noteq> head"
    using fin nin dist new by auto
  then have N: "nxt h' = ((nxt h)(list := f, x := list))(head := n)"
    and P: "prv h' = ((prv h)(f := list))(list := x, n := head)"
    by (auto simp: h' list_cut_position_raw_def Let_def fn fun_eq_iff)
  have out: "n \<notin> set (us @ [x])" "f \<notin> set vs"
    "f \<notin> set (tl (us @ [x]))" "n \<notin> set (tl (vs @ [head]))"
    using fin nin dist by (cases us; cases vs; force simp: f_def n_def)+
  have "chain h' list us x"
  proof (rule chain_resource [OF cu])
    show "\<forall>q\<in>set us. nxt h' q = nxt h q" using dist new by (auto simp: N)
    show "\<forall>q\<in>set (tl (us @ [x])). prv h' q = prv h q"
      using out new by (cases us) (auto simp: P)
  qed (use ne in \<open>simp_all add: N P f_def [symmetric]\<close>)
  then have "chain h' list (us @ [x]) list" using ne by (simp add: chain_append N P)
  then show "dlist h' list (us @ [x])" using dist new by (auto simp: dlist_def)
  have "chain h' head vs head"
  proof (rule chain_resource [OF cv])
    show "\<forall>q\<in>set vs. nxt h' q = nxt h q" using dist new by (auto simp: N)
    show "\<forall>q\<in>set (tl (vs @ [head])). prv h' q = prv h q"
      using out new dist ne by (cases vs) (auto simp: P)
  qed (use ne in \<open>simp_all add: N P n_def [symmetric]\<close>)
  then show "dlist h' head vs" using dist by (auto simp: dlist_def)
qed

section \<open>Iteration\<close>

text \<open>
  \<^verbatim>\<open>list_for_each\<close> and \<^verbatim>\<open>list_for_each_prev\<close>: the cursors that the
  loop visits. On links that do not lead back to the head the loop does not end.
\<close>

partial_function (option) for_each_from :: "(addr \<Rightarrow> addr) \<Rightarrow> addr \<Rightarrow> addr \<Rightarrow> addr list option" where
  "for_each_from step head pos =
     (if pos = head then Some []
      else Option.bind (for_each_from step head (step pos)) (\<lambda>ps. Some (pos # ps)))"

definition list_for_each :: "addr \<Rightarrow> links \<Rightarrow> addr list option" where
  "list_for_each head h = for_each_from (nxt h) head (nxt h head)"

definition list_for_each_prev :: "addr \<Rightarrow> links \<Rightarrow> addr list option" where
  "list_for_each_prev head h = for_each_from (prv h) head (prv h head)"

text \<open>
  \<^verbatim>\<open>list_for_each_safe\<close>: the successor is fetched before the body runs, so that
  the body may remove the cursor. The body works on a state that holds the links.
\<close>

partial_function (option) for_each_safe_from ::
  "('s \<Rightarrow> links) \<Rightarrow> (addr \<Rightarrow> 's \<Rightarrow> 's) \<Rightarrow> addr \<Rightarrow> addr \<Rightarrow> addr \<Rightarrow> 's \<Rightarrow> 's option" where
  "for_each_safe_from lk body head pos n s =
     (if pos = head then Some s
      else let s = body pos s in for_each_safe_from lk body head n (nxt (lk s) n) s)"

definition list_for_each_safe ::
  "('s \<Rightarrow> links) \<Rightarrow> (addr \<Rightarrow> 's \<Rightarrow> 's) \<Rightarrow> addr \<Rightarrow> 's \<Rightarrow> 's option" where
  "list_for_each_safe lk body head s =
     (let pos = nxt (lk s) head in for_each_safe_from lk body head pos (nxt (lk s) pos) s)"

lemma for_each_chain:
  "chain h a xs head \<Longrightarrow> head \<notin> set xs \<Longrightarrow> for_each_from (nxt h) head (nxt h a) = Some xs"
proof (induction xs arbitrary: a)
  case Nil
  then show ?case by (simp add: for_each_from.simps)
next
  case (Cons x xs)
  then have "for_each_from (nxt h) head (nxt h x) = Some xs" by simp
  with Cons.prems show ?case by (simp add: for_each_from.simps [of _ _ x])
qed

lemma for_each_prev_chain:
  "chain h head xs b \<Longrightarrow> head \<notin> set xs \<Longrightarrow> for_each_from (prv h) head (prv h b) = Some (rev xs)"
proof (induction xs arbitrary: b rule: rev_induct)
  case Nil
  then show ?case by (simp add: for_each_from.simps)
next
  case (snoc x xs)
  then have "chain h head xs x" "prv h b = x" by (simp_all add: chain_append)
  moreover from this snoc have "for_each_from (prv h) head (prv h x) = Some (rev xs)" by simp
  ultimately show ?case using snoc.prems by (simp add: for_each_from.simps [of _ _ x])
qed

lemma dlist_for_each: "dlist h head xs \<Longrightarrow> list_for_each head h = Some xs"
  by (simp add: list_for_each_def dlist_def for_each_chain)

lemma dlist_for_each_prev: "dlist h head xs \<Longrightarrow> list_for_each_prev head h = Some (rev xs)"
  by (simp add: list_for_each_prev_def dlist_def for_each_prev_chain)

text \<open>
  A loop over a list whose body removes the cursor or leaves the list alone ends, having
  visited every entry, with the entries that the body kept.
\<close>

lemma for_each_safe_filter:
  assumes body: "\<And>s us x vs. Inv s \<Longrightarrow> dlist (lk s) head (us @ x # vs) \<Longrightarrow> x \<in> A \<Longrightarrow>
      Inv (body x s) \<and> dlist (lk (body x s)) head (if rm x then us @ vs else us @ x # vs)"
  shows "Inv s \<Longrightarrow> dlist (lk s) head (us @ vs) \<Longrightarrow> set vs \<subseteq> A \<Longrightarrow>
    \<exists>s'. for_each_safe_from lk body head (hd (vs @ [head])) (nxt (lk s) (hd (vs @ [head]))) s = Some s' \<and>
      Inv s' \<and> dlist (lk s') head (us @ filter (\<lambda>x. \<not> rm x) vs)"
proof (induction vs arbitrary: us s)
  case Nil
  then show ?case by (simp add: for_each_safe_from.simps)
next
  case (Cons x vs)
  let ?s = "body x s"
  let ?us = "if rm x then us else us @ [x]"
  from body [OF Cons.prems(1,2)] Cons.prems(3)
  have b: "Inv ?s" "dlist (lk ?s) head (?us @ vs)" by (auto split: if_splits)
  from Cons.prems(2) have x: "x \<noteq> head" by (auto simp: dlist_def)
  from Cons.IH [OF b] Cons.prems(3) show ?case
    using x dlist_nxt [OF Cons.prems(2)]
    by (simp add: for_each_safe_from.simps [of _ _ _ x] Let_def split: if_splits)
qed

end
