(* ===== verification/Registry.thy ===== *)
theory Registry
  imports Linux_List
begin

text \<open>
  The contract between \<^verbatim>\<open>list.h\<close> and its clients, and the three loops that the
  clients write over it again and again: counting the entries
  (\<^verbatim>\<open>FileQueue_size\<close>, \<^verbatim>\<open>friends_info_number_of_friend\<close>), finding the
  first entry that satisfies a test (the \<^verbatim>\<open>*_by_*\<close> and \<^verbatim>\<open>*_get\<close>
  functions) and inserting in the order of a key (\<^verbatim>\<open>friend_info_add_entry\<close>,
  \<^verbatim>\<open>call_tester_add_entry\<close>). The loops are proved once, inside of the interface
  \<open>intrusive_list\<close>; the operations of \<open>Linux_List\<close> interpret it.
\<close>

section \<open>The loops\<close>

partial_function (option) count_entries :: "('p \<Rightarrow> 'p) \<Rightarrow> 'p \<Rightarrow> 'p \<Rightarrow> int \<Rightarrow> int option" where
  "count_entries step head pos i =
     (if pos = head then Some i else count_entries step head (step pos) (i + 1))"

partial_function (option) find_entry ::
  "('p \<Rightarrow> 'p) \<Rightarrow> ('p \<Rightarrow> bool) \<Rightarrow> 'p \<Rightarrow> 'p \<Rightarrow> 'p option option" where
  "find_entry step P head pos =
     (if pos = head then Some None
      else if P pos then Some (Some pos)
      else find_entry step P head (step pos))"

text \<open>
  Insert the new cell before the first entry with a greater key, at the tail if there is
  none.
\<close>

definition add_entry_sorted ::
  "('h \<Rightarrow> 'p \<Rightarrow> 'p) \<Rightarrow> ('p \<Rightarrow> 'p \<Rightarrow> 'h \<Rightarrow> 'h) \<Rightarrow> ('p \<Rightarrow> 'k :: linorder) \<Rightarrow> 'p \<Rightarrow> 'p \<Rightarrow> 'h \<Rightarrow> 'h option" where
  "add_entry_sorted step add_tail key new head h =
     map_option (\<lambda>r. case r of Some ptr \<Rightarrow> add_tail new ptr h | None \<Rightarrow> add_tail new head h)
       (find_entry (step h) (\<lambda>entry. key entry > key new) head (step h head))"

section \<open>Sorted insertion as a list function\<close>

definition reg_insert :: "('e \<Rightarrow> 'k :: linorder) \<Rightarrow> 'e \<Rightarrow> 'e list \<Rightarrow> 'e list" where
  "reg_insert key x xs =
     takeWhile (\<lambda>y. \<not> key y > key x) xs @ x # dropWhile (\<lambda>y. \<not> key y > key x) xs"

lemma set_reg_insert [simp]: "set (reg_insert key x xs) = insert x (set xs)"
proof -
  have "set xs = set (takeWhile P xs) \<union> set (dropWhile P xs)" for P
    by (metis set_append takeWhile_dropWhile_id)
  then show ?thesis by (auto simp: reg_insert_def)
qed

lemma length_reg_insert [simp]: "length (reg_insert key x xs) = Suc (length xs)"
proof -
  have "length xs = length (takeWhile P xs) + length (dropWhile P xs)" for P
    by (metis length_append takeWhile_dropWhile_id)
  then show ?thesis by (simp add: reg_insert_def)
qed

lemma reg_insert_Nil [simp]: "reg_insert key x [] = [x]"
  by (simp add: reg_insert_def)

lemma reg_insert_Cons:
  "reg_insert key x (y # ys) = (if key y > key x then x # y # ys else y # reg_insert key x ys)"
  by (simp add: reg_insert_def)

lemma sorted_reg_insert:
  "sorted (map key xs) \<Longrightarrow> sorted (map key (reg_insert key x xs))"
  by (induction xs) (auto simp: reg_insert_Cons)

text \<open>Strictly sorted keys stay so when the key is new: entries are unique by key.\<close>

lemma strict_sorted_reg_insert:
  "sorted_wrt (<) (map key xs) \<Longrightarrow> key x \<notin> key ` set xs \<Longrightarrow>
   sorted_wrt (<) (map key (reg_insert key x xs))"
  by (induction xs) (auto simp: reg_insert_Cons)

lemma map_reg_insert:
  "(\<And>y. y \<in> set (x # xs) \<Longrightarrow> key' (f y) = key y) \<Longrightarrow>
   map f (reg_insert key x xs) = reg_insert key' (f x) (map f xs)"
  by (induction xs) (auto simp: reg_insert_Cons)

text \<open>Looking a key up: the first entry with that key.\<close>

definition by_key :: "('e \<Rightarrow> 'k) \<Rightarrow> 'k \<Rightarrow> 'e list \<Rightarrow> 'e option" where
  "by_key key k xs = List.find (\<lambda>e. key e = k) xs"

lemma by_key_Nil [simp]: "by_key key k [] = None"
  by (simp add: by_key_def)

lemma by_key_Cons: "by_key key k (y # ys) = (if key y = k then Some y else by_key key k ys)"
  by (simp add: by_key_def)

lemma by_key_None: "by_key key k xs = None \<longleftrightarrow> k \<notin> key ` set xs"
  by (auto simp: by_key_def find_None_iff)

lemma by_key_Some_iff:
  "sorted_wrt (<) (map key xs) \<Longrightarrow> by_key key k xs = Some (e :: 'e) \<longleftrightarrow> e \<in> set xs \<and> key e = (k :: 'k :: linorder)"
  by (induction xs) (auto simp: by_key_Cons)

lemma by_key_insert:
  "key x \<notin> key ` set xs \<Longrightarrow>
   by_key key k (reg_insert key x xs) = (if k = key x then Some x else by_key key k xs)"
  by (induction xs) (auto simp: reg_insert_Cons by_key_Cons)

section \<open>Registries\<close>

text \<open>
  What the lists of friends and of call testers have in common: entries are inserted in the
  order of a key and looked up by it.
\<close>

locale sorted_registry =
  fixes key :: "'e \<Rightarrow> 'k :: linorder"
    and insert_entry :: "'e \<Rightarrow> 'e list \<Rightarrow> 'e list"
    and lookup :: "'e list \<Rightarrow> 'k \<Rightarrow> 'e option"
  assumes insert_eq: "insert_entry x xs = reg_insert key x xs"
    and lookup_eq: "lookup xs k = by_key key k xs"
begin

lemma lookup_None: "lookup xs k = None \<longleftrightarrow> k \<notin> key ` set xs"
  by (simp add: lookup_eq by_key_None)

lemma lookup_Some:
  "sorted_wrt (<) (map key xs) \<Longrightarrow> lookup xs k = Some e \<longleftrightarrow> e \<in> set xs \<and> key e = k"
  by (simp add: lookup_eq by_key_Some_iff)

lemma unique_insert:
  "sorted_wrt (<) (map key xs) \<Longrightarrow> lookup xs (key x) = None \<Longrightarrow>
   sorted_wrt (<) (map key (insert_entry x xs))"
  by (simp add: insert_eq lookup_None strict_sorted_reg_insert)

lemma set_insert: "set (insert_entry x xs) = insert x (set xs)"
  by (simp add: insert_eq)

lemma lookup_insert:
  "lookup xs (key x) = None \<Longrightarrow> lookup (insert_entry x xs) k = (if k = key x then Some x else lookup xs k)"
  by (simp add: insert_eq lookup_eq by_key_None by_key_insert)

end

section \<open>The interface\<close>

locale intrusive_list =
  fixes rep :: "'h \<Rightarrow> 'p \<Rightarrow> 'p list \<Rightarrow> bool"
    and step :: "'h \<Rightarrow> 'p \<Rightarrow> 'p"
    and add :: "'p \<Rightarrow> 'p \<Rightarrow> 'h \<Rightarrow> 'h"
    and add_tail :: "'p \<Rightarrow> 'p \<Rightarrow> 'h \<Rightarrow> 'h"
    and del :: "'p \<Rightarrow> 'h \<Rightarrow> 'h"
  assumes rep_distinct: "rep h head xs \<Longrightarrow> distinct (head # xs)"
    and step_head: "rep h head xs \<Longrightarrow> step h head = hd (xs @ [head])"
    and step_entry: "rep h head (us @ x # vs) \<Longrightarrow> step h x = hd (vs @ [head])"
    and rep_add: "rep h head xs \<Longrightarrow> new \<notin> set (head # xs) \<Longrightarrow> rep (add new head h) head (new # xs)"
    and rep_add_tail: "rep h head xs \<Longrightarrow> new \<notin> set (head # xs) \<Longrightarrow>
      rep (add_tail new head h) head (xs @ [new])"
    and rep_add_before: "rep h head (us @ x # vs) \<Longrightarrow> new \<notin> set (head # us @ x # vs) \<Longrightarrow>
      rep (add_tail new x h) head (us @ new # x # vs)"
    and rep_del: "rep h head (us @ x # vs) \<Longrightarrow> rep (del x h) head (us @ vs)"
begin

lemma count_suffix:
  "rep h head (us @ vs) \<Longrightarrow>
   count_entries (step h) head (hd (vs @ [head])) i = Some (i + int (length vs))"
proof (induction vs arbitrary: us i)
  case Nil
  then show ?case by (simp add: count_entries.simps)
next
  case (Cons x vs)
  have x: "x \<noteq> head" "step h x = hd (vs @ [head])"
    using rep_distinct [OF Cons.prems] step_entry [OF Cons.prems] by auto
  from Cons.IH [of "us @ [x]" "i + 1"] Cons.prems
  have "count_entries (step h) head (hd (vs @ [head])) (i + 1) = Some (i + 1 + int (length vs))"
    by simp
  with x show ?case by (simp add: count_entries.simps [of _ _ x])
qed

lemma count: "rep h head xs \<Longrightarrow> count_entries (step h) head (step h head) 0 = Some (int (length xs))"
  using count_suffix [of h head "[]" xs 0] step_head [of h head xs] by simp

lemma find_suffix:
  "rep h head (us @ vs) \<Longrightarrow>
   find_entry (step h) P head (hd (vs @ [head])) = Some (List.find P vs)"
proof (induction vs arbitrary: us)
  case Nil
  then show ?case by (simp add: find_entry.simps)
next
  case (Cons x vs)
  have x: "x \<noteq> head" "step h x = hd (vs @ [head])"
    using rep_distinct [OF Cons.prems] step_entry [OF Cons.prems] by auto
  from Cons.IH [of "us @ [x]"] Cons.prems
  have "find_entry (step h) P head (hd (vs @ [head])) = Some (List.find P vs)" by simp
  with x show ?case by (simp add: find_entry.simps [of _ _ _ x])
qed

lemma find: "rep h head xs \<Longrightarrow> find_entry (step h) P head (step h head) = Some (List.find P xs)"
  using find_suffix [of h head "[]" xs P] step_head [of h head xs] by simp

lemma add_sorted:
  assumes r: "rep h head xs" and new: "new \<notin> set (head # xs)"
  shows "\<exists>h'. add_entry_sorted step add_tail key new head h = Some h' \<and>
    rep h' head (reg_insert key new xs)"
proof -
  let ?P = "\<lambda>y. \<not> key y > key new"
  have split: "xs = takeWhile ?P xs @ dropWhile ?P xs" by simp
  have f: "List.find (\<lambda>y. key y > key new) xs =
      (case dropWhile ?P xs of [] \<Rightarrow> None | y # _ \<Rightarrow> Some y)"
    by (induction xs) auto
  show ?thesis
  proof (cases "dropWhile ?P xs")
    case Nil
    with split have t: "takeWhile ?P xs = xs" by (metis append_Nil2)
    from f Nil have "List.find (\<lambda>y. key y > key new) xs = None" by (simp only: list.case)
    then have "add_entry_sorted step add_tail key new head h = Some (add_tail new head h)"
      using find [OF r, of "\<lambda>y. key y > key new"] by (simp only: add_entry_sorted_def option.map option.case)
    moreover have "reg_insert key new xs = xs @ [new]"
      using Nil t by (simp only: reg_insert_def)
    ultimately show ?thesis using rep_add_tail [OF r new] by simp
  next
    case (Cons y ys)
    with split have xs: "xs = takeWhile ?P xs @ y # ys" by (metis)
    have "rep (add_tail new y h) head (takeWhile ?P xs @ new # y # ys)"
      using r new xs by (metis rep_add_before)
    moreover from f Cons have "List.find (\<lambda>y. key y > key new) xs = Some y" by (simp only: list.case)
    then have "add_entry_sorted step add_tail key new head h = Some (add_tail new y h)"
      using find [OF r, of "\<lambda>y. key y > key new"] by (simp only: add_entry_sorted_def option.map option.case)
    moreover have "reg_insert key new xs = takeWhile ?P xs @ new # y # ys"
      using Cons by (simp only: reg_insert_def)
    ultimately show ?thesis by simp
  qed
qed

end

interpretation ll: intrusive_list dlist nxt list_add list_add_tail list_del
  by unfold_locales
    (auto simp: dlist_distinct dlist_nxt_head dlist_nxt dlist_add dlist_add_tail dlist_add_before
      dlist_del)

section \<open>Properties\<close>

text \<open>
  The test for an empty ring in \<^verbatim>\<open>list_rotate_left\<close> saves work and guards nothing:
  moving the head of an empty ring behind itself writes the links that it has.
\<close>

lemma empty_ring_moves_to_itself:
  "dlist h head [] \<Longrightarrow> list_move_tail (nxt h head) head h = h"
  by (cases h) (simp add: dlist_def list_move_tail_def list_del_entry_def list_del_between_def list_add_tail_def
      list_add_between_def set_next_def set_prev_def Let_def fun_upd_idem)

text \<open>
  C31 (refinement): on a ring of any length, the empty one included, the pointer operations of
  \<^verbatim>\<open>list.h\<close> act as list functions: initialisation gives the empty list, and the two
  insertions at the head, the rotation and the tests for no and one entry are those of a list; at
  any entry, so are the insertion in front of it, its removal with and without initialisation,
  moving it to the front and to the back, its replacement by a new cell and the test for the last
  one. No link of the resulting rings is left wrong in either direction.
\<close>

theorem list_operations_refine:
  assumes "dlist h head xs" and "new \<notin> set (head # xs)"
  shows "dlist (INIT_LIST_HEAD new h) new [] \<and> dlist (INIT_LIST_HEAD new h) head xs \<and>
    dlist (list_add new head h) head (new # xs) \<and>
    dlist (list_add_tail new head h) head (xs @ [new]) \<and>
    dlist (list_rotate_left head h) head (rotate1 xs) \<and>
    (list_empty head h \<longleftrightarrow> xs = []) \<and> (list_is_singular head h \<longleftrightarrow> length xs = 1) \<and>
    (\<forall>us x vs. xs = us @ x # vs \<longrightarrow>
      dlist (list_add_tail new x h) head (us @ new # x # vs) \<and>
      dlist (list_del x h) head (us @ vs) \<and>
      dlist (list_del_init x h) head (us @ vs) \<and> dlist (list_del_init x h) x [] \<and>
      dlist (list_move x head h) head (x # us @ vs) \<and>
      dlist (list_move_tail x head h) head (us @ vs @ [x]) \<and>
      dlist (list_replace x new h) head (us @ new # vs) \<and>
      (list_is_last x head h \<longleftrightarrow> vs = []))"
proof -
  have "dlist (list_add_tail new x h) head (us @ new # x # vs) \<and>
      dlist (list_del x h) head (us @ vs) \<and>
      dlist (list_del_init x h) head (us @ vs) \<and> dlist (list_del_init x h) x [] \<and>
      dlist (list_move x head h) head (x # us @ vs) \<and>
      dlist (list_move_tail x head h) head (us @ vs @ [x]) \<and>
      dlist (list_replace x new h) head (us @ new # vs) \<and>
      (list_is_last x head h \<longleftrightarrow> vs = [])" if "xs = us @ x # vs" for us x vs
  proof -
    note d = assms(1) [unfolded that] and n = assms(2) [unfolded that]
    show ?thesis
      using dlist_add_before [OF d n] dlist_del [OF d] dlist_del_init [OF d] dlist_move [OF d] dlist_move_tail [OF d]
        dlist_replace [OF d n] dlist_is_last [OF d] by simp
  qed
  with dlist_INIT [of new h] dlist_INIT_other [OF assms] dlist_add [OF assms] dlist_add_tail [OF assms]
    dlist_rotate_left [OF assms(1)] dlist_empty [OF assms(1)] dlist_is_singular [OF assms(1)]
  show ?thesis by blast
qed

definition ring3 :: links where
  "ring3 = list_add_tail 3 0 (list_add_tail 2 0 (list_add_tail 1 0
     (INIT_LIST_HEAD 0 \<lparr>nxt = \<lambda>_. 9, prv = \<lambda>_. 9\<rparr>)))"

lemma dlist_ring3: "dlist ring3 0 ([1] @ 2 # [3])"
  by (simp add: ring3_def dlist_def list_add_tail_def list_add_between_def INIT_LIST_HEAD_def Let_def)

theorem list_operations_refine_witness:
  "dlist (list_replace 2 7 ring3) 0 [1, 7, 3] \<and> dlist (list_del 2 ring3) 0 [1, 3] \<and>
   dlist (list_rotate_left 0 (INIT_LIST_HEAD 0 ring3)) 0 [] \<and> dlist (list_add 7 0 (INIT_LIST_HEAD 0 ring3)) 0 [7]"
proof -
  note full = list_operations_refine [OF dlist_ring3, of 7] and empty = list_operations_refine [OF dlist_INIT, of 7 0 ring3]
  from full have "[1] @ 2 # [3] = us @ x # vs \<longrightarrow> dlist (list_replace x 7 ring3) 0 (us @ 7 # vs) \<and>
      dlist (list_del x ring3) 0 (us @ vs)" for us x vs by simp
  from this [of "[1]" 2 "[3]"] empty show ?thesis by simp
qed

text \<open>
  Cutting a list behind any entry and splicing the part back gives the
  original list, and leaves nothing else changed that the loop over it could see; between
  the two, the parts are two disjoint lists.
\<close>

theorem list_cut_splice:
  assumes "dlist h head (us @ x # vs)" and "list \<notin> set (head # us @ x # vs)"
  shows "dlist (list_cut_position list head x h) list (us @ [x]) \<and>
    dlist (list_cut_position list head x h) head vs \<and>
    list_for_each head (list_splice list head (list_cut_position list head x h))
      = Some (us @ x # vs)"
proof -
  note cut = dlist_cut_position [OF assms]
  from assms have "set (head # vs) \<inter> set (list # us @ [x]) = {}" by (auto simp: dlist_def)
  from dlist_splice [OF cut(2,1) this] have "dlist (list_splice list head (list_cut_position list head x h)) head (us @ x # vs)"
    by simp
  with cut show ?thesis by (simp add: dlist_for_each)
qed

theorem list_cut_splice_witness:
  "list_for_each 0 (list_splice 7 0 (list_cut_position 7 0 2 ring3)) = Some [1, 2, 3]"
  using list_cut_splice [OF dlist_ring3, of 7] by simp

text \<open>
  C34 (refinement): the insertion loop of the program's registries, run on the pointer
  structure, ends and has inserted the new cell in front of the first entry with a greater
  key: an ordered registry stays ordered, and the loops that count and search see the list
  with the new entry.
\<close>

theorem add_entry_sorted_refines:
  assumes "dlist h head xs" and "new \<notin> set (head # xs)" and "sorted (map key xs)"
  shows "\<exists>h'. add_entry_sorted nxt list_add_tail key new head h = Some h' \<and>
    dlist h' head (reg_insert key new xs) \<and> sorted (map key (reg_insert key new xs)) \<and>
    count_entries (nxt h') head (nxt h' head) 0 = Some (int (length xs) + 1) \<and>
    find_entry (nxt h') P head (nxt h' head) = Some (List.find P (reg_insert key new xs))"
proof -
  from ll.add_sorted [OF assms(1,2), of key] obtain h'
    where h': "add_entry_sorted nxt list_add_tail key new head h = Some h'"
      "dlist h' head (reg_insert key new xs)" by blast
  with ll.count [OF h'(2)] ll.find [OF h'(2), of P] sorted_reg_insert [OF assms(3), of new]
  show ?thesis by simp
qed

theorem add_entry_sorted_refines_witness:
  "\<exists>h'. add_entry_sorted nxt list_add_tail (\<lambda>p. p mod 5) 7 0 ring3 = Some h' \<and> dlist h' 0 [1, 2, 7, 3]"
  using add_entry_sorted_refines [OF dlist_ring3, of 7 "\<lambda>p. p mod 5" "\<lambda>p. True"]
  by (simp add: reg_insert_def) blast

end
