(* ===== verification/Conf.thy ===== *)
theory Conf
  imports C_Lib
begin

text \<open>
  \<^verbatim>\<open>src/conf.c\<close>: the reader of \<^verbatim>\<open>key=value\<close> files, line by line
  through a buffer of 4096 bytes.
\<close>

abbreviation (input) NL :: char where "NL \<equiv> CHR 0x0A"

section \<open>Reading lines\<close>

text \<open>
  \<^verbatim>\<open>fgets(line, n, fp)\<close>: at most \<open>n - 1\<close> bytes up to a newline, which is kept;
  \<open>None\<close> at the end of the file. The result is the line and the rest of the file.
\<close>

definition fgets :: "nat \<Rightarrow> string \<Rightarrow> (string \<times> string) option" where
  "fgets n s =
     (if s = [] then None
      else let t = takeWhile (\<lambda>c. c \<noteq> NL) s;
               line = take (n - 1) (if t = s then s else t @ [NL]) in
           Some (line, drop (length line) s))"

lemma fgets_shorter: "fgets n s = Some (l, r) \<Longrightarrow> 1 < n \<Longrightarrow> length r < length s"
proof -
  assume a: "fgets n s = Some (l, r)" "1 < n"
  define u where "u = (if takeWhile (\<lambda>c. c \<noteq> NL) s = s then s else takeWhile (\<lambda>c. c \<noteq> NL) s @ [NL])"
  from a(1) have s: "s \<noteq> []" by (auto simp: fgets_def)
  then have "fgets n s = Some (take (n - 1) u, drop (length (take (n - 1) u)) s)"
    by (simp only: fgets_def u_def Let_def if_False)
  with a(1) have lr: "l = take (n - 1) u" "r = drop (length l) s"
    by (metis option.inject prod.inject)+
  from s have "u \<noteq> []" by (simp add: u_def)
  with a(2) lr(1) have "0 < length l" by simp
  with s lr(2) show ?thesis by simp
qed

section \<open>Values\<close>

text \<open>
  The first \<^verbatim>\<open>strtok\<close> splits at \<^verbatim>\<open>=\<close>, the second one takes the rest of
  the line; on a line without a key there is no rest either.
\<close>

definition conf_line :: "string \<Rightarrow> (string \<times> string) option" where
  "conf_line line =
     (case strtok (cstr line) ''='' of
        None \<Rightarrow> None
      | Some (key, rest) \<Rightarrow> map_option (\<lambda>(value, _). (key, value)) (strtok rest [NL]))"

function get_conf_loop :: "string \<Rightarrow> string \<Rightarrow> string option" where
  "get_conf_loop contents keyname =
     (case fgets 4096 contents of
        None \<Rightarrow> None
      | Some (line, rest) \<Rightarrow>
          (case conf_line line of
             None \<Rightarrow> get_conf_loop rest keyname
           | Some (key, value) \<Rightarrow>
               if cstr keyname \<noteq> key \<or> CHR ''#'' \<in> set key then get_conf_loop rest keyname
               else Some value))"
  by pat_completeness auto
termination by (relation "measure (\<lambda>(c, k). length c)") (auto dest: fgets_shorter)

declare get_conf_loop.simps [simp del]

text \<open>A file is its contents; a null file pointer is \<open>None\<close>.\<close>

definition get_conf_str :: "string option \<Rightarrow> string \<Rightarrow> string option" where
  "get_conf_str fp keyname = (case fp of None \<Rightarrow> None | Some contents \<Rightarrow> get_conf_loop contents keyname)"

definition get_conf_int :: "string option \<Rightarrow> string \<Rightarrow> int" where
  "get_conf_int fp keyname =
     (case get_conf_str fp keyname of
        None \<Rightarrow> - 1
      | Some strnum \<Rightarrow>
          (let number = atoi strnum in
           if number = 0 \<and> cstr strnum \<noteq> ''0'' then - 1 else number))"

section \<open>Reading back a written file\<close>

definition conf_entry :: "string \<times> string \<Rightarrow> string" where
  "conf_entry kv = fst kv @ ''='' @ snd kv @ [NL]"

definition conf_file :: "(string \<times> string) list \<Rightarrow> string" where
  "conf_file kvs = concat (map conf_entry kvs)"

text \<open>The entries that a line of the file can hold.\<close>

definition conf_ok :: "string \<times> string \<Rightarrow> bool" where
  "conf_ok kv \<longleftrightarrow> fst kv \<noteq> [] \<and> snd kv \<noteq> [] \<and> no_nul (fst kv) \<and> no_nul (snd kv) \<and>
     NL \<notin> set (fst kv) \<and> NL \<notin> set (snd kv) \<and> CHR ''='' \<notin> set (fst kv) \<and> CHR ''#'' \<notin> set (fst kv) \<and>
     length (conf_entry kv) < 4096"

lemma fgets_entry:
  assumes "conf_ok kv"
  shows "fgets 4096 (conf_entry kv @ rest) = Some (conf_entry kv, rest)"
proof -
  obtain k v where kv: "kv = (k, v)" by fastforce
  have "takeWhile (\<lambda>c. c \<noteq> NL) ((k @ CHR ''='' # v) @ NL # rest) = k @ CHR ''='' # v"
    using assms kv by (intro takeWhile_append_stop) (auto simp: conf_ok_def)
  then have t: "takeWhile (\<lambda>c. c \<noteq> NL) (conf_entry kv @ rest) = k @ CHR ''='' # v"
    by (simp add: conf_entry_def kv)
  have "conf_entry kv @ rest \<noteq> []" "length (conf_entry kv) < 4096"
    using assms by (auto simp: conf_ok_def conf_entry_def)
  moreover have "k @ CHR ''='' # v \<noteq> conf_entry kv @ rest" by (simp add: conf_entry_def kv)
  moreover have "(k @ CHR ''='' # v) @ [NL] = conf_entry kv" by (simp add: conf_entry_def kv)
  ultimately show ?thesis by (simp only: fgets_def t Let_def if_False) simp
qed

lemma strtok_first:
  assumes "t \<noteq> []" "\<forall>c\<in>set t. c \<notin> set d" "e \<in> set d"
  shows "strtok (t @ e # rest) d = Some (t, rest)"
proof -
  obtain c cs where t: "t = c # cs" using assms(1) by (cases t) auto
  then have "dropWhile (\<lambda>c. c \<in> set d) (t @ e # rest) = t @ e # rest" using assms(2) by simp
  moreover have "takeWhile (\<lambda>c. c \<notin> set d) (t @ e # rest) = t"
    "dropWhile (\<lambda>c. c \<notin> set d) (t @ e # rest) = e # rest"
    using assms(2,3) by (auto intro!: takeWhile_append_stop dropWhile_append_stop)
  ultimately show ?thesis by (simp add: strtok_def)
qed

lemma conf_line_entry: "conf_ok kv \<Longrightarrow> conf_line (conf_entry kv) = Some kv"
proof -
  assume ok: "conf_ok kv"
  obtain k v where kv: "kv = (k, v)" by fastforce
  have "no_nul (conf_entry kv)" using ok kv by (simp add: conf_ok_def conf_entry_def)
  moreover have "strtok (conf_entry kv) ''='' = Some (k, v @ [NL])"
    using strtok_first [of k "''=''" "CHR ''=''" "v @ [NL]"] ok kv
    by (auto simp: conf_ok_def conf_entry_def)
  moreover have "strtok (v @ [NL]) [NL] = Some (v, [])"
    using strtok_first [of v "[NL]" NL "[]"] ok kv by (auto simp: conf_ok_def)
  ultimately show ?thesis using kv by (simp add: conf_line_def)
qed

lemma get_conf_loop_file:
  "list_all conf_ok kvs \<Longrightarrow> no_nul key \<Longrightarrow> get_conf_loop (conf_file kvs) key = map_of kvs key"
proof (induction kvs)
  case Nil
  then show ?case by (simp add: get_conf_loop.simps conf_file_def fgets_def)
next
  case (Cons kv kvs)
  obtain k v where kv: "kv = (k, v)" by fastforce
  from Cons have ok: "conf_ok kv" and IH: "get_conf_loop (conf_file kvs) key = map_of kvs key" by simp_all
  have "conf_file (kv # kvs) = conf_entry kv @ conf_file kvs" by (simp add: conf_file_def)
  then have "get_conf_loop (conf_file (kv # kvs)) key =
      (if key \<noteq> k \<or> CHR ''#'' \<in> set k then get_conf_loop (conf_file kvs) key else Some v)"
    using fgets_entry [OF ok, of "conf_file kvs"] conf_line_entry [OF ok] kv Cons.prems(2)
    by (subst get_conf_loop.simps) simp
  with ok kv IH show ?case by (auto simp: conf_ok_def)
qed

section \<open>Properties\<close>

text \<open>
  C39 (roundtrip): from a file of entries \<^verbatim>\<open>key=value\<close>, one on a line, the reader
  gets the value of the first entry with the key, and nothing for a key without an entry;
  \<^verbatim>\<open>get_conf_int\<close> gives back a number of the range of \<^verbatim>\<open>int\<close> that is not
  negative from its decimal form, and \<open>-1\<close> for a key without an entry.
\<close>

theorem get_conf_roundtrip:
  assumes "list_all conf_ok kvs" and "no_nul key"
  shows "get_conf_str (Some (conf_file kvs)) key = map_of kvs key \<and>
    (map_of kvs key = None \<longrightarrow> get_conf_int (Some (conf_file kvs)) key = - 1) \<and>
    (\<forall>i. map_of kvs key = Some (show_int i) \<and> 0 \<le> i \<and> in_i32 i \<longrightarrow> get_conf_int (Some (conf_file kvs)) key = i)"
proof -
  have s: "get_conf_str (Some (conf_file kvs)) key = map_of kvs key"
    using get_conf_loop_file [OF assms] by (simp add: get_conf_str_def)
  have "atoi (show_int i) = i" if "in_i32 i" for i
  proof -
    have "\<not> isdigit NUL" by (simp add: isdigit_def byte_def)
    from strtoll_show_int [OF in_i32_in_i64 [OF that] this, of "[]"] that show ?thesis
      by (simp add: atoi_def)
  qed
  moreover have "show_int 0 = ''0''" by code_simp
  ultimately show ?thesis using s by (auto simp: get_conf_int_def Let_def)
qed

theorem get_conf_roundtrip_witness:
  "get_conf_int (Some ''port=80\<newline>'') ''port'' = 80"
proof -
  have f: "conf_file [(''port'', show_int 80)] = ''port=80\<newline>''" by code_simp
  have "show_int 80 = ''80''" by code_simp
  then have "conf_ok (''port'', show_int 80)" by (simp add: conf_ok_def conf_entry_def)
  with get_conf_roundtrip [of "[(''port'', show_int 80)]" "''port''"] show ?thesis
    by (auto simp: in_i32_def f dest: spec [of _ 80])
qed

text \<open>
  Where the comment promises a number that is not negative, or -1, a value with a
  sign is returned as it stands, and digits followed by anything else count as the digits.
\<close>

theorem get_conf_int_sign:
  "get_conf_int (Some ''n=-5\<newline>'') ''n'' = - 5 \<and> get_conf_int (Some ''n=7x\<newline>'') ''n'' = 7 \<and>
   get_conf_int (Some ''n=00\<newline>'') ''n'' = - 1"
proof -
  have f: "conf_file [(''n'', ''-5'')] = ''n=-5\<newline>''" "conf_file [(''n'', ''7x'')] = ''n=7x\<newline>''"
    "conf_file [(''n'', ''00'')] = ''n=00\<newline>''" by code_simp+
  have "conf_ok (''n'', ''-5'')" "conf_ok (''n'', ''7x'')" "conf_ok (''n'', ''00'')"
    by (simp_all add: conf_ok_def conf_entry_def)
  then have "get_conf_loop ''n=-5\<newline>'' ''n'' = Some ''-5''" "get_conf_loop ''n=7x\<newline>'' ''n'' = Some ''7x''"
    "get_conf_loop ''n=00\<newline>'' ''n'' = Some ''00''"
    using get_conf_loop_file [of "[(''n'', ''-5'')]" "''n''"] get_conf_loop_file [of "[(''n'', ''7x'')]" "''n''"]
      get_conf_loop_file [of "[(''n'', ''00'')]" "''n''"] by (simp_all add: f)
  moreover have "atoi ''-5'' = - 5" "atoi ''7x'' = 7" "atoi ''00'' = 0" by code_simp+
  ultimately show ?thesis by (simp add: get_conf_int_def get_conf_str_def)
qed

end
