(* ===== verification/World.thy ===== *)
theory World
  imports C_Lib
begin

text \<open>
  What the program stands on and does not contain: allocated blocks and files of the C
  library, and the calls into \<^verbatim>\<open>toxcore\<close>, \<^verbatim>\<open>toxav\<close> and
  \<^verbatim>\<open>libsodium\<close>. The C library is modelled; the other libraries are parameters, a
  record of functions on an abstract state that every definition using them takes as an
  argument. What a property needs of them it states as a hypothesis.
\<close>

section \<open>Allocated blocks\<close>

text \<open>
  Blocks that more than one object can point to. An address is used once only, so a
  pointer to a freed block never becomes valid again and its use is the fault
  \<open>UseAfterFree\<close>, as is a second release.
\<close>

record heap =
  blk :: "nat \<Rightarrow> string option"
  brk :: nat

definition alloc :: "string \<Rightarrow> heap \<Rightarrow> nat \<times> heap" where
  "alloc bs h = (brk h, h\<lparr>blk := (blk h)(brk h := Some bs), brk := Suc (brk h)\<rparr>)"

definition load_block :: "nat \<Rightarrow> heap \<Rightarrow> string res" where
  "load_block p h = (case blk h p of None \<Rightarrow> Inl UseAfterFree | Some bs \<Rightarrow> Inr bs)"

definition store_block :: "nat \<Rightarrow> string \<Rightarrow> heap \<Rightarrow> heap res" where
  "store_block p bs h =
     (case blk h p of None \<Rightarrow> Inl UseAfterFree | Some _ \<Rightarrow> Inr (h\<lparr>blk := (blk h)(p := Some bs)\<rparr>))"

definition free_block :: "nat \<Rightarrow> heap \<Rightarrow> heap res" where
  "free_block p h =
     (case blk h p of None \<Rightarrow> Inl UseAfterFree | Some _ \<Rightarrow> Inr (h\<lparr>blk := (blk h)(p := None)\<rparr>))"

text \<open>\<^verbatim>\<open>free\<close> of a pointer that may be null.\<close>

definition free_opt :: "nat option \<Rightarrow> heap \<Rightarrow> heap res" where
  "free_opt p h = (case p of None \<Rightarrow> Inr h | Some q \<Rightarrow> free_block q h)"

text \<open>
  \<^verbatim>\<open>realloc\<close> of a buffer with one owner: the old bytes stay, the new ones hold
  whatever the allocator left there (\<open>g\<close>); size 0 gives the null pointer.
\<close>

definition realloc_buf :: "(nat \<Rightarrow> char) \<Rightarrow> string option \<Rightarrow> nat \<Rightarrow> string option" where
  "realloc_buf g old n =
     (if n = 0 then None
      else Some (take n ((case old of None \<Rightarrow> [] | Some b \<Rightarrow> b) @ map g [0..<n])))"

lemma realloc_buf_length: "realloc_buf g old n = Some b \<Longrightarrow> length b = n"
  by (auto simp: realloc_buf_def split: if_splits)

section \<open>Files\<close>

text \<open>
  The files by name, and which of them may be opened for reading or for writing. A stream
  is the name of its file, a position and whether it was opened for reading:
  \<^verbatim>\<open>fread\<close> on a stream that was opened with \<^verbatim>\<open>"w"\<close> fails and
  reads nothing. \<^verbatim>\<open>fopen\<close> with \<^verbatim>\<open>"w"\<close> empties the file.
\<close>

record fs =
  fs_data :: "string \<Rightarrow> string option"
  fs_readable :: "string \<Rightarrow> bool"
  fs_writable :: "string \<Rightarrow> bool"

record stream =
  st_path :: string
  st_pos :: nat
  st_reads :: bool

definition fopen_read :: "string \<Rightarrow> fs \<Rightarrow> stream option" where
  "fopen_read path f =
     (if fs_data f path \<noteq> None \<and> fs_readable f path
      then Some \<lparr>st_path = path, st_pos = 0, st_reads = True\<rparr> else None)"

definition fopen_write :: "string \<Rightarrow> fs \<Rightarrow> (stream \<times> fs) option" where
  "fopen_write path f =
     (if fs_writable f path
      then Some (\<lparr>st_path = path, st_pos = 0, st_reads = False\<rparr>,
                 f\<lparr>fs_data := (fs_data f)(path := Some [])\<rparr>) else None)"

text \<open>\<^verbatim>\<open>"r+b"\<close>: an existing file, for reading and writing.\<close>

definition fopen_update :: "string \<Rightarrow> fs \<Rightarrow> stream option" where
  "fopen_update path f =
     (if fs_data f path \<noteq> None \<and> fs_readable f path \<and> fs_writable f path
      then Some \<lparr>st_path = path, st_pos = 0, st_reads = True\<rparr> else None)"

definition file_bytes :: "string \<Rightarrow> fs \<Rightarrow> string" where
  "file_bytes path f = (case fs_data f path of None \<Rightarrow> [] | Some d \<Rightarrow> d)"

definition append_bytes :: "string \<Rightarrow> string \<Rightarrow> fs \<Rightarrow> fs" where
  "append_bytes path bs f = f\<lparr>fs_data := (fs_data f)(path := Some (file_bytes path f @ bs))\<rparr>"

text \<open>Writing at the position of a stream; a gap behind the end of the file is zeros.\<close>

definition fwrite_at :: "stream \<Rightarrow> string \<Rightarrow> fs \<Rightarrow> fs" where
  "fwrite_at s bs f =
     (let old = file_bytes (st_path s) f; p = st_pos s in
      f\<lparr>fs_data := (fs_data f)(st_path s :=
        Some (take p old @ replicate (p - length old) (CHR 0x00) @ bs @ drop (p + length bs) old))\<rparr>)"

definition fread_at :: "stream \<Rightarrow> nat \<Rightarrow> fs \<Rightarrow> string" where
  "fread_at s n f = (if st_reads s then take n (drop (st_pos s) (file_bytes (st_path s) f)) else [])"

definition unlink :: "string \<Rightarrow> fs \<Rightarrow> fs" where
  "unlink path f = f\<lparr>fs_data := (fs_data f)(path := None)\<rparr>"

text \<open>
  \<^verbatim>\<open>fseek\<close> to a position from the start, given as an unsigned number that is
  converted to \<^verbatim>\<open>long\<close>; a negative one fails and leaves the position.
\<close>

definition fseek_set :: "u64 \<Rightarrow> stream \<Rightarrow> stream option" where
  "fseek_set position s = (if sint position < 0 then None else Some (s\<lparr>st_pos := unat position\<rparr>))"

lemma file_bytes_append [simp]:
  "file_bytes p (append_bytes p bs f) = file_bytes p f @ bs"
  "q \<noteq> p \<Longrightarrow> file_bytes q (append_bytes p bs f) = file_bytes q f"
  by (simp_all add: file_bytes_def append_bytes_def)

lemma fopen_write_bytes:
  "fopen_write p f = Some (s, f') \<Longrightarrow> file_bytes p f' = [] \<and> st_path s = p \<and>
     (\<forall>q. q \<noteq> p \<longrightarrow> fs_data f' q = fs_data f q)"
  by (auto simp: fopen_write_def file_bytes_def split: if_splits)

lemma fopen_read_stream: "fopen_read p f = Some s \<Longrightarrow> st_path s = p \<and> st_pos s = 0 \<and> st_reads s"
  by (auto simp: fopen_read_def split: if_splits)

section \<open>The libraries\<close>

text \<open>
  The calls of \<^verbatim>\<open>toxcore\<close> and \<^verbatim>\<open>toxav\<close> that the program makes, under
  the names of the C functions, on a state \<open>'t\<close>. A call that fails gives \<open>None\<close> or
  \<open>False\<close>; sizes and contents are separate calls, as in the C interface.
\<close>

record 't toxcore =
  tox_self_get_name_size :: "'t \<Rightarrow> u64"
  tox_self_get_name :: "'t \<Rightarrow> string"
  tox_self_get_status_message_size :: "'t \<Rightarrow> u64"
  tox_self_get_status_message :: "'t \<Rightarrow> string"
  tox_self_get_address :: "'t \<Rightarrow> string"
  tox_self_get_connection_status :: "'t \<Rightarrow> u32"
  tox_self_get_friend_list :: "'t \<Rightarrow> u32 list"
  tox_friend_get_last_online :: "'t \<Rightarrow> u32 \<Rightarrow> u64"
  tox_friend_get_public_key :: "'t \<Rightarrow> u32 \<Rightarrow> string"
  tox_friend_get_name_size :: "'t \<Rightarrow> u32 \<Rightarrow> u64"
  tox_friend_get_name :: "'t \<Rightarrow> u32 \<Rightarrow> string"
  tox_friend_get_status_message_size :: "'t \<Rightarrow> u32 \<Rightarrow> u64"
  tox_friend_get_status_message :: "'t \<Rightarrow> u32 \<Rightarrow> string"
  tox_friend_get_status :: "'t \<Rightarrow> u32 \<Rightarrow> u32"
  tox_friend_get_connection_status :: "'t \<Rightarrow> u32 \<Rightarrow> u32"
  tox_friend_add_norequest :: "string \<Rightarrow> 't \<Rightarrow> u32 option \<times> 't"
  tox_friend_delete :: "u32 \<Rightarrow> 't \<Rightarrow> bool \<times> 't"
  tox_friend_send_message :: "u32 \<Rightarrow> u32 \<Rightarrow> string \<Rightarrow> 't \<Rightarrow> bool \<times> 't"
  tox_file_send :: "u32 \<Rightarrow> u32 \<Rightarrow> u64 \<Rightarrow> string option \<Rightarrow> string \<Rightarrow> 't \<Rightarrow> u32 \<times> 't"
  tox_file_get_file_id :: "'t \<Rightarrow> u32 \<Rightarrow> u32 \<Rightarrow> string option"
  tox_file_send_chunk :: "u32 \<Rightarrow> u32 \<Rightarrow> u64 \<Rightarrow> string \<Rightarrow> 't \<Rightarrow> 't"
  tox_file_control :: "u32 \<Rightarrow> u32 \<Rightarrow> u32 \<Rightarrow> 't \<Rightarrow> bool \<times> 't"
  tox_invite_friend :: "u32 \<Rightarrow> int \<Rightarrow> 't \<Rightarrow> int \<times> 't"
  tox_add_groupchat :: "'t \<Rightarrow> int \<times> 't"
  tox_group_message_send :: "int \<Rightarrow> string \<Rightarrow> 't \<Rightarrow> int \<times> 't"
  tox_get_savedata :: "'t \<Rightarrow> string"
  tox_iteration_interval :: "'t \<Rightarrow> u32"
  toxav_iteration_interval :: "'t \<Rightarrow> u32"
  toxav_answer :: "u32 \<Rightarrow> u32 \<Rightarrow> u32 \<Rightarrow> 't \<Rightarrow> bool \<times> 't"
  toxav_call :: "u32 \<Rightarrow> u32 \<Rightarrow> u32 \<Rightarrow> 't \<Rightarrow> 't"
  toxav_call_control :: "u32 \<Rightarrow> u32 \<Rightarrow> 't \<Rightarrow> 't"
  toxav_bit_rate_set :: "u32 \<Rightarrow> u32 \<Rightarrow> u32 \<Rightarrow> 't \<Rightarrow> 't"
  toxav_audio_send_frame :: "u32 \<Rightarrow> int list \<Rightarrow> u64 \<Rightarrow> u8 \<Rightarrow> u32 \<Rightarrow> 't \<Rightarrow> bool \<times> 't"
  toxav_video_send_frame :: "u32 \<Rightarrow> nat \<Rightarrow> nat \<Rightarrow> string \<Rightarrow> string \<Rightarrow> string \<Rightarrow> 't \<Rightarrow> bool \<times> 't"

text \<open>
  \<^verbatim>\<open>libsodium\<close>, and the save-file encryption of \<^verbatim>\<open>toxcore\<close>, which have
  no state. A streaming hash is a function of all the bytes it was updated with.
\<close>

record sodium =
  sodium_bin2hex :: "string \<Rightarrow> string"
  sodium_hex2bin :: "string \<Rightarrow> string"
  crypto_generichash :: "string \<Rightarrow> string"
  tox_is_data_encrypted :: "string \<Rightarrow> bool"
  tox_pass_encrypt :: "string \<Rightarrow> string \<Rightarrow> int + string"
  tox_pass_decrypt :: "string \<Rightarrow> string \<Rightarrow> string option"

abbreviation (input) TOX_PUBLIC_KEY_SIZE :: nat where "TOX_PUBLIC_KEY_SIZE \<equiv> 32"
abbreviation (input) TOX_FILE_ID_LENGTH :: nat where "TOX_FILE_ID_LENGTH \<equiv> 32"
abbreviation (input) TOX_MAX_MESSAGE_LENGTH :: nat where "TOX_MAX_MESSAGE_LENGTH \<equiv> 1372"
abbreviation (input) UINT32_MAX :: u32 where "UINT32_MAX \<equiv> 0xFFFFFFFF"
abbreviation (input) UINT64_MAX :: u64 where "UINT64_MAX \<equiv> 0xFFFFFFFFFFFFFFFF"

section \<open>An instance\<close>

text \<open>
  An instance of the libraries, on which the properties are applied to concrete inputs:
  its state is the list of friend numbers and the log of what was sent, its friends have the
  number's low byte as key and a fixed name, a call never fails, hashing is the identity cut
  or padded to 32 bytes.
\<close>

record sample_tox =
  sm_friends :: "u32 list"
  sm_log :: "string list"

definition pad32 :: "string \<Rightarrow> string" where
  "pad32 s = take 32 (s @ replicate 32 (CHR 0x00))"

definition sample :: "sample_tox toxcore" where
  "sample = \<lparr>
     tox_self_get_name_size = (\<lambda>t. 4), tox_self_get_name = (\<lambda>t. ''suit''),
     tox_self_get_status_message_size = (\<lambda>t. 2), tox_self_get_status_message = (\<lambda>t. ''ok''),
     tox_self_get_address = (\<lambda>t. pad32 [] @ replicate 6 (CHR 0x01)),
     tox_self_get_connection_status = (\<lambda>t. 1),
     tox_self_get_friend_list = sm_friends,
     tox_friend_get_last_online = (\<lambda>t n. 1000 + ucast n),
     tox_friend_get_public_key = (\<lambda>t n. pad32 [char_of (unat n mod 256)]),
     tox_friend_get_name_size = (\<lambda>t n. 3), tox_friend_get_name = (\<lambda>t n. ''bob''),
     tox_friend_get_status_message_size = (\<lambda>t n. 2), tox_friend_get_status_message = (\<lambda>t n. ''hi''),
     tox_friend_get_status = (\<lambda>t n. 0), tox_friend_get_connection_status = (\<lambda>t n. 1),
     tox_friend_add_norequest = (\<lambda>pk t. (let n = of_nat (byte (hd pk)) in
       if n \<in> set (sm_friends t) then (None, t) else (Some n, t\<lparr>sm_friends := sm_friends t @ [n]\<rparr>))),
     tox_friend_delete = (\<lambda>n t. (n \<in> set (sm_friends t), t\<lparr>sm_friends := removeAll n (sm_friends t)\<rparr>)),
     tox_friend_send_message = (\<lambda>n ty m t. (True, t\<lparr>sm_log := sm_log t @ [m]\<rparr>)),
     tox_file_send = (\<lambda>f k sz i nm t. (7, t\<lparr>sm_log := sm_log t @ [nm]\<rparr>)),
     tox_file_get_file_id = (\<lambda>t f n. Some (pad32 ''id'')),
     tox_file_send_chunk = (\<lambda>f n p d t. t\<lparr>sm_log := sm_log t @ [d]\<rparr>),
     tox_file_control = (\<lambda>f n c t. (True, t)),
     tox_invite_friend = (\<lambda>f g t. (0, t)), tox_add_groupchat = (\<lambda>t. (0, t)),
     tox_group_message_send = (\<lambda>g m t. (0, t\<lparr>sm_log := sm_log t @ [m]\<rparr>)),
     tox_get_savedata = (\<lambda>t. ''save''),
     tox_iteration_interval = (\<lambda>t. 50), toxav_iteration_interval = (\<lambda>t. 20),
     toxav_answer = (\<lambda>f a v t. (True, t)), toxav_call = (\<lambda>f a v t. t),
     toxav_call_control = (\<lambda>f c t. t), toxav_bit_rate_set = (\<lambda>f a v t. t),
     toxav_audio_send_frame = (\<lambda>f p n c r t. (True, t)),
     toxav_video_send_frame = (\<lambda>f w h y u v t. (True, t))\<rparr>"

definition hexdigit :: "nat \<Rightarrow> char" where
  "hexdigit n = (if n < 10 then char_of (48 + n) else char_of (87 + n))"

definition hex_of :: "string \<Rightarrow> string" where
  "hex_of s = concat (map (\<lambda>c. [hexdigit (byte c div 16), hexdigit (byte c mod 16)]) s)"

definition sample_sodium :: sodium where
  "sample_sodium = \<lparr>sodium_bin2hex = hex_of, sodium_hex2bin = pad32,
     crypto_generichash = pad32,
     tox_is_data_encrypted = (\<lambda>d. take 3 d = ''tox''),
     tox_pass_encrypt = (\<lambda>d p. Inr (''tox'' @ d)), tox_pass_decrypt = (\<lambda>d p. Some (drop 3 d))\<rparr>"

end
