(* ===== verification/Misc.thy ===== *)
theory Misc
  imports World
begin

text \<open>
  \<^verbatim>\<open>src/misc.c\<close>: names of files, sizes and durations as text, the stream that
  sends what is written to it as messages of bounded length, the least of several integers,
  and the client's own record.
\<close>

section \<open>Texts\<close>

definition human_readable_id :: "sodium \<Rightarrow> string \<Rightarrow> nat \<Rightarrow> string res" where
  "human_readable_id sod address len =
     (if length address < len then Inl OutOfBounds
      else Inr (cstr (sodium_bin2hex sod (take len address))))"

definition gnu_basename :: "string \<Rightarrow> string" where
  "gnu_basename path = (case strrchr path (CHR ''/'') of Some base \<Rightarrow> drop 1 base | None \<Rightarrow> path)"

text \<open>The loop that divides by 1024; it gets an \<^verbatim>\<open>off_t\<close>.\<close>

function filesize_loop :: "int \<Rightarrow> nat \<Rightarrow> int \<times> nat" where
  "filesize_loop sz unit_prefix =
     (if sz > 9999 then filesize_loop (sz div 1024) (unit_prefix + 1) else (sz, unit_prefix))"
  by pat_completeness auto
termination by (relation "measure (\<lambda>(sz, u). nat sz)") auto

declare filesize_loop.simps [simp del]

definition unit_letter :: string where
  "unit_letter = '' KMGTPEZY'' @ [NUL]"

definition human_readable_filesize :: "string \<Rightarrow> int \<Rightarrow> string res" where
  "human_readable_filesize dest sz =
     (case filesize_loop sz 0 of (sz, unit_prefix) \<Rightarrow>
        if length unit_letter \<le> unit_prefix then Inl OutOfBounds
        else snprintf_at dest 0 8 (show_nat (nat (sz mod 2 ^ 64)) @ '' '' @ [unit_letter ! unit_prefix] @ ''b''))"

definition get_elapsed_time_str :: "string \<Rightarrow> int \<Rightarrow> u64 \<Rightarrow> string res" where
  "get_elapsed_time_str buf bufsize secs =
     (let minutes = (secs mod 3600) div 60; hours = (secs div 3600) mod 24; days = (secs div 3600) div 24 in
      snprintf_at buf 0 bufsize
        (show_nat (unat days) @ ''d '' @ show_nat (unat hours) @ ''h '' @ show_nat (unat minutes) @ ''m''))"

section \<open>The message stream\<close>

record toxstream_cookie =
  ck_friend_number :: u32
  ck_type :: u32

function toxstream_loop ::
  "'t toxcore \<Rightarrow> toxstream_cookie \<Rightarrow> string \<Rightarrow> nat \<Rightarrow> nat \<Rightarrow> 't \<Rightarrow> nat \<times> 't" where
  "toxstream_loop api cookie message sz offset tox =
     (if offset < sz then
        (let len = (if sz - offset > TOX_MAX_MESSAGE_LENGTH then TOX_MAX_MESSAGE_LENGTH else sz - offset);
             (ok, tox) = tox_friend_send_message api (ck_friend_number cookie) (ck_type cookie)
                           (take len (drop offset message)) tox in
         if \<not> ok then (0, tox) else toxstream_loop api cookie message sz (offset + len) tox)
      else (offset, tox))"
  by pat_completeness auto
termination by (relation "measure (\<lambda>(api, cookie, message, sz, offset, tox). sz - offset)") auto

declare toxstream_loop.simps [simp del]

definition toxstream_write ::
  "'t toxcore \<Rightarrow> toxstream_cookie \<Rightarrow> string \<Rightarrow> nat \<Rightarrow> 't \<Rightarrow> (nat \<times> 't) res" where
  "toxstream_write api cookie message sz tox =
     (if length message < sz then Inl OutOfBounds else Inr (toxstream_loop api cookie message sz 0 tox))"

section \<open>The least argument\<close>

text \<open>
  \<^verbatim>\<open>min(arg_count, ...)\<close>: the variable arguments are a list; fetching one that was
  not passed is out of bounds.
\<close>

fun min_loop :: "int list \<Rightarrow> nat \<Rightarrow> int \<Rightarrow> int res" where
  "min_loop args 0 m = Inr m"
| "min_loop [] (Suc n) m = Inl OutOfBounds"
| "min_loop (a # args) (Suc n) m = min_loop args n (if a < m then a else m)"

definition min_args :: "int \<Rightarrow> int list \<Rightarrow> int res" where
  "min_args arg_count args =
     (case args of [] \<Rightarrow> Inl OutOfBounds
      | a # rest \<Rightarrow> min_loop rest (nat (arg_count - 1)) a)"

section \<open>The client's own record\<close>

record client_info =
  ci_name :: "string option"
  ci_status_message :: "string option"
  ci_tox_id_bin :: "string option"
  ci_tox_id_hex :: "string option"
  ci_connect :: "u32 option"

text \<open>
  A text of \<open>sz\<close> bytes is copied into the reallocated buffer, and a NUL is stored behind
  it; \<open>sz + 1\<close> wraps around.
\<close>

definition copy_text :: "(nat \<Rightarrow> char) \<Rightarrow> string option \<Rightarrow> u64 \<Rightarrow> string \<Rightarrow> string option res" where
  "copy_text g old sz text =
     (case realloc_buf g old (unat (sz + 1)) of
        None \<Rightarrow> Inl NullDeref
      | Some buf \<Rightarrow>
          r_bind (mem_store buf 0 text) (\<lambda>buf.
          r_bind (mem_store buf (unat sz) [NUL]) (\<lambda>buf. Inr (Some buf))))"

definition client_info_new :: "client_info \<Rightarrow> client_info" where
  "client_info_new ci = ci\<lparr>ci_name := None, ci_status_message := None\<rparr>"

definition client_info_update ::
  "'t toxcore \<Rightarrow> sodium \<Rightarrow> (nat \<Rightarrow> char) \<Rightarrow> 't \<Rightarrow> client_info \<Rightarrow> client_info res" where
  "client_info_update api sod g tox ci =
     r_bind (copy_text g (ci_name ci) (tox_self_get_name_size api tox) (tox_self_get_name api tox))
       (\<lambda>nm. let address = tox_self_get_address api tox;
                 ci = ci\<lparr>ci_name := nm, ci_tox_id_bin := Some address,
                         ci_tox_id_hex := Some (map toupper (sodium_bin2hex sod address)),
                         ci_connect := Some (tox_self_get_connection_status api tox)\<rparr> in
     r_bind (copy_text g (ci_status_message ci) (tox_self_get_status_message_size api tox)
               (tox_self_get_status_message api tox))
       (\<lambda>sm. Inr (ci\<lparr>ci_status_message := sm\<rparr>)))"

abbreviation (input) NL :: char where "NL \<equiv> CHR 0x0A"

text \<open>\<^verbatim>\<open>%s\<close> of a null pointer prints \<^verbatim>\<open>(null)\<close> with glibc.\<close>

definition show_ptr :: "string option \<Rightarrow> string" where
  "show_ptr s = (case s of None \<Rightarrow> ''(null)'' | Some b \<Rightarrow> cstr b)"

definition client_info_print :: "client_info \<Rightarrow> string res" where
  "client_info_print ci =
     (case ci_tox_id_hex ci of None \<Rightarrow> Inl Uninit
      | Some hex \<Rightarrow> Inr
         (''Name : '' @ show_ptr (ci_name ci) @ [NL] @ ''tox:'' @ cstr hex @ [NL] @
          replicate 35 (CHR ''-'') @ '' Status message '' @ replicate 35 (CHR ''-'') @ [NL] @
          show_ptr (ci_status_message ci) @ [NL] @ replicate 86 (CHR ''-'') @ [NL]))"

section \<open>Lemmas\<close>

lemma copy_text_ok:
  assumes "length txt = unat sz" "sz \<noteq> UINT64_MAX"
  shows "copy_text g old sz txt = Inr (Some (txt @ [NUL]))"
proof -
  have "1 + sz \<noteq> 0"
  proof
    assume "1 + sz = 0"
    then have "sz = - 1" by (metis add.commute eq_neg_iff_add_eq_0)
    with assms(2) show False by simp
  qed
  from unatSuc [OF this] have "unat (sz + 1) = Suc (unat sz)" by (simp add: add.commute)
  then obtain buf where buf: "realloc_buf g old (unat (sz + 1)) = Some buf"
    by (auto simp: realloc_buf_def)
  with \<open>unat (sz + 1) = Suc (unat sz)\<close> have "length buf = Suc (length txt)"
    using realloc_buf_length assms(1) by fastforce
  then have "mem_store buf 0 txt = Inr (txt @ drop (length txt) buf)"
    "mem_store (txt @ drop (length txt) buf) (length txt) [NUL] = Inr (txt @ [NUL])"
    by (auto simp: mem_store_def)
  with buf assms(1) show ?thesis by (simp add: copy_text_def)
qed

lemma filesize_loop_value:
  assumes "0 \<le> sz"
  shows "\<exists>n k. filesize_loop sz u = (n, u + k) \<and> 0 \<le> n \<and> n \<le> 9999 \<and> n * 1024 ^ k \<le> sz \<and>
    sz < (n + 1) * 1024 ^ k \<and> (0 < k \<longrightarrow> 9 \<le> n)"
  using assms
proof (induction sz u rule: filesize_loop.induct)
  case (1 sz u)
  show ?case
  proof (cases "sz > 9999")
    case False
    with 1 show ?thesis by (intro exI [of _ sz] exI [of _ 0]) (simp add: filesize_loop.simps)
  next
    case True
    have "0 \<le> sz div 1024" using True by (simp add: pos_imp_zdiv_nonneg_iff)
    from 1(1) [OF True this] obtain n k where r: "filesize_loop (sz div 1024) (u + 1) = (n, u + 1 + k)"
      "0 \<le> n" "n \<le> 9999" "n * 1024 ^ k \<le> sz div 1024" "sz div 1024 < (n + 1) * 1024 ^ k"
      "0 < k \<longrightarrow> 9 \<le> n" by auto
    have "n * 1024 ^ k * 1024 \<le> sz" using r(4) by linarith
    moreover have "sz < (n + 1) * 1024 ^ k * 1024" using r(5) by linarith
    moreover have "9 \<le> n" using r(5,6) True by (cases k) auto
    ultimately show ?thesis using True r
      by (intro exI [of _ n] exI [of _ "Suc k"]) (simp add: filesize_loop.simps [of sz] mult.commute mult.assoc)
  qed
qed

lemma length_show_nat: "n < 10 ^ k \<Longrightarrow> 0 < k \<Longrightarrow> length (show_nat n) \<le> k"
proof (induction n arbitrary: k rule: show_nat.induct)
  case (1 n)
  show ?case
  proof (cases "n < 10")
    case True
    with 1 show ?thesis by (subst show_nat.simps) simp
  next
    case False
    with 1 obtain j where k: "k = Suc j" "0 < j" by (cases k; cases "k - 1") auto
    with 1 False have "length (show_nat (n div 10)) \<le> j" by auto
    with k False show ?thesis by (subst show_nat.simps) simp
  qed
qed

lemma strrchr_None: "strrchr s c = None \<longleftrightarrow> c \<notin> set s"
  by (induction s) (auto split: option.splits)

lemma strrchr_last: "c \<notin> set t \<Longrightarrow> strrchr (s @ c # t) c = Some (c # t)"
  by (induction s) (simp_all add: strrchr_None [THEN iffD2])

lemma gnu_basename_simps [simp]:
  "CHR ''/'' \<notin> set t \<Longrightarrow> gnu_basename (s @ CHR ''/'' # t) = t"
  "CHR ''/'' \<notin> set t \<Longrightarrow> gnu_basename t = t"
  by (simp_all add: gnu_basename_def strrchr_last strrchr_None [THEN iffD2])

lemma min_loop_Min: "length args = n \<Longrightarrow> min_loop args n m = Inr (Min (set (m # args)))"
proof (induction args n m rule: min_loop.induct)
  case (3 a args n m)
  have "Min (insert m (insert a (set args))) = Min (insert (min a m) (set args))"
    by (simp add: Min_insert min.commute min.left_commute insert_commute)
      (cases "set args = {}"; simp add: min.commute min.left_commute)
  with 3 show ?case by (simp add: min_def)
qed simp_all

section \<open>The stream as a sequence of messages\<close>

function chunks :: "string \<Rightarrow> string list" where
  "chunks s = (if s = [] then []
               else take TOX_MAX_MESSAGE_LENGTH s # chunks (drop TOX_MAX_MESSAGE_LENGTH s))"
  by pat_completeness auto
termination by (relation "measure length") auto

declare chunks.simps [simp del]

text \<open>Sending messages one by one, up to the first that fails.\<close>

fun send_all :: "'t toxcore \<Rightarrow> toxstream_cookie \<Rightarrow> string list \<Rightarrow> 't \<Rightarrow> bool \<times> 't" where
  "send_all api cookie [] tox = (True, tox)"
| "send_all api cookie (m # ms) tox =
     (let (ok, tox) = tox_friend_send_message api (ck_friend_number cookie) (ck_type cookie) m tox in
      if ok then send_all api cookie ms tox else (False, tox))"

lemma chunks_Nil [simp]: "chunks [] = []"
  by (simp add: chunks.simps)

lemma chunks_props:
  "concat (chunks s) = s \<and> list_all (\<lambda>c. 0 < length c \<and> length c \<le> TOX_MAX_MESSAGE_LENGTH) (chunks s)"
proof (induction s rule: chunks.induct)
  case (1 s)
  then show ?case by (cases "s = []") (simp_all add: chunks.simps [of s])
qed

lemma toxstream_loop_chunks:
  assumes "sz \<le> length message" "offset \<le> sz"
  shows "toxstream_loop api cookie message sz offset tox =
    (case send_all api cookie (chunks (drop offset (take sz message))) tox of
       (ok, tox) \<Rightarrow> (if ok then sz else 0, tox))"
  using assms
proof (induction api cookie message sz offset tox rule: toxstream_loop.induct)
  case (1 api cookie message sz offset tox)
  show ?case
  proof (cases "offset < sz")
    case False
    with 1 show ?thesis by (simp add: toxstream_loop.simps chunks.simps)
  next
    case True
    define len where "len = (if sz - offset > TOX_MAX_MESSAGE_LENGTH then TOX_MAX_MESSAGE_LENGTH else sz - offset)"
    define m where "m = take len (drop offset message)"
    obtain ok tox' where send:
      "tox_friend_send_message api (ck_friend_number cookie) (ck_type cookie) m tox = (ok, tox')" by fastforce
    define r where "r = drop offset (take sz message)"
    have r': "r = take (sz - offset) (drop offset message)" by (simp add: r_def drop_take)
    have "r \<noteq> []" using True 1(2) by (simp add: r_def)
    moreover have "take TOX_MAX_MESSAGE_LENGTH r = m"
      unfolding r' m_def len_def take_take by (auto simp: min_def)
    moreover have "drop TOX_MAX_MESSAGE_LENGTH r = drop (offset + len) (take sz message)"
    proof (cases "sz - offset > TOX_MAX_MESSAGE_LENGTH")
      case False
      then have "length r \<le> TOX_MAX_MESSAGE_LENGTH" using 1(2) by (simp add: r_def)
      with False show ?thesis by (simp add: len_def)
    qed (simp add: r_def len_def add.commute)
    ultimately have c: "chunks (drop offset (take sz message)) = m # chunks (drop (offset + len) (take sz message))"
      unfolding r_def [symmetric] by (subst chunks.simps) simp
    have step: "toxstream_loop api cookie message sz offset tox =
        (if \<not> ok then (0, tox') else toxstream_loop api cookie message sz (offset + len) tox')"
      using True send by (subst toxstream_loop.simps) (simp add: len_def [symmetric] m_def [symmetric] Let_def)
    show ?thesis
    proof (cases ok)
      case False
      then show ?thesis using step send c by simp
    next
      case ok: True
      have "offset + len \<le> sz" using True by (auto simp: len_def)
      moreover have "tox_friend_send_message api (ck_friend_number cookie) (ck_type cookie)
          (take len (drop offset message)) tox = (ok, tox')" using send by (simp add: m_def)
      ultimately have "toxstream_loop api cookie message sz (offset + len) tox' =
          (case send_all api cookie (chunks (drop (offset + len) (take sz message))) tox' of
             (ok, tox) \<Rightarrow> (if ok then sz else 0, tox))"
        using 1(1) [OF True len_def, of "(ok, tox')" ok tox'] 1(2) ok by simp
      with ok step send c show ?thesis by simp
    qed
  qed
qed

section \<open>Properties\<close>

text \<open>
  For every file size the text of \<^verbatim>\<open>human_readable_filesize\<close> fits the
  8 bytes that its callers provide, unabridged: at most four digits with a unit up to
  \<^verbatim>\<open>P\<close>, and the size lies between the printed number of units and the next one.
\<close>

theorem human_readable_filesize_fits:
  assumes "0 \<le> sz" and "in_i64 sz" and "length dest = 8"
  shows "\<exists>n k. let txt = show_nat n @ '' '' @ [unit_letter ! k] @ ''b'' in
    human_readable_filesize dest sz = Inr (txt @ [NUL] @ drop (Suc (length txt)) dest) \<and>
    length txt \<le> 7 \<and> n \<le> 9999 \<and> k \<le> 5 \<and>
    int n * 1024 ^ k \<le> sz \<and> sz < (int n + 1) * 1024 ^ k"
proof -
  from filesize_loop_value [OF assms(1), of 0] obtain i k where r: "filesize_loop sz 0 = (i, k)"
    "0 \<le> i" "i \<le> 9999" "i * 1024 ^ k \<le> sz" "sz < (i + 1) * 1024 ^ k" "0 < k \<longrightarrow> 9 \<le> i" by auto
  define n where "n = nat i"
  have i: "i = int n" "n \<le> 9999" using r(2,3) by (simp_all add: n_def)
  have "k \<le> 5"
  proof (rule ccontr)
    assume "\<not> k \<le> 5"
    then have "9 * 1024 ^ 6 \<le> i * (1024 :: int) ^ k"
      using r(6) by (intro mult_mono power_increasing) auto
    with r(4) assms(2) show False by (simp add: in_i64_def)
  qed
  moreover have "length (show_nat n) \<le> 4" using length_show_nat [of n 4] i by simp
  ultimately show ?thesis using r i assms(3)
    by (intro exI [of _ n] exI [of _ k])
      (simp add: human_readable_filesize_def snprintf_at_def mem_store_def unit_letter_def Let_def)
qed

theorem human_readable_filesize_fits_witness:
  "\<exists>n k. int n * 1024 ^ k \<le> 123456789 \<and> 123456789 < (int n + 1) * 1024 ^ k \<and>
    human_readable_filesize (replicate 8 NUL) 123456789 =
      Inr (show_nat n @ '' '' @ [unit_letter ! k] @ ''b'' @ [NUL] @
        drop (Suc (length (show_nat n @ '' '' @ [unit_letter ! k] @ ''b''))) (replicate 8 NUL))"
  using human_readable_filesize_fits [of 123456789 "replicate 8 NUL"]
  by (auto simp: in_i64_def Let_def)

text \<open>
  C38 (functional): what is written to the message stream leaves as messages of at most
  \<^verbatim>\<open>TOX_MAX_MESSAGE_LENGTH\<close> bytes, none of them empty, whose concatenation is
  the text, sent in order up to the first failure; the result is the size, or 0 on failure.
\<close>

theorem toxstream_write_messages:
  assumes "sz \<le> length message"
  shows "toxstream_write api cookie message sz tox =
      Inr (case send_all api cookie (chunks (take sz message)) tox of
             (ok, tox) \<Rightarrow> (if ok then sz else 0, tox)) \<and>
    concat (chunks (take sz message)) = take sz message \<and>
    list_all (\<lambda>c. 0 < length c \<and> length c \<le> TOX_MAX_MESSAGE_LENGTH) (chunks (take sz message))"
  using assms toxstream_loop_chunks [of sz message 0] chunks_props [of "take sz message"]
  by (simp add: toxstream_write_def)

theorem toxstream_write_messages_witness:
  "toxstream_write sample \<lparr>ck_friend_number = 1, ck_type = 0\<rparr> ''hello'' 4 \<lparr>sm_friends = [], sm_log = []\<rparr> =
    Inr (4, \<lparr>sm_friends = [], sm_log = [''hell'']\<rparr>)"
  using toxstream_write_messages [of 4 "''hello''" sample "\<lparr>ck_friend_number = 1, ck_type = 0\<rparr>"
      "\<lparr>sm_friends = [], sm_log = []\<rparr>"]
  by (simp add: chunks.simps sample_def)

text \<open>
  Called with the number of the integers that it is passed,
  \<^verbatim>\<open>min\<close> returns the least of them; with a greater count it reads an argument
  that was not passed.
\<close>

theorem min_args_least:
  assumes "args \<noteq> []"
  shows "min_args (int (length args)) args = Inr (Min (set args))"
  using assms min_loop_Min by (cases args) (simp_all add: min_args_def)

theorem min_args_least_witness: "min_args 3 [7, - 2, 5] = Inr (- 2)"
  using min_args_least [of "[7, - 2, 5]"] by simp

end
