(* ===== verification/Friend.thy ===== *)
theory Friend
  imports Misc Registry
begin

text \<open>
  \<^verbatim>\<open>src/friend.c\<close>: the registry of friends, a copy of what \<^verbatim>\<open>toxcore\<close>
  knows, ordered by friend number. The registry is the list of its entries in list order
  (\<open>Registry\<close> shows that the pointer loops act on that list); a field that
  \<^verbatim>\<open>malloc\<close> left unwritten is \<open>None\<close> and reading it is the fault \<open>Uninit\<close>.
\<close>

section \<open>State\<close>

record friend_info =
  friend_number :: u32
  fname :: "string option"
  status_message :: "string option"
  tox_id_bin :: "string option"
  last_online :: "u64 option"
  status :: "u32 option"
  connection_status :: "u32 option"
  tox_id_hex :: "string option"

text \<open>\<open>fname\<close> and \<open>status_message\<close> are pointers that are null at first; the rest is storage.\<close>

definition fget :: "('e \<Rightarrow> 'a option) \<Rightarrow> 'e \<Rightarrow> 'a res" where
  "fget field f = (case field f of None \<Rightarrow> Inl Uninit | Some x \<Rightarrow> Inr x)"

lemma fget_simps [simp]:
  "field f = Some x \<Longrightarrow> fget field f = Inr x" "field f = None \<Longrightarrow> fget field f = Inl Uninit"
  by (simp_all add: fget_def)

lemma fget_Inr [simp]: "fget field f = Inr x \<longleftrightarrow> field f = Some x"
  by (simp add: fget_def split: option.splits)

abbreviation (input) TOX_USER_STATUS_NONE :: u32 where "TOX_USER_STATUS_NONE \<equiv> 0"
abbreviation (input) TOX_USER_STATUS_AWAY :: u32 where "TOX_USER_STATUS_AWAY \<equiv> 1"
abbreviation (input) TOX_USER_STATUS_BUSY :: u32 where "TOX_USER_STATUS_BUSY \<equiv> 2"
abbreviation (input) TOX_CONNECTION_NONE :: u32 where "TOX_CONNECTION_NONE \<equiv> 0"
abbreviation (input) TOX_CONNECTION_TCP :: u32 where "TOX_CONNECTION_TCP \<equiv> 1"
abbreviation (input) TOX_CONNECTION_UDP :: u32 where "TOX_CONNECTION_UDP \<equiv> 2"

section \<open>Entries\<close>

definition friend_info_new :: "u32 \<Rightarrow> friend_info" where
  "friend_info_new n = \<lparr>friend_number = n, fname = None, status_message = None, tox_id_bin = None,
     last_online = None, status = None, connection_status = None, tox_id_hex = None\<rparr>"

fun friend_insert :: "friend_info \<Rightarrow> friend_info list \<Rightarrow> friend_info list" where
  "friend_insert new [] = [new]"
| "friend_insert new (entry # rest) =
     (if friend_number entry > friend_number new then new # entry # rest
      else entry # friend_insert new rest)"

definition friend_info_add_entry :: "u32 \<Rightarrow> friend_info list \<Rightarrow> friend_info list" where
  "friend_info_add_entry n friends = friend_insert (friend_info_new n) friends"

text \<open>Removing the first entry that satisfies a test: \<^verbatim>\<open>friend_info_destroy\<close> of it.\<close>

fun remove_first :: "('e \<Rightarrow> bool) \<Rightarrow> 'e list \<Rightarrow> 'e list" where
  "remove_first P [] = []"
| "remove_first P (e # es) = (if P e then es else e # remove_first P es)"

definition friend_info_destroy :: "friend_info \<Rightarrow> friend_info list \<Rightarrow> friend_info list" where
  "friend_info_destroy f friends = remove_first (\<lambda>e. friend_number e = friend_number f) friends"

definition friend_info_update ::
  "'t toxcore \<Rightarrow> sodium \<Rightarrow> (nat \<Rightarrow> char) \<Rightarrow> 't \<Rightarrow> friend_info \<Rightarrow> friend_info res" where
  "friend_info_update api sod g tox f =
     (let n = friend_number f;
          f = f\<lparr>last_online := Some (tox_friend_get_last_online api tox n)\<rparr>;
          key = tox_friend_get_public_key api tox n;
          f = f\<lparr>tox_id_bin := Some key, tox_id_hex := Some (map toupper (sodium_bin2hex sod key))\<rparr> in
      r_bind (copy_text g (fname f) (tox_friend_get_name_size api tox n) (tox_friend_get_name api tox n))
        (\<lambda>nm. let f = f\<lparr>fname := nm\<rparr> in
      r_bind (copy_text g (status_message f) (tox_friend_get_status_message_size api tox n)
                (tox_friend_get_status_message api tox n))
        (\<lambda>sm. Inr (f\<lparr>status_message := sm, status := Some (tox_friend_get_status api tox n),
                      connection_status := Some (tox_friend_get_connection_status api tox n)\<rparr>))))"

section \<open>Lookup\<close>

definition friend_info_by_friend_number :: "friend_info list \<Rightarrow> u32 \<Rightarrow> friend_info option" where
  "friend_info_by_friend_number friends n = List.find (\<lambda>f. friend_number f = n) friends"

text \<open>The two searches by key look at storage that may not have been written.\<close>

definition friend_info_by_public_keyhex :: "friend_info list \<Rightarrow> string \<Rightarrow> friend_info option res" where
  "friend_info_by_public_keyhex friends key =
     find_res (\<lambda>f. r_bind (fget tox_id_hex f) (\<lambda>h. Inr (strncmp_eq h key (TOX_PUBLIC_KEY_SIZE * 2)))) friends"

definition friend_info_by_public_keybin :: "friend_info list \<Rightarrow> string \<Rightarrow> friend_info option res" where
  "friend_info_by_public_keybin friends key =
     find_res (\<lambda>f. r_bind (fget tox_id_bin f) (\<lambda>b.
       if length key < TOX_PUBLIC_KEY_SIZE then Inl OutOfBounds
       else Inr (take TOX_PUBLIC_KEY_SIZE b = take TOX_PUBLIC_KEY_SIZE key))) friends"

definition friends_info_number_of_friend :: "friend_info list \<Rightarrow> int" where
  "friends_info_number_of_friend friends = fold (\<lambda>f i. i + 1) friends 0"

section \<open>The whole registry\<close>

fun friends_info_update ::
  "'t toxcore \<Rightarrow> sodium \<Rightarrow> (nat \<Rightarrow> char) \<Rightarrow> 't \<Rightarrow> friend_info list \<Rightarrow> friend_info list res" where
  "friends_info_update api sod g tox [] = Inr []"
| "friends_info_update api sod g tox (f # fs) =
     r_bind (friend_info_update api sod g tox f) (\<lambda>f.
     r_bind (friends_info_update api sod g tox fs) (\<lambda>fs. Inr (f # fs)))"

definition friends_info_init ::
  "'t toxcore \<Rightarrow> sodium \<Rightarrow> (nat \<Rightarrow> char) \<Rightarrow> 't \<Rightarrow> friend_info list \<Rightarrow> (friend_info list \<times> nat) res" where
  "friends_info_init api sod g tox friends =
     (let friend_list = tox_self_get_friend_list api tox;
          friends = fold friend_info_add_entry friend_list friends in
      r_bind (friends_info_update api sod g tox friends) (\<lambda>friends. Inr (friends, length friend_list)))"

definition friends_info_destroy :: "friend_info list \<Rightarrow> friend_info list" where
  "friends_info_destroy friends = fold friend_info_destroy friends friends"

text \<open>
  \<^verbatim>\<open>friend_cleanup\<close>. The loop may remove its cursor; \<open>kept\<close> and the rest make
  up the registry when it is at an entry.
\<close>

fun friend_cleanup ::
  "'t toxcore \<Rightarrow> u64 \<Rightarrow> u64 \<Rightarrow> 't \<Rightarrow> friend_info list \<Rightarrow> ('t \<times> friend_info list) res" where
  "friend_cleanup api timeout current_time tox [] = Inr (tox, [])"
| "friend_cleanup api timeout current_time tox (f # fs) =
     r_bind (fget last_online f) (\<lambda>lo.
       if lo = UINT64_MAX \<or> current_time - lo < timeout then
         r_bind (friend_cleanup api timeout current_time tox fs) (\<lambda>(tox, fs). Inr (tox, f # fs))
       else
         (let (_, tox) = tox_friend_delete api (friend_number f) tox in
          friend_cleanup api timeout current_time tox fs))"

section \<open>Callbacks\<close>

text \<open>The entry that a callback found is written through its pointer; there may be none.\<close>

fun update_first :: "('e \<Rightarrow> bool) \<Rightarrow> ('e \<Rightarrow> 'e res) \<Rightarrow> 'e list \<Rightarrow> 'e list res" where
  "update_first P upd [] = Inl NullDeref"
| "update_first P upd (e # es) =
     (if P e then r_bind (upd e) (\<lambda>e. Inr (e # es))
      else r_bind (update_first P upd es) (\<lambda>es. Inr (e # es)))"

definition friend_request_cb ::
  "'t toxcore \<Rightarrow> string \<Rightarrow> 't \<Rightarrow> friend_info list \<Rightarrow> 't \<times> friend_info list" where
  "friend_request_cb api public_key tox friends =
     (case tox_friend_add_norequest api public_key tox of
        (None, tox) \<Rightarrow> (tox, friends)
      | (Some n, tox) \<Rightarrow> (tox, friend_info_add_entry n friends))"

definition friend_name_cb ::
  "(nat \<Rightarrow> char) \<Rightarrow> u32 \<Rightarrow> string \<Rightarrow> u64 \<Rightarrow> friend_info list \<Rightarrow> friend_info list res" where
  "friend_name_cb g n name len friends =
     update_first (\<lambda>f. friend_number f = n)
       (\<lambda>f. r_bind (copy_text g (fname f) len (take (unat len) name)) (\<lambda>b. Inr (f\<lparr>fname := b\<rparr>))) friends"

definition friend_status_message_cb ::
  "(nat \<Rightarrow> char) \<Rightarrow> u32 \<Rightarrow> string \<Rightarrow> u64 \<Rightarrow> friend_info list \<Rightarrow> friend_info list res" where
  "friend_status_message_cb g n message len friends =
     update_first (\<lambda>f. friend_number f = n)
       (\<lambda>f. r_bind (copy_text g (status_message f) len (take (unat len) message))
              (\<lambda>b. Inr (f\<lparr>status_message := b\<rparr>))) friends"

definition friend_status_cb :: "u32 \<Rightarrow> u32 \<Rightarrow> friend_info list \<Rightarrow> friend_info list res" where
  "friend_status_cb n st friends =
     update_first (\<lambda>f. friend_number f = n) (\<lambda>f. Inr (f\<lparr>status := Some st\<rparr>)) friends"

section \<open>Printing\<close>

text \<open>
  \<^verbatim>\<open>%-Ns\<close> pads on the right. The date of \<^verbatim>\<open>ctime\<close> is a parameter.
\<close>

definition padr :: "nat \<Rightarrow> string \<Rightarrow> string" where
  "padr n s = s @ replicate (n - length s) (CHR '' '')"

definition padl :: "nat \<Rightarrow> string \<Rightarrow> string" where
  "padl n s = replicate (n - length s) (CHR '' '') @ s"

definition friend_info_print :: "friend_info \<Rightarrow> string res" where
  "friend_info_print f =
     r_bind (fget tox_id_hex f) (\<lambda>hex. r_bind (fget status f) (\<lambda>st. Inr
      (''Name : '' @ show_ptr (fname f) @ [NL] @
       ''Status message : '' @ show_ptr (status_message f) @ [NL] @
       ''Tox Public key : '' @ cstr hex @ [NL] @
       ''Status : '' @
         (if st = TOX_USER_STATUS_NONE then ''online''
          else if st = TOX_USER_STATUS_AWAY then ''away''
          else if st = TOX_USER_STATUS_BUSY then ''busy'' else '''') @ [NL])))"

definition friend_row :: "(u64 \<Rightarrow> string) \<Rightarrow> friend_info \<Rightarrow> string res" where
  "friend_row ctime f =
     r_bind (fget tox_id_hex f) (\<lambda>hex. r_bind (fget last_online f) (\<lambda>lo.
     r_bind (fget status f) (\<lambda>st. r_bind (fget connection_status f) (\<lambda>cs. Inr
      (''| '' @ padl 3 (show_int (sint (friend_number f))) @
       '' | '' @ padr 64 (cstr hex) @
       '' | '' @ padr 20 (show_ptr (fname f)) @
       '' | '' @ padr 90 (show_ptr (status_message f)) @
       '' | '' @ (if lo \<noteq> 0 then butlast (ctime lo) else padr 24 '''') @
       '' | '' @ [if st = TOX_USER_STATUS_NONE then CHR ''O''
                 else if st = TOX_USER_STATUS_AWAY then CHR ''X''
                 else if st = TOX_USER_STATUS_BUSY then CHR ''/'' else char_of (unat st)] @
       '' | '' @ [if cs = TOX_CONNECTION_NONE then CHR ''X'' else CHR ''0''] @ '' | '' @ [NL])))))"

fun concat_res :: "string res list \<Rightarrow> string res" where
  "concat_res [] = Inr []"
| "concat_res (r # rs) = r_bind r (\<lambda>s. r_bind (concat_res rs) (\<lambda>t. Inr (s @ t)))"

definition friends_info_print :: "(u64 \<Rightarrow> string) \<Rightarrow> friend_info list \<Rightarrow> string res" where
  "friends_info_print ctime friends =
     r_bind (concat_res (map (friend_row ctime) friends)) (\<lambda>rows. Inr
      (''| '' @ padl 3 (show_int (friends_info_number_of_friend friends)) @ '' | '' @ padr 64 ''< Public Key >'' @
       '' | '' @ padr 20 ''<name (truncated)>'' @ '' | '' @ padr 90 ''<status message (truncated)>'' @
       '' | '' @ padr 24 ''<last online>'' @ '' | S | C |'' @ [NL] @
       ''|----:|'' @ replicate 66 (CHR ''-'') @ ''|'' @ replicate 22 (CHR ''-'') @ ''|'' @
       replicate 92 (CHR ''-'') @ ''|:'' @ replicate 24 (CHR ''-'') @ '':|---|---|'' @ [NL] @ rows))"

definition print_friends_pubkeys :: "friend_info list \<Rightarrow> string res" where
  "print_friends_pubkeys friends =
     concat_res (map (\<lambda>f. r_bind (fget tox_id_hex f) (\<lambda>hex. Inr (cstr hex @ [NL]))) friends)"

end
