(* ===== verification/Friend_Registry.thy ===== *)
theory Friend_Registry
  imports Friend
begin

text \<open>
  The registry of friends is correct: its operations as list functions, the invariant that
  it agrees with \<^verbatim>\<open>toxcore\<close>, what the periodic purge keeps, and where the
  callbacks fault.
\<close>

section \<open>Operations as functions on the ordered list\<close>

lemma friend_insert_reg: "friend_insert f fs = reg_insert friend_number f fs"
  by (induction fs) (auto simp: reg_insert_Cons)

lemma friend_info_add_entry_reg:
  "friend_info_add_entry n fs = reg_insert friend_number (friend_info_new n) fs"
  by (simp add: friend_info_add_entry_def friend_insert_reg)

lemma friend_number_new [simp]: "friend_number (friend_info_new n) = n"
  by (simp add: friend_info_new_def)

lemma by_friend_number_key:
  "friend_info_by_friend_number fs n = by_key friend_number n fs"
  by (simp add: friend_info_by_friend_number_def by_key_def)

interpretation friends: sorted_registry friend_number friend_insert friend_info_by_friend_number
  by unfold_locales (simp_all add: friend_insert_reg by_friend_number_key)

lemma number_of_friend: "friends_info_number_of_friend fs = int (length fs)"
proof -
  have "fold (\<lambda>f i. i + 1) fs i = i + int (length fs)" for i
    by (induction fs arbitrary: i) auto
  then show ?thesis by (simp add: friends_info_number_of_friend_def)
qed

definition numbers :: "friend_info list \<Rightarrow> u32 list" where
  "numbers fs = map friend_number fs"

definition registry_ok :: "friend_info list \<Rightarrow> bool" where
  "registry_ok fs \<longleftrightarrow> sorted_wrt (<) (numbers fs)"

lemma registry_ok_Nil [simp]: "registry_ok []"
  by (simp add: registry_ok_def numbers_def)

lemma numbers_add [simp]: "set (numbers (friend_info_add_entry n fs)) = insert n (set (numbers fs))"
  by (simp add: numbers_def friend_info_add_entry_reg)

lemma registry_ok_add:
  "registry_ok fs \<Longrightarrow> n \<notin> set (numbers fs) \<Longrightarrow> registry_ok (friend_info_add_entry n fs)"
  by (auto simp: registry_ok_def numbers_def friend_info_add_entry_reg intro!: strict_sorted_reg_insert)

lemma numbers_update_first:
  assumes "update_first P upd fs = Inr fs'"
    and "\<And>f f'. upd f = Inr f' \<Longrightarrow> friend_number f' = friend_number f"
  shows "numbers fs' = numbers fs"
  using assms by (induction fs arbitrary: fs') (auto simp: numbers_def r_bind_eq_Inr split: if_splits)

lemma numbers_callbacks:
  "friend_name_cb g n name len fs = Inr fs' \<Longrightarrow> numbers fs' = numbers fs"
  "friend_status_message_cb g n name len fs = Inr fs' \<Longrightarrow> numbers fs' = numbers fs"
  "friend_status_cb n st fs = Inr fs' \<Longrightarrow> numbers fs' = numbers fs"
  unfolding friend_name_cb_def friend_status_message_cb_def friend_status_cb_def
  by (erule numbers_update_first; auto simp: r_bind_eq_Inr)+

lemma friend_number_update:
  "friend_info_update api sod g tox f = Inr f' \<Longrightarrow> friend_number f' = friend_number f"
  by (auto simp: friend_info_update_def Let_def r_bind_eq_Inr)

lemma numbers_friends_info_update:
  "friends_info_update api sod g tox fs = Inr fs' \<Longrightarrow> numbers fs' = numbers fs"
  by (induction fs arbitrary: fs')
    (auto simp: numbers_def r_bind_eq_Inr dest: friend_number_update)

section \<open>The purge\<close>

definition expired :: "u64 \<Rightarrow> u64 \<Rightarrow> friend_info \<Rightarrow> bool" where
  "expired timeout now f =
     (case last_online f of None \<Rightarrow> False | Some lo \<Rightarrow> lo \<noteq> UINT64_MAX \<and> timeout \<le> now - lo)"

definition delete_all :: "'t toxcore \<Rightarrow> friend_info list \<Rightarrow> 't \<Rightarrow> 't" where
  "delete_all api fs tox = fold (\<lambda>f t. snd (tox_friend_delete api (friend_number f) t)) fs tox"

lemma friend_cleanup_eq:
  "friend_cleanup api timeout now tox fs =
     (if \<exists>f\<in>set fs. last_online f = None then Inl Uninit
      else Inr (delete_all api (filter (expired timeout now) fs) tox,
                filter (\<lambda>f. \<not> expired timeout now f) fs))"
proof (induction fs arbitrary: tox)
  case (Cons f fs)
  show ?case
  proof (cases "last_online f")
    case None
    then show ?thesis by simp
  next
    case (Some lo)
    then have "expired timeout now f \<longleftrightarrow> \<not> (lo = UINT64_MAX \<or> now - lo < timeout)"
      by (simp add: expired_def not_less)
    moreover obtain b tox' where "tox_friend_delete api (friend_number f) tox = (b, tox')" by fastforce
    ultimately show ?thesis using Some Cons
      by (cases "\<exists>f\<in>set fs. last_online f = None") (auto simp: delete_all_def)
  qed
qed (simp add: delete_all_def)

lemma sorted_wrt_filter_map:
  "sorted_wrt r (map f xs) \<Longrightarrow> sorted_wrt r (map f (filter P xs))"
  by (induction xs) auto

section \<open>Agreement with toxcore\<close>

text \<open>
  The documented laws of the friend list of \<^verbatim>\<open>toxcore\<close>: an added friend gets a
  number that is not in use, a deletion removes the number and nothing else.
\<close>

definition friend_laws :: "'t toxcore \<Rightarrow> bool" where
  "friend_laws api \<longleftrightarrow>
     (\<forall>pk t n t'. tox_friend_add_norequest api pk t = (Some n, t') \<longrightarrow>
        n \<notin> set (tox_self_get_friend_list api t) \<and>
        set (tox_self_get_friend_list api t') = insert n (set (tox_self_get_friend_list api t))) \<and>
     (\<forall>pk t t'. tox_friend_add_norequest api pk t = (None, t') \<longrightarrow>
        set (tox_self_get_friend_list api t') = set (tox_self_get_friend_list api t)) \<and>
     (\<forall>n t. set (tox_self_get_friend_list api (snd (tox_friend_delete api n t))) =
        set (tox_self_get_friend_list api t) - {n})"

lemma friend_laws_sample: "friend_laws sample"
  by (auto simp: friend_laws_def sample_def Let_def split: if_splits)

definition agrees :: "'t toxcore \<Rightarrow> 't \<times> friend_info list \<Rightarrow> bool" where
  "agrees api s \<longleftrightarrow> registry_ok (snd s) \<and>
     set (numbers (snd s)) = set (tox_self_get_friend_list api (fst s))"

text \<open>What can happen to the two between two iterations of the main loop, commands apart.\<close>

inductive friend_step :: "'t toxcore \<Rightarrow> (nat \<Rightarrow> char) \<Rightarrow> 't \<times> friend_info list \<Rightarrow> 't \<times> friend_info list \<Rightarrow> bool"
  for api g where
  request: "friend_request_cb api pk tox fs = s' \<Longrightarrow> friend_step api g (tox, fs) s'"
| name: "friend_name_cb g n name len fs = Inr fs' \<Longrightarrow> friend_step api g (tox, fs) (tox, fs')"
| message: "friend_status_message_cb g n msg len fs = Inr fs' \<Longrightarrow> friend_step api g (tox, fs) (tox, fs')"
| status: "friend_status_cb n st fs = Inr fs' \<Longrightarrow> friend_step api g (tox, fs) (tox, fs')"
| refresh: "friends_info_update api sod g tox fs = Inr fs' \<Longrightarrow> friend_step api g (tox, fs) (tox, fs')"
| purge: "friend_cleanup api timeout now tox fs = Inr s' \<Longrightarrow> friend_step api g (tox, fs) s'"

inductive_cases friend_stepE: "friend_step api g s s'"

lemma delete_all_list:
  assumes "friend_laws api"
  shows "set (tox_self_get_friend_list api (delete_all api fs tox)) =
    set (tox_self_get_friend_list api tox) - set (numbers fs)"
proof (induction fs arbitrary: tox)
  case (Cons f fs)
  have "set (tox_self_get_friend_list api (snd (tox_friend_delete api (friend_number f) tox))) =
      set (tox_self_get_friend_list api tox) - {friend_number f}"
    using assms by (simp add: friend_laws_def)
  with Cons [of "snd (tox_friend_delete api (friend_number f) tox)"] show ?case
    by (auto simp: delete_all_def numbers_def)
qed (simp add: delete_all_def numbers_def)

lemma numbers_partition:
  assumes "registry_ok fs"
  shows "set (numbers (filter P fs)) = set (numbers fs) - set (numbers (filter (\<lambda>f. \<not> P f) fs))"
proof -
  have "distinct (map friend_number fs)"
    using assms strict_sorted_iff by (auto simp: registry_ok_def numbers_def)
  then show ?thesis by (induction fs) (auto simp: numbers_def)
qed

lemma agrees_purge:
  assumes laws: "friend_laws api" and a: "agrees api (tox, fs)"
    and c: "friend_cleanup api timeout now tox fs = Inr s'"
  shows "agrees api s'"
proof -
  from c have s': "s' = (delete_all api (filter (expired timeout now) fs) tox,
      filter (\<lambda>f. \<not> expired timeout now f) fs)"
    by (simp add: friend_cleanup_eq split: if_splits)
  have "registry_ok (filter (\<lambda>f. \<not> expired timeout now f) fs)"
    using a sorted_wrt_filter_map by (auto simp: agrees_def registry_ok_def numbers_def)
  with a numbers_partition [of fs "\<lambda>f. \<not> expired timeout now f"] show ?thesis
    by (simp add: agrees_def s' delete_all_list [OF laws])
qed

lemma agrees_request:
  assumes "friend_laws api" and "agrees api (tox, fs)"
  shows "agrees api (friend_request_cb api pk tox fs)"
proof (cases "tox_friend_add_norequest api pk tox")
  case (Pair r t')
  then show ?thesis using assms
    by (cases r) (auto simp: friend_request_cb_def agrees_def friend_laws_def registry_ok_add)
qed

lemma friend_step_agrees:
  assumes "friend_laws api" and "friend_step api g s s'" and "agrees api s"
  shows "agrees api s'"
  using assms(2,3)
proof cases
  case (request pk tox fs)
  with assms show ?thesis by (auto intro: agrees_request)
next
  case (purge timeout now tox fs)
  with assms show ?thesis by (auto intro: agrees_purge)
next
  case (name n name len fs fs' tox)
  then have "numbers fs' = numbers fs" by (simp add: numbers_callbacks)
  with name assms(3) show ?thesis by (simp add: agrees_def registry_ok_def)
next
  case (message n msg len fs fs' tox)
  then have "numbers fs' = numbers fs" by (simp add: numbers_callbacks)
  with message assms(3) show ?thesis by (simp add: agrees_def registry_ok_def)
next
  case (status n st fs fs' tox)
  then have "numbers fs' = numbers fs" by (simp add: numbers_callbacks)
  with status assms(3) show ?thesis by (simp add: agrees_def registry_ok_def)
next
  case (refresh sod tox fs fs')
  then have "numbers fs' = numbers fs" by (simp add: numbers_friends_info_update)
  with refresh assms(3) show ?thesis by (simp add: agrees_def registry_ok_def)
qed

section \<open>Searching and updating an entry\<close>

lemma update_first_unique:
  assumes "distinct (numbers fs)"
  shows "update_first (\<lambda>f. friend_number f = n) (\<lambda>f. Inr (upd f)) fs =
    (if n \<in> set (numbers fs) then Inr (map (\<lambda>f. if friend_number f = n then upd f else f) fs)
     else Inl NullDeref)"
  using assms
proof (induction fs)
  case (Cons f fs)
  have "map (\<lambda>f. if friend_number f = n then upd f else f) fs = fs" if "n \<notin> set (numbers fs)"
    using that by (auto simp: numbers_def intro!: map_idI)
  with Cons show ?case by (auto simp: numbers_def)
qed (simp add: numbers_def)

lemma registry_distinct: "registry_ok fs \<Longrightarrow> distinct (numbers fs)"
  using strict_sorted_iff by (auto simp: registry_ok_def)

section \<open>Entries that mirror toxcore\<close>

text \<open>What \<^verbatim>\<open>toxcore\<close> promises of its texts and keys, and libsodium of its digits.\<close>

definition text_laws :: "'t toxcore \<Rightarrow> 't \<Rightarrow> bool" where
  "text_laws api tox \<longleftrightarrow> (\<forall>n.
     length (tox_friend_get_name api tox n) = unat (tox_friend_get_name_size api tox n) \<and>
     tox_friend_get_name_size api tox n \<noteq> UINT64_MAX \<and>
     length (tox_friend_get_status_message api tox n) = unat (tox_friend_get_status_message_size api tox n) \<and>
     tox_friend_get_status_message_size api tox n \<noteq> UINT64_MAX \<and>
     length (tox_friend_get_public_key api tox n) = TOX_PUBLIC_KEY_SIZE)"

definition hex_laws :: "sodium \<Rightarrow> bool" where
  "hex_laws sod \<longleftrightarrow>
     (\<forall>k. length k = TOX_PUBLIC_KEY_SIZE \<longrightarrow>
        length (sodium_bin2hex sod k) = 2 * TOX_PUBLIC_KEY_SIZE \<and> no_nul (sodium_bin2hex sod k)) \<and>
     (\<forall>k k'. length k = TOX_PUBLIC_KEY_SIZE \<longrightarrow> length k' = TOX_PUBLIC_KEY_SIZE \<longrightarrow>
        map toupper (sodium_bin2hex sod k) = map toupper (sodium_bin2hex sod k') \<longrightarrow> k = k')"

definition mirrors :: "'t toxcore \<Rightarrow> sodium \<Rightarrow> 't \<Rightarrow> friend_info \<Rightarrow> bool" where
  "mirrors api sod tox f \<longleftrightarrow> (let n = friend_number f; key = tox_friend_get_public_key api tox n in
     fname f = Some (tox_friend_get_name api tox n @ [NUL]) \<and>
     status_message f = Some (tox_friend_get_status_message api tox n @ [NUL]) \<and>
     tox_id_bin f = Some key \<and> tox_id_hex f = Some (map toupper (sodium_bin2hex sod key)) \<and>
     last_online f = Some (tox_friend_get_last_online api tox n) \<and>
     status f = Some (tox_friend_get_status api tox n) \<and>
     connection_status f = Some (tox_friend_get_connection_status api tox n))"

lemma friend_info_update_mirrors:
  assumes "text_laws api tox"
  shows "\<exists>f'. friend_info_update api sod g tox f = Inr f' \<and> friend_number f' = friend_number f \<and>
    mirrors api sod tox f'"
  using assms by (simp add: friend_info_update_def Let_def text_laws_def copy_text_ok mirrors_def)

lemma friends_info_update_mirrors:
  assumes "text_laws api tox"
  shows "\<exists>fs'. friends_info_update api sod g tox fs = Inr fs' \<and> numbers fs' = numbers fs \<and>
    (\<forall>f\<in>set fs'. mirrors api sod tox f)"
proof (induction fs)
  case (Cons f fs)
  with friend_info_update_mirrors [OF assms, of sod g f] show ?case by (auto simp: numbers_def)
qed (simp add: numbers_def)

lemma numbers_add_insort:
  "sorted (numbers fs) \<Longrightarrow> numbers (friend_info_add_entry n fs) = insort n (numbers fs)"
proof (induction fs)
  case (Cons f fs)
  then show ?case
    by (cases "n = friend_number f")
      (auto simp: numbers_def friend_info_add_entry_reg reg_insert_Cons not_le not_less insort_is_Cons)
qed (simp add: numbers_def friend_info_add_entry_reg)

lemma numbers_fold_add:
  "sorted (numbers fs) \<Longrightarrow> numbers (fold friend_info_add_entry ns fs) = fold insort ns (numbers fs)"
  by (induction ns arbitrary: fs) (simp_all add: numbers_add_insort sorted_insort)

lemma friends_info_init_mirrors:
  assumes "text_laws api tox"
  shows "\<exists>fs. friends_info_init api sod g tox [] = Inr (fs, length (tox_self_get_friend_list api tox)) \<and>
    numbers fs = sort (tox_self_get_friend_list api tox) \<and> (\<forall>f\<in>set fs. mirrors api sod tox f)"
proof -
  let ?l = "tox_self_get_friend_list api tox"
  have "numbers (fold friend_info_add_entry ?l []) = sort ?l"
    using numbers_fold_add [of "[]" ?l] by (simp add: numbers_def sort_conv_fold)
  with friends_info_update_mirrors [OF assms, of sod g "fold friend_info_add_entry ?l []"]
  show ?thesis by (auto simp: friends_info_init_def Let_def)
qed

text \<open>Upper-case hexadecimal digits, and the laws of the sample instances.\<close>

lemma byte_NUL [simp]: "byte NUL = 0"
  by (simp add: byte_def)

lemma byte_toupper: "byte (toupper c) = (if 97 \<le> byte c \<and> byte c \<le> 122 then byte c - 32 else byte c)"
proof -
  have "byte c - 32 < 256" using byte_less [of c] by linarith
  then show ?thesis by (simp add: toupper_def)
qed

lemma toupper_not_NUL: "c \<noteq> NUL \<Longrightarrow> toupper c \<noteq> NUL"
proof
  assume "c \<noteq> NUL" "toupper c = NUL"
  then have "byte (toupper c) = 0" "byte c \<noteq> 0" using byte_inj [of c NUL] by simp_all
  then show False by (simp add: byte_toupper split: if_splits)
qed

lemma no_nul_toupper: "no_nul s \<Longrightarrow> no_nul (map toupper s)"
  by (auto simp: no_nul_def toupper_not_NUL)

lemma byte_hexdigit: "n < 16 \<Longrightarrow> byte (hexdigit n) = (if n < 10 then 48 + n else 87 + n)"
  using byte_char_of [of "48 + n"] byte_char_of [of "87 + n"] by (simp add: hexdigit_def)

lemma byte_upper_hexdigit:
  assumes "n < 16"
  shows "byte (toupper (hexdigit n)) = (if n < 10 then 48 + n else 55 + n)"
proof (cases "n < 10")
  case True
  with assms have b: "byte (hexdigit n) = 48 + n" by (simp only: byte_hexdigit if_True)
  show ?thesis using True unfolding byte_toupper b by simp
next
  case False
  with assms have b: "byte (hexdigit n) = 87 + n" by (simp only: byte_hexdigit if_False)
  show ?thesis using False assms unfolding byte_toupper b by simp
qed

lemma hexdigit_inj:
  assumes "a < 16" "b < 16" "toupper (hexdigit a) = toupper (hexdigit b)"
  shows "a = b"
proof -
  from assms(3) have "byte (toupper (hexdigit a)) = byte (toupper (hexdigit b))" by (rule arg_cong)
  then show ?thesis unfolding byte_upper_hexdigit [OF assms(1)] byte_upper_hexdigit [OF assms(2)]
    by (auto split: if_splits)
qed

lemma hexdigit_not_NUL: "a < 16 \<Longrightarrow> hexdigit a \<noteq> NUL"
proof
  assume "a < 16" "hexdigit a = NUL"
  from this(2) have "byte (hexdigit a) = byte NUL" by (rule arg_cong)
  then show False unfolding byte_hexdigit [OF \<open>a < 16\<close>] byte_NUL by (auto split: if_splits)
qed

lemma hex_of_Cons: "hex_of (c # s) = hexdigit (byte c div 16) # hexdigit (byte c mod 16) # hex_of s"
  by (simp add: hex_of_def)

lemma nibbles: "byte c div 16 < 16" "byte c mod 16 < 16"
  using byte_less [of c] by (simp_all add: less_mult_imp_div_less)

lemma length_hex_of: "length (hex_of s) = 2 * length s"
  by (induction s) (simp_all add: hex_of_Cons, simp add: hex_of_def)

lemma no_nul_hex_of: "no_nul (hex_of s)"
proof (induction s)
  case (Cons c s)
  then show ?case using hexdigit_not_NUL nibbles [of c] by (simp add: hex_of_Cons)
qed (simp add: hex_of_def)

lemma hex_of_upper_inj:
  "length s = length t \<Longrightarrow> map toupper (hex_of s) = map toupper (hex_of t) \<Longrightarrow> s = t"
proof (induction s t rule: list_induct2)
  case (Cons c s d t)
  then have "byte c div 16 = byte d div 16" "byte c mod 16 = byte d mod 16"
    using hexdigit_inj nibbles [of c] nibbles [of d] by (auto simp: hex_of_Cons)
  then have "byte c = byte d" by (metis div_mult_mod_eq)
  with Cons show ?case by (simp add: byte_inj hex_of_Cons)
qed simp

lemma hex_laws_sample: "hex_laws sample_sodium"
  using hex_of_upper_inj by (simp add: hex_laws_def sample_sodium_def length_hex_of no_nul_hex_of)

lemma text_laws_sample: "text_laws sample t"
  by (simp add: text_laws_def sample_def pad32_def)

section \<open>Properties\<close>

text \<open>
  C6 (invariant): whatever sequence of friend requests, name, status and status message
  callbacks, refreshes and purges runs, the registry keeps its strict order and holds exactly
  the friends that \<^verbatim>\<open>toxcore\<close> has, so the lookup by number finds an entry
  for every one of them and for no other number.
\<close>

theorem friend_registry_agrees:
  assumes "friend_laws api" and "agrees api s" and "(friend_step api g)\<^sup>*\<^sup>* s s'"
  shows "agrees api s' \<and>
    (\<forall>n. n \<in> set (tox_self_get_friend_list api (fst s')) \<longleftrightarrow>
         friend_info_by_friend_number (snd s') n \<noteq> None)"
proof -
  from assms(3,2) have "agrees api s'"
    by (induction rule: rtranclp_induct) (auto intro: friend_step_agrees [OF assms(1)])
  then show ?thesis
    by (auto simp: agrees_def by_friend_number_key by_key_None numbers_def)
qed

lemma sample_run:
  "(friend_step sample g)\<^sup>*\<^sup>* (\<lparr>sm_friends = [], sm_log = []\<rparr>, [])
     (\<lparr>sm_friends = [5], sm_log = []\<rparr>, [(friend_info_new 5)\<lparr>status := Some 2\<rparr>])"
proof -
  have "friend_step sample g (\<lparr>sm_friends = [], sm_log = []\<rparr>, [])
     (\<lparr>sm_friends = [5], sm_log = []\<rparr>, [friend_info_new 5])"
    by (rule friend_step.request [of _ "[CHR 0x05]"])
      (simp add: friend_request_cb_def sample_def Let_def friend_info_add_entry_def byte_def)
  moreover have "friend_step sample g (\<lparr>sm_friends = [5], sm_log = []\<rparr>, [friend_info_new 5])
     (\<lparr>sm_friends = [5], sm_log = []\<rparr>, [(friend_info_new 5)\<lparr>status := Some 2\<rparr>])"
    by (rule friend_step.status [of 5 2]) (simp add: friend_status_cb_def)
  ultimately show ?thesis by (blast intro: rtranclp_trans)
qed

theorem friend_registry_agrees_witness:
  "agrees sample (\<lparr>sm_friends = [5], sm_log = []\<rparr>, [(friend_info_new 5)\<lparr>status := Some 2\<rparr>])"
  using friend_registry_agrees [OF friend_laws_sample _ sample_run [of "\<lambda>_. NUL"]]
  by (simp add: agrees_def sample_def numbers_def)

text \<open>
  C36 (functional): the purge faults when some entry was never refreshed. Otherwise it
  deletes from \<^verbatim>\<open>toxcore\<close> and from the registry exactly the friends that were
  last seen at least \<open>timeout\<close> ago (the difference modulo \<open>2\<^sup>6\<^sup>4\<close>) and whose time is
  known, and keeps the others in their order.
\<close>

theorem friend_cleanup_exact:
  "friend_cleanup api timeout now tox fs =
     (if \<exists>f\<in>set fs. last_online f = None then Inl Uninit
      else Inr (fold (\<lambda>f t. snd (tox_friend_delete api (friend_number f) t))
                  (filter (expired timeout now) fs) tox,
                filter (\<lambda>f. \<not> expired timeout now f) fs))"
  by (simp add: friend_cleanup_eq delete_all_def)

text \<open>
  The entry that an accepted friend request adds is never filled in by the
  callback, so the next purge reads its last-online time from unwritten storage.
\<close>

theorem request_then_purge_faults:
  assumes "tox_friend_add_norequest api pk tox = (Some n, tox1)"
  shows "friend_cleanup api timeout now tox1 (snd (friend_request_cb api pk tox fs)) = Inl Uninit"
proof -
  have "friend_info_new n \<in> set (friend_info_add_entry n fs)" "last_online (friend_info_new n) = None"
    by (simp_all add: friend_info_add_entry_reg friend_info_new_def)
  with assms show ?thesis by (auto simp: friend_cleanup_eq friend_request_cb_def)
qed

theorem request_then_purge_faults_witness:
  "friend_cleanup sample 60 1000 \<lparr>sm_friends = [5], sm_log = []\<rparr>
     (snd (friend_request_cb sample [CHR 0x05] \<lparr>sm_friends = [], sm_log = []\<rparr> [])) = Inl Uninit"
  by (rule request_then_purge_faults [of _ _ _ 5]) (simp add: sample_def byte_def)

text \<open>
  A name callback replaces the name of the one entry with that number, as a
  terminated copy, and changes nothing else; for a friend that is not in the registry it
  dereferences the null pointer that the lookup returned.
\<close>

theorem friend_name_cb_exact:
  assumes "registry_ok fs" and "length name = unat len" and "len \<noteq> UINT64_MAX"
  shows "friend_name_cb g n name len fs =
    (if friend_info_by_friend_number fs n = None then Inl NullDeref
     else Inr (map (\<lambda>f. if friend_number f = n then f\<lparr>fname := Some (name @ [NUL])\<rparr> else f) fs))"
proof -
  have "friend_name_cb g n name len fs =
      update_first (\<lambda>f. friend_number f = n) (\<lambda>f. Inr (f\<lparr>fname := Some (name @ [NUL])\<rparr>)) fs"
    using assms(2,3) by (simp add: friend_name_cb_def copy_text_ok)
  then show ?thesis using update_first_unique [OF registry_distinct [OF assms(1)]]
    by (simp add: by_friend_number_key by_key_None numbers_def)
qed

theorem friend_name_cb_exact_witness:
  "friend_name_cb (\<lambda>_. NUL) 5 ''eve'' 3 [friend_info_new 5] =
    Inr [(friend_info_new 5)\<lparr>fname := Some (''eve'' @ [NUL])\<rparr>]"
  using friend_name_cb_exact [of "[friend_info_new 5]" "''eve''" 3 "\<lambda>_. NUL" 5]
  by (simp add: registry_ok_def numbers_def by_friend_number_key by_key_def)

text \<open>
  The initialisation builds the registry in the order of the friend numbers,
  with every entry a terminated copy of what \<^verbatim>\<open>toxcore\<close> knows of that friend;
  no buffer is overrun, and when \<^verbatim>\<open>toxcore\<close>'s numbers are distinct the registry
  agrees with it.
\<close>

theorem friends_info_init_exact:
  assumes "text_laws api tox" and "distinct (tox_self_get_friend_list api tox)"
  shows "\<exists>fs. friends_info_init api sod g tox [] =
      Inr (fs, length (tox_self_get_friend_list api tox)) \<and>
    map friend_number fs = sort (tox_self_get_friend_list api tox) \<and>
    list_all (mirrors api sod tox) fs \<and> agrees api (tox, fs)"
proof -
  from friends_info_init_mirrors [OF assms(1), of sod g] obtain fs
    where fs: "friends_info_init api sod g tox [] = Inr (fs, length (tox_self_get_friend_list api tox))"
      "numbers fs = sort (tox_self_get_friend_list api tox)" "\<forall>f\<in>set fs. mirrors api sod tox f" by blast
  moreover have "agrees api (tox, fs)"
    using fs(2) assms(2) by (simp add: agrees_def registry_ok_def strict_sorted_iff)
  ultimately show ?thesis by (auto simp: numbers_def list_all_iff)
qed

theorem friends_info_init_exact_witness:
  "\<exists>fs. friends_info_init sample sample_sodium (\<lambda>_. NUL) \<lparr>sm_friends = [9, 4], sm_log = []\<rparr> [] = Inr (fs, 2) \<and>
    map friend_number fs = [4, 9]"
  using friends_info_init_exact [OF text_laws_sample, of "\<lparr>sm_friends = [9, 4], sm_log = []\<rparr>"
      sample_sodium "\<lambda>_. NUL"]
  by (auto simp: sample_def)

text \<open>
  After a refresh of the registry, the search for a key in upper-case
  hexadecimal, with anything behind its 64 digits, finds the same entry as the search for the
  binary key; neither of them reads unwritten storage.
\<close>

theorem key_searches_agree:
  assumes "text_laws api tox" and "hex_laws sod" and "length key = TOX_PUBLIC_KEY_SIZE"
    and "friends_info_update api sod g tox fs = Inr fs'"
  shows "friend_info_by_public_keyhex fs' (map toupper (sodium_bin2hex sod key) @ rest) =
      friend_info_by_public_keybin fs' key \<and>
    friend_info_by_public_keybin fs' key =
      Inr (List.find (\<lambda>f. tox_friend_get_public_key api tox (friend_number f) = key) fs')"
proof -
  let ?k = "\<lambda>f. tox_friend_get_public_key api tox (friend_number f)"
  let ?hex = "\<lambda>k. map toupper (sodium_bin2hex sod k)"
  have m: "\<forall>f\<in>set fs'. tox_id_bin f = Some (?k f) \<and> tox_id_hex f = Some (?hex (?k f))"
    using friends_info_update_mirrors [OF assms(1), of sod g fs] assms(4)
    by (auto simp: mirrors_def Let_def)
  have len: "length (?k f) = 32" for f using assms(1) by (simp add: text_laws_def)
  have t: "take 32 (?k f) = ?k f" "take 32 key = key" for f using len [of f] assms(3) by simp_all
  have hex: "length (?hex k) = 64" "no_nul (?hex k)" if "length k = 32" for k
    using assms(2) that by (auto simp: hex_laws_def no_nul_toupper)
  have "strncmp_eq (?hex (?k f)) (?hex key @ rest) 64 \<longleftrightarrow> ?k f = key" for f
  proof -
    have "cstr (?hex key @ rest) = ?hex key @ cstr rest"
      using hex(2) [OF assms(3)] by (rule cstr_append)
    moreover have "?hex (?k f) = ?hex key \<longleftrightarrow> ?k f = key"
      using assms(2,3) len by (auto simp: hex_laws_def)
    moreover have "cstr (?hex (?k f)) = ?hex (?k f)" by (rule cstr_no_nul [OF hex(2) [OF len]])
    ultimately show ?thesis using hex(1) [OF len [of f]] hex(1) [OF assms(3)]
      by (simp add: strncmp_eq_def)
  qed
  with m have "friend_info_by_public_keyhex fs' (?hex key @ rest) = Inr (List.find (\<lambda>f. ?k f = key) fs')"
    unfolding friend_info_by_public_keyhex_def by (intro find_res_pure) auto
  moreover have "friend_info_by_public_keybin fs' key = Inr (List.find (\<lambda>f. ?k f = key) fs')"
    unfolding friend_info_by_public_keybin_def using m t assms(3)
    by (intro find_res_pure) (auto simp: t)
  ultimately show ?thesis by simp
qed

theorem key_searches_agree_witness:
  "\<exists>fs'. friends_info_update sample sample_sodium (\<lambda>_. NUL) \<lparr>sm_friends = [5], sm_log = []\<rparr> [friend_info_new 5] = Inr fs' \<and>
    friend_info_by_public_keyhex fs' (map toupper (hex_of (pad32 [CHR 0x05])) @ [NL]) = Inr (Some (hd fs'))"
proof -
  obtain fs' where fs': "friends_info_update sample sample_sodium (\<lambda>_. NUL) \<lparr>sm_friends = [5], sm_log = []\<rparr>
      [friend_info_new 5] = Inr fs'" "numbers fs' = [5]"
    using friends_info_update_mirrors [OF text_laws_sample] by (fastforce simp: numbers_def)
  then obtain f where f: "fs' = [f]" "friend_number f = 5" by (auto simp: numbers_def)
  have "char_of (5 :: nat) = CHR 0x05" by code_simp
  then have k: "tox_friend_get_public_key sample t 5 = pad32 [CHR 0x05]" for t by (simp add: sample_def)
  have "length (pad32 [CHR 0x05]) = 32" by (simp add: pad32_def)
  from key_searches_agree [OF text_laws_sample hex_laws_sample this fs'(1), of "[NL]"] f k fs'(1)
  show ?thesis by (simp add: sample_sodium_def)
qed

end
