(* ===== verification/File_Queue.thy ===== *)
theory File_Queue
  imports Misc Registry
begin

text \<open>
  \<^verbatim>\<open>src/file.c\<close> and \<^verbatim>\<open>src/filesend.c\<close>: the queue of outgoing
  transfers, the callbacks of \<^verbatim>\<open>toxcore\<close> for file transfers in both
  directions, and the transfers that the bot starts for a shared file or for the list of
  them.

  A queue is the list of its senders in list order. The hash of a file is a pointer to a
  block of the store: \<^verbatim>\<open>file_sender_new\<close> copies the pointer of the shared node, so
  two objects may hold one block.
\<close>

section \<open>State\<close>

record file_node =
  fn_file :: "string option"
  fn_BLAKE2b :: "nat option"
  fn_mtime :: int
  fn_length :: int
  fn_exists :: bool

record file_sender =
  s_info :: file_node
  s_pathname :: "string option"
  s_file :: "stream option"
  s_file_number :: u32
  s_friend_number :: u32
  s_kind :: u32

record 't fstate =
  w_tox :: 't
  w_fs :: fs
  w_heap :: heap
  w_senders :: "file_sender list"

text \<open>\<^verbatim>\<open>memset\<close> to zero of the two structures.\<close>

definition file_node_zero :: file_node where
  "file_node_zero = \<lparr>fn_file = None, fn_BLAKE2b = None, fn_mtime = 0, fn_length = 0, fn_exists = False\<rparr>"

definition file_sender_zero :: file_sender where
  "file_sender_zero = \<lparr>s_info = file_node_zero, s_pathname = None, s_file = None,
     s_file_number = 0, s_friend_number = 0, s_kind = 0\<rparr>"

section \<open>The queue\<close>

definition FileQueue_init :: "file_sender list" where
  "FileQueue_init = []"

definition FileQueue_size :: "file_sender list \<Rightarrow> int" where
  "FileQueue_size q = fold (\<lambda>f i. i + 1) q 0"

definition is_transfer :: "u32 \<Rightarrow> u32 \<Rightarrow> file_sender \<Rightarrow> bool" where
  "is_transfer friend_number file_number f \<longleftrightarrow>
     s_friend_number f = friend_number \<and> s_file_number f = file_number"

definition FileSender_get :: "file_sender list \<Rightarrow> u32 \<Rightarrow> u32 \<Rightarrow> file_sender option" where
  "FileSender_get q friend_number file_number = List.find (is_transfer friend_number file_number) q"

text \<open>The new sender is the first of the queue.\<close>

definition FileSender_new :: "file_sender list \<Rightarrow> file_sender list" where
  "FileSender_new q = file_sender_zero # q"

text \<open>
  Releasing a sender that was unlinked: its stream, the hash block and the node; the
  pathname is not freed.
\<close>

definition FileSender_release :: "file_sender \<Rightarrow> heap \<Rightarrow> heap res" where
  "FileSender_release f h = free_opt (fn_BLAKE2b (s_info f)) h"

text \<open>\<^verbatim>\<open>FileSender_destroy\<close> of the first sender of the queue that satisfies a test.\<close>

fun FileSender_destroy ::
  "(file_sender \<Rightarrow> bool) \<Rightarrow> file_sender list \<Rightarrow> heap \<Rightarrow> (file_sender list \<times> heap) res" where
  "FileSender_destroy P [] h = Inl NullDeref"
| "FileSender_destroy P (f # q) h =
     (if P f then r_bind (FileSender_release f h) (\<lambda>h. Inr (q, h))
      else r_bind (FileSender_destroy P q h) (\<lambda>(q, h). Inr (f # q, h)))"

fun FileQueue_destroy :: "file_sender list \<Rightarrow> heap \<Rightarrow> heap res" where
  "FileQueue_destroy [] h = Inr h"
| "FileQueue_destroy (f # q) h = r_bind (FileSender_release f h) (FileQueue_destroy q)"

section \<open>Sending\<close>

definition load_hash :: "nat option \<Rightarrow> heap \<Rightarrow> string option res" where
  "load_hash p h = (case p of None \<Rightarrow> Inr None | Some q \<Rightarrow> r_bind (load_block q h) (\<lambda>b. Inr (Some b)))"

definition file_length :: "stream \<Rightarrow> fs \<Rightarrow> int" where
  "file_length s f = int (length (file_bytes (st_path s) f))"

text \<open>
  \<^verbatim>\<open>add_filesender\<close> in three parts: the stream of the sender, opened if need
  be; the length, measured when it is 0; and the announcement to the friend. The result, the
  sender after it and the state. \<open>g\<close> is what \<^verbatim>\<open>malloc\<close> leaves in a hash
  that \<^verbatim>\<open>tox_file_get_file_id\<close> then does not fill.
\<close>

definition sender_stream :: "file_sender \<Rightarrow> fs \<Rightarrow> stream option" where
  "sender_stream f files =
     (case s_file f of
        Some s \<Rightarrow> Some s
      | None \<Rightarrow> (case s_pathname f of None \<Rightarrow> None | Some p \<Rightarrow> fopen_read (cstr p) files))"

definition measure_file :: "stream \<Rightarrow> file_node \<Rightarrow> fs \<Rightarrow> stream \<times> file_node" where
  "measure_file s fn files =
     (if fn_length fn = 0 then (s\<lparr>st_pos := 0\<rparr>, fn\<lparr>fn_length := file_length s files\<rparr>) else (s, fn))"

definition announce ::
  "'t toxcore \<Rightarrow> (nat \<Rightarrow> char) \<Rightarrow> file_sender \<Rightarrow> 't fstate \<Rightarrow> (u32 \<times> file_sender \<times> 't fstate) res" where
  "announce api g f w =
     (case fn_file (s_info f) of
        None \<Rightarrow> Inl NullDeref
      | Some name \<Rightarrow>
          r_bind (load_hash (fn_BLAKE2b (s_info f)) (w_heap w)) (\<lambda>hash.
            let (num, tox) = tox_file_send api (s_friend_number f) (s_kind f)
                               (word_of_int (fn_length (s_info f))) hash (cstr name) (w_tox w);
                f = f\<lparr>s_file_number := num\<rparr>;
                w = w\<lparr>w_tox := tox\<rparr> in
            case fn_BLAKE2b (s_info f) of
              Some _ \<Rightarrow> Inr (num, f, w)
            | None \<Rightarrow>
                (let fid = (case tox_file_get_file_id api tox (s_friend_number f) num of
                             Some b \<Rightarrow> b | None \<Rightarrow> map g [0..<TOX_FILE_ID_LENGTH]);
                     (p, h) = alloc fid (w_heap w) in
                 Inr (num, f\<lparr>s_info := (s_info f)\<lparr>fn_BLAKE2b := Some p\<rparr>\<rparr>, w\<lparr>w_heap := h\<rparr>))))"

definition add_filesender ::
  "'t toxcore \<Rightarrow> (nat \<Rightarrow> char) \<Rightarrow> file_sender \<Rightarrow> 't fstate \<Rightarrow> (u32 \<times> file_sender \<times> 't fstate) res" where
  "add_filesender api g f w =
     (case sender_stream f (w_fs w) of
        None \<Rightarrow> Inr (UINT32_MAX, f, w)
      | Some s \<Rightarrow>
          (let (s, fn) = measure_file s (s_info f) (w_fs w) in
           announce api g (f\<lparr>s_file := Some s, s_info := fn\<rparr>) w))"

section \<open>Callbacks\<close>

text \<open>The sender that a callback found is written through its pointer.\<close>

fun set_first :: "('e \<Rightarrow> bool) \<Rightarrow> ('e \<Rightarrow> 'e) \<Rightarrow> 'e list \<Rightarrow> 'e list" where
  "set_first P upd [] = []"
| "set_first P upd (e # es) = (if P e then upd e # es else e # set_first P upd es)"

definition file_chunk_request_cb ::
  "'t toxcore \<Rightarrow> u32 \<Rightarrow> u32 \<Rightarrow> u64 \<Rightarrow> nat \<Rightarrow> 't fstate \<Rightarrow> 't fstate res" where
  "file_chunk_request_cb api friend_number file_number position len w =
     (let this = is_transfer friend_number file_number in
      case FileSender_get (w_senders w) friend_number file_number of
        None \<Rightarrow> Inr w
      | Some f \<Rightarrow>
          (case s_file f of
             None \<Rightarrow> Inr w
           | Some s \<Rightarrow>
               if len = 0 then
                 r_bind (FileSender_destroy this (w_senders w) (w_heap w)) (\<lambda>(q, h).
                   Inr (w\<lparr>w_senders := q, w_heap := h\<rparr>))
               else (case fseek_set position s of
                   None \<Rightarrow> Inr w
                 | Some s \<Rightarrow>
                     (let data = fread_at s len (w_fs w);
                          s = s\<lparr>st_pos := st_pos s + length data\<rparr> in
                      Inr (w\<lparr>w_senders := set_first this (\<lambda>f. f\<lparr>s_file := Some s\<rparr>) (w_senders w),
                             w_tox := tox_file_send_chunk api friend_number file_number position data (w_tox w)\<rparr>)))))"

abbreviation (input) TOX_FILE_CONTROL_RESUME :: u32 where "TOX_FILE_CONTROL_RESUME \<equiv> 0"
abbreviation (input) TOX_FILE_CONTROL_PAUSE :: u32 where "TOX_FILE_CONTROL_PAUSE \<equiv> 1"
abbreviation (input) TOX_FILE_CONTROL_CANCEL :: u32 where "TOX_FILE_CONTROL_CANCEL \<equiv> 2"
abbreviation (input) TOX_FILE_KIND_DATA :: u32 where "TOX_FILE_KIND_DATA \<equiv> 0"

definition file_recv_control_cb :: "u32 \<Rightarrow> u32 \<Rightarrow> u32 \<Rightarrow> 't fstate \<Rightarrow> 't fstate res" where
  "file_recv_control_cb friend_number file_number control w =
     (if control = TOX_FILE_CONTROL_CANCEL then
        r_bind (FileSender_destroy (is_transfer friend_number file_number) (w_senders w) (w_heap w)) (\<lambda>(q, h).
          Inr (w\<lparr>w_senders := q, w_heap := h\<rparr>))
      else Inr w)"

definition file_recv_cb :: "'t toxcore \<Rightarrow> u32 \<Rightarrow> u32 \<Rightarrow> u32 \<Rightarrow> 't fstate \<Rightarrow> 't fstate" where
  "file_recv_cb api friend_number file_number kind w =
     (if kind \<noteq> TOX_FILE_KIND_DATA
      then w\<lparr>w_tox := snd (tox_file_control api friend_number file_number TOX_FILE_CONTROL_CANCEL (w_tox w))\<rparr>
      else w\<lparr>w_tox := snd (tox_file_control api friend_number file_number TOX_FILE_CONTROL_RESUME (w_tox w))\<rparr>)"

text \<open>
  The file of a received chunk is opened for update, or created. The test of
  \<^verbatim>\<open>fseek\<close> is negated in the code: a seek that succeeds ends the callback.
\<close>

definition recv_filename :: "u32 \<Rightarrow> u32 \<Rightarrow> string" where
  "recv_filename friend_number file_number =
     show_nat (unat friend_number) @ ''.'' @ show_nat (unat file_number) @ ''.bin''"

definition file_recv_chunk_cb :: "u32 \<Rightarrow> u32 \<Rightarrow> u64 \<Rightarrow> string \<Rightarrow> nat \<Rightarrow> 't fstate \<Rightarrow> 't fstate res" where
  "file_recv_chunk_cb friend_number file_number position data len w =
     (if len = 0 then Inr w
      else if length data < len then Inl OutOfBounds
      else
        let filename = recv_filename friend_number file_number in
        case (case fopen_update filename (w_fs w) of
                Some s \<Rightarrow> Some (s, w_fs w) | None \<Rightarrow> fopen_write filename (w_fs w)) of
          None \<Rightarrow> Inr w
        | Some (s, f) \<Rightarrow>
            if fseek_set position s \<noteq> None then Inr (w\<lparr>w_fs := f\<rparr>)
            else Inr (w\<lparr>w_fs := fwrite_at s (take len data) f\<rparr>))"

section \<open>Printing a file\<close>

text \<open>
  \<^verbatim>\<open>printf_file\<close> opens the file for writing only, so that nothing can be read from
  it, and ends the process with an exit code on every path. \<open>ours\<close> and \<open>regular\<close> are the
  two tests on the result of \<^verbatim>\<open>fstat\<close>.
\<close>

definition printf_file :: "(string \<Rightarrow> bool) \<Rightarrow> (string \<Rightarrow> bool) \<Rightarrow> string \<Rightarrow> fs \<Rightarrow> string \<times> nat" where
  "printf_file ours regular filename f =
     (if \<not> (fs_data f filename \<noteq> None \<and> fs_writable f filename) then ([], 1)
      else if \<not> ours filename then ([], 1)
      else if \<not> regular filename then ([], 1)
      else
        let fp = \<lparr>st_path = filename, st_pos = 0, st_reads = False\<rparr>;
            file_size = length (file_bytes filename f);
            buffer = fread_at fp file_size f in
        if length buffer = file_size then (cstr (buffer @ [NUL]), 0) else ([], 1))"

section \<open>Transfers of shared files\<close>

abbreviation (input) NUM_FILE_SENDERS :: int where "NUM_FILE_SENDERS \<equiv> 64"

definition packlist_filename :: string where
  "packlist_filename = ''packlist.txt''"

fun pack_rows :: "(nat \<Rightarrow> char) \<Rightarrow> nat \<Rightarrow> file_node list \<Rightarrow> string res" where
  "pack_rows g i [] = Inr []"
| "pack_rows g i (fn # fns) =
     r_bind (if \<not> fn_exists fn then Inr []
             else r_bind (human_readable_filesize (map g [0..<8]) (fn_length fn)) (\<lambda>hu_size.
               case fn_file fn of None \<Rightarrow> Inl NullDeref
               | Some file \<Rightarrow>
                   let num = show_nat i in
                   Inr (''#'' @ num @ replicate (10 - length num) (CHR '' '') @ '' ['' @ cstr hu_size @ ''] '' @
                        gnu_basename (cstr file) @ [NL])))
       (\<lambda>row. r_bind (pack_rows g (Suc i) fns) (\<lambda>rows. Inr (row @ rows)))"

definition file_list_create ::
  "(nat \<Rightarrow> char) \<Rightarrow> file_node list \<Rightarrow> file_sender list \<Rightarrow> fs \<Rightarrow> (stream \<times> fs) option res" where
  "file_list_create g fnode senders f =
     (case fopen_write packlist_filename f of
        None \<Rightarrow> Inr None
      | Some (fp, f) \<Rightarrow>
          (let n = FileQueue_size senders;
               packs_avail = length (filter fn_exists fnode);
               header = ''** '' @ show_nat packs_avail @ '' Packs ** '' @ show_int (NUM_FILE_SENDERS - n) @
                        ''/'' @ show_int NUM_FILE_SENDERS @ '' Slots open **'' @ [NL] @
                        ''** #pack_num  [size]  filename **'' @ [NL] in
           r_bind (pack_rows g 0 fnode) (\<lambda>rows.
             let text = header @ rows in
             Inr (Some (fp\<lparr>st_pos := length text\<rparr>, append_bytes packlist_filename text f)))))"

abbreviation (input) FILESEND_OK :: nat where "FILESEND_OK \<equiv> 0"
abbreviation (input) FILESEND_ERR_FULL :: nat where "FILESEND_ERR_FULL \<equiv> 1"
abbreviation (input) FILESEND_ERR_SENDING :: nat where "FILESEND_ERR_SENDING \<equiv> 2"
abbreviation (input) FILESEND_ERR_FILEIO :: nat where "FILESEND_ERR_FILEIO \<equiv> 3"

text \<open>
  The last part of \<^verbatim>\<open>file_sender_new\<close>: the sender is the first of the queue
  \<open>f # q\<close>.
\<close>

definition start_sender ::
  "'t toxcore \<Rightarrow> (nat \<Rightarrow> char) \<Rightarrow> u32 \<Rightarrow> file_sender \<Rightarrow> file_sender list \<Rightarrow> 't fstate \<Rightarrow> (nat \<times> 't fstate) res" where
  "start_sender api g friend_number f q w =
     r_bind (add_filesender api g (f\<lparr>s_friend_number := friend_number\<rparr>) w) (\<lambda>(_, f, w).
       Inr (if s_file_number f = UINT32_MAX then FILESEND_ERR_SENDING else FILESEND_OK,
            w\<lparr>w_senders := f # q\<rparr>))"

definition file_sender_new ::
  "'t toxcore \<Rightarrow> (nat \<Rightarrow> char) \<Rightarrow> u32 \<Rightarrow> file_node list \<Rightarrow> int \<Rightarrow> 't fstate \<Rightarrow> (nat \<times> 't fstate) res" where
  "file_sender_new api g friend_number shrfiles packn w =
     (let q = w_senders w; f = file_sender_zero in
      if packn < 0 then
        r_bind (file_list_create g shrfiles (FileSender_new q) (w_fs w)) (\<lambda>r.
          case r of
            None \<Rightarrow> r_bind (FileSender_release f (w_heap w)) (\<lambda>h. Inr (FILESEND_ERR_FILEIO, w\<lparr>w_heap := h\<rparr>))
          | Some (fp, files) \<Rightarrow>
              start_sender api g friend_number
                (f\<lparr>s_file := Some fp, s_info := (s_info f)\<lparr>fn_file := Some packlist_filename\<rparr>,
                   s_pathname := Some packlist_filename\<rparr>) q (w\<lparr>w_fs := files\<rparr>))
      else if length shrfiles \<le> nat packn then Inl OutOfBounds
      else
        let node = shrfiles ! nat packn in
        case fn_BLAKE2b node of
          None \<Rightarrow> Inl NullDeref
        | Some p \<Rightarrow>
            r_bind (load_block p (w_heap w)) (\<lambda>hash.
            r_bind (store_block p hash (w_heap w)) (\<lambda>h.
              case fn_file node of
                None \<Rightarrow> Inl NullDeref
              | Some path \<Rightarrow>
                  let f = f\<lparr>s_info := node\<lparr>fn_file := Some (gnu_basename (cstr path))\<rparr>,
                            s_pathname := Some (cstr path)\<rparr> in
                  case fopen_read (cstr path) (w_fs w) of
                    None \<Rightarrow> r_bind (FileSender_release f h) (\<lambda>h. Inr (FILESEND_ERR_FILEIO, w\<lparr>w_heap := h\<rparr>))
                  | Some s \<Rightarrow> start_sender api g friend_number (f\<lparr>s_file := Some s\<rparr>) q (w\<lparr>w_heap := h\<rparr>))))"

text \<open>
  The pattern of the other two places that start a transfer, the \<^verbatim>\<open>!sendimage\<close>
  command and the call tester: a new sender for a path and the name to announce.
\<close>

definition send_path ::
  "'t toxcore \<Rightarrow> (nat \<Rightarrow> char) \<Rightarrow> u32 \<Rightarrow> string \<Rightarrow> string \<Rightarrow> 't fstate \<Rightarrow> 't fstate res" where
  "send_path api g friend_number path name w =
     r_bind (add_filesender api g (file_sender_zero\<lparr>s_friend_number := friend_number, s_pathname := Some path,
               s_info := file_node_zero\<lparr>fn_file := Some name\<rparr>\<rparr>) w) (\<lambda>(_, f, w).
       Inr (w\<lparr>w_senders := f # w_senders w\<rparr>))"

section \<open>Events\<close>

text \<open>Everything that can happen to the queue, as one function.\<close>

datatype file_event =
    SendPath u32 string string
  | SendPack u32 int
  | ChunkRequest u32 u32 u64 nat
  | Control u32 u32 u32
  | Offer u32 u32 u32
  | Chunk u32 u32 u64 string nat

fun handle_file ::
  "'t toxcore \<Rightarrow> (nat \<Rightarrow> char) \<Rightarrow> file_node list \<Rightarrow> file_event \<Rightarrow> 't fstate \<Rightarrow> 't fstate res" where
  "handle_file api g shr (SendPath fr path name) w = send_path api g fr path name w"
| "handle_file api g shr (SendPack fr packn) w =
     r_bind (file_sender_new api g fr shr packn w) (\<lambda>(_, w). Inr w)"
| "handle_file api g shr (ChunkRequest fr num pos len) w = file_chunk_request_cb api fr num pos len w"
| "handle_file api g shr (Control fr num c) w = file_recv_control_cb fr num c w"
| "handle_file api g shr (Offer fr num kind) w = Inr (file_recv_cb api fr num kind w)"
| "handle_file api g shr (Chunk fr num pos data len) w = file_recv_chunk_cb fr num pos data len w"

fun handle_files ::
  "'t toxcore \<Rightarrow> (nat \<Rightarrow> char) \<Rightarrow> file_node list \<Rightarrow> file_event list \<Rightarrow> 't fstate \<Rightarrow> 't fstate res" where
  "handle_files api g shr [] w = Inr w"
| "handle_files api g shr (e # es) w = r_bind (handle_file api g shr e w) (handle_files api g shr es)"

end
