(* ===== verification/File_Transfer.thy ===== *)
theory File_Transfer
  imports File_Queue
begin

text \<open>
  What the transfer queue does: which block of the store a sender owns and that the queue
  without transfers of shared files never uses a freed one, that a served file arrives
  complete, and the ways in which transfers fail.
\<close>

section \<open>Ownership of the hash blocks\<close>

definition hash_of :: "file_sender \<Rightarrow> nat list" where
  "hash_of f = (case fn_BLAKE2b (s_info f) of None \<Rightarrow> [] | Some p \<Rightarrow> [p])"

definition hashes :: "file_sender list \<Rightarrow> nat list" where
  "hashes q = concat (map hash_of q)"

definition owned :: "nat list \<Rightarrow> heap \<Rightarrow> bool" where
  "owned ps h \<longleftrightarrow> distinct ps \<and> (\<forall>p\<in>set ps. p < brk h \<and> blk h p \<noteq> None)"

definition queue_wf :: "nat list \<Rightarrow> 't fstate \<Rightarrow> bool" where
  "queue_wf others w \<longleftrightarrow> owned (hashes (w_senders w) @ others) (w_heap w)"

lemma hashes_simps [simp]: "hashes [] = []" "hashes (f # q) = hash_of f @ hashes q"
  by (simp_all add: hashes_def)

lemma owned_alloc:
  assumes "owned ps h" "alloc bs h = (p, h')"
  shows "owned (p # ps) h'"
  using assms by (fastforce simp: owned_def alloc_def)

lemma owned_free:
  assumes "owned (p # ps) h"
  shows "\<exists>h'. free_block p h = Inr h' \<and> owned ps h'"
  using assms by (cases "blk h p") (auto simp: owned_def free_block_def)

lemma FileSender_release_owned:
  assumes "owned (hash_of f @ ps) h"
  shows "\<exists>h'. FileSender_release f h = Inr h' \<and> owned ps h'"
  using assms owned_free
  by (cases "fn_BLAKE2b (s_info f)") (auto simp: FileSender_release_def free_opt_def hash_of_def)

lemma owned_swap: "owned (ps @ qs @ rs) h = owned (qs @ ps @ rs) h"
  by (auto simp: owned_def)

lemma FileSender_destroy_owned:
  assumes "owned (hashes q @ ps) h"
  shows "if \<exists>f\<in>set q. P f
    then \<exists>q' h'. FileSender_destroy P q h = Inr (q', h') \<and> owned (hashes q' @ ps) h'
    else FileSender_destroy P q h = Inl NullDeref"
  using assms
proof (induction q arbitrary: ps)
  case (Cons f q)
  show ?case
  proof (cases "P f")
    case True
    with Cons.prems FileSender_release_owned [of f "hashes q @ ps" h] show ?thesis by auto
  next
    case False
    from Cons.prems have "owned (hashes q @ hash_of f @ ps) h"
      using owned_swap [of "hash_of f" "hashes q" ps h] by simp
    from Cons.IH [OF this] False show ?thesis
      using owned_swap [of "hash_of f"] by (fastforce split: if_splits)
  qed
qed simp

lemma FileQueue_destroy_owned:
  "owned (hashes q @ ps) h \<Longrightarrow> \<exists>h'. FileQueue_destroy q h = Inr h' \<and> owned ps h'"
proof (induction q arbitrary: h)
  case (Cons f q)
  then obtain h' where "FileSender_release f h = Inr h'" "owned (hashes q @ ps) h'"
    using FileSender_release_owned [of f "hashes q @ ps" h] by auto
  with Cons.IH show ?case by simp
qed simp

lemma load_hash_owned: "owned (hash_of f @ ps) h \<Longrightarrow> \<exists>r. load_hash (fn_BLAKE2b (s_info f)) h = Inr r"
  by (auto simp: load_hash_def load_block_def owned_def hash_of_def split: option.splits)

lemma announce_owned:
  assumes o: "owned (hash_of f @ ps) (w_heap w)"
  shows "announce api g f w = Inl NullDeref \<or>
    (\<exists>num f' w'. announce api g f w = Inr (num, f', w') \<and> owned (hash_of f' @ ps) (w_heap w') \<and>
       w_senders w' = w_senders w \<and> w_fs w' = w_fs w)"
proof (cases "fn_file (s_info f)")
  case (Some name)
  from load_hash_owned [OF o] obtain hash where h: "load_hash (fn_BLAKE2b (s_info f)) (w_heap w) = Inr hash"
    by auto
  obtain num tox where send: "tox_file_send api (s_friend_number f) (s_kind f)
      (word_of_int (fn_length (s_info f))) hash (cstr name) (w_tox w) = (num, tox)" by fastforce
  show ?thesis
  proof (cases "fn_BLAKE2b (s_info f)")
    case (Some p)
    with \<open>fn_file (s_info f) = Some name\<close> h send o show ?thesis
      by (simp add: announce_def Let_def hash_of_def)
  next
    case None
    define fid where "fid = (case tox_file_get_file_id api tox (s_friend_number f) num of
        Some b \<Rightarrow> b | None \<Rightarrow> map g [0..<TOX_FILE_ID_LENGTH])"
    obtain p h' where a: "alloc fid (w_heap w) = (p, h')" by fastforce
    from None o have "owned ps (w_heap w)" by (simp add: hash_of_def)
    from owned_alloc [OF this a] None \<open>fn_file (s_info f) = Some name\<close> h send a show ?thesis
      by (simp add: announce_def Let_def hash_of_def fid_def)
  qed
qed (simp add: announce_def)

lemma announce_fields:
  assumes "announce api g f w = Inr (num, f', w')"
  shows "s_file f' = s_file f \<and> s_friend_number f' = s_friend_number f \<and>
    fn_length (s_info f') = fn_length (s_info f) \<and> s_file_number f' = num"
proof (cases "fn_file (s_info f)")
  case (Some name)
  with assms obtain hash where h: "load_hash (fn_BLAKE2b (s_info f)) (w_heap w) = Inr hash"
    by (auto simp: announce_def r_bind_eq_Inr)
  with assms Some show ?thesis
    by (cases "fn_BLAKE2b (s_info f)") (auto simp: announce_def Let_def case_prod_unfold)
qed (use assms in \<open>simp add: announce_def\<close>)

lemma add_filesender_owned:
  assumes o: "owned (hash_of f @ ps) (w_heap w)"
  shows "add_filesender api g f w = Inl NullDeref \<or>
    (\<exists>num f' w'. add_filesender api g f w = Inr (num, f', w') \<and> owned (hash_of f' @ ps) (w_heap w') \<and>
       w_senders w' = w_senders w \<and> w_fs w' = w_fs w)"
proof (cases "sender_stream f (w_fs w)")
  case (Some s)
  obtain s' fn where m: "measure_file s (s_info f) (w_fs w) = (s', fn)" by fastforce
  then have "hash_of (f\<lparr>s_file := Some s', s_info := fn\<rparr>) = hash_of f"
    by (auto simp: measure_file_def hash_of_def split: if_splits)
  with announce_owned [of "f\<lparr>s_file := Some s', s_info := fn\<rparr>" ps w api g] o Some m show ?thesis
    by (simp add: add_filesender_def)
qed (use o in \<open>simp add: add_filesender_def\<close>)

lemma add_filesender_senders:
  assumes "add_filesender api g f w = Inr (num, f', w')"
  shows "w_senders w' = w_senders w"
proof -
  have a: "w_senders w' = w_senders w" if "announce api g f w = Inr (num, f', w')" for f
    using that by (cases "fn_file (s_info f)"; cases "fn_BLAKE2b (s_info f)")
      (auto simp: announce_def Let_def case_prod_unfold r_bind_eq_Inr)
  from assms show ?thesis
    by (cases "sender_stream f (w_fs w)") (auto simp: add_filesender_def a split: prod.splits)
qed

section \<open>No freed block is used\<close>

definition keeps :: "nat list \<Rightarrow> 't fstate res \<Rightarrow> bool" where
  "keeps others r \<longleftrightarrow> (case r of Inl e \<Rightarrow> e \<noteq> UseAfterFree | Inr w \<Rightarrow> queue_wf others w)"

lemma keeps_simps [simp]:
  "keeps others (Inr w) = queue_wf others w" "keeps others (Inl e) \<longleftrightarrow> e \<noteq> UseAfterFree"
  by (simp_all add: keeps_def)

lemma queue_wf_update [simp]:
  "queue_wf others (w\<lparr>w_tox := t\<rparr>) = queue_wf others w"
  "queue_wf others (w\<lparr>w_fs := files\<rparr>) = queue_wf others w"
  by (simp_all add: queue_wf_def)

lemma hashes_set_first:
  "(\<And>f. hash_of (upd f) = hash_of f) \<Longrightarrow> hashes (set_first P upd q) = hashes q"
  by (induction q) auto

lemma destroy_keeps:
  assumes "queue_wf others w"
  shows "keeps others (r_bind (FileSender_destroy P (w_senders w) (w_heap w)) (\<lambda>(q, h).
    Inr (w\<lparr>w_senders := q, w_heap := h\<rparr>)))"
  using FileSender_destroy_owned [of "w_senders w" others "w_heap w" P] assms
  by (auto simp: queue_wf_def split: if_splits)

lemma chunk_request_keeps:
  assumes "queue_wf others w"
  shows "keeps others (file_chunk_request_cb api fr num pos len w)"
proof -
  have "hashes (set_first P (\<lambda>f. f\<lparr>s_file := s\<rparr>) q) = hashes q" for P s q
    by (rule hashes_set_first) (simp add: hash_of_def)
  with assms destroy_keeps [OF assms] show ?thesis
    by (auto simp: file_chunk_request_cb_def Let_def queue_wf_def split: option.splits)
qed

lemma start_sender_keeps:
  assumes "owned (hash_of f @ hashes q @ others) (w_heap w)"
  shows "start_sender api g fr f q w = Inl NullDeref \<or>
    (\<exists>c w'. start_sender api g fr f q w = Inr (c, w') \<and> queue_wf others w')"
proof -
  have "hash_of (f\<lparr>s_friend_number := fr\<rparr>) = hash_of f" by (simp add: hash_of_def)
  with add_filesender_owned [of "f\<lparr>s_friend_number := fr\<rparr>" "hashes q @ others" w api g] assms
  show ?thesis by (auto simp: start_sender_def queue_wf_def)
qed

lemma hash_of_fresh [simp]: "hash_of file_sender_zero = []"
  by (simp add: hash_of_def file_sender_zero_def file_node_zero_def)

lemma send_path_keeps:
  assumes "queue_wf others w"
  shows "keeps others (send_path api g fr path name w)"
proof -
  let ?f = "file_sender_zero\<lparr>s_friend_number := fr, s_pathname := Some path,
      s_info := file_node_zero\<lparr>fn_file := Some name\<rparr>\<rparr>"
  have "hash_of ?f = []" by (simp add: hash_of_def file_node_zero_def)
  with add_filesender_owned [of ?f "hashes (w_senders w) @ others" w api g] assms
  show ?thesis by (auto simp: send_path_def queue_wf_def)
qed

lemma human_readable_filesize_no_uaf: "human_readable_filesize d sz \<noteq> Inl UseAfterFree"
  by (auto simp: human_readable_filesize_def snprintf_at_def mem_store_def Let_def split: prod.splits)

lemma pack_rows_no_uaf: "pack_rows g i fns \<noteq> Inl UseAfterFree"
  by (induction fns arbitrary: i)
    (auto simp: r_bind_eq_Inl human_readable_filesize_no_uaf Let_def split: option.splits if_splits)

lemma file_list_create_no_uaf: "file_list_create g fnode q files \<noteq> Inl UseAfterFree"
  by (auto simp: file_list_create_def Let_def r_bind_eq_Inl pack_rows_no_uaf split: option.splits)

lemma pack_list_keeps:
  assumes wf: "queue_wf others w" and neg: "packn < 0"
  shows "keeps others (r_bind (file_sender_new api g fr shr packn w) (\<lambda>(_, w). Inr w))"
proof (cases "file_list_create g shr (FileSender_new (w_senders w)) (w_fs w)")
  case (Inl e)
  then show ?thesis using neg file_list_create_no_uaf [of g shr "FileSender_new (w_senders w)" "w_fs w"]
    by (simp add: file_sender_new_def Let_def)
next
  case (Inr r)
  show ?thesis
  proof (cases r)
    case None
    then show ?thesis using Inr neg wf
      by (simp add: file_sender_new_def Let_def FileSender_release_def free_opt_def
          file_sender_zero_def file_node_zero_def)
  next
    case (Some x)
    obtain fp files where x: "x = (fp, files)" by fastforce
    define f where "f = file_sender_zero\<lparr>s_file := Some fp,
        s_info := (s_info file_sender_zero)\<lparr>fn_file := Some packlist_filename\<rparr>,
        s_pathname := Some packlist_filename\<rparr>"
    have "hash_of f = []" by (simp add: f_def hash_of_def file_sender_zero_def file_node_zero_def)
    with start_sender_keeps [of f "w_senders w" others "w\<lparr>w_fs := files\<rparr>" api g fr] wf
    have "keeps others (r_bind (start_sender api g fr f (w_senders w) (w\<lparr>w_fs := files\<rparr>)) (\<lambda>(_, w). Inr w))"
      by (auto simp: queue_wf_def)
    then show ?thesis using Inr Some x neg by (simp add: file_sender_new_def Let_def f_def)
  qed
qed

definition unshared :: "file_event \<Rightarrow> bool" where
  "unshared e = (case e of SendPack fr packn \<Rightarrow> packn < 0 | _ \<Rightarrow> True)"

lemma handle_file_keeps:
  assumes "queue_wf others w" "unshared e"
  shows "keeps others (handle_file api g shr e w)"
  using assms
  by (cases e)
    (auto simp: send_path_keeps pack_list_keeps chunk_request_keeps unshared_def
      file_recv_control_cb_def destroy_keeps file_recv_cb_def file_recv_chunk_cb_def Let_def
      split: option.splits)

lemma handle_files_keeps:
  "queue_wf others w \<Longrightarrow> list_all unshared es \<Longrightarrow> keeps others (handle_files api g shr es w)"
proof (induction es arbitrary: w)
  case (Cons e es)
  then have "keeps others (handle_file api g shr e w)" by (simp add: handle_file_keeps)
  with Cons show ?case by (cases "handle_file api g shr e w") auto
qed simp

section \<open>No block is left over\<close>

text \<open>Besides the blocks of the senders and the \<open>others\<close> nothing is allocated.\<close>

definition only :: "nat list \<Rightarrow> heap \<Rightarrow> bool" where
  "only ps h \<longleftrightarrow> dom (blk h) \<subseteq> set ps"

definition queue_exact :: "nat list \<Rightarrow> 't fstate \<Rightarrow> bool" where
  "queue_exact others w \<longleftrightarrow> queue_wf others w \<and> only (hashes (w_senders w) @ others) (w_heap w)"

abbreviation keeps_only :: "nat list \<Rightarrow> 't fstate res \<Rightarrow> bool" where
  "keeps_only others r \<equiv> (\<forall>w. r = Inr w \<longrightarrow> only (hashes (w_senders w) @ others) (w_heap w))"

lemma queue_exact_blocks:
  "queue_exact others w \<Longrightarrow> dom (blk (w_heap w)) = set (hashes (w_senders w)) \<union> set others"
  by (force simp: queue_exact_def queue_wf_def owned_def only_def)

lemma only_swap: "only (ps @ qs @ rs) h = only (qs @ ps @ rs) h"
  by (auto simp: only_def)

lemma only_iff: "only ps h \<longleftrightarrow> (\<forall>a. blk h a \<noteq> None \<longrightarrow> a \<in> set ps)"
  by (auto simp: only_def)

lemma only_alloc: "alloc bs h = (p, h') \<Longrightarrow> only ps h \<Longrightarrow> only (p # ps) h'"
  by (auto simp: alloc_def only_iff split: if_splits)

lemma only_free: "free_block p h = Inr h' \<Longrightarrow> only (p # ps) h \<Longrightarrow> only ps h'"
  unfolding only_iff by (cases "blk h p") (auto simp: free_block_def split: if_splits, blast)

lemma FileSender_release_only:
  "FileSender_release f h = Inr h' \<Longrightarrow> only (hash_of f @ ps) h \<Longrightarrow> only ps h'"
  by (cases "fn_BLAKE2b (s_info f)") (auto simp: FileSender_release_def free_opt_def hash_of_def dest: only_free)

lemma FileSender_destroy_only:
  "FileSender_destroy P q h = Inr (q', h') \<Longrightarrow> only (hashes q @ ps) h \<Longrightarrow> only (hashes q' @ ps) h'"
proof (induction q arbitrary: ps q')
  case (Cons f q)
  show ?case
  proof (cases "P f")
    case True
    with Cons.prems FileSender_release_only [of f h h' "hashes q @ ps"] show ?thesis by (auto simp: r_bind_eq_Inr)
  next
    case False
    with Cons.prems(1) obtain q1 where q1: "FileSender_destroy P q h = Inr (q1, h')" "q' = f # q1"
      by (auto simp: r_bind_eq_Inr)
    have "only (hashes q @ hash_of f @ ps) h" using Cons.prems(2) only_swap [of "hash_of f"] by simp
    from Cons.IH [OF q1(1) this] q1(2) only_swap [of "hash_of f"] show ?thesis by simp
  qed
qed simp

lemma FileQueue_destroy_only:
  "FileQueue_destroy q h = Inr h' \<Longrightarrow> only (hashes q @ ps) h \<Longrightarrow> only ps h'"
proof (induction q arbitrary: h)
  case (Cons f q)
  then obtain h1 where h1: "FileSender_release f h = Inr h1" "FileQueue_destroy q h1 = Inr h'"
    by (auto simp: r_bind_eq_Inr)
  with FileSender_release_only [OF h1(1), of "hashes q @ ps"] Cons.prems(2) show ?case by (intro Cons.IH) simp_all
qed simp

lemma add_filesender_only:
  assumes "add_filesender api g f w = Inr (num, f', w')" "only (hash_of f @ ps) (w_heap w)"
  shows "only (hash_of f' @ ps) (w_heap w')"
proof -
  have a: "only (hash_of f' @ ps) (w_heap w')"
    if "announce api g f w = Inr (num, f', w')" "only (hash_of f @ ps) (w_heap w)" for f
  proof (cases "fn_BLAKE2b (s_info f)")
    case None
    with that have "only ps (w_heap w)" by (simp add: hash_of_def)
    with that(1) None show ?thesis
      using only_alloc [OF surjective_pairing, where h = "w_heap w" and ps = ps]
      by (auto simp: announce_def hash_of_def Let_def r_bind_eq_Inr case_prod_unfold split: option.splits)
  next
    case (Some p)
    with that show ?thesis
      by (auto simp: announce_def hash_of_def Let_def r_bind_eq_Inr case_prod_unfold split: option.splits)
  qed
  show ?thesis
  proof (cases "sender_stream f (w_fs w)")
    case (Some s)
    obtain s' fn where m: "measure_file s (s_info f) (w_fs w) = (s', fn)" by fastforce
    then have "hash_of (f\<lparr>s_file := Some s', s_info := fn\<rparr>) = hash_of f"
      by (auto simp: measure_file_def hash_of_def split: if_splits)
    with a [of "f\<lparr>s_file := Some s', s_info := fn\<rparr>"] assms Some m show ?thesis by (simp add: add_filesender_def)
  qed (use assms in \<open>auto simp: add_filesender_def\<close>)
qed

lemma start_sender_only:
  assumes "start_sender api g fr f q w = Inr (c, w')" "only (hash_of f @ hashes q @ others) (w_heap w)"
  shows "only (hashes (w_senders w') @ others) (w_heap w')"
proof -
  have h: "hash_of (f\<lparr>s_friend_number := fr\<rparr>) = hash_of f" by (simp add: hash_of_def)
  from assms(1) obtain num f' w1 where w1: "add_filesender api g (f\<lparr>s_friend_number := fr\<rparr>) w = Inr (num, f', w1)"
    "w' = w1\<lparr>w_senders := f' # q\<rparr>" by (auto simp: start_sender_def r_bind_eq_Inr)
  from add_filesender_only [OF w1(1), unfolded h, OF assms(2)] w1(2) show ?thesis by simp
qed

lemma send_path_only:
  assumes "only (hashes (w_senders w) @ others) (w_heap w)"
  shows "keeps_only others (send_path api g fr path name w)"
proof (intro allI impI)
  fix w'
  let ?f = "file_sender_zero\<lparr>s_friend_number := fr, s_pathname := Some path,
      s_info := file_node_zero\<lparr>fn_file := Some name\<rparr>\<rparr>"
  assume "send_path api g fr path name w = Inr w'"
  then obtain num f' w1 where w1: "add_filesender api g ?f w = Inr (num, f', w1)"
    "w' = w1\<lparr>w_senders := f' # w_senders w1\<rparr>" by (auto simp: send_path_def r_bind_eq_Inr)
  have "hash_of ?f = []" by (simp add: hash_of_def file_node_zero_def)
  with add_filesender_only [OF w1(1), of "hashes (w_senders w) @ others"] assms w1 add_filesender_senders [OF w1(1)]
  show "only (hashes (w_senders w') @ others) (w_heap w')" by simp
qed

lemma pack_list_only:
  assumes "only (hashes (w_senders w) @ others) (w_heap w)" "packn < 0"
  shows "keeps_only others (r_bind (file_sender_new api g fr shr packn w) (\<lambda>(_, w). Inr w))"
proof (intro allI impI)
  fix w'
  assume "r_bind (file_sender_new api g fr shr packn w) (\<lambda>(_, w). Inr w) = Inr w'"
  then obtain c where "file_sender_new api g fr shr packn w = Inr (c, w')" by (auto simp: r_bind_eq_Inr)
  with assms(2) obtain r where r: "file_list_create g shr (FileSender_new (w_senders w)) (w_fs w) = Inr r"
    "(case r of None \<Rightarrow> r_bind (FileSender_release file_sender_zero (w_heap w)) (\<lambda>h. Inr (FILESEND_ERR_FILEIO, w\<lparr>w_heap := h\<rparr>))
      | Some (fp, files) \<Rightarrow> start_sender api g fr (file_sender_zero\<lparr>s_file := Some fp,
          s_info := (s_info file_sender_zero)\<lparr>fn_file := Some packlist_filename\<rparr>, s_pathname := Some packlist_filename\<rparr>)
          (w_senders w) (w\<lparr>w_fs := files\<rparr>)) = Inr (c, w')"
    by (auto simp: file_sender_new_def Let_def r_bind_eq_Inr)
  show "only (hashes (w_senders w') @ others) (w_heap w')"
  proof (cases r)
    case None
    with r(2) assms(1) FileSender_release_only [of file_sender_zero "w_heap w" _ "hashes (w_senders w) @ others"]
    show ?thesis by (auto simp: r_bind_eq_Inr)
  next
    case (Some x)
    obtain fp files where x: "x = (fp, files)" by (cases x)
    have "hash_of (file_sender_zero\<lparr>s_file := Some fp,
        s_info := (s_info file_sender_zero)\<lparr>fn_file := Some packlist_filename\<rparr>, s_pathname := Some packlist_filename\<rparr>) = []"
      by (simp add: hash_of_def file_sender_zero_def file_node_zero_def)
    with r(2) Some x start_sender_only assms(1) show ?thesis by fastforce
  qed
qed

lemma destroy_only:
  assumes "only (hashes (w_senders w) @ others) (w_heap w)"
  shows "keeps_only others (r_bind (FileSender_destroy P (w_senders w) (w_heap w)) (\<lambda>(q, h).
    Inr (w\<lparr>w_senders := q, w_heap := h\<rparr>)))"
  using FileSender_destroy_only [OF _ assms] by (auto simp: r_bind_eq_Inr)

lemma chunk_request_only:
  assumes "only (hashes (w_senders w) @ others) (w_heap w)"
  shows "keeps_only others (file_chunk_request_cb api fr num pos len w)"
proof -
  have "hashes (set_first P (\<lambda>f. f\<lparr>s_file := s\<rparr>) q) = hashes q" for P s q
    by (rule hashes_set_first) (simp add: hash_of_def)
  with assms destroy_only [OF assms] show ?thesis
    by (auto simp: file_chunk_request_cb_def Let_def split: option.splits if_splits)
qed

lemma handle_file_only:
  assumes "only (hashes (w_senders w) @ others) (w_heap w)" "unshared e"
  shows "keeps_only others (handle_file api g shr e w)"
proof (cases e)
  case (SendPath fr path name)
  with send_path_only [OF assms(1)] show ?thesis by simp
next
  case (SendPack fr packn)
  with pack_list_only [OF assms(1)] assms(2) show ?thesis by (simp add: unshared_def)
next
  case (ChunkRequest fr num pos len)
  with chunk_request_only [OF assms(1)] show ?thesis by simp
qed (use assms(1) destroy_only [OF assms(1)] in \<open>auto simp: file_recv_control_cb_def file_recv_cb_def
    file_recv_chunk_cb_def Let_def split: option.splits if_splits\<close>)

lemma handle_files_only:
  "only (hashes (w_senders w) @ others) (w_heap w) \<Longrightarrow> list_all unshared es \<Longrightarrow>
   keeps_only others (handle_files api g shr es w)"
proof (induction es arbitrary: w)
  case (Cons e es)
  with handle_file_only [OF Cons.prems(1), of e api g shr] show ?case by (auto simp: r_bind_eq_Inr)
qed simp

section \<open>Serving a file\<close>

text \<open>The sender that the queue finds for a transfer has the file open for reading.\<close>

definition serves :: "u32 \<Rightarrow> u32 \<Rightarrow> string \<Rightarrow> 't fstate \<Rightarrow> bool" where
  "serves fr num path w \<longleftrightarrow> (\<exists>f s. FileSender_get (w_senders w) fr num = Some f \<and>
     s_file f = Some s \<and> st_reads s \<and> st_path s = path)"

lemma find_set_first:
  "List.find P q = Some f \<Longrightarrow> P (upd f) \<Longrightarrow> List.find P (set_first P upd q) = Some (upd f)"
  by (induction q) (auto split: if_splits)

lemma chunk_request_serves:
  assumes "serves fr num path w" and "0 < n" and "off < 2 ^ 63"
  shows "\<exists>w'. file_chunk_request_cb api fr num (of_nat off) n w = Inr w' \<and> serves fr num path w' \<and>
    w_fs w' = w_fs w \<and>
    w_tox w' = tox_file_send_chunk api fr num (of_nat off) (take n (drop off (file_bytes path (w_fs w)))) (w_tox w)"
proof -
  from assms(1) obtain f s where f: "FileSender_get (w_senders w) fr num = Some f" "s_file f = Some s"
    "st_reads s" "st_path s = path" by (auto simp: serves_def)
  have "sint (of_nat off :: u64) = int off" using assms(3)
    by (simp add: signed_of_nat signed_take_bit_int_eq_self)
  moreover have "unat (of_nat off :: u64) = off" using assms(3) unat_word_of_nat64 [of off] by simp
  ultimately have seek: "fseek_set (of_nat off) s = Some (s\<lparr>st_pos := off\<rparr>)" by (simp add: fseek_set_def)
  from f(1) have "is_transfer fr num f" by (auto simp: FileSender_get_def find_Some_iff)
  then have "FileSender_get (set_first (is_transfer fr num) (\<lambda>f. f\<lparr>s_file := x\<rparr>) (w_senders w)) fr num
      = Some (f\<lparr>s_file := x\<rparr>)" for x
    using f(1) unfolding FileSender_get_def by (intro find_set_first) (auto simp: is_transfer_def)
  with f seek assms(2) show ?thesis
    by (simp add: file_chunk_request_cb_def Let_def fread_at_def serves_def)
qed

lemma handle_files_append:
  "handle_files api g shr (es @ fs) w = r_bind (handle_files api g shr es w) (handle_files api g shr fs)"
proof (induction es arbitrary: w)
  case (Cons e es)
  then show ?case by (cases "handle_file api g shr e w") simp_all
qed simp

lemma concat_blocks: "concat (map (\<lambda>k. take n (drop (k * n) xs)) [0..<m]) = take (m * n) xs"
proof (induction m)
  case (Suc m)
  have "take (m * n) xs @ take n (drop (m * n) xs) = take (m * n + n) xs" by (rule take_add [symmetric])
  with Suc show ?case by (simp add: add.commute)
qed simp

section \<open>Properties\<close>

text \<open>
  C4 (safety): let the hash blocks of the queue be allocated, have one owner each, and let no
  other block be allocated but those in \<open>others\<close>. No sequence of transfers of screenshots, call
  records and pack lists, chunk requests, controls and incoming files uses or frees a freed hash
  block; at its end the allocated ones are again exactly those of the senders and the \<open>others\<close>,
  so each transfer that ended has released its own; and destroying the queue succeeds and leaves
  exactly the \<open>others\<close>. Only hash blocks have a lifetime here.
\<close>

theorem transfers_hash_blocks_exact:
  assumes "queue_exact others w" and "list_all unshared es"
  shows "handle_files api g shr es w \<noteq> Inl UseAfterFree \<and>
    (\<forall>w'. handle_files api g shr es w = Inr w' \<longrightarrow> queue_exact others w' \<and>
      dom (blk (w_heap w')) = set (hashes (w_senders w')) \<union> set others \<and>
      (\<exists>h'. FileQueue_destroy (w_senders w') (w_heap w') = Inr h' \<and> dom (blk h') = set others))"
proof -
  have wf: "queue_wf others w" "only (hashes (w_senders w) @ others) (w_heap w)"
    using assms(1) by (simp_all add: queue_exact_def)
  note keep = handle_files_keeps [OF wf(1) assms(2), of api g shr]
  have "queue_exact others w' \<and> dom (blk (w_heap w')) = set (hashes (w_senders w')) \<union> set others \<and>
      (\<exists>h'. FileQueue_destroy (w_senders w') (w_heap w') = Inr h' \<and> dom (blk h') = set others)"
    if "handle_files api g shr es w = Inr w'" for w'
  proof -
    have q: "queue_exact others w'"
      using keep handle_files_only [OF wf(2) assms(2)] that by (auto simp: queue_exact_def)
    then obtain h' where h': "FileQueue_destroy (w_senders w') (w_heap w') = Inr h'" "owned others h'"
      using FileQueue_destroy_owned [of "w_senders w'" others] by (auto simp: queue_exact_def queue_wf_def)
    have "only others h'" using FileQueue_destroy_only [OF h'(1)] q by (simp add: queue_exact_def)
    with h'(2) have "dom (blk h') = set others" by (force simp: owned_def only_def)
    with q h'(1) queue_exact_blocks [OF q] show ?thesis by blast
  qed
  moreover have "handle_files api g shr es w \<noteq> Inl UseAfterFree" using keep by (auto simp: keeps_def)
  ultimately show ?thesis by blast
qed

definition world0 :: "sample_tox fstate" where
  "world0 = \<lparr>w_tox = \<lparr>sm_friends = [1], sm_log = []\<rparr>,
     w_fs = \<lparr>fs_data = (\<lambda>p. if p = ''/up/a'' then Some ''abcde'' else None),
             fs_readable = (\<lambda>_. True), fs_writable = (\<lambda>_. True)\<rparr>,
     w_heap = \<lparr>blk = (\<lambda>p. if p = 0 then Some (pad32 ''h'') else None), brk = 1\<rparr>, w_senders = []\<rparr>"

definition node0 :: file_node where
  "node0 = \<lparr>fn_file = Some ''/up/a'', fn_BLAKE2b = Some 0, fn_mtime = 5, fn_length = 5, fn_exists = True\<rparr>"

text \<open>A transfer that is completed and one that is going on when the queue is destroyed.\<close>

theorem transfers_hash_blocks_exact_witness:
  "\<exists>w h. handle_files sample (\<lambda>_. NUL) [node0]
       [SendPath 1 ''/up/a'' ''a'', ChunkRequest 1 7 0 3, ChunkRequest 1 7 3 0, SendPath 1 ''/up/a'' ''a''] world0 = Inr w \<and>
     length (w_senders w) = 1 \<and> card (dom (blk (w_heap w))) = 2 \<and>
     FileQueue_destroy (w_senders w) (w_heap w) = Inr h \<and> dom (blk h) = {0}"
proof -
  let ?es = "[SendPath 1 ''/up/a'' ''a'', ChunkRequest 1 7 0 3, ChunkRequest 1 7 3 0, SendPath 1 ''/up/a'' ''a'']"
  have e: "queue_exact [0] world0"
    by (auto simp: queue_exact_def only_def queue_wf_def owned_def world0_def split: if_splits)
  have "case handle_files sample (\<lambda>_. NUL) [node0] ?es world0 of Inl _ \<Rightarrow> False | Inr w \<Rightarrow> hashes (w_senders w) = [2]"
    by code_simp
  then obtain w where w: "handle_files sample (\<lambda>_. NUL) [node0] ?es world0 = Inr w" "hashes (w_senders w) = [2]"
    by (auto split: sum.splits)
  have l: "length (w_senders w) = 1"
  proof -
    have "case handle_files sample (\<lambda>_. NUL) [node0] ?es world0 of Inl _ \<Rightarrow> False | Inr w \<Rightarrow> length (w_senders w) = 1"
      by code_simp
    with w(1) show ?thesis by simp
  qed
  have "list_all unshared ?es" by (simp add: unshared_def)
  from transfers_hash_blocks_exact [OF e this, of sample "\<lambda>_. NUL" "[node0]"] w l show ?thesis by force
qed

text \<open>
  C40 (error): the sender of a shared file takes over the shared node's hash pointer and frees
  it when the transfer is completed. So after one complete transfer of a pack, the next
  request for the same pack, by anyone, uses freed storage.
\<close>

theorem shared_pack_second_transfer_faults:
  assumes "k < length shr" and "fn_BLAKE2b (shr ! k) = Some p" and "blk (w_heap w) p = Some hash"
    and "fn_file (shr ! k) = Some path" and "fopen_read (cstr path) (w_fs w) = Some s"
    and "fn_length (shr ! k) \<noteq> 0" and "num \<noteq> UINT32_MAX"
    and "tox_file_send api fr 0 (word_of_int (fn_length (shr ! k))) (Some hash)
      (cstr (gnu_basename (cstr path))) (w_tox w) = (num, tox)"
  shows "\<exists>w1 w2. file_sender_new api g fr shr (int k) w = Inr (FILESEND_OK, w1) \<and>
    file_chunk_request_cb api fr num pos 0 w1 = Inr w2 \<and>
    file_sender_new api g fr' shr (int k) w2 = Inl UseAfterFree"
proof -
  define f where "f = \<lparr>s_info = (shr ! k)\<lparr>fn_file := Some (gnu_basename (cstr path))\<rparr>,
      s_pathname = Some (cstr path), s_file = Some s, s_file_number = num, s_friend_number = fr, s_kind = 0\<rparr>"
  define h where "h = (w_heap w)\<lparr>blk := (blk (w_heap w))(p := Some hash)\<rparr>"
  define w1 where "w1 = w\<lparr>w_heap := h, w_tox := tox, w_senders := f # w_senders w\<rparr>"
  have 1: "file_sender_new api g fr shr (int k) w = Inr (FILESEND_OK, w1)"
    using assms
    by (simp add: file_sender_new_def start_sender_def add_filesender_def sender_stream_def measure_file_def
        announce_def load_hash_def load_block_def store_block_def file_sender_zero_def Let_def f_def h_def w1_def)
  define w2 where "w2 = w1\<lparr>w_senders := w_senders w, w_heap := h\<lparr>blk := (blk h)(p := None)\<rparr>\<rparr>"
  have 2: "file_chunk_request_cb api fr num pos 0 w1 = Inr w2"
    using assms(2)
    by (simp add: file_chunk_request_cb_def FileSender_get_def is_transfer_def FileSender_release_def
        free_opt_def free_block_def Let_def f_def h_def w1_def w2_def)
  have "file_sender_new api g fr' shr (int k) w2 = Inl UseAfterFree"
    using assms(1,2) by (simp add: file_sender_new_def load_block_def Let_def w2_def)
  with 1 2 show ?thesis by blast
qed

theorem shared_pack_second_transfer_faults_witness:
  "\<exists>w1 w2. file_sender_new sample (\<lambda>_. NUL) 1 [node0] 0 world0 = Inr (FILESEND_OK, w1) \<and>
    file_chunk_request_cb sample 1 7 5 0 w1 = Inr w2 \<and>
    file_sender_new sample (\<lambda>_. NUL) 2 [node0] 0 w2 = Inl UseAfterFree"
proof -
  have "cstr ''/up/a'' = ''/up/a''" by code_simp
  then show ?thesis
    using shared_pack_second_transfer_faults [of 0 "[node0]" 0 world0 "pad32 ''h''" "''/up/a''"
        "\<lparr>st_path = ''/up/a'', st_pos = 0, st_reads = True\<rparr>" 7 sample 1
        "\<lparr>sm_friends = [1], sm_log = [cstr (gnu_basename ''/up/a'')]\<rparr>" "\<lambda>_. NUL" 5 2]
    by (simp add: node0_def world0_def fopen_read_def sample_def)
qed

text \<open>
  C5 (functional): a friend that requests the chunks of a transfer one after the other gets
  the bytes of the file: chunk \<open>k\<close> is the \<open>k\<close>-th block of \<open>n\<close> bytes, the last one as long
  as what is left, and together they are the whole file as soon as the requests reach its end.
\<close>

theorem served_file_complete:
  assumes "serves fr num path w" and "0 < n" and "m * n < 2 ^ 63"
  shows "(\<exists>w'. handle_files api g shr (map (\<lambda>k. ChunkRequest fr num (of_nat (k * n)) n) [0..<m]) w = Inr w' \<and>
      serves fr num path w' \<and> w_fs w' = w_fs w \<and>
      w_tox w' = fold (\<lambda>k. tox_file_send_chunk api fr num (of_nat (k * n))
                       (take n (drop (k * n) (file_bytes path (w_fs w))))) [0..<m] (w_tox w)) \<and>
    (length (file_bytes path (w_fs w)) \<le> m * n \<longrightarrow>
      concat (map (\<lambda>k. take n (drop (k * n) (file_bytes path (w_fs w)))) [0..<m]) = file_bytes path (w_fs w))"
proof -
  have "\<exists>w'. handle_files api g shr (map (\<lambda>k. ChunkRequest fr num (of_nat (k * n)) n) [0..<m]) w = Inr w' \<and>
      serves fr num path w' \<and> w_fs w' = w_fs w \<and>
      w_tox w' = fold (\<lambda>k. tox_file_send_chunk api fr num (of_nat (k * n))
                       (take n (drop (k * n) (file_bytes path (w_fs w))))) [0..<m] (w_tox w)"
    using assms(3)
  proof (induction m)
    case (Suc m)
    then obtain w1 where w1: "handle_files api g shr (map (\<lambda>k. ChunkRequest fr num (of_nat (k * n)) n) [0..<m]) w = Inr w1"
      "serves fr num path w1" "w_fs w1 = w_fs w"
      "w_tox w1 = fold (\<lambda>k. tox_file_send_chunk api fr num (of_nat (k * n))
                       (take n (drop (k * n) (file_bytes path (w_fs w))))) [0..<m] (w_tox w)" by auto
    have "m * n < 2 ^ 63" using Suc.prems by simp
    from chunk_request_serves [OF w1(2) assms(2) this, of api] w1 show ?case
      by (auto simp: handle_files_append)
  qed (simp add: assms(1))
  then show ?thesis by (simp add: concat_blocks)
qed

definition serving0 :: "sample_tox fstate" where
  "serving0 = world0\<lparr>w_senders := [file_sender_zero\<lparr>s_friend_number := 1, s_file_number := 7,
     s_file := Some \<lparr>st_path = ''/up/a'', st_pos = 0, st_reads = True\<rparr>\<rparr>]\<rparr>"

theorem served_file_complete_witness:
  "\<exists>w'. handle_files sample (\<lambda>_. NUL) [] [ChunkRequest 1 7 0 3, ChunkRequest 1 7 3 3] serving0 = Inr w' \<and>
    sm_log (w_tox w') = [''abc'', ''de'']"
proof -
  have "serves 1 7 ''/up/a'' serving0"
    by (simp add: serves_def serving0_def FileSender_get_def is_transfer_def)
  from served_file_complete [OF this, of 3 2 sample "\<lambda>_. NUL" "[]"] show ?thesis
    by (auto simp: upt_rec serving0_def world0_def file_bytes_def sample_def)
qed

text \<open>
  A chunk that arrives is never written. Whatever it holds, the file it is meant
  for keeps its bytes if it can be opened for update, and is created or emptied otherwise; no
  other file changes.
\<close>

theorem received_chunk_not_stored:
  assumes "len \<le> length data" and "0 \<le> sint position"
  shows "\<exists>w'. file_recv_chunk_cb fr num position data len w = Inr w' \<and>
    (fs_data (w_fs w') (recv_filename fr num) = fs_data (w_fs w) (recv_filename fr num) \<or>
     fs_data (w_fs w') (recv_filename fr num) = Some []) \<and>
    (\<forall>p. p \<noteq> recv_filename fr num \<longrightarrow> fs_data (w_fs w') p = fs_data (w_fs w) p)"
  using assms
  by (auto simp: file_recv_chunk_cb_def Let_def fseek_set_def fopen_write_def split: option.splits if_splits)

theorem received_chunk_not_stored_witness:
  "\<exists>w'. file_recv_chunk_cb 1 2 0 ''data'' 4 world0 = Inr w' \<and>
    (fs_data (w_fs w') (recv_filename 1 2) = fs_data (w_fs world0) (recv_filename 1 2) \<or>
     fs_data (w_fs w') (recv_filename 1 2) = Some [])"
  using received_chunk_not_stored [of 4 "''data''" 0 1 2 world0] by auto

text \<open>
  The list of packs is announced with its true length but its stream was opened
  for writing, so every chunk of it that the friend requests is sent empty.
\<close>

theorem pack_list_sent_empty:
  assumes "file_sender_new api g fr shr packn w = Inr (FILESEND_OK, w1)" and "packn < 0"
    and "0 \<le> sint pos" and "0 < len"
  shows "\<exists>f. w_senders w1 = f # w_senders w \<and> 0 < fn_length (s_info f) \<and>
    (\<exists>w2. file_chunk_request_cb api fr (s_file_number f) pos len w1 = Inr w2 \<and>
      w_tox w2 = tox_file_send_chunk api fr (s_file_number f) pos [] (w_tox w1))"
proof -
  from assms(1,2) obtain fp files where l: "file_list_create g shr (FileSender_new (w_senders w)) (w_fs w) = Inr (Some (fp, files))"
    by (auto simp: file_sender_new_def Let_def r_bind_eq_Inr split: option.splits)
  then have fp: "\<not> st_reads fp" "st_path fp = packlist_filename" "0 < length (file_bytes packlist_filename files)"
    by (auto simp: file_list_create_def Let_def r_bind_eq_Inr fopen_write_def split: option.splits if_splits)
  define f0 where "f0 = file_sender_zero\<lparr>s_file := Some fp,
      s_info := (s_info file_sender_zero)\<lparr>fn_file := Some packlist_filename\<rparr>,
      s_pathname := Some packlist_filename\<rparr>"
  from assms(1,2) l have start: "start_sender api g fr f0 (w_senders w) (w\<lparr>w_fs := files\<rparr>) = Inr (FILESEND_OK, w1)"
    by (simp add: file_sender_new_def Let_def f0_def)
  define f1 where "f1 = f0\<lparr>s_friend_number := fr, s_file := Some (fp\<lparr>st_pos := 0\<rparr>),
      s_info := (s_info f0)\<lparr>fn_length := file_length fp files\<rparr>\<rparr>"
  have "add_filesender api g (f0\<lparr>s_friend_number := fr\<rparr>) (w\<lparr>w_fs := files\<rparr>) = announce api g f1 (w\<lparr>w_fs := files\<rparr>)"
    by (simp add: add_filesender_def sender_stream_def measure_file_def f1_def f0_def
        file_sender_zero_def file_node_zero_def)
  with start obtain num f w' where a: "announce api g f1 (w\<lparr>w_fs := files\<rparr>) = Inr (num, f, w')"
    "w1 = w'\<lparr>w_senders := f # w_senders w\<rparr>"
    by (auto simp: start_sender_def r_bind_eq_Inr split: if_splits)
  from announce_fields [OF a(1)] have f: "s_file f = Some (fp\<lparr>st_pos := 0\<rparr>)" "s_friend_number f = fr"
    "fn_length (s_info f) = file_length fp files" by (simp_all add: f1_def)
  have g: "FileSender_get (w_senders w1) fr (s_file_number f) = Some f"
    using a f by (simp add: FileSender_get_def is_transfer_def)
  have "\<exists>w2. file_chunk_request_cb api fr (s_file_number f) pos len w1 = Inr w2 \<and>
      w_tox w2 = tox_file_send_chunk api fr (s_file_number f) pos [] (w_tox w1)"
    using assms(3,4) f fp by (simp add: file_chunk_request_cb_def Let_def g fseek_set_def fread_at_def)
  with a f fp show ?thesis by (auto simp: file_length_def)
qed

theorem pack_list_sent_empty_witness:
  "\<exists>w1 f. file_sender_new sample (\<lambda>_. NUL) 1 [] (- 1) world0 = Inr (FILESEND_OK, w1) \<and>
    w_senders w1 = [f] \<and> 0 < fn_length (s_info f)"
proof -
  have "\<exists>w1. file_sender_new sample (\<lambda>_. NUL) 1 [] (- 1) world0 = Inr (FILESEND_OK, w1)"
    by (simp add: file_sender_new_def file_list_create_def fopen_write_def start_sender_def add_filesender_def
        sender_stream_def measure_file_def announce_def load_hash_def file_sender_zero_def
        file_node_zero_def Let_def world0_def sample_def alloc_def)
  then obtain w1 where w1: "file_sender_new sample (\<lambda>_. NUL) 1 [] (- 1) world0 = Inr (FILESEND_OK, w1)" ..
  have "w_senders world0 = []" by (simp add: world0_def)
  with pack_list_sent_empty [OF w1, of 0 10] obtain f where "w_senders w1 = [f]" "0 < fn_length (s_info f)"
    by auto
  with w1 show ?thesis by blast
qed

text \<open>
  A sender whose file cannot be opened stays in the queue, first in it and with
  file number 0, so it hides a running transfer with number 0 to the same friend: requests for
  that transfer's chunks, and its completion, are ignored.
\<close>

theorem failed_sender_hides_transfer:
  assumes "fopen_read (cstr path) (w_fs w) = None"
  shows "\<exists>w1. send_path api g fr path name w = Inr w1 \<and> length (w_senders w1) = Suc (length (w_senders w)) \<and>
    file_chunk_request_cb api fr 0 pos len w1 = Inr w1"
  using assms
  by (simp add: send_path_def add_filesender_def sender_stream_def file_sender_zero_def
      file_chunk_request_cb_def FileSender_get_def is_transfer_def)

theorem failed_sender_hides_transfer_witness:
  "\<exists>w1. send_path sample (\<lambda>_. NUL) 1 ''x'' ''y'' world0 = Inr w1 \<and>
    file_chunk_request_cb sample 1 0 0 8 w1 = Inr w1"
proof -
  have "fopen_read (cstr ''x'') (w_fs world0) = None"
    by (simp add: fopen_read_def world0_def cstr_def)
  from failed_sender_hides_transfer [OF this] show ?thesis by blast
qed

end
