(* ===== verification/Fileop.thy ===== *)
theory Fileop
  imports File_Queue
begin

text \<open>
  \<^verbatim>\<open>src/fileop.c\<close>: the list of shared files. \<^verbatim>\<open>file_do\<close> is called
  again and again from the main loop and each time does one small step: walk the directory,
  take up one new file, or hash one buffer of it. Its static variables are the fields of a
  record; what \<^verbatim>\<open>ftw\<close> finds is an argument.
\<close>

section \<open>State\<close>

record op_state =
  op_fs :: fs
  op_heap :: heap
  shr_list :: "file_node list"
  new_list :: "file_node list"
  file_recheck :: bool
  file_new_c :: bool
  notified :: "(file_node \<times> int) list"
  hashing :: int
  last_one :: nat
  ck_file :: "stream option"
  ck_state :: string

text \<open>
  The program's \<^verbatim>\<open>last\<close> is \<open>last_one\<close>; \<open>file_new_c\<close> says whether a callback
  for new files is set, and \<open>notified\<close> collects its calls. \<open>ck_file\<close> and \<open>ck_state\<close> are the
  static variables of the checksum function, the latter being the bytes hashed so far.
\<close>

definition node_path :: "file_node \<Rightarrow> string res" where
  "node_path fn = (case fn_file fn of None \<Rightarrow> Inl NullDeref | Some p \<Rightarrow> Inr (cstr p))"

section \<open>Hashing\<close>

abbreviation (input) HASHING_BUFSIZE :: nat where "HASHING_BUFSIZE \<equiv> 65536"

text \<open>
  One call reads one buffer. The buffer is local: what the read does not fill holds \<open>g\<close>. The
  whole buffer is hashed, however much was read.
\<close>

definition file_checksumcalc_noblock ::
  "sodium \<Rightarrow> (nat \<Rightarrow> char) \<Rightarrow> nat \<Rightarrow> string \<Rightarrow> op_state \<Rightarrow> (int \<times> op_state) res" where
  "file_checksumcalc_noblock sod g hash filename w =
     (case (case ck_file w of
              Some f \<Rightarrow> Some (f, ck_state w)
            | None \<Rightarrow> map_option (\<lambda>f. (f, [])) (fopen_read filename (op_fs w))) of
        None \<Rightarrow> Inr (- 1, w)
      | Some (f, state) \<Rightarrow>
          (let data = fread_at f HASHING_BUFSIZE (op_fs w); i = length data in
           if i > 0 then
             (let buf = data @ map g [i..<HASHING_BUFSIZE] in
              Inr (int i, w\<lparr>ck_file := Some (f\<lparr>st_pos := st_pos f + i\<rparr>), ck_state := state @ buf\<rparr>))
           else
             r_bind (store_block hash (crypto_generichash sod state) (op_heap w)) (\<lambda>h.
               Inr (0, w\<lparr>op_heap := h, ck_file := None, ck_state := state\<rparr>))))"

section \<open>Walking the directory\<close>

abbreviation (input) FTW_F :: nat where "FTW_F \<equiv> 0"

definition file_walk_callback :: "string \<Rightarrow> int \<Rightarrow> int \<Rightarrow> nat \<Rightarrow> op_state \<Rightarrow> (int \<times> op_state) res" where
  "file_walk_callback path mtime sz type w =
     (if type = FTW_F then
        r_bind (find_index_res (\<lambda>fn. r_bind (node_path fn) (\<lambda>p.
                  Inr (p = path \<and> mtime = fn_mtime fn \<and> sz = fn_length fn))) 0 (shr_list w)) (\<lambda>n.
          case n of
            Some _ \<Rightarrow> Inr (0, w)
          | None \<Rightarrow> Inr (0, w\<lparr>new_list := new_list w @ [\<lparr>fn_file = Some path, fn_BLAKE2b = None,
                fn_mtime = mtime, fn_length = sz, fn_exists = True\<rparr>]\<rparr>))
      else Inr (0, w))"

fun ftw :: "(string \<times> int \<times> int \<times> nat) list \<Rightarrow> op_state \<Rightarrow> (int \<times> op_state) res" where
  "ftw [] w = Inr (0, w)"
| "ftw ((path, mtime, sz, type) # entries) w =
     r_bind (file_walk_callback path mtime sz type w) (\<lambda>(rc, w).
       if rc \<noteq> 0 then Inr (rc, w) else ftw entries w)"

text \<open>\<open>walk\<close> is what is found below the directory, or \<open>None\<close> if it does not exist.\<close>

definition file_walk_shared :: "(string \<times> int \<times> int \<times> nat) list option \<Rightarrow> op_state \<Rightarrow> (int \<times> op_state) res" where
  "file_walk_shared walk w =
     (case walk of
        None \<Rightarrow> Inr (- 1, w)
      | Some entries \<Rightarrow>
          r_bind (ftw entries w) (\<lambda>(rc, w).
            Inr (rc, if new_list w = [] then w\<lparr>file_recheck := False\<rparr> else w)))"

definition file_exists_shared :: "op_state \<Rightarrow> op_state res" where
  "file_exists_shared w =
     r_bind (those_res (map (\<lambda>fn. r_bind (node_path fn) (\<lambda>p.
        Inr (fn\<lparr>fn_exists := (fs_data (op_fs w) p \<noteq> None \<and> fs_readable (op_fs w) p)\<rparr>))) (shr_list w)))
       (\<lambda>l. Inr (w\<lparr>shr_list := l\<rparr>))"

abbreviation (input) SIGUSR1 :: int where "SIGUSR1 \<equiv> 10"

definition file_recheck_callback :: "int \<Rightarrow> op_state \<Rightarrow> op_state" where
  "file_recheck_callback signo w = (if signo = SIGUSR1 then w\<lparr>file_recheck := True\<rparr> else w)"

section \<open>The step function\<close>

text \<open>
  The second part of \<^verbatim>\<open>file_do\<close>, taking up the last of the new files: the
  place of its path in the shared list, and the two ways to put it there.
\<close>

definition shared_index :: "file_node \<Rightarrow> op_state \<Rightarrow> nat option res" where
  "shared_index new w =
     find_index_res (\<lambda>fn. r_bind (node_path new) (\<lambda>a. r_bind (node_path fn) (\<lambda>b. Inr (a = b)))) 0 (shr_list w)"

definition place_new :: "file_node \<Rightarrow> nat option \<Rightarrow> op_state \<Rightarrow> op_state res" where
  "place_new new n w =
     (case n of
        None \<Rightarrow> Inr (w\<lparr>shr_list := shr_list w @ [new], last_one := length (shr_list w)\<rparr>)
      | Some t \<Rightarrow>
          r_bind (free_opt (fn_BLAKE2b (shr_list w ! t)) (op_heap w)) (\<lambda>h.
            Inr (w\<lparr>op_heap := h, shr_list := (shr_list w)[t := new], last_one := t\<rparr>)))"

definition file_take_new :: "(nat \<Rightarrow> char) \<Rightarrow> op_state \<Rightarrow> op_state res" where
  "file_take_new g w =
     (let i = length (new_list w) - 1; new = new_list w ! i in
      r_bind (shared_index new w) (\<lambda>n.
      r_bind (place_new new n w) (\<lambda>w.
      let w = w\<lparr>new_list := butlast (new_list w)\<rparr>;
          (p, h) = alloc (map g [0..<TOX_FILE_ID_LENGTH]) (op_heap w);
          l = last_one w in
      Inr (w\<lparr>op_heap := h, shr_list := (shr_list w)[l := (shr_list w ! l)\<lparr>fn_BLAKE2b := Some p\<rparr>],
             hashing := int l\<rparr>))))"

text \<open>The third part: hashing one buffer, and what follows the last one or an error.\<close>

definition file_hash_step :: "sodium \<Rightarrow> (nat \<Rightarrow> char) \<Rightarrow> op_state \<Rightarrow> (int \<times> op_state) res" where
  "file_hash_step sod g w =
     (if length (shr_list w) \<le> last_one w then Inl OutOfBounds else
      let fn = shr_list w ! last_one w in
      case fn_BLAKE2b fn of
        None \<Rightarrow> Inl NullDeref
      | Some p \<Rightarrow>
          r_bind (node_path fn) (\<lambda>path.
          r_bind (file_checksumcalc_noblock sod g p path w) (\<lambda>(rc, w).
            let w = (if rc \<le> 0 then
                       (let w = w\<lparr>hashing := - 1\<rparr>;
                            w = (if new_list w = [] then w\<lparr>file_recheck := False\<rparr> else w) in
                        if file_new_c w
                        then w\<lparr>notified := notified w @ [(shr_list w ! last_one w, int (last_one w))]\<rparr> else w)
                     else w) in
            Inr (if rc < 0 then - 1 else 0, w))))"

definition file_do ::
  "sodium \<Rightarrow> (nat \<Rightarrow> char) \<Rightarrow> (string \<times> int \<times> int \<times> nat) list option \<Rightarrow> op_state \<Rightarrow> (int \<times> op_state) res" where
  "file_do sod g walk w =
     r_bind (if file_recheck w \<and> new_list w = [] \<and> hashing w = - 1
             then r_bind (file_exists_shared w) (\<lambda>w. r_bind (file_walk_shared walk w) (\<lambda>(_, w). Inr w))
             else Inr w) (\<lambda>w.
     r_bind (if new_list w \<noteq> [] \<and> hashing w = - 1 then file_take_new g w else Inr w) (\<lambda>w.
     if 0 \<le> hashing w then file_hash_step sod g w else Inr (0, w)))"

definition file_new_set_callback :: "bool \<Rightarrow> op_state \<Rightarrow> op_state" where
  "file_new_set_callback func w = w\<lparr>file_new_c := func\<rparr>"

definition file_get_shared :: "op_state \<Rightarrow> file_node list" where
  "file_get_shared w = shr_list w"

definition file_get_shared_len :: "op_state \<Rightarrow> int" where
  "file_get_shared_len w = to_i32 (int (length (shr_list w)))"

end
