(* ===== verification/Fileop_Sharing.thy ===== *)
theory Fileop_Sharing
  imports Fileop File_Transfer "HOL-Library.Multiset"
begin

text \<open>
  The list of shared files is sound: every step of \<^verbatim>\<open>file_do\<close> keeps its form and
  does not fault, no path is listed twice, and what the incremental hashing computes.
\<close>

section \<open>The form of the state\<close>

definition has_file :: "file_node \<Rightarrow> bool" where
  "has_file fn \<longleftrightarrow> fn_file fn \<noteq> None"

definition path_of :: "file_node \<Rightarrow> string" where
  "path_of fn = cstr (the (fn_file fn))"

definition node_hash :: "file_node \<Rightarrow> nat list" where
  "node_hash fn = (case fn_BLAKE2b fn of None \<Rightarrow> [] | Some p \<Rightarrow> [p])"

definition node_hashes :: "file_node list \<Rightarrow> nat list" where
  "node_hashes fns = concat (map node_hash fns)"

definition op_wf :: "op_state \<Rightarrow> bool" where
  "op_wf w \<longleftrightarrow> list_all has_file (shr_list w) \<and> list_all has_file (new_list w) \<and>
     list_all (\<lambda>fn. fn_BLAKE2b fn = None) (new_list w) \<and>
     distinct (map path_of (shr_list w)) \<and>
     owned (node_hashes (shr_list w)) (op_heap w) \<and>
     (hashing w = - 1 \<and> ck_file w = None \<or>
      hashing w = int (last_one w) \<and> last_one w < length (shr_list w) \<and>
        fn_BLAKE2b (shr_list w ! last_one w) \<noteq> None)"

lemma node_path_has_file: "has_file fn \<Longrightarrow> node_path fn = Inr (path_of fn)"
  by (auto simp: has_file_def node_path_def path_of_def)

lemma node_hashes_append [simp]: "node_hashes (xs @ ys) = node_hashes xs @ node_hashes ys"
  by (simp add: node_hashes_def)

lemma node_hashes_Cons [simp]:
  "node_hashes [] = []" "node_hashes (fn # fns) = node_hash fn @ node_hashes fns"
  by (simp_all add: node_hashes_def)

lemma list_update_split: "t < length xs \<Longrightarrow> xs[t := y] = take t xs @ y # drop (Suc t) xs"
  by (rule upd_conv_take_nth_drop)

lemma id_split: "t < length xs \<Longrightarrow> xs = take t xs @ xs ! t # drop (Suc t) xs"
  by (rule id_take_nth_drop)

lemma owned_perm: "mset ps = mset qs \<Longrightarrow> owned ps h = owned qs h"
  unfolding owned_def by (metis mset_eq_imp_distinct_iff mset_eq_setD)

lemma node_hashes_update:
  assumes "t < length xs"
  shows "mset (node_hashes (xs[t := y])) + mset (node_hash (xs ! t)) = mset (node_hashes xs) + mset (node_hash y)"
proof -
  have "node_hashes xs = node_hashes (take t xs @ xs ! t # drop (Suc t) xs)"
    using id_split [OF assms] by simp
  then show ?thesis by (simp add: list_update_split [OF assms])
qed

section \<open>Every step keeps the form\<close>

lemma file_walk_callback_wf:
  assumes "op_wf w"
  shows "\<exists>w'. file_walk_callback path mtime sz type w = Inr (0, w') \<and> op_wf w' \<and>
    hashing w' = hashing w \<and> shr_list w' = shr_list w"
proof (cases "type = FTW_F")
  case True
  let ?Q = "\<lambda>fn. path_of fn = path \<and> mtime = fn_mtime fn \<and> sz = fn_length fn"
  have "\<forall>fn\<in>set (shr_list w). r_bind (node_path fn) (\<lambda>p.
      Inr (p = path \<and> mtime = fn_mtime fn \<and> sz = fn_length fn)) = Inr (?Q fn)"
    using assms by (auto simp: op_wf_def list_all_iff node_path_has_file)
  from find_index_res_pure [OF this, of 0] obtain r where
    "find_index_res (\<lambda>fn. r_bind (node_path fn) (\<lambda>p. Inr (p = path \<and> mtime = fn_mtime fn \<and> sz = fn_length fn)))
       0 (shr_list w) = Inr r" by blast
  with True assms show ?thesis
    by (cases r) (auto simp: file_walk_callback_def op_wf_def has_file_def)
qed (use assms in \<open>simp add: file_walk_callback_def\<close>)

lemma ftw_wf:
  "op_wf w \<Longrightarrow> \<exists>w'. ftw entries w = Inr (0, w') \<and> op_wf w' \<and> hashing w' = hashing w \<and> shr_list w' = shr_list w"
proof (induction entries w rule: ftw.induct)
  case (2 path mtime sz type entries w)
  from file_walk_callback_wf [OF 2(2), of path mtime sz type] obtain w1
    where w1: "file_walk_callback path mtime sz type w = Inr (0, w1)" "op_wf w1" "hashing w1 = hashing w"
      "shr_list w1 = shr_list w" by blast
  with 2(1) [of "(0, w1)" 0 w1] show ?case by auto
qed simp

lemma file_exists_shared_wf:
  assumes "op_wf w"
  shows "\<exists>w'. file_exists_shared w = Inr w' \<and> op_wf w' \<and> hashing w' = hashing w"
proof -
  let ?g = "\<lambda>fn. fn\<lparr>fn_exists := (fs_data (op_fs w) (path_of fn) \<noteq> None \<and> fs_readable (op_fs w) (path_of fn))\<rparr>"
  have "those_res (map (\<lambda>fn. r_bind (node_path fn) (\<lambda>p.
        Inr (fn\<lparr>fn_exists := (fs_data (op_fs w) p \<noteq> None \<and> fs_readable (op_fs w) p)\<rparr>))) (shr_list w))
      = Inr (map ?g (shr_list w))"
    using assms by (intro those_res_pure) (auto simp: op_wf_def list_all_iff node_path_has_file)
  moreover have "path_of \<circ> ?g = path_of" by (simp add: path_of_def fun_eq_iff)
  moreover have "node_hashes (map ?g xs) = node_hashes xs" for xs
    by (simp add: node_hashes_def comp_def) (simp add: node_hash_def [abs_def])
  moreover have "list_all has_file (map ?g xs) = list_all has_file xs" for xs
    by (simp add: list_all_iff has_file_def)
  ultimately show ?thesis using assms
    by (auto simp: file_exists_shared_def op_wf_def)
qed

lemma file_walk_shared_wf:
  assumes "op_wf w"
  shows "\<exists>rc w'. file_walk_shared walk w = Inr (rc, w') \<and> op_wf w' \<and> hashing w' = hashing w"
proof (cases walk)
  case (Some entries)
  from ftw_wf [OF assms, of entries] obtain w1 where
    "ftw entries w = Inr (0, w1)" "op_wf w1" "hashing w1 = hashing w" by blast
  with Some show ?thesis by (simp add: file_walk_shared_def op_wf_def)
qed (use assms in \<open>simp add: file_walk_shared_def\<close>)

text \<open>Putting a fresh hash block into a node without one, and putting a node without one over another.\<close>

lemma owned_set_hash:
  assumes "t < length l" "node_hash (l ! t) = []" "owned (node_hashes l) h" "alloc bs h = (p, h')"
  shows "owned (node_hashes (l[t := (l ! t)\<lparr>fn_BLAKE2b := Some p\<rparr>])) h'"
proof -
  have "mset (node_hashes (l[t := (l ! t)\<lparr>fn_BLAKE2b := Some p\<rparr>])) = mset (p # node_hashes l)"
    using node_hashes_update [OF assms(1), of "(l ! t)\<lparr>fn_BLAKE2b := Some p\<rparr>"] assms(2)
    by (simp add: node_hash_def)
  from owned_perm [OF this] owned_alloc [OF assms(3,4)] show ?thesis by simp
qed

lemma owned_replace:
  assumes "t < length l" "node_hash new = []" "owned (node_hashes l) h"
  shows "\<exists>h'. free_opt (fn_BLAKE2b (l ! t)) h = Inr h' \<and> owned (node_hashes (l[t := new])) h'"
proof -
  have m: "mset (node_hashes (l[t := new])) + mset (node_hash (l ! t)) = mset (node_hashes l)"
    using node_hashes_update [OF assms(1), of new] assms(2) by simp
  show ?thesis
  proof (cases "fn_BLAKE2b (l ! t)")
    case None
    with m have "mset (node_hashes (l[t := new])) = mset (node_hashes l)" by (simp add: node_hash_def)
    from owned_perm [OF this, of h] assms(3) have "owned (node_hashes (l[t := new])) h"
      by (rule iffD2)
    with None show ?thesis by (simp add: free_opt_def)
  next
    case (Some p)
    with m have "mset (p # node_hashes (l[t := new])) = mset (node_hashes l)" by (simp add: node_hash_def)
    from owned_perm [OF this, of h] assms(3) have "owned (p # node_hashes (l[t := new])) h"
      by (rule iffD2)
    from owned_free [OF this] Some show ?thesis by (simp add: free_opt_def)
  qed
qed

lemma paths_update:
  assumes "t < length l" "path_of x = path_of (l ! t)"
  shows "map path_of (l[t := x]) = map path_of l"
  using assms by (intro nth_equalityI) (auto simp: nth_list_update)

definition placed :: "op_state \<Rightarrow> op_state \<Rightarrow> bool" where
  "placed w w1 \<longleftrightarrow> last_one w1 < length (shr_list w1) \<and> shr_list w1 ! last_one w1 = last (new_list w) \<and>
     list_all has_file (shr_list w1) \<and> distinct (map path_of (shr_list w1)) \<and>
     owned (node_hashes (shr_list w1)) (op_heap w1) \<and> new_list w1 = new_list w \<and>
     ck_file w1 = ck_file w \<and> op_fs w1 = op_fs w"

lemma file_take_new_placed:
  assumes wf: "op_wf w" and ne: "new_list w \<noteq> []"
  shows "\<exists>r w1. shared_index (last (new_list w)) w = Inr r \<and> place_new (last (new_list w)) r w = Inr w1 \<and> placed w w1"
proof -
  define new where "new = last (new_list w)"
  have new: "has_file new" "node_hash new = []"
    using wf ne by (auto simp: op_wf_def new_def list_all_iff node_hash_def)
  have "\<forall>fn\<in>set (shr_list w). r_bind (node_path new) (\<lambda>a. r_bind (node_path fn) (\<lambda>b. Inr (a = b)))
      = Inr (path_of new = path_of fn)"
    using wf new by (auto simp: op_wf_def list_all_iff node_path_has_file)
  from find_index_res_pure [OF this, of 0] obtain r where r: "shared_index new w = Inr r"
    and found: "case r of None \<Rightarrow> \<forall>fn\<in>set (shr_list w). path_of new \<noteq> path_of fn
      | Some t \<Rightarrow> 0 \<le> t \<and> t < 0 + length (shr_list w) \<and> path_of new = path_of (shr_list w ! (t - 0))"
    by (auto simp: shared_index_def)
  have "\<exists>w1. place_new new r w = Inr w1 \<and> placed w w1"
  proof (cases r)
    case None
    with found wf new show ?thesis
      by (force simp: place_new_def placed_def op_wf_def new_def [symmetric] nth_append)
  next
    case (Some t)
    with found have t: "t < length (shr_list w)" "path_of new = path_of (shr_list w ! t)" by simp_all
    from owned_replace [OF t(1) new(2)] wf obtain h' where
      "free_opt (fn_BLAKE2b (shr_list w ! t)) (op_heap w) = Inr h'"
      "owned (node_hashes ((shr_list w)[t := new])) h'" by (auto simp: op_wf_def)
    moreover have "list_all has_file ((shr_list w)[t := new])"
      using wf new(1) by (auto simp: op_wf_def list_all_iff dest!: set_update_subset_insert [THEN subsetD])
    ultimately show ?thesis using Some t(1) wf paths_update [OF t]
      by (simp add: place_new_def placed_def op_wf_def new_def [symmetric])
  qed
  with r show ?thesis by (auto simp: new_def)
qed

lemma file_take_new_wf:
  assumes wf: "op_wf w" and ne: "new_list w \<noteq> []"
  shows "\<exists>w'. file_take_new g w = Inr w' \<and> op_wf w' \<and> hashing w' = int (last_one w') \<and>
    new_list w' = butlast (new_list w) \<and> ck_file w' = ck_file w \<and> op_fs w' = op_fs w \<and>
    fn_file (shr_list w' ! last_one w') = fn_file (last (new_list w))"
proof -
  from file_take_new_placed [OF assms] obtain r w1 where r: "shared_index (last (new_list w)) w = Inr r"
    and w1: "place_new (last (new_list w)) r w = Inr w1" and pl: "placed w w1" by auto
  have l: "new_list w ! (length (new_list w) - 1) = last (new_list w)" using ne by (simp add: last_conv_nth)
  obtain p h where a: "alloc (map g [0..<TOX_FILE_ID_LENGTH]) (op_heap w1) = (p, h)" by fastforce
  define t where "t = last_one w1"
  define x where "x = (shr_list w1 ! t)\<lparr>fn_BLAKE2b := Some p\<rparr>"
  have t: "t < length (shr_list w1)" "shr_list w1 ! t = last (new_list w)" using pl by (auto simp: placed_def t_def)
  have new: "has_file (last (new_list w))" "node_hash (last (new_list w)) = []"
    using wf ne by (auto simp: op_wf_def list_all_iff node_hash_def)
  have step: "file_take_new g w = Inr (w1\<lparr>new_list := butlast (new_list w), op_heap := h,
      shr_list := (shr_list w1)[t := x], hashing := int t\<rparr>)"
    using r w1 a pl unfolding file_take_new_def Let_def l x_def t_def by (simp add: placed_def)
  have "owned (node_hashes ((shr_list w1)[t := x])) h"
    unfolding x_def using owned_set_hash [OF t(1) _ _ a] t(2) new(2) pl by (simp add: placed_def)
  moreover have "map path_of ((shr_list w1)[t := x]) = map path_of (shr_list w1)"
    using t(1) by (intro paths_update) (simp_all add: x_def path_of_def)
  moreover have "list_all has_file ((shr_list w1)[t := x])"
    using pl t new(1)
    by (auto simp: placed_def list_all_iff x_def has_file_def dest!: set_update_subset_insert [THEN subsetD])
  moreover have "last_one w1 = t" by (simp add: t_def)
  ultimately show ?thesis using step wf pl t
    by (auto simp: op_wf_def placed_def x_def list_all_iff dest: in_set_butlastD)
qed

lemma owned_store:
  assumes "owned ps h" "p \<in> set ps"
  shows "\<exists>h'. store_block p bs h = Inr h' \<and> owned ps h'"
  using assms by (cases "blk h p") (auto simp: owned_def store_block_def)

lemma node_hashes_mem: "t < length l \<Longrightarrow> fn_BLAKE2b (l ! t) = Some p \<Longrightarrow> p \<in> set (node_hashes l)"
  unfolding node_hashes_def node_hash_def by (force simp: in_set_conv_nth)

text \<open>What a call of the checksum function leaves alone.\<close>

definition same_lists :: "op_state \<Rightarrow> op_state \<Rightarrow> bool" where
  "same_lists w w' \<longleftrightarrow> shr_list w' = shr_list w \<and> new_list w' = new_list w \<and> op_fs w' = op_fs w \<and>
     hashing w' = hashing w \<and> last_one w' = last_one w"

lemma file_checksumcalc_owned:
  assumes "owned ps (op_heap w)" "p \<in> set ps"
  shows "\<exists>rc w'. file_checksumcalc_noblock sod g p path w = Inr (rc, w') \<and> owned ps (op_heap w') \<and>
    same_lists w w' \<and> (rc \<le> 0 \<longrightarrow> ck_file w' = None)"
proof (cases "case ck_file w of Some f \<Rightarrow> Some (f, ck_state w)
    | None \<Rightarrow> map_option (\<lambda>f. (f, [])) (fopen_read path (op_fs w))")
  case None
  then show ?thesis using assms
    by (cases "ck_file w") (auto simp: file_checksumcalc_noblock_def same_lists_def)
next
  case (Some x)
  obtain f state where x: "x = (f, state)" by fastforce
  from owned_store [OF assms] obtain h' where "store_block p (crypto_generichash sod state) (op_heap w) = Inr h'"
    "owned ps h'" by blast
  with Some x assms show ?thesis
    by (cases "fread_at f HASHING_BUFSIZE (op_fs w) = []")
      (simp_all add: file_checksumcalc_noblock_def same_lists_def Let_def)
qed

lemma file_hash_step_wf:
  assumes wf: "op_wf w" and h: "0 \<le> hashing w"
  shows "\<exists>rc w'. file_hash_step sod g w = Inr (rc, w') \<and> op_wf w'"
proof -
  from wf h have l: "last_one w < length (shr_list w)" "hashing w = int (last_one w)"
    "fn_BLAKE2b (shr_list w ! last_one w) \<noteq> None" "owned (node_hashes (shr_list w)) (op_heap w)"
    by (auto simp: op_wf_def)
  then obtain p where p: "fn_BLAKE2b (shr_list w ! last_one w) = Some p" by auto
  have "has_file (shr_list w ! last_one w)" using wf l(1) by (simp add: op_wf_def list_all_length)
  then have path: "node_path (shr_list w ! last_one w) = Inr (path_of (shr_list w ! last_one w))"
    by (rule node_path_has_file)
  from file_checksumcalc_owned [OF l(4) node_hashes_mem [OF l(1) p], of sod g "path_of (shr_list w ! last_one w)"]
  obtain rc w1 where ck: "file_checksumcalc_noblock sod g p (path_of (shr_list w ! last_one w)) w = Inr (rc, w1)"
    "owned (node_hashes (shr_list w)) (op_heap w1)" "same_lists w w1" "rc \<le> 0 \<longrightarrow> ck_file w1 = None" by blast
  show ?thesis using wf l ck path p
    by (cases "rc \<le> 0") (auto simp: file_hash_step_def Let_def op_wf_def same_lists_def)
qed

lemma file_do_wf:
  assumes wf: "op_wf w"
  shows "\<exists>rc w'. file_do sod g walk w = Inr (rc, w') \<and> op_wf w'"
proof -
  define walks where "walks \<longleftrightarrow> file_recheck w \<and> new_list w = [] \<and> hashing w = - 1"
  have "\<exists>w1. (if walks then r_bind (file_exists_shared w) (\<lambda>w. r_bind (file_walk_shared walk w) (\<lambda>(_, w). Inr w))
      else Inr w) = Inr w1 \<and> op_wf w1"
  proof (cases walks)
    case True
    from file_exists_shared_wf [OF wf] obtain w1 where "file_exists_shared w = Inr w1" "op_wf w1" by blast
    with True file_walk_shared_wf [of w1 walk] show ?thesis by auto
  qed (use wf in simp)
  then obtain w1 where 1: "(if walks then r_bind (file_exists_shared w) (\<lambda>w. r_bind (file_walk_shared walk w) (\<lambda>(_, w). Inr w))
      else Inr w) = Inr w1" "op_wf w1" by blast
  have "\<exists>w2. (if new_list w1 \<noteq> [] \<and> hashing w1 = - 1 then file_take_new g w1 else Inr w1) = Inr w2 \<and> op_wf w2"
    using 1(2) file_take_new_wf [OF 1(2), of g] by (cases "new_list w1 \<noteq> [] \<and> hashing w1 = - 1") auto
  then obtain w2 where 2: "(if new_list w1 \<noteq> [] \<and> hashing w1 = - 1 then file_take_new g w1 else Inr w1) = Inr w2"
    "op_wf w2" by blast
  have "file_do sod g walk w = (if 0 \<le> hashing w2 then file_hash_step sod g w2 else Inr (0, w2))"
    unfolding file_do_def walks_def [symmetric] 1(1) r_bind_Inr 2(1) ..
  with file_hash_step_wf [OF 2(2), of sod g] 2(2) show ?thesis by auto
qed

section \<open>What the incremental hash is\<close>

fun file_dos ::
  "sodium \<Rightarrow> (nat \<Rightarrow> char) \<Rightarrow> (string \<times> int \<times> int \<times> nat) list option \<Rightarrow> nat \<Rightarrow> op_state \<Rightarrow> op_state res" where
  "file_dos sod g walk 0 w = Inr w"
| "file_dos sod g walk (Suc n) w = r_bind (file_do sod g walk w) (\<lambda>(_, w). file_dos sod g walk n w)"

text \<open>The file cut into buffers, the last one filled up with what the stack holds.\<close>

function pad_blocks :: "(nat \<Rightarrow> char) \<Rightarrow> string \<Rightarrow> string" where
  "pad_blocks g d =
     (if d = [] then []
      else let b = take HASHING_BUFSIZE d in
           b @ map g [length b..<HASHING_BUFSIZE] @ pad_blocks g (drop HASHING_BUFSIZE d))"
  by pat_completeness auto
termination by (relation "measure (\<lambda>(g, d). length d)") auto

declare pad_blocks.simps [simp del]

function n_reads :: "nat \<Rightarrow> nat" where
  "n_reads n = (if n = 0 then 1 else Suc (n_reads (n - HASHING_BUFSIZE)))"
  by pat_completeness auto
termination by (relation "measure id") auto

declare n_reads.simps [simp del]

definition hashing_at :: "op_state \<Rightarrow> string \<Rightarrow> nat \<Rightarrow> nat \<Rightarrow> string \<Rightarrow> bool" where
  "hashing_at w path p pos state \<longleftrightarrow>
     hashing w = int (last_one w) \<and> last_one w < length (shr_list w) \<and>
     path_of (shr_list w ! last_one w) = path \<and> has_file (shr_list w ! last_one w) \<and>
     fn_BLAKE2b (shr_list w ! last_one w) = Some p \<and> blk (op_heap w) p \<noteq> None \<and>
     (case ck_file w of
        None \<Rightarrow> pos = 0 \<and> state = []
      | Some f \<Rightarrow> f = \<lparr>st_path = path, st_pos = pos, st_reads = True\<rparr> \<and> ck_state w = state)"

lemma file_do_hashing: "0 \<le> hashing w \<Longrightarrow> file_do sod g walk w = file_hash_step sod g w"
  by (simp add: file_do_def)

lemma hash_step_next:
  assumes h: "hashing_at w path p pos state" and f: "fs_data (op_fs w) path = Some d" "fs_readable (op_fs w) path"
  defines "b \<equiv> take HASHING_BUFSIZE (drop pos d)"
  shows "\<exists>w'. file_do sod g walk w = Inr (0, w') \<and> op_fs w' = op_fs w \<and> shr_list w' = shr_list w \<and>
    (if b \<noteq> [] then hashing_at w' path p (pos + length b) (state @ b @ map g [length b..<HASHING_BUFSIZE])
     else hashing w' = - 1 \<and> blk (op_heap w') p = Some (crypto_generichash sod state))"
proof -
  define s where "s = \<lparr>st_path = path, st_pos = pos, st_reads = True\<rparr>"
  have stream: "(case ck_file w of Some f \<Rightarrow> Some (f, ck_state w)
      | None \<Rightarrow> map_option (\<lambda>f. (f, [])) (fopen_read path (op_fs w))) = Some (s, state)"
    using h f by (auto simp: hashing_at_def fopen_read_def s_def split: option.splits)
  have data: "fread_at s HASHING_BUFSIZE (op_fs w) = b"
    using f by (simp add: fread_at_def s_def file_bytes_def b_def)
  have "st_pos s = pos" by (simp add: s_def)
  obtain old where old: "blk (op_heap w) p = Some old" using h by (auto simp: hashing_at_def)
  define w1 where "w1 = (if b \<noteq> []
    then w\<lparr>ck_file := Some (s\<lparr>st_pos := pos + length b\<rparr>), ck_state := state @ b @ map g [length b..<HASHING_BUFSIZE]\<rparr>
    else w\<lparr>op_heap := (op_heap w)\<lparr>blk := (blk (op_heap w))(p := Some (crypto_generichash sod state))\<rparr>,
           ck_file := None, ck_state := state\<rparr>)"
  have ck: "file_checksumcalc_noblock sod g p path w = Inr (int (length b), w1)"
    unfolding file_checksumcalc_noblock_def stream
    using \<open>st_pos s = pos\<close> by (simp add: data Let_def w1_def store_block_def old)
  have step: "file_do sod g walk w = file_hash_step sod g w"
    using h by (intro file_do_hashing) (simp add: hashing_at_def)
  have path: "node_path (shr_list w ! last_one w) = Inr path" "fn_BLAKE2b (shr_list w ! last_one w) = Some p"
    "last_one w < length (shr_list w)"
    using h by (auto simp: hashing_at_def node_path_has_file)
  show ?thesis
  proof (cases "b = []")
    case True
    then show ?thesis using path ck by (simp add: step file_hash_step_def Let_def w1_def)
  next
    case False
    then show ?thesis using path ck h
      by (simp add: step file_hash_step_def Let_def w1_def hashing_at_def s_def)
  qed
qed

lemma file_dos_hash:
  assumes "hashing_at w path p pos state" "fs_data (op_fs w) path = Some d" "fs_readable (op_fs w) path"
  shows "\<exists>w'. file_dos sod g walk (n_reads (length (drop pos d))) w = Inr w' \<and> hashing w' = - 1 \<and>
    shr_list w' = shr_list w \<and>
    blk (op_heap w') p = Some (crypto_generichash sod (state @ pad_blocks g (drop pos d)))"
  using assms
proof (induction "length (drop pos d)" arbitrary: w pos state rule: less_induct)
  case less
  define b where "b = take HASHING_BUFSIZE (drop pos d)"
  from hash_step_next [OF less.prems, of sod g walk] obtain w1 where w1: "file_do sod g walk w = Inr (0, w1)"
    "op_fs w1 = op_fs w" "shr_list w1 = shr_list w"
    "if b \<noteq> [] then hashing_at w1 path p (pos + length b) (state @ b @ map g [length b..<HASHING_BUFSIZE])
     else hashing w1 = - 1 \<and> blk (op_heap w1) p = Some (crypto_generichash sod state)"
    unfolding b_def by blast
  show ?case
  proof (cases "drop pos d = []")
    case True
    then have "n_reads (length (drop pos d)) = Suc 0" "pad_blocks g (drop pos d) = []" "b = []"
      by (simp_all add: n_reads.simps pad_blocks.simps b_def)
    with w1 show ?thesis by simp
  next
    case False
    then have b: "b \<noteq> []" "length b \<le> HASHING_BUFSIZE" "0 < length b" by (auto simp: b_def)
    have rest: "drop (pos + length b) d = drop HASHING_BUFSIZE (drop pos d)"
      by (cases "length (drop pos d) \<le> HASHING_BUFSIZE") (simp_all add: b_def add.commute)
    have "length (drop (pos + length b) d) < length (drop pos d)" using False unfolding rest by simp
    from less.hyps [OF this, of w1 "state @ b @ map g [length b..<HASHING_BUFSIZE]"] w1(2,4) b(1) less.prems(2,3)
    obtain w' where w': "file_dos sod g walk (n_reads (length (drop (pos + length b) d))) w1 = Inr w'"
      "hashing w' = - 1" "shr_list w' = shr_list w1"
      "blk (op_heap w') p = Some (crypto_generichash sod ((state @ b @ map g [length b..<HASHING_BUFSIZE]) @
          pad_blocks g (drop (pos + length b) d)))" by auto
    have "n_reads (length (drop pos d)) = Suc (n_reads (length (drop (pos + length b) d)))"
      using False unfolding rest by (subst n_reads.simps) (simp add: add.commute [of pos])
    moreover have "pad_blocks g (drop pos d) = b @ map g [length b..<HASHING_BUFSIZE] @ pad_blocks g (drop (pos + length b) d)"
      unfolding rest using False by (subst pad_blocks.simps) (simp add: Let_def b_def)
    ultimately show ?thesis using w1(1,3) w' by simp
  qed
qed

lemma n_reads_eq: "n_reads n = Suc ((n + 65535) div 65536)"
proof (induction n rule: n_reads.induct)
  case (1 n)
  show ?case
  proof (cases "n = 0")
    case False
    with 1 have "n_reads n = Suc (Suc ((n - 65536 + 65535) div 65536))" by (subst n_reads.simps) simp
    moreover have "Suc ((n - 65536 + 65535) div 65536) = (n + 65535) div 65536"
    proof (cases "65536 \<le> n")
      case True
      then obtain m where "n = 65536 + m" by (auto simp: le_iff_add)
      then show ?thesis by (simp add: add.assoc)
    next
      case small: False
      with False obtain m where "n = Suc m" "m < 65536" by (cases n) auto
      then have "n + 65535 = 65536 + m" "m div 65536 = 0" by simp_all
      then show ?thesis using small by simp
    qed
    ultimately show ?thesis by simp
  qed (simp add: n_reads.simps)
qed

lemma length_pad_blocks: "HASHING_BUFSIZE dvd length (pad_blocks g d)"
proof (induction g d rule: pad_blocks.induct)
  case (1 g d)
  show ?case
  proof (cases "d = []")
    case False
    with 1 have "HASHING_BUFSIZE dvd length (pad_blocks g (drop HASHING_BUFSIZE d))" by simp
    moreover have "length (pad_blocks g d) = HASHING_BUFSIZE + length (pad_blocks g (drop HASHING_BUFSIZE d))"
      using False by (subst pad_blocks.simps) (simp add: Let_def)
    ultimately show ?thesis by simp
  qed (simp add: pad_blocks.simps)
qed

lemma pad_blocks_id: "HASHING_BUFSIZE dvd length d \<Longrightarrow> pad_blocks g d = d"
proof (induction g d rule: pad_blocks.induct)
  case (1 g d)
  show ?case
  proof (cases "d = []")
    case False
    with 1(2) have le: "HASHING_BUFSIZE \<le> length d" by (simp add: dvd_imp_le)
    have "HASHING_BUFSIZE dvd length (drop HASHING_BUFSIZE d)" using 1(2) le by (simp add: dvd_diff_nat)
    with 1(1) False le have "pad_blocks g (drop HASHING_BUFSIZE d) = drop HASHING_BUFSIZE d" by simp
    with False le show ?thesis by (subst pad_blocks.simps) (simp add: Let_def min_def)
  qed (simp add: pad_blocks.simps)
qed

section \<open>Properties\<close>

text \<open>
  C12 (invariant): from a state of the form \<open>op_wf\<close>, in which every shared and every new node
  has a path, no path is shared twice, every shared hash block is allocated and has one owner,
  and the node being hashed exists, \<^verbatim>\<open>file_do\<close> returns whatever the directory
  holds and whichever files can be opened, without a fault, in a state of that form.
\<close>

theorem file_do_invariant:
  assumes "op_wf w"
  shows "\<exists>w'. file_dos sod g walk n w = Inr w' \<and> op_wf w' \<and> distinct (map path_of (shr_list w'))"
  using assms
proof (induction n arbitrary: w)
  case (Suc n)
  from file_do_wf [OF Suc.prems, of sod g walk] obtain rc w1 where
    "file_do sod g walk w = Inr (rc, w1)" "op_wf w1" by blast
  with Suc.IH [of w1] show ?case by simp
qed (simp add: op_wf_def)

definition op0 :: op_state where
  "op0 = \<lparr>op_fs = \<lparr>fs_data = (\<lambda>p. if p = ''/up/a'' then Some ''abcde'' else None),
       fs_readable = (\<lambda>_. True), fs_writable = (\<lambda>_. True)\<rparr>,
     op_heap = \<lparr>blk = (\<lambda>p. None), brk = 0\<rparr>, shr_list = [], new_list = [], file_recheck = True,
     file_new_c = False, notified = [], hashing = - 1, last_one = 0, ck_file = None, ck_state = []\<rparr>"

theorem file_do_invariant_witness:
  "\<exists>w'. file_dos sample_sodium (\<lambda>_. NUL) (Some [(''/up/a'', 1, 5, 0)]) 3 op0 = Inr w' \<and> op_wf w'"
  using file_do_invariant [of op0 sample_sodium "\<lambda>_. NUL" "Some [(''/up/a'', 1, 5, 0)]" 3]
  by (auto simp: op0_def op_wf_def owned_def)

text \<open>
  C13 (functional): once a readable file of \<open>n\<close> bytes is taken up, \<open>\<lceil>n / 65536\<rceil> + 1\<close> calls hash
  it and no other happen in between. The stored hash is not that of the file but that of its
  buffers, the last of which is filled up with what the stack held; it is the file's only when
  the length is a multiple of 65536.
\<close>

theorem incremental_hash_value:
  assumes "hashing_at w path p 0 []" and "fs_data (op_fs w) path = Some d" and "fs_readable (op_fs w) path"
  shows "\<exists>w'. file_dos sod g walk ((length d + 65535) div 65536 + 1) w = Inr w' \<and> hashing w' = - 1 \<and>
      shr_list w' = shr_list w \<and>
      blk (op_heap w') p = Some (crypto_generichash sod (pad_blocks g d)) \<and>
      (pad_blocks g d = d \<longleftrightarrow> HASHING_BUFSIZE dvd length d)"
  using file_dos_hash [OF assms, of sod g walk] pad_blocks_id [of d g] length_pad_blocks [of g d]
  by (auto simp: n_reads_eq)

definition op1 :: op_state where
  "op1 = op0\<lparr>op_heap := \<lparr>blk = (\<lambda>p. if p = 0 then Some [] else None), brk = 1\<rparr>, hashing := 0,
     shr_list := [\<lparr>fn_file = Some ''/up/a'', fn_BLAKE2b = Some 0, fn_mtime = 1, fn_length = 5, fn_exists = True\<rparr>]\<rparr>"

theorem incremental_hash_value_witness:
  "\<exists>w'. file_dos sample_sodium (\<lambda>_. CHR ''x'') None 2 op1 = Inr w' \<and> hashing w' = - 1 \<and>
    blk (op_heap w') 0 = Some (pad32 (pad_blocks (\<lambda>_. CHR ''x'') ''abcde''))"
proof -
  have "cstr ''/up/a'' = ''/up/a''" by code_simp
  then have "hashing_at op1 ''/up/a'' 0 0 []"
    by (simp add: hashing_at_def op1_def op0_def path_of_def has_file_def)
  from incremental_hash_value [OF this, of "''abcde''" sample_sodium "\<lambda>_. CHR ''x''" None] show ?thesis
    by (auto simp: op1_def op0_def sample_sodium_def numeral_2_eq_2)
qed

end
