(* ===== verification/Tsfiles.thy ===== *)
theory Tsfiles
  imports Bencode_Encode Friend File_Queue
begin

text \<open>
  \<^verbatim>\<open>src/tsfiles.c\<close>: the queue of transfers and the list of shared files as
  bencoded files, and what happens to the loaded transfers when a friend comes online. A
  union member that was not the one written is the fault \<open>TypeConfusion\<close>: the code looks at
  the type of a node in one place only.
\<close>

section \<open>A file as a dictionary\<close>

definition hash_bytes :: "nat option \<Rightarrow> heap \<Rightarrow> string res" where
  "hash_bytes p h = (case p of None \<Rightarrow> Inl NullDeref | Some q \<Rightarrow> load_block q h)"

definition encode_FileNode :: "be_node \<Rightarrow> file_node \<Rightarrow> heap \<Rightarrow> be_node res" where
  "encode_FileNode info fn h =
     (case fn_file fn of
        None \<Rightarrow> Inl NullDeref
      | Some file \<Rightarrow>
          r_bind (be_create_str_wlen (cstr file) (length (cstr file))) (\<lambda>name.
          let len = be_create_int (fn_length fn) in
          r_bind (hash_bytes (fn_BLAKE2b fn) h) (\<lambda>blake.
          r_bind (be_create_str_wlen blake TOX_FILE_ID_LENGTH) (\<lambda>hash.
            let (info, _) = be_add_keypair info ''name'' name;
                (info, _) = be_add_keypair info ''length'' len;
                (info, _) = be_add_keypair info ''hash'' hash in
            Inr info))))"

text \<open>The three members of the union, and a string as the memory it is in.\<close>

definition val_s :: "be_node \<Rightarrow> string option res" where
  "val_s v = (case v of BE_STR s \<Rightarrow> Inr s | _ \<Rightarrow> Inl TypeConfusion)"

definition val_i :: "be_node \<Rightarrow> int res" where
  "val_i v = (case v of BE_INT i \<Rightarrow> Inr i | _ \<Rightarrow> Inl TypeConfusion)"

definition val_l :: "be_node \<Rightarrow> be_node list res" where
  "val_l v = (case v of BE_LIST l \<Rightarrow> Inr l | _ \<Rightarrow> Inl TypeConfusion)"

definition val_d :: "be_node \<Rightarrow> (string \<times> be_node) list res" where
  "val_d v = (case v of BE_DICT d \<Rightarrow> Inr d | _ \<Rightarrow> Inl TypeConfusion)"

definition deref :: "string option \<Rightarrow> string res" where
  "deref s = (case s of None \<Rightarrow> Inl NullDeref | Some b \<Rightarrow> Inr (b @ [NUL]))"

fun decode_pairs :: "file_node \<Rightarrow> (string \<times> be_node) list \<Rightarrow> heap \<Rightarrow> (file_node \<times> heap) res" where
  "decode_pairs f [] h = Inr (f, h)"
| "decode_pairs f ((key, v) # d) h =
     (if cstr key = ''name'' then
        r_bind (val_s v) (\<lambda>s. r_bind (deref s) (\<lambda>b.
          decode_pairs (f\<lparr>fn_file := Some (cstr b)\<rparr>) d h))
      else if cstr key = ''length'' then
        r_bind (val_i v) (\<lambda>i. decode_pairs (f\<lparr>fn_length := i\<rparr>) d h)
      else if cstr key = ''hash'' then
        r_bind (val_s v) (\<lambda>s. r_bind (deref s) (\<lambda>b.
          if length b < TOX_FILE_ID_LENGTH then Inl OutOfBounds
          else let (p, h) = alloc (take TOX_FILE_ID_LENGTH b) h in
               decode_pairs (f\<lparr>fn_BLAKE2b := Some p\<rparr>) d h))
      else decode_pairs f d h)"

definition decode_FileNode :: "file_node \<Rightarrow> be_node \<Rightarrow> heap \<Rightarrow> (file_node \<times> heap) res" where
  "decode_FileNode f info h = r_bind (val_d info) (\<lambda>d. decode_pairs f d h)"

section \<open>Files of nodes\<close>

definition be_node_loadfile :: "string \<Rightarrow> fs \<Rightarrow> be_node option res" where
  "be_node_loadfile filename files =
     (case fopen_read filename files of
        None \<Rightarrow> Inr None
      | Some s \<Rightarrow>
          (let msg = fread_at s (length (file_bytes filename files)) files in
           if msg = [] then Inr None else be_decoden msg (int (length msg))))"

text \<open>
  The nodes of the file are decoded into a list that is local to the function: the shared list
  stays what it was. If it is not empty, its array has been reallocated and the module keeps a
  pointer to the freed one, which is the fault \<open>UseAfterFree\<close>. The fields that a dictionary
  does not have stay as \<^verbatim>\<open>malloc\<close> left them: \<open>g n\<close> is the fresh node that has
  \<open>n\<close> others after it.
\<close>

fun decode_nodes :: "(nat \<Rightarrow> file_node) \<Rightarrow> be_node list \<Rightarrow> heap \<Rightarrow> (file_node list \<times> heap) res" where
  "decode_nodes g [] h = Inr ([], h)"
| "decode_nodes g (v # vs) h =
     r_bind (decode_FileNode (g (length vs)) v h) (\<lambda>(fn, h).
     r_bind (decode_nodes g vs h) (\<lambda>(fns, h). Inr (fn # fns, h)))"

definition load_shrlist ::
  "(nat \<Rightarrow> file_node) \<Rightarrow> string \<Rightarrow> fs \<Rightarrow> file_node list \<Rightarrow> heap \<Rightarrow> (int \<times> file_node list \<times> heap) res" where
  "load_shrlist g filename files shr h =
     r_bind (be_node_loadfile filename files) (\<lambda>root.
       case root of
         None \<Rightarrow> Inr (- 1, shr, h)
       | Some root \<Rightarrow>
           r_bind (val_l root) (\<lambda>l.
           r_bind (decode_nodes g l h) (\<lambda>(local_list, h).
             if shr \<noteq> [] \<and> l \<noteq> [] then Inl UseAfterFree else Inr (0, shr, h))))"

definition new_dict :: "be_node res" where
  "new_dict = r_bind be_create_dict (\<lambda>d. case d of None \<Rightarrow> Inl NullDeref | Some d \<Rightarrow> Inr d)"

definition new_list_node :: "be_node res" where
  "new_list_node = r_bind be_create_list (\<lambda>d. case d of None \<Rightarrow> Inl NullDeref | Some d \<Rightarrow> Inr d)"

fun shrlist_node :: "be_node \<Rightarrow> file_node list \<Rightarrow> heap \<Rightarrow> be_node res" where
  "shrlist_node root [] h = Inr root"
| "shrlist_node root (fn # fns) h =
     r_bind new_dict (\<lambda>info. r_bind (encode_FileNode info fn h) (\<lambda>info.
       shrlist_node (fst (be_add_list root info)) fns h))"

definition dump_shrlist :: "(nat \<Rightarrow> string) \<Rightarrow> string \<Rightarrow> file_node list \<Rightarrow> heap \<Rightarrow> fs \<Rightarrow> fs res" where
  "dump_shrlist g filename shrlist h files =
     r_bind new_list_node (\<lambda>root. r_bind (shrlist_node root shrlist h) (\<lambda>root.
     r_bind (be_encode_alloc g root) (\<lambda>(msg, blen).
       if blen > 2 then
         (case fopen_write filename files of
            None \<Rightarrow> Inr files
          | Some (s, files) \<Rightarrow> Inr (append_bytes filename msg files))
       else Inr files)))"

section \<open>The queue of senders\<close>

text \<open>
  The loop leaves at the first sender without a path or whose friend is not known, with what
  it has collected so far.
\<close>

definition encode_sender :: "be_node \<Rightarrow> string \<Rightarrow> friend_info \<Rightarrow> file_sender \<Rightarrow> heap \<Rightarrow> be_node res" where
  "encode_sender filesend pathname fr f h =
     r_bind (fget tox_id_bin fr) (\<lambda>key.
     r_bind (be_create_str_wlen key TOX_PUBLIC_KEY_SIZE) (\<lambda>toxid.
     r_bind (be_create_str_wlen (cstr pathname) (length (cstr pathname))) (\<lambda>path.
     r_bind new_dict (\<lambda>info. r_bind (encode_FileNode info (s_info f) h) (\<lambda>info.
       let (filesend, _) = be_add_keypair filesend ''toxid'' toxid;
           (filesend, _) = be_add_keypair filesend ''path'' path;
           (filesend, _) = be_add_keypair filesend ''info'' info in
       Inr filesend)))))"

fun senders_node :: "be_node \<Rightarrow> friend_info list \<Rightarrow> file_sender list \<Rightarrow> heap \<Rightarrow> be_node res" where
  "senders_node root friends [] h = Inr root"
| "senders_node root friends (f # q) h =
     (case s_pathname f of
        None \<Rightarrow> Inr root
      | Some pathname \<Rightarrow>
          (case friend_info_by_friend_number friends (s_friend_number f) of
             None \<Rightarrow> Inr root
           | Some fr \<Rightarrow>
               r_bind new_dict (\<lambda>filesend. r_bind (encode_sender filesend pathname fr f h) (\<lambda>filesend.
                 senders_node (fst (be_add_list root filesend)) friends q h))))"

definition savesender_filename :: string where
  "savesender_filename = ''savesender.dat''"

definition save_senders ::
  "(nat \<Rightarrow> string) \<Rightarrow> file_sender list \<Rightarrow> friend_info list \<Rightarrow> heap \<Rightarrow> fs \<Rightarrow> (int \<times> fs) res" where
  "save_senders g q friends h files =
     r_bind new_list_node (\<lambda>root. r_bind (senders_node root friends q h) (\<lambda>root.
     r_bind (be_encode_alloc g root) (\<lambda>(msg, blen).
       if blen > 2 then
         (case fopen_write savesender_filename files of
            None \<Rightarrow> Inr (- 1, files)
          | Some (s, files) \<Rightarrow> Inr (0, append_bytes savesender_filename msg files))
       else Inr (0, unlink savesender_filename files))))"

text \<open>
  The fields of one dictionary go into the new sender \<open>f\<close>; when its friend is not known the
  sender is destroyed and the rest of the dictionary left.
\<close>

fun load_fields ::
  "friend_info list \<Rightarrow> (string \<times> be_node) list \<Rightarrow> file_sender \<Rightarrow> heap \<Rightarrow> (file_sender option \<times> heap) res" where
  "load_fields friends [] f h = Inr (Some f, h)"
| "load_fields friends ((key, v) # d) f h =
     (if cstr key = ''toxid'' then
        r_bind (val_s v) (\<lambda>s.
        r_bind (if friends = [] then Inr None
                else r_bind (deref s) (friend_info_by_public_keybin friends)) (\<lambda>fr.
          case fr of
            None \<Rightarrow> r_bind (FileSender_release f h) (\<lambda>h. Inr (None, h))
          | Some fr \<Rightarrow> load_fields friends d (f\<lparr>s_friend_number := friend_number fr\<rparr>) h))
      else if cstr key = ''path'' then
        r_bind (val_s v) (\<lambda>s. r_bind (deref s) (\<lambda>b.
          load_fields friends d (f\<lparr>s_pathname := Some (cstr b)\<rparr>) h))
      else if cstr key = ''info'' then
        r_bind (decode_FileNode (s_info f) v h) (\<lambda>(fn, h). load_fields friends d (f\<lparr>s_info := fn\<rparr>) h)
      else load_fields friends d f h)"

fun load_nodes ::
  "friend_info list \<Rightarrow> be_node list \<Rightarrow> file_sender list \<Rightarrow> heap \<Rightarrow> (file_sender list \<times> heap) res" where
  "load_nodes friends [] q h = Inr (q, h)"
| "load_nodes friends (v # vs) q h =
     (case v of
        BE_DICT d \<Rightarrow>
          r_bind (load_fields friends d file_sender_zero h) (\<lambda>(f, h).
            load_nodes friends vs (case f of None \<Rightarrow> q | Some f \<Rightarrow> f # q) h)
      | _ \<Rightarrow> Inr (q, h))"

definition load_senders ::
  "file_sender list \<Rightarrow> friend_info list \<Rightarrow> heap \<Rightarrow> fs \<Rightarrow> (int \<times> file_sender list \<times> heap) res" where
  "load_senders q friends h files =
     r_bind (be_node_loadfile savesender_filename files) (\<lambda>root.
       case root of
         None \<Rightarrow> Inr (- 1, q, h)
       | Some root \<Rightarrow>
           r_bind (val_l root) (\<lambda>l. r_bind (load_nodes friends l q h) (\<lambda>(q, h). Inr (0, q, h))))"

section \<open>Resuming\<close>

fun resume_send ::
  "'t toxcore \<Rightarrow> (nat \<Rightarrow> char) \<Rightarrow> u32 \<Rightarrow> file_sender list \<Rightarrow> 't fstate \<Rightarrow> (file_sender list \<times> 't fstate) res" where
  "resume_send api g n [] w = Inr ([], w)"
| "resume_send api g n (f # loaded) w =
     (if s_friend_number f \<noteq> n then Inr (f # loaded, w)
      else r_bind (add_filesender api g f w) (\<lambda>(_, f, w).
             resume_send api g n loaded (w\<lparr>w_senders := f # w_senders w\<rparr>)))"

definition friend_connection_status_cb ::
  "'t toxcore \<Rightarrow> (nat \<Rightarrow> char) \<Rightarrow> u32 \<Rightarrow> u32 \<Rightarrow> friend_info list \<Rightarrow> file_sender list \<Rightarrow> 't fstate \<Rightarrow>
   (friend_info list \<times> file_sender list \<times> 't fstate) res" where
  "friend_connection_status_cb api g n cs friends loaded w =
     r_bind (update_first (\<lambda>f. friend_number f = n) (\<lambda>f. Inr (f\<lparr>connection_status := Some cs\<rparr>)) friends) (\<lambda>friends.
       if cs = TOX_CONNECTION_TCP \<or> cs = TOX_CONNECTION_UDP then
         r_bind (resume_send api g n loaded w) (\<lambda>(loaded, w). Inr (friends, loaded, w))
       else Inr (friends, loaded, w))"

end
