(* ===== verification/Tsfiles_Roundtrip.thy ===== *)
theory Tsfiles_Roundtrip
  imports Tsfiles Friend_Registry File_Transfer
begin

text \<open>
  What is saved is what is loaded. The interface \<open>node_codec\<close> states what it takes for
  objects to survive being written as nodes and read back into another store; shared files
  and senders interpret it, and the two pairs of functions that save and load them rest on its
  lemma for lists.
\<close>

section \<open>Growing stores\<close>

definition heap_ok :: "heap \<Rightarrow> bool" where
  "heap_ok h \<longleftrightarrow> (\<forall>p. blk h p \<noteq> None \<longrightarrow> p < brk h)"

definition grows :: "heap \<Rightarrow> heap \<Rightarrow> bool" where
  "grows h h' \<longleftrightarrow> heap_ok h' \<and> brk h \<le> brk h' \<and> (\<forall>p b. blk h p = Some b \<longrightarrow> blk h' p = Some b)"

lemma grows_refl: "heap_ok h \<Longrightarrow> grows h h"
  by (simp add: grows_def)

lemma grows_trans: "grows h1 h2 \<Longrightarrow> grows h2 h3 \<Longrightarrow> grows h1 h3"
  by (auto simp: grows_def)

lemma grows_ok: "grows h h' \<Longrightarrow> heap_ok h'"
  by (simp add: grows_def)

lemma alloc_grows:
  assumes "heap_ok h" "alloc bs h = (p, h')"
  shows "grows h h' \<and> blk h' p = Some bs"
  using assms by (fastforce simp: alloc_def grows_def heap_ok_def)

section \<open>The interface\<close>

text \<open>
  Decoding a list of nodes one after the other, into an object that may depend on how many
  nodes are left.
\<close>

fun dec_all :: "(nat \<Rightarrow> be_node \<Rightarrow> heap \<Rightarrow> ('b \<times> heap) res) \<Rightarrow> be_node list \<Rightarrow> heap \<Rightarrow> ('b list \<times> heap) res" where
  "dec_all dec [] h = Inr ([], h)"
| "dec_all dec (v # vs) h =
     r_bind (dec (length vs) v h) (\<lambda>(y, h). r_bind (dec_all dec vs h) (\<lambda>(ys, h). Inr (y # ys, h)))"

locale node_codec =
  fixes enc :: "'a \<Rightarrow> heap \<Rightarrow> be_node res"
    and dec :: "nat \<Rightarrow> be_node \<Rightarrow> heap \<Rightarrow> ('b \<times> heap) res"
    and ok :: "'a \<Rightarrow> heap \<Rightarrow> bool"
    and same :: "'a \<Rightarrow> heap \<Rightarrow> 'b \<Rightarrow> heap \<Rightarrow> bool"
  assumes enc_ok: "ok x h \<Longrightarrow> \<exists>v. enc x h = Inr v \<and> wf_node v"
    and dec_enc: "ok x h \<Longrightarrow> enc x h = Inr v \<Longrightarrow> heap_ok h2 \<Longrightarrow>
      \<exists>y h3. dec i v h2 = Inr (y, h3) \<and> grows h2 h3 \<and> same x h y h3"
    and same_grows: "same x h y h3 \<Longrightarrow> grows h3 h4 \<Longrightarrow> same x h y h4"
begin

lemma enc_list:
  "list_all (\<lambda>x. ok x h) xs \<Longrightarrow> \<exists>vs. those_res (map (\<lambda>x. enc x h) xs) = Inr vs \<and> wf_list vs"
proof (induction xs)
  case (Cons x xs)
  then show ?case using enc_ok [of x h] by auto
qed simp

lemma dec_list:
  assumes "list_all (\<lambda>x. ok x h) xs" "those_res (map (\<lambda>x. enc x h) xs) = Inr vs" "heap_ok h2"
  shows "\<exists>ys h3. dec_all dec vs h2 = Inr (ys, h3) \<and> grows h2 h3 \<and> list_all2 (\<lambda>x y. same x h y h3) xs ys"
  using assms
proof (induction xs arbitrary: vs h2)
  case Nil
  then show ?case using grows_refl by auto
next
  case (Cons x xs)
  then obtain v vs' where vs: "vs = v # vs'" "enc x h = Inr v"
    "those_res (map (\<lambda>x. enc x h) xs) = Inr vs'" by (auto simp: r_bind_eq_Inr)
  from dec_enc [of x h v h2 "length vs'"] Cons.prems vs obtain y h3 where
    y: "dec (length vs') v h2 = Inr (y, h3)" "grows h2 h3" "same x h y h3" by auto
  from Cons.IH [OF _ vs(3) grows_ok [OF y(2)]] Cons.prems(1) obtain ys h4 where
    ys: "dec_all dec vs' h3 = Inr (ys, h4)" "grows h3 h4" "list_all2 (\<lambda>x y. same x h y h4) xs ys" by auto
  have "grows h2 h4" using y(2) ys(2) by (rule grows_trans)
  moreover have "same x h y h4" using y(3) ys(2) by (rule same_grows)
  ultimately show ?case using vs y ys by auto
qed

end

section \<open>Shared files\<close>

definition node_ok :: "file_node \<Rightarrow> heap \<Rightarrow> bool" where
  "node_ok fn h \<longleftrightarrow> (\<exists>f p b. fn_file fn = Some f \<and> int (length (cstr f)) < 2 ^ 63 \<and> in_i64 (fn_length fn) \<and>
     fn_BLAKE2b fn = Some p \<and> blk h p = Some b \<and> TOX_FILE_ID_LENGTH \<le> length b)"

text \<open>The same name, length and hash; the other fields are not saved.\<close>

definition node_same :: "file_node \<Rightarrow> heap \<Rightarrow> file_node \<Rightarrow> heap \<Rightarrow> bool" where
  "node_same fn h fn' h' \<longleftrightarrow> fn_file fn' = map_option cstr (fn_file fn) \<and> fn_length fn' = fn_length fn \<and>
     (\<exists>p q b. fn_BLAKE2b fn = Some p \<and> blk h p = Some b \<and> fn_BLAKE2b fn' = Some q \<and>
        blk h' q = Some (take TOX_FILE_ID_LENGTH b))"

definition encode_info :: "file_node \<Rightarrow> heap \<Rightarrow> be_node res" where
  "encode_info fn h = r_bind new_dict (\<lambda>info. encode_FileNode info fn h)"

lemma new_dict: "new_dict = Inr (BE_DICT [])"
  by code_simp

lemma new_list_node: "new_list_node = Inr (BE_LIST [])"
  by code_simp

lemma cstr_keys [simp]: "cstr ''name'' = ''name''" "cstr ''length'' = ''length''" "cstr ''hash'' = ''hash''"
  "cstr ''toxid'' = ''toxid''" "cstr ''path'' = ''path''" "cstr ''info'' = ''info''"
  by (simp_all add: cstr_def)

lemma encode_info_ok:
  assumes "fn_file fn = Some f" "fn_BLAKE2b fn = Some p" "blk h p = Some b" "TOX_FILE_ID_LENGTH \<le> length b"
  shows "encode_info fn h = Inr (BE_DICT [(''name'', BE_STR (Some (cstr f))), (''length'', BE_INT (fn_length fn)),
    (''hash'', BE_STR (Some (take TOX_FILE_ID_LENGTH b)))])"
  using assms
  by (simp add: encode_info_def new_dict encode_FileNode_def be_create_str_wlen_def hash_bytes_def
      load_block_def be_create_int_def be_add_keypair_def)

lemma decode_info_ok:
  assumes "length b = TOX_FILE_ID_LENGTH" "no_nul f" "heap_ok h"
  shows "\<exists>fn h'. decode_FileNode fn0 (BE_DICT [(''name'', BE_STR (Some f)), (''length'', BE_INT i),
      (''hash'', BE_STR (Some b))]) h = Inr (fn, h') \<and> grows h h' \<and>
    fn_file fn = Some f \<and> fn_length fn = i \<and> (\<exists>q. fn_BLAKE2b fn = Some q \<and> blk h' q = Some b)"
proof -
  obtain q h' where a: "alloc b h = (q, h')" by fastforce
  from alloc_grows [OF assms(3) a] a assms(1,2) show ?thesis
    by (simp add: decode_FileNode_def val_d_def val_s_def val_i_def deref_def)
qed

interpretation fnode: node_codec encode_info "\<lambda>i. decode_FileNode (g i)" node_ok node_same for g
proof unfold_locales
  fix x h
  assume "node_ok x h"
  then show "\<exists>v. encode_info x h = Inr v \<and> wf_node v"
    by (auto simp: node_ok_def encode_info_ok)
next
  fix x h v h2 i
  assume ok: "node_ok x h" and v: "encode_info x h = Inr v" and h2: "heap_ok h2"
  from ok obtain f p b where o: "fn_file x = Some f" "fn_BLAKE2b x = Some p" "blk h p = Some b"
    "TOX_FILE_ID_LENGTH \<le> length b" by (auto simp: node_ok_def)
  have "length (take TOX_FILE_ID_LENGTH b) = TOX_FILE_ID_LENGTH" using o(4) by simp
  from decode_info_ok [OF this no_nul_cstr h2, of "g i" f "fn_length x"] v o
  show "\<exists>y h3. decode_FileNode (g i) v h2 = Inr (y, h3) \<and> grows h2 h3 \<and> node_same x h y h3"
    by (auto simp: encode_info_ok [OF o] node_same_def)
next
  fix x h y h3 h4
  assume "node_same x h y h3" "grows h3 h4"
  then show "node_same x h y h4" by (auto simp: node_same_def grows_def)
qed

section \<open>Senders\<close>

text \<open>The friends have been refreshed: their keys are there, of the right length, and differ.\<close>

definition keys_ok :: "friend_info list \<Rightarrow> bool" where
  "keys_ok friends \<longleftrightarrow> registry_ok friends \<and> distinct (map tox_id_bin friends) \<and>
     (\<forall>f\<in>set friends. \<exists>key. tox_id_bin f = Some key \<and> length key = TOX_PUBLIC_KEY_SIZE)"

definition sender_ok :: "friend_info list \<Rightarrow> file_sender \<Rightarrow> heap \<Rightarrow> bool" where
  "sender_ok friends f h \<longleftrightarrow> keys_ok friends \<and>
     (\<exists>path. s_pathname f = Some path \<and> int (length (cstr path)) < 2 ^ 63) \<and>
     friend_info_by_friend_number friends (s_friend_number f) \<noteq> None \<and> node_ok (s_info f) h"

definition sender_same :: "file_sender \<Rightarrow> heap \<Rightarrow> file_sender \<Rightarrow> heap \<Rightarrow> bool" where
  "sender_same f h f' h' \<longleftrightarrow> s_friend_number f' = s_friend_number f \<and>
     s_pathname f' = map_option cstr (s_pathname f) \<and> s_file f' = None \<and> s_file_number f' = 0 \<and>
     node_same (s_info f) h (s_info f') h'"

definition enc_sender :: "friend_info list \<Rightarrow> file_sender \<Rightarrow> heap \<Rightarrow> be_node res" where
  "enc_sender friends f h =
     (case (s_pathname f, friend_info_by_friend_number friends (s_friend_number f)) of
        (Some pathname, Some fr) \<Rightarrow> r_bind new_dict (\<lambda>d. encode_sender d pathname fr f h)
      | _ \<Rightarrow> Inl NullDeref)"

definition dec_sender :: "friend_info list \<Rightarrow> be_node \<Rightarrow> heap \<Rightarrow> (file_sender \<times> heap) res" where
  "dec_sender friends v h =
     r_bind (val_d v) (\<lambda>d. r_bind (load_fields friends d file_sender_zero h) (\<lambda>(f, h).
       case f of None \<Rightarrow> Inl NullDeref | Some f \<Rightarrow> Inr (f, h)))"

lemma by_number_member:
  "friend_info_by_friend_number friends n = Some fr \<Longrightarrow> fr \<in> set friends \<and> friend_number fr = n"
  by (auto simp: friend_info_by_friend_number_def find_Some_iff)

lemma find_unique:
  "fr \<in> set xs \<Longrightarrow> P fr \<Longrightarrow> \<forall>x\<in>set xs. P x \<longrightarrow> x = fr \<Longrightarrow> List.find P xs = Some fr"
proof (induction xs)
  case (Cons x xs)
  show ?case
  proof (cases "P x")
    case True
    with Cons.prems(3) have "x = fr" by simp
    with True show ?thesis by simp
  next
    case False
    with Cons.prems(1,2) have "fr \<in> set xs" by auto
    moreover have "\<forall>y\<in>set xs. P y \<longrightarrow> y = fr" using Cons.prems(3) by (meson list.set_intros(2))
    ultimately have "List.find P xs = Some fr" using Cons.IH Cons.prems(2) by blast
    with False show ?thesis by simp
  qed
qed simp

lemma by_keybin_ok:
  assumes "keys_ok friends" "fr \<in> set friends" "tox_id_bin fr = Some key"
  shows "friend_info_by_public_keybin friends (key @ rest) = Inr (Some fr)"
proof -
  have len: "length key = TOX_PUBLIC_KEY_SIZE" using assms by (auto simp: keys_ok_def)
  have "\<forall>f\<in>set friends. r_bind (fget tox_id_bin f) (\<lambda>b.
       if length (key @ rest) < TOX_PUBLIC_KEY_SIZE then Inl OutOfBounds
       else Inr (take TOX_PUBLIC_KEY_SIZE b = take TOX_PUBLIC_KEY_SIZE (key @ rest)))
     = Inr (tox_id_bin f = Some key)"
  proof
    fix f
    assume "f \<in> set friends"
    then obtain k where k: "tox_id_bin f = Some k" "length k = TOX_PUBLIC_KEY_SIZE"
      using assms(1) by (auto simp: keys_ok_def)
    with len show "r_bind (fget tox_id_bin f) (\<lambda>b.
       if length (key @ rest) < TOX_PUBLIC_KEY_SIZE then Inl OutOfBounds
       else Inr (take TOX_PUBLIC_KEY_SIZE b = take TOX_PUBLIC_KEY_SIZE (key @ rest)))
     = Inr (tox_id_bin f = Some key)" by simp
  qed
  from find_res_pure [OF this] have "friend_info_by_public_keybin friends (key @ rest) =
      Inr (List.find (\<lambda>f. tox_id_bin f = Some key) friends)"
    by (simp only: friend_info_by_public_keybin_def)
  moreover have "inj_on tox_id_bin (set friends)" using assms(1) by (simp add: keys_ok_def distinct_map)
  then have "\<forall>f\<in>set friends. tox_id_bin f = Some key \<longrightarrow> f = fr"
    using assms(2,3) by (auto simp: inj_on_def)
  then have "List.find (\<lambda>f. tox_id_bin f = Some key) friends = Some fr"
    using assms(2,3) by (intro find_unique)
  ultimately show ?thesis by simp
qed

lemma enc_sender_ok:
  assumes "sender_ok friends f h"
  shows "\<exists>path fr key info. s_pathname f = Some path \<and> fr \<in> set friends \<and> friend_number fr = s_friend_number f \<and>
    tox_id_bin fr = Some key \<and> length key = TOX_PUBLIC_KEY_SIZE \<and> int (length (cstr path)) < 2 ^ 63 \<and>
    encode_info (s_info f) h = Inr info \<and> wf_node info \<and>
    enc_sender friends f h = Inr (BE_DICT [(''toxid'', BE_STR (Some key)),
      (''path'', BE_STR (Some (cstr path))), (''info'', info)])"
proof -
  from assms obtain path fr where 1: "s_pathname f = Some path" "int (length (cstr path)) < 2 ^ 63"
    "friend_info_by_friend_number friends (s_friend_number f) = Some fr" "node_ok (s_info f) h"
    by (auto simp: sender_ok_def)
  from by_number_member [OF 1(3)] assms obtain key where 2: "fr \<in> set friends"
    "friend_number fr = s_friend_number f" "tox_id_bin fr = Some key" "length key = TOX_PUBLIC_KEY_SIZE"
    by (auto simp: keys_ok_def sender_ok_def)
  from fnode.enc_ok [OF 1(4)] obtain info where 3: "encode_info (s_info f) h = Inr info" "wf_node info" by blast
  have "encode_FileNode (BE_DICT []) (s_info f) h = Inr info" using 3(1) by (simp add: encode_info_def new_dict)
  with 1 2 have "enc_sender friends f h = Inr (BE_DICT [(''toxid'', BE_STR (Some key)),
      (''path'', BE_STR (Some (cstr path))), (''info'', info)])"
    by (simp add: enc_sender_def encode_sender_def new_dict be_create_str_wlen_def be_add_keypair_def)
  with 1 2 3 show ?thesis by blast
qed

lemma dec_sender_ok:
  assumes "keys_ok friends" "fr \<in> set friends" "tox_id_bin fr = Some key" "no_nul path"
    and "decode_FileNode file_node_zero info h = Inr (fn, h')"
  shows "dec_sender friends (BE_DICT [(''toxid'', BE_STR (Some key)), (''path'', BE_STR (Some path)),
      (''info'', info)]) h =
    Inr (file_sender_zero\<lparr>s_friend_number := friend_number fr, s_pathname := Some path, s_info := fn\<rparr>, h')"
  using assms by_keybin_ok [OF assms(1-3), of "[NUL]"]
  by (auto simp: dec_sender_def val_d_def val_s_def deref_def file_sender_zero_def)

interpretation senders: node_codec "enc_sender friends" "\<lambda>_. dec_sender friends" "sender_ok friends" sender_same
  for friends
proof unfold_locales
  fix x h
  assume "sender_ok friends x h"
  from enc_sender_ok [OF this] show "\<exists>v. enc_sender friends x h = Inr v \<and> wf_node v"
    by fastforce
next
  fix x h v h2
  assume ok: "sender_ok friends x h" and v: "enc_sender friends x h = Inr v" and h2: "heap_ok h2"
  from enc_sender_ok [OF ok] v obtain path fr key info where e: "s_pathname x = Some path" "fr \<in> set friends"
    "friend_number fr = s_friend_number x" "tox_id_bin fr = Some key" "encode_info (s_info x) h = Inr info"
    "v = BE_DICT [(''toxid'', BE_STR (Some key)), (''path'', BE_STR (Some (cstr path))), (''info'', info)]"
    by auto
  have "node_ok (s_info x) h" using ok by (simp add: sender_ok_def)
  from fnode.dec_enc [OF this e(5) h2, where g = "\<lambda>_. file_node_zero"] obtain fn h3 where d: "decode_FileNode file_node_zero info h2 = Inr (fn, h3)"
    "grows h2 h3" "node_same (s_info x) h fn h3" by blast
  have k: "keys_ok friends" using ok by (simp add: sender_ok_def)
  from dec_sender_ok [OF k e(2,4) no_nul_cstr d(1)] e d
  show "\<exists>y h3. dec_sender friends v h2 = Inr (y, h3) \<and> grows h2 h3 \<and> sender_same x h y h3"
    by (simp add: sender_same_def file_sender_zero_def)
next
  fix x h y h3 h4
  assume "sender_same x h y h3" "grows h3 h4"
  then show "sender_same x h y h4" by (auto simp: sender_same_def fnode.same_grows)
qed

section \<open>The loops and the files\<close>

text \<open>A sender that makes the saving loop stop.\<close>

definition unsavable :: "friend_info list \<Rightarrow> file_sender \<Rightarrow> bool" where
  "unsavable friends f \<longleftrightarrow> s_pathname f = None \<or>
     friend_info_by_friend_number friends (s_friend_number f) = None"

lemma senders_node_enc:
  assumes "list_all (\<lambda>f. sender_ok friends f h) good" "those_res (map (\<lambda>f. enc_sender friends f h) good) = Inr vs"
    and "bad = [] \<or> unsavable friends (hd bad)"
  shows "senders_node (BE_LIST acc) friends (good @ bad) h = Inr (BE_LIST (acc @ vs))"
  using assms
proof (induction good arbitrary: vs acc)
  case Nil
  then show ?case by (cases bad) (auto simp: unsavable_def split: option.splits)
next
  case (Cons f good)
  then obtain v vs' where vs: "vs = v # vs'" "enc_sender friends f h = Inr v"
    "those_res (map (\<lambda>f. enc_sender friends f h) good) = Inr vs'" by (auto simp: r_bind_eq_Inr)
  from Cons.prems(1) obtain path fr where "s_pathname f = Some path"
    "friend_info_by_friend_number friends (s_friend_number f) = Some fr" by (auto simp: sender_ok_def)
  with vs Cons.IH [of vs' "acc @ [v]"] Cons.prems show ?case
    by (simp add: enc_sender_def new_dict be_add_list_def)
qed

lemma load_nodes_dec:
  "dec_all (\<lambda>_. dec_sender friends) vs h = Inr (ys, h') \<Longrightarrow> load_nodes friends vs q h = Inr (rev ys @ q, h')"
proof (induction vs arbitrary: ys h q)
  case (Cons v vs)
  then obtain y h1 ys' where d: "dec_sender friends v h = Inr (y, h1)" "ys = y # ys'"
    "dec_all (\<lambda>_. dec_sender friends) vs h1 = Inr (ys', h')" by (auto simp: r_bind_eq_Inr)
  then obtain d' where v: "v = BE_DICT d'" "load_fields friends d' file_sender_zero h = Inr (Some y, h1)"
    by (cases v) (auto simp: dec_sender_def val_d_def r_bind_eq_Inr split: option.splits)
  from Cons.IH [OF d(3), of "y # q"] v d(2) show ?case by simp
qed simp

lemma shrlist_node_enc:
  assumes "those_res (map (\<lambda>fn. encode_info fn h) fns) = Inr vs"
  shows "shrlist_node (BE_LIST acc) fns h = Inr (BE_LIST (acc @ vs))"
  using assms
proof (induction fns arbitrary: vs acc)
  case (Cons fn fns)
  then obtain v vs' where "vs = v # vs'" "encode_info fn h = Inr v"
    "those_res (map (\<lambda>fn. encode_info fn h) fns) = Inr vs'" by (auto simp: r_bind_eq_Inr)
  with Cons.IH [of vs' "acc @ [v]"] show ?case by (simp add: encode_info_def new_dict be_add_list_def)
qed simp

lemma decode_nodes_dec: "decode_nodes g vs h = dec_all (\<lambda>i. decode_FileNode (g i)) vs h"
  by (induction vs arbitrary: h) auto

lemma loadfile_written:
  assumes "fopen_write name files = Some (s, files1)" "fs_readable files name" "wf_node v"
  shows "be_node_loadfile name (append_bytes name (benc v) files1) = Inr (Some v)"
proof -
  have "benc v \<noteq> []" by simp
  with assms be_decoden_benc [OF assms(3)] show ?thesis
    by (auto simp: be_node_loadfile_def fopen_read_def fopen_write_def append_bytes_def file_bytes_def
        fread_at_def Let_def split: if_splits)
qed

lemma benc_list_long: "vs \<noteq> [] \<Longrightarrow> 2 < length (benc (BE_LIST vs))"
proof -
  assume "vs \<noteq> []"
  then obtain v vs' where "vs = v # vs'" by (cases vs) auto
  then show ?thesis by (cases "benc v") auto
qed

lemma those_res_nonempty: "those_res (map f xs) = Inr vs \<Longrightarrow> xs \<noteq> [] \<Longrightarrow> vs \<noteq> []"
  by (cases xs) (auto simp: r_bind_eq_Inr)

section \<open>Properties\<close>

text \<open>One friend, one sender of a five byte file to it, and another friend the bot does not have.\<close>

definition friend5 :: friend_info where
  "friend5 = (friend_info_new 5)\<lparr>tox_id_bin := Some (pad32 ''k'')\<rparr>"

definition sender5 :: file_sender where
  "sender5 = file_sender_zero\<lparr>s_info := node0, s_pathname := Some ''/up/a'', s_friend_number := 5\<rparr>"

definition heap5 :: heap where
  "heap5 = \<lparr>blk = [0 \<mapsto> pad32 ''h''], brk = 1\<rparr>"

definition disk5 :: fs where
  "disk5 = \<lparr>fs_data = (\<lambda>_. None), fs_readable = (\<lambda>_. True), fs_writable = (\<lambda>_. True)\<rparr>"

lemma length_pad32 [simp]: "length (pad32 s) = 32"
  by (simp add: pad32_def)

lemma node5_ok: "node_ok node0 heap5"
proof -
  have "length (cstr ''/up/a'') = 5" by code_simp
  then show ?thesis by (simp add: node_ok_def node0_def heap5_def in_i64_def)
qed

lemma sender5_ok: "sender_ok [friend5] sender5 heap5"
proof -
  have "length (cstr ''/up/a'') = 5" by code_simp
  moreover have "keys_ok [friend5]"
    by (simp add: keys_ok_def registry_ok_def numbers_def friend5_def)
  moreover have "friend_info_by_friend_number [friend5] 5 \<noteq> None"
    by (simp add: friend_info_by_friend_number_def friend5_def friend_info_new_def)
  ultimately show ?thesis using node5_ok by (simp add: sender_ok_def sender5_def file_sender_zero_def)
qed

lemma heap5_ok: "heap_ok heap5" "heap_ok \<lparr>blk = Map.empty, brk = 0\<rparr>"
  by (simp_all add: heap_ok_def heap5_def)

lemma small_root:
  assumes "case r of Inr root \<Rightarrow> be_node_len root < 1000 | Inl _ \<Rightarrow> True" "r = Inr root"
  shows "be_node_len root + 1 < 2 ^ 31"
proof -
  have "be_node_len root < 1000" using assms by simp
  moreover have "(1000::nat) + 1 < 2 ^ 31" by simp
  ultimately show ?thesis by linarith
qed


text \<open>
  C18 (roundtrip): what \<^verbatim>\<open>save_senders\<close> writes, \<^verbatim>\<open>load_senders\<close> reads
  back into any store: every sender up to the first one without a path or with an unknown
  friend comes back with its friend, path, name, length and hash, in reverse order, not
  opened and not announced; the senders behind that one are lost.
\<close>

theorem senders_saved_and_loaded:
  assumes ok: "list_all (\<lambda>f. sender_ok friends f h) good" and ne: "good \<noteq> []"
    and bad: "bad = [] \<or> unsavable friends (hd bad)"
    and small: "\<And>root. senders_node (BE_LIST []) friends (good @ bad) h = Inr root \<Longrightarrow> be_node_len root + 1 < 2 ^ 31"
    and files: "fs_writable files savesender_filename" "fs_readable files savesender_filename"
    and g: "\<And>n. length (g n) = n" and h2: "heap_ok h2"
  shows "\<exists>files' q h3. save_senders g (good @ bad) friends h files = Inr (0, files') \<and>
    load_senders [] friends h2 files' = Inr (0, rev q, h3) \<and>
    list_all2 (\<lambda>f f'. sender_same f h f' h3) good q"
proof -
  from senders.enc_list [OF ok] obtain vs where vs: "those_res (map (\<lambda>f. enc_sender friends f h) good) = Inr vs"
    "wf_list vs" by blast
  have root: "senders_node (BE_LIST []) friends (good @ bad) h = Inr (BE_LIST vs)"
    using senders_node_enc [OF ok vs(1) bad, of "[]"] by simp
  have "vs \<noteq> []" using those_res_nonempty [OF vs(1)] ne by simp
  have "length (benc (BE_LIST vs)) < 2 ^ 31 - 1"
    using small [OF root] unfolding be_node_len_benc by linarith
  from be_encode_alloc_benc [OF g this] have e: "be_encode_alloc g (BE_LIST vs) =
      Inr (benc (BE_LIST vs), length (benc (BE_LIST vs)))" .
  obtain s files1 where w: "fopen_write savesender_filename files = Some (s, files1)"
    using files(1) by (simp add: fopen_write_def)
  define files' where "files' = append_bytes savesender_filename (benc (BE_LIST vs)) files1"
  have save: "save_senders g (good @ bad) friends h files = Inr (0, files')"
    using benc_list_long [OF \<open>vs \<noteq> []\<close>] by (simp add: save_senders_def new_list_node root e w files'_def)
  from senders.dec_list [OF ok vs(1) h2] obtain ys h3 where
    d: "dec_all (\<lambda>_. dec_sender friends) vs h2 = Inr (ys, h3)" "list_all2 (\<lambda>x y. sender_same x h y h3) good ys" by blast
  have "load_senders [] friends h2 files' = Inr (0, rev ys, h3)"
    using loadfile_written [OF w files(2), of "BE_LIST vs"] vs(2) load_nodes_dec [OF d(1), of "[]"]
    by (simp add: load_senders_def files'_def val_l_def)
  with save d(2) show ?thesis by blast
qed

theorem senders_saved_and_loaded_witness:
  "\<exists>files' q h3. save_senders (\<lambda>n. replicate n NUL) [sender5, file_sender_zero] [friend5] heap5 disk5 = Inr (0, files') \<and>
    load_senders [] [friend5] \<lparr>blk = Map.empty, brk = 0\<rparr> files' = Inr (0, rev q, h3) \<and> length q = 1"
proof -
  have "case senders_node (BE_LIST []) [friend5] [sender5, file_sender_zero] heap5 of
      Inr root \<Rightarrow> be_node_len root < 1000 | Inl _ \<Rightarrow> True" by code_simp
  note small = small_root [OF this]
  have "\<exists>files' q h3. save_senders (\<lambda>n. replicate n NUL) ([sender5] @ [file_sender_zero]) [friend5] heap5 disk5 = Inr (0, files') \<and>
    load_senders [] [friend5] \<lparr>blk = Map.empty, brk = 0\<rparr> files' = Inr (0, rev q, h3) \<and>
    list_all2 (\<lambda>f f'. sender_same f heap5 f' h3) [sender5] q"
  proof (rule senders_saved_and_loaded)
    fix root
    assume "senders_node (BE_LIST []) [friend5] ([sender5] @ [file_sender_zero]) heap5 = Inr root"
    then show "be_node_len root + 1 < 2 ^ 31" using small by simp
  qed (simp_all add: sender5_ok heap5_ok disk5_def unsavable_def file_sender_zero_def)
  then show ?thesis by (auto dest!: list_all2_lengthD)
qed

text \<open>
  The list of shared files is saved completely and reads back without a fault, but
  the entries go into a list of the loading function: after a restart the program has the
  shared list that it had before the call, none.
\<close>

theorem shared_list_not_restored:
  assumes ok: "list_all (\<lambda>fn. node_ok fn h) shr" and ne: "shr \<noteq> []"
    and small: "\<And>root. shrlist_node (BE_LIST []) shr h = Inr root \<Longrightarrow> be_node_len root + 1 < 2 ^ 31"
    and files: "fs_writable files name" "fs_readable files name"
    and g: "\<And>n. length (g n) = n" and h2: "heap_ok h2"
  shows "\<exists>files' vs local_list h3. dump_shrlist g name shr h files = Inr files' \<and>
    be_node_loadfile name files' = Inr (Some (BE_LIST vs)) \<and>
    decode_nodes j vs h2 = Inr (local_list, h3) \<and> list_all2 (\<lambda>x y. node_same x h y h3) shr local_list \<and>
    load_shrlist j name files' [] h2 = Inr (0, [], h3)"
proof -
  from fnode.enc_list [OF ok] obtain vs where vs: "those_res (map (\<lambda>fn. encode_info fn h) shr) = Inr vs"
    "wf_list vs" by blast
  have root: "shrlist_node (BE_LIST []) shr h = Inr (BE_LIST vs)"
    using shrlist_node_enc [OF vs(1), of "[]"] by simp
  have "vs \<noteq> []" using those_res_nonempty [OF vs(1)] ne by simp
  have "length (benc (BE_LIST vs)) < 2 ^ 31 - 1"
    using small [OF root] unfolding be_node_len_benc by linarith
  from be_encode_alloc_benc [OF g this] have e: "be_encode_alloc g (BE_LIST vs) =
      Inr (benc (BE_LIST vs), length (benc (BE_LIST vs)))" .
  obtain s files1 where w: "fopen_write name files = Some (s, files1)"
    using files(1) by (simp add: fopen_write_def)
  define files' where "files' = append_bytes name (benc (BE_LIST vs)) files1"
  have dump: "dump_shrlist g name shr h files = Inr files'"
    using benc_list_long [OF \<open>vs \<noteq> []\<close>] by (simp add: dump_shrlist_def new_list_node root e w files'_def)
  have load: "be_node_loadfile name files' = Inr (Some (BE_LIST vs))"
    using loadfile_written [OF w files(2), of "BE_LIST vs"] vs(2) by (simp add: files'_def)
  from fnode.dec_list [OF ok vs(1) h2, of j] obtain ys h3 where
    d: "decode_nodes j vs h2 = Inr (ys, h3)" "list_all2 (\<lambda>x y. node_same x h y h3) shr ys"
    by (auto simp: decode_nodes_dec)
  have "load_shrlist j name files' [] h2 = Inr (0, [], h3)"
    by (simp add: load_shrlist_def load val_l_def d)
  with dump load d show ?thesis by blast
qed

theorem shared_list_not_restored_witness:
  "\<exists>files' h3. dump_shrlist (\<lambda>n. replicate n NUL) ''shr'' [node0] heap5 disk5 = Inr files' \<and>
    load_shrlist (\<lambda>_. file_node_zero) ''shr'' files' [] heap5 = Inr (0, [], h3)"
proof -
  have "case shrlist_node (BE_LIST []) [node0] heap5 of
      Inr root \<Rightarrow> be_node_len root < 1000 | Inl _ \<Rightarrow> True" by code_simp
  note small = small_root [OF this]
  show ?thesis
    using shared_list_not_restored [of heap5 "[node0]" disk5 "''shr''" "\<lambda>n. replicate n NUL" heap5 "\<lambda>_. file_node_zero", OF _ _ small]
    by (auto simp: node5_ok heap5_ok disk5_def)
qed

text \<open>
  C35 (error): a friend who comes online gets back the transfers at the front of the loaded
  queue that are for that friend, and the loop ends at the first one that is for somebody
  else: transfers behind it stay in the queue although their friend is online.
\<close>

theorem resume_send_prefix:
  assumes "resume_send api g n loaded w = Inr (rest, w')"
  shows "rest = dropWhile (\<lambda>f. s_friend_number f = n) loaded \<and>
    length (w_senders w') = length (takeWhile (\<lambda>f. s_friend_number f = n) loaded) + length (w_senders w)"
  using assms
proof (induction loaded arbitrary: w)
  case (Cons f loaded)
  show ?case
  proof (cases "s_friend_number f = n")
    case True
    with Cons.prems obtain num f' w1 where a: "add_filesender api g f w = Inr (num, f', w1)"
      "resume_send api g n loaded (w1\<lparr>w_senders := f' # w_senders w1\<rparr>) = Inr (rest, w')"
      by (auto simp: r_bind_eq_Inr)
    moreover have "w_senders w1 = w_senders w" using a(1) by (rule add_filesender_senders)
    ultimately show ?thesis using Cons.IH True by simp
  next
    case False
    with Cons.prems have "rest = f # loaded" "w' = w" by auto
    with False show ?thesis by simp
  qed
qed simp

theorem resume_send_prefix_witness:
  "\<exists>w'. resume_send sample (\<lambda>_. NUL) 5 [sender5, file_sender_zero, sender5] world0 =
      Inr ([file_sender_zero, sender5], w') \<and> length (w_senders w') = 1 + length (w_senders world0)"
proof -
  have "\<exists>w'. resume_send sample (\<lambda>_. NUL) 5 [sender5, file_sender_zero, sender5] world0 =
      Inr ([file_sender_zero, sender5], w')"
    by (simp add: sender5_def file_sender_zero_def add_filesender_def sender_stream_def fopen_read_def
        world0_def node0_def cstr_def measure_file_def announce_def load_hash_def load_block_def sample_def Let_def)
  then obtain w' where r: "resume_send sample (\<lambda>_. NUL) 5 [sender5, file_sender_zero, sender5] world0 =
      Inr ([file_sender_zero, sender5], w')" by blast
  from resume_send_prefix [OF r] r show ?thesis by (simp add: sender5_def file_sender_zero_def)
qed

end
