(* ===== verification/Call.thy ===== *)
theory Call
  imports Timespec File_Queue
begin

text \<open>
  \<^verbatim>\<open>src/call.c\<close>: the call tester. Whoever calls the bot hears a greeting, is
  recorded for ten seconds, gets the recording as a file and hears it played back; a small
  machine per friend, advanced by the main loop and by the callbacks of
  \<^verbatim>\<open>toxav\<close>. \<^verbatim>\<open>libsndfile\<close> and \<^verbatim>\<open>mkstemps\<close> are
  parameters.
\<close>

section \<open>State\<close>

datatype callstep = ENTERING | GREETER | RECORDING | SAVING | SENDING | ECHOING | BYE

text \<open>The values of the enumeration, and \<^verbatim>\<open>step++\<close>.\<close>

primrec step_no :: "callstep \<Rightarrow> nat" where
  "step_no ENTERING = 0"
| "step_no GREETER = 1"
| "step_no RECORDING = 2"
| "step_no SAVING = 3"
| "step_no SENDING = 4"
| "step_no ECHOING = 5"
| "step_no BYE = 6"

primrec next_step :: "callstep \<Rightarrow> callstep" where
  "next_step ENTERING = GREETER"
| "next_step GREETER = RECORDING"
| "next_step RECORDING = SAVING"
| "next_step SAVING = SENDING"
| "next_step SENDING = ECHOING"
| "next_step ECHOING = BYE"
| "next_step BYE = BYE"

text \<open>
  A sample that \<^verbatim>\<open>realloc\<close> made room for and nothing was written to is \<open>None\<close>, as
  is a field that \<^verbatim>\<open>record_init\<close> does not set. The null pointer is the empty list.
\<close>

record pcm_record =
  pcm :: "int option list"
  channels :: "u8 option"
  samples_count :: nat
  samplerate :: "u32 option"

record call_tester =
  ct_friend_number :: u32
  step :: callstep
  samples_send :: "nat option"
  ctrecord :: pcm_record
  playback :: "pcm_record option"
  callstart :: "timespec option"
  tsprevious :: "timespec option"
  delay :: u64
  elapsed :: u64
  outfilename :: string

record 't cstate =
  c_w :: "'t fstate"
  calltesters :: "call_tester list"
  greeter :: "pcm_record option"

text \<open>
  What is read with \<^verbatim>\<open>sf_readf_short\<close>: rate, channels, frames of the file, frames
  read and the samples read.
\<close>

record avlib =
  sf_read :: "string \<Rightarrow> fs \<Rightarrow> (int \<times> int \<times> nat \<times> nat \<times> int list) option"
  sf_open_write :: "string \<Rightarrow> u32 \<Rightarrow> u8 \<Rightarrow> fs \<Rightarrow> fs option"
  sf_write_short :: "string \<Rightarrow> int list \<Rightarrow> fs \<Rightarrow> fs"
  mkstemps :: "string \<Rightarrow> fs \<Rightarrow> string \<times> fs"

abbreviation (input) AUDIO_LENGTH :: nat where "AUDIO_LENGTH \<equiv> 20"
abbreviation (input) DEFAULT_DELAY :: u64 where "DEFAULT_DELAY \<equiv> 20000000"
abbreviation (input) CALL_TEST_DURATION_NS :: u64 where "CALL_TEST_DURATION_NS \<equiv> 10000000000"
abbreviation (input) AUDIO_BITRATE :: u32 where "AUDIO_BITRATE \<equiv> 48"
abbreviation (input) VIDEO_BITRATE :: u32 where "VIDEO_BITRATE \<equiv> 5000"
abbreviation (input) TOXAV_CALL_CONTROL_CANCEL :: u32 where "TOXAV_CALL_CONTROL_CANCEL \<equiv> 2"
abbreviation (input) TOXAV_CALL_CONTROL_MUTE_AUDIO :: u32 where "TOXAV_CALL_CONTROL_MUTE_AUDIO \<equiv> 3"
abbreviation (input) TOXAV_CALL_CONTROL_UNMUTE_AUDIO :: u32 where "TOXAV_CALL_CONTROL_UNMUTE_AUDIO \<equiv> 4"

section \<open>Testers\<close>

definition record_init :: pcm_record where
  "record_init = \<lparr>pcm = [], channels = None, samples_count = 0, samplerate = None\<rparr>"

definition call_tester_by_friend_number :: "call_tester list \<Rightarrow> u32 \<Rightarrow> call_tester option" where
  "call_tester_by_friend_number cts n = List.find (\<lambda>ct. ct_friend_number ct = n) cts"

fun tester_insert :: "call_tester \<Rightarrow> call_tester list \<Rightarrow> call_tester list" where
  "tester_insert new [] = [new]"
| "tester_insert new (entry # rest) =
     (if ct_friend_number entry > ct_friend_number new then new # entry # rest
      else entry # tester_insert new rest)"

definition call_tester_new :: "u32 \<Rightarrow> string \<Rightarrow> call_tester" where
  "call_tester_new n name = \<lparr>ct_friend_number = n, step = ENTERING, samples_send = None, ctrecord = record_init,
     playback = None, callstart = None, tsprevious = None, delay = DEFAULT_DELAY, elapsed = 0, outfilename = name\<rparr>"

definition call_tester_add_entry :: "avlib \<Rightarrow> u32 \<Rightarrow> 't cstate \<Rightarrow> 't cstate" where
  "call_tester_add_entry av n s =
     (case call_tester_by_friend_number (calltesters s) n of
        Some _ \<Rightarrow> s
      | None \<Rightarrow>
          (let (name, files) = mkstemps av ''/tmp/call-XXXXXX.wav'' (w_fs (c_w s)) in
           s\<lparr>c_w := (c_w s)\<lparr>w_fs := files\<rparr>,
             calltesters := tester_insert (call_tester_new n name) (calltesters s)\<rparr>))"

definition call_testers_destroy :: "call_tester list \<Rightarrow> call_tester list" where
  "call_testers_destroy cts = []"

section \<open>Callbacks\<close>

definition call :: "'t toxcore \<Rightarrow> avlib \<Rightarrow> u32 \<Rightarrow> bool \<Rightarrow> bool \<Rightarrow> 't cstate \<Rightarrow> 't cstate" where
  "call api av n audio_enabled video_enabled s =
     (let (_, tox) = toxav_answer api n (if audio_enabled then AUDIO_BITRATE else 0)
                       (if video_enabled then VIDEO_BITRATE else 0) (w_tox (c_w s)) in
      call_tester_add_entry av n (s\<lparr>c_w := (c_w s)\<lparr>w_tox := tox\<rparr>\<rparr>))"

text \<open>The bits of the state that \<^verbatim>\<open>toxav\<close> reports.\<close>

definition state_error :: "u32 \<Rightarrow> bool" where "state_error st = bit st 0"
definition state_finished :: "u32 \<Rightarrow> bool" where "state_finished st = bit st 1"
definition state_sending_a :: "u32 \<Rightarrow> bool" where "state_sending_a st = bit st 2"
definition state_sending_v :: "u32 \<Rightarrow> bool" where "state_sending_v st = bit st 3"
definition state_accepting_a :: "u32 \<Rightarrow> bool" where "state_accepting_a st = bit st 4"
definition state_accepting_v :: "u32 \<Rightarrow> bool" where "state_accepting_v st = bit st 5"

definition call_state :: "'t toxcore \<Rightarrow> avlib \<Rightarrow> u32 \<Rightarrow> u32 \<Rightarrow> 't cstate \<Rightarrow> 't cstate" where
  "call_state api av n st s =
     (if state_error st then s
      else if state_sending_a st then
        (let send_audio = state_sending_a st \<and> state_accepting_a st;
             send_video = state_sending_v st \<and> state_accepting_v st;
             tox = toxav_bit_rate_set api n (if send_audio then AUDIO_BITRATE else 0)
                     (if send_video then VIDEO_BITRATE else 0) (w_tox (c_w s)) in
         call_tester_add_entry av n (s\<lparr>c_w := (c_w s)\<lparr>w_tox := tox\<rparr>\<rparr>))
      else if state_finished st then
        (case call_tester_by_friend_number (calltesters s) n of
           None \<Rightarrow> s
         | Some _ \<Rightarrow> s\<lparr>calltesters := set_first (\<lambda>ct. ct_friend_number ct = n)
                         (\<lambda>ct. ct\<lparr>step := BYE\<rparr>) (calltesters s)\<rparr>)
      else s)"

text \<open>
  The samples of a frame behind those recorded so far, in the reallocated buffer; the place is
  computed with the number of channels of the new frame.
\<close>

definition append_samples :: "nat \<Rightarrow> nat \<Rightarrow> int list \<Rightarrow> pcm_record \<Rightarrow> int option list" where
  "append_samples ch sample_count data rec =
     (let n = ch * (sample_count + samples_count rec);
          buf = take n (pcm rec @ replicate n None) in
      take (ch * samples_count rec) buf @ map Some (take (ch * sample_count) data))"

definition receive_frame :: "int list \<Rightarrow> nat \<Rightarrow> u8 \<Rightarrow> u32 \<Rightarrow> call_tester \<Rightarrow> call_tester res" where
  "receive_frame data sample_count ch rate ct =
     (if step ct \<noteq> RECORDING then Inr ct
      else if length data < unat ch * sample_count then Inl OutOfBounds
      else let rec = ctrecord ct in
        Inr (ct\<lparr>ctrecord := \<lparr>pcm = append_samples (unat ch) sample_count data rec, channels = Some ch,
          samples_count = samples_count rec + sample_count, samplerate = Some rate\<rparr>\<rparr>))"

fun update_tester :: "u32 \<Rightarrow> (call_tester \<Rightarrow> call_tester res) \<Rightarrow> call_tester list \<Rightarrow> call_tester list res" where
  "update_tester n upd [] = Inr []"
| "update_tester n upd (ct # cts) =
     (if ct_friend_number ct = n then r_bind (upd ct) (\<lambda>ct. Inr (ct # cts))
      else r_bind (update_tester n upd cts) (\<lambda>cts. Inr (ct # cts)))"

definition audio_receive_frame :: "u32 \<Rightarrow> int list \<Rightarrow> nat \<Rightarrow> u8 \<Rightarrow> u32 \<Rightarrow> 't cstate \<Rightarrow> 't cstate res" where
  "audio_receive_frame n data sample_count ch rate s =
     r_bind (update_tester n (receive_frame data sample_count ch rate) (calltesters s)) (\<lambda>cts.
       Inr (s\<lparr>calltesters := cts\<rparr>))"

section \<open>Sound\<close>

text \<open>
  \<^verbatim>\<open>samplerate * AUDIO_LENGTH\<close> is a 32 bit product. The samples of a frame are
  handed over as a pointer and a count; a frame that is not completely inside the record is the
  fault \<open>OutOfBounds\<close>.
\<close>

definition frame_size :: "u32 \<Rightarrow> nat" where
  "frame_size rate = unat ((rate * 20) div 1000)"

definition frame_delay :: "u32 \<Rightarrow> u64" where
  "frame_delay rate = (word_of_nat (frame_size rate) * 1000) div ucast rate * 1000000"

definition frame_samples :: "nat \<Rightarrow> nat \<Rightarrow> int option list \<Rightarrow> int list res" where
  "frame_samples from n xs =
     (if length xs < from + n then Inl OutOfBounds
      else case those (take n (drop from xs)) of None \<Rightarrow> Inl Uninit | Some ys \<Rightarrow> Inr ys)"

definition rget :: "'a option \<Rightarrow> 'a res" where
  "rget x = (case x of None \<Rightarrow> Inl Uninit | Some y \<Rightarrow> Inr y)"

definition audio_playback ::
  "'t toxcore \<Rightarrow> call_tester \<Rightarrow> pcm_record option \<Rightarrow> 't \<Rightarrow> (nat \<times> call_tester \<times> 't) res" where
  "audio_playback api ct rec tox =
     (case rec of None \<Rightarrow> Inl NullDeref | Some rec \<Rightarrow>
      r_bind (rget (samplerate rec)) (\<lambda>rate.
      if rate = 0 then Inl DivByZero else
      let sample_count = frame_size rate; ct = ct\<lparr>delay := frame_delay rate\<rparr> in
      r_bind (rget (samples_send ct)) (\<lambda>sent.
      if sent < samples_count rec then
        r_bind (rget (channels rec)) (\<lambda>ch.
        r_bind (frame_samples (sent * unat ch) (sample_count * unat ch) (pcm rec)) (\<lambda>data.
          let (ok, tox) = toxav_audio_send_frame api (ct_friend_number ct) data
                            (word_of_nat sample_count) ch rate tox in
          if \<not> ok then Inr (0, ct, tox)
          else Inr (sample_count, ct\<lparr>samples_send := Some (sent + sample_count)\<rparr>, tox)))
      else Inr (0, ct, tox))))"

definition audio_load :: "avlib \<Rightarrow> string \<Rightarrow> fs \<Rightarrow> pcm_record option" where
  "audio_load av filename files =
     (case sf_read av filename files of
        None \<Rightarrow> None
      | Some (rate, ch, frames, readf, samples) \<Rightarrow>
          (let n = frames * nat ch in
           Some \<lparr>pcm = take n (map Some samples @ replicate n None), channels = Some (word_of_int ch),
                 samples_count = readf, samplerate = Some (word_of_int rate)\<rparr>))"

definition audio_write :: "avlib \<Rightarrow> string \<Rightarrow> pcm_record \<Rightarrow> fs \<Rightarrow> fs res" where
  "audio_write av destfile rec files =
     r_bind (rget (samplerate rec)) (\<lambda>rate. r_bind (rget (channels rec)) (\<lambda>ch.
       case sf_open_write av destfile rate ch files of
         None \<Rightarrow> Inr files
       | Some files \<Rightarrow>
           r_bind (frame_samples 0 (samples_count rec * unat ch) (pcm rec)) (\<lambda>samples.
             Inr (sf_write_short av destfile samples files))))"

definition calltest_init :: "avlib \<Rightarrow> 't fstate \<Rightarrow> 't cstate" where
  "calltest_init av w = \<lparr>c_w = w, calltesters = [], greeter = audio_load av ''greeter.wav'' (w_fs w)\<rparr>"

definition calltest_destroy :: "'t cstate \<Rightarrow> 't cstate" where
  "calltest_destroy s = s\<lparr>calltesters := call_testers_destroy (calltesters s)\<rparr>"

text \<open>Not called by the program: the time since the last visit of a tester.\<close>

definition jitter :: "call_tester \<Rightarrow> timespec \<Rightarrow> call_tester res" where
  "jitter ct tp =
     (case tsprevious ct of
        None \<Rightarrow> Inl Uninit
      | Some tp1 \<Rightarrow>
          r_bind (chk64 (tv_sec tp - tv_sec tp1)) (\<lambda>s. r_bind (chk64 (s * NSEC_PER_SEC)) (\<lambda>n.
          r_bind (chk64 (n + tv_nsec tp)) (\<lambda>n. r_bind (chk64 (n - tv_nsec tp1)) (\<lambda>n.
            Inr (ct\<lparr>elapsed := 0, tsprevious := Some tp\<rparr>))))))"

section \<open>The machine\<close>

definition calltest_iteration_interval :: "call_tester list \<Rightarrow> u64" where
  "calltest_iteration_interval cts =
     fold (\<lambda>ct ldelay. if delay ct > ldelay then ldelay else delay ct) cts (word_of_int MAX_NS)"

text \<open>The body of one \<^verbatim>\<open>case\<close> each; \<open>ENTERING\<close> falls through to \<open>GREETER\<close>.\<close>

definition control :: "'t toxcore \<Rightarrow> call_tester \<Rightarrow> u32 \<Rightarrow> 't fstate \<Rightarrow> 't fstate" where
  "control api ct c w = w\<lparr>w_tox := toxav_call_control api (ct_friend_number ct) c (w_tox w)\<rparr>"

definition do_entering :: "'t toxcore \<Rightarrow> call_tester \<Rightarrow> 't fstate \<Rightarrow> call_tester \<times> 't fstate" where
  "do_entering api ct w =
     (let ct = ct\<lparr>playback := Some record_init, samples_send := Some 0\<rparr>;
          w = control api ct TOXAV_CALL_CONTROL_MUTE_AUDIO w in
      (ct\<lparr>step := next_step (step ct)\<rparr>, w))"

definition do_greeter ::
  "'t toxcore \<Rightarrow> pcm_record option \<Rightarrow> timespec \<Rightarrow> call_tester \<Rightarrow> 't fstate \<Rightarrow> (call_tester \<times> 't fstate) res" where
  "do_greeter api gr tp ct w =
     r_bind (audio_playback api ct gr (w_tox w)) (\<lambda>(n, ct, tox).
       let w = w\<lparr>w_tox := tox\<rparr> in
       if n = 0 then
         (let ct = ct\<lparr>callstart := Some tp\<rparr>;
              w = control api ct TOXAV_CALL_CONTROL_UNMUTE_AUDIO w in
          Inr (ct\<lparr>step := next_step (step ct)\<rparr>, w))
       else Inr (ct, w))"

definition do_recording ::
  "'t toxcore \<Rightarrow> timespec \<Rightarrow> call_tester \<Rightarrow> 't fstate \<Rightarrow> (call_tester \<times> 't fstate) res" where
  "do_recording api tp ct w =
     r_bind (rget (callstart ct)) (\<lambda>start.
     r_bind (nanosec_timeout start tp CALL_TEST_DURATION_NS) (\<lambda>b.
       if b then Inr (ct\<lparr>step := next_step (step ct)\<rparr>, control api ct TOXAV_CALL_CONTROL_MUTE_AUDIO w)
       else Inr (ct, w)))"

definition do_saving :: "avlib \<Rightarrow> call_tester \<Rightarrow> 't fstate \<Rightarrow> (call_tester \<times> 't fstate) res" where
  "do_saving av ct w =
     r_bind (audio_write av (outfilename ct) (ctrecord ct) (w_fs w)) (\<lambda>files.
       Inr (ct\<lparr>samples_send := Some 0, step := next_step (step ct)\<rparr>, w\<lparr>w_fs := files\<rparr>))"

definition do_sending ::
  "'t toxcore \<Rightarrow> (nat \<Rightarrow> char) \<Rightarrow> call_tester \<Rightarrow> 't fstate \<Rightarrow> (call_tester \<times> 't fstate) res" where
  "do_sending api g ct w =
     r_bind (send_path api g (ct_friend_number ct) (outfilename ct) ''call-test.wav'' w) (\<lambda>w.
       Inr (ct\<lparr>step := next_step (step ct)\<rparr>, w))"

definition do_echoing :: "'t toxcore \<Rightarrow> call_tester \<Rightarrow> 't fstate \<Rightarrow> (call_tester \<times> 't fstate) res" where
  "do_echoing api ct w =
     r_bind (audio_playback api ct (Some (ctrecord ct)) (w_tox w)) (\<lambda>(n, ct, tox).
       let w = w\<lparr>w_tox := tox\<rparr> in
       if n = 0 then Inr (ct\<lparr>step := next_step (step ct)\<rparr>, w) else Inr (ct, w))"

text \<open>One visit: the tester after it, or \<open>None\<close> if it was destroyed.\<close>

definition calltest_iterate_one_shot ::
  "'t toxcore \<Rightarrow> avlib \<Rightarrow> (nat \<Rightarrow> char) \<Rightarrow> pcm_record option \<Rightarrow> timespec \<Rightarrow> call_tester \<Rightarrow> 't fstate \<Rightarrow>
   (call_tester option \<times> 't fstate) res" where
  "calltest_iterate_one_shot api av g gr tp ct w =
     (let stay = (\<lambda>m. r_bind m (\<lambda>(ct, w). Inr (Some ct, w))) in
      case step ct of
        ENTERING \<Rightarrow> (let (ct, w) = do_entering api ct w in stay (do_greeter api gr tp ct w))
      | GREETER \<Rightarrow> stay (do_greeter api gr tp ct w)
      | RECORDING \<Rightarrow> stay (do_recording api tp ct w)
      | SAVING \<Rightarrow> stay (do_saving av ct w)
      | SENDING \<Rightarrow> stay (do_sending api g ct w)
      | ECHOING \<Rightarrow> stay (do_echoing api ct w)
      | BYE \<Rightarrow> Inr (None, control api ct TOXAV_CALL_CONTROL_CANCEL w))"

fun iterate_testers ::
  "'t toxcore \<Rightarrow> avlib \<Rightarrow> (nat \<Rightarrow> char) \<Rightarrow> pcm_record option \<Rightarrow> timespec \<Rightarrow> call_tester list \<Rightarrow> 't fstate \<Rightarrow>
   (call_tester list \<times> 't fstate) res" where
  "iterate_testers api av g gr tp [] w = Inr ([], w)"
| "iterate_testers api av g gr tp (ct # cts) w =
     r_bind (calltest_iterate_one_shot api av g gr tp ct w) (\<lambda>(r, w).
     r_bind (iterate_testers api av g gr tp cts w) (\<lambda>(cts, w).
       Inr (case r of None \<Rightarrow> cts | Some ct \<Rightarrow> ct # cts, w)))"

definition calltest_iterate ::
  "'t toxcore \<Rightarrow> avlib \<Rightarrow> (nat \<Rightarrow> char) \<Rightarrow> timespec \<Rightarrow> 't cstate \<Rightarrow> 't cstate res" where
  "calltest_iterate api av g tp s =
     r_bind (iterate_testers api av g (greeter s) tp (calltesters s) (c_w s)) (\<lambda>(cts, w).
       Inr (s\<lparr>calltesters := cts, c_w := w\<rparr>))"

section \<open>Video\<close>

text \<open>
  A received picture is cropped to its width and sent back; the callback is not registered.
  The planes are copied row by row, the rows of the colours to multiples of
  \<^verbatim>\<open>h * width / 2\<close>.
\<close>

fun copy_rows :: "nat \<Rightarrow> (nat \<Rightarrow> nat) \<Rightarrow> nat \<Rightarrow> nat \<Rightarrow> string \<Rightarrow> string \<Rightarrow> string res" where
  "copy_rows 0 dst stride n src dest = Inr dest"
| "copy_rows (Suc h) dst stride n src dest =
     r_bind (copy_rows h dst stride n src dest) (\<lambda>dest.
       if length src < h * stride + n then Inl OutOfBounds
       else mem_store dest (dst h) (take n (drop (h * stride) src)))"

definition video_receive_frame ::
  "'t toxcore \<Rightarrow> (nat \<Rightarrow> char) \<Rightarrow> u32 \<Rightarrow> u16 \<Rightarrow> u16 \<Rightarrow> string \<Rightarrow> string \<Rightarrow> string \<Rightarrow> int \<Rightarrow> int \<Rightarrow> int \<Rightarrow> 't \<Rightarrow> 't res" where
  "video_receive_frame api g n width height y u v ystride ustride vstride tox =
     (let ys = nat \<bar>ystride\<bar>; us = nat \<bar>ustride\<bar>; vs = nat \<bar>vstride\<bar>; wd = unat width; ht = unat height in
      if ys < wd \<or> us < wd div 2 \<or> vs < wd div 2 then Inr tox
      else
        r_bind (copy_rows ht (\<lambda>h. h * wd) ys wd y (map g [0..<wd * ht])) (\<lambda>y_dest.
        r_bind (copy_rows (ht div 2) (\<lambda>h. h * wd div 2) us (wd div 2) u (map g [0..<wd * ht div 2])) (\<lambda>u_dest.
        r_bind (copy_rows (ht div 2) (\<lambda>h. h * wd div 2) vs (wd div 2) v (map g [0..<wd * ht div 2])) (\<lambda>v_dest.
          Inr (snd (toxav_video_send_frame api n wd ht y_dest u_dest v_dest tox))))))"

end
