(* ===== verification/Call_Machine.thy ===== *)
theory Call_Machine
  imports Call
begin

text \<open>
  The call tester as a state machine: the steps only go forward, there is one tester per
  friend, a call whose sound comes in whole frames ends, and what happens to the sound when it
  does not.
\<close>

section \<open>The order of the steps\<close>

instantiation callstep :: linorder
begin

definition less_eq_callstep :: "callstep \<Rightarrow> callstep \<Rightarrow> bool" where
  "less_eq_callstep a b \<longleftrightarrow> step_no a \<le> step_no b"

definition less_callstep :: "callstep \<Rightarrow> callstep \<Rightarrow> bool" where
  "less_callstep a b \<longleftrightarrow> step_no a < step_no b"

instance
proof
  fix a b :: callstep
  show "a \<le> b \<Longrightarrow> b \<le> a \<Longrightarrow> a = b"
    by (cases a; cases b) (simp_all add: less_eq_callstep_def)
qed (auto simp: less_eq_callstep_def less_callstep_def)

end

lemma step_le_next [simp]: "st \<le> next_step st"
  by (cases st) (simp_all add: less_eq_callstep_def)

lemma step_le_BYE [simp]: "st \<le> BYE"
  by (cases st) (simp_all add: less_eq_callstep_def)

section \<open>Testers\<close>

lemma tester_insert_reg: "tester_insert ct cts = reg_insert ct_friend_number ct cts"
  by (induction cts) (auto simp: reg_insert_Cons)

interpretation testers: sorted_registry ct_friend_number tester_insert call_tester_by_friend_number
  by unfold_locales (simp_all add: tester_insert_reg call_tester_by_friend_number_def by_key_def)

definition testers_ok :: "call_tester list \<Rightarrow> bool" where
  "testers_ok cts \<longleftrightarrow> sorted_wrt (<) (map ct_friend_number cts)"

section \<open>What a step keeps\<close>

lemma audio_playback_keeps:
  assumes "audio_playback api ct rec tox = Inr (n, ct', tox')"
  shows "ct_friend_number ct' = ct_friend_number ct \<and> step ct' = step ct"
  using assms
  by (auto simp: audio_playback_def r_bind_eq_Inr case_prod_unfold Let_def split: option.splits if_splits)

definition moved_on :: "call_tester \<Rightarrow> call_tester \<Rightarrow> bool" where
  "moved_on ct ct' \<longleftrightarrow> ct_friend_number ct' = ct_friend_number ct \<and> step ct \<le> step ct'"

lemma entering_keeps: "do_entering api ct w = (ct', w') \<Longrightarrow> moved_on ct ct'"
  by (auto simp: do_entering_def Let_def moved_on_def)

lemma greeter_keeps:
  assumes "do_greeter api gr tp ct w = Inr (ct', w')"
  shows "moved_on ct ct'"
proof -
  from assms obtain n ct1 tox where p: "audio_playback api ct gr (w_tox w) = Inr (n, ct1, tox)"
    by (auto simp: do_greeter_def r_bind_eq_Inr)
  with assms have "ct' = ct1 \<or> ct' = ct1\<lparr>callstart := Some tp, step := next_step (step ct1)\<rparr>"
    by (auto simp: do_greeter_def Let_def split: if_splits)
  with audio_playback_keeps [OF p] show ?thesis by (auto simp: moved_on_def)
qed

lemma echoing_keeps:
  assumes "do_echoing api ct w = Inr (ct', w')"
  shows "moved_on ct ct'"
proof -
  from assms obtain n ct1 tox where p: "audio_playback api ct (Some (ctrecord ct)) (w_tox w) = Inr (n, ct1, tox)"
    by (auto simp: do_echoing_def r_bind_eq_Inr)
  with assms have "ct' = ct1 \<or> ct' = ct1\<lparr>step := next_step (step ct1)\<rparr>"
    by (auto simp: do_echoing_def Let_def split: if_splits)
  with audio_playback_keeps [OF p] show ?thesis by (auto simp: moved_on_def)
qed

lemma recording_keeps: "do_recording api tp ct w = Inr (ct', w') \<Longrightarrow> moved_on ct ct'"
  by (auto simp: do_recording_def r_bind_eq_Inr moved_on_def split: if_splits)

lemma saving_keeps: "do_saving av ct w = Inr (ct', w') \<Longrightarrow> moved_on ct ct'"
  by (auto simp: do_saving_def r_bind_eq_Inr moved_on_def)

lemma sending_keeps: "do_sending api g ct w = Inr (ct', w') \<Longrightarrow> moved_on ct ct'"
  by (auto simp: do_sending_def r_bind_eq_Inr moved_on_def)

lemmas bodies_keep = greeter_keeps recording_keeps saving_keeps sending_keeps echoing_keeps

lemma moved_on_trans: "moved_on a b \<Longrightarrow> moved_on b c \<Longrightarrow> moved_on a c"
  by (auto simp: moved_on_def)

lemma one_shot_keeps:
  assumes "calltest_iterate_one_shot api av g gr tp ct w = Inr (r, w')"
  shows "(r = None \<longrightarrow> step ct = BYE) \<and> (\<forall>ct'. r = Some ct' \<longrightarrow> moved_on ct ct')"
proof (cases "step ct")
  case ENTERING
  obtain ct1 w1 where e: "do_entering api ct w = (ct1, w1)" by fastforce
  with assms ENTERING obtain ct2 where r: "r = Some ct2" "do_greeter api gr tp ct1 w1 = Inr (ct2, w')"
    by (auto simp: calltest_iterate_one_shot_def r_bind_eq_Inr)
  from moved_on_trans [OF entering_keeps [OF e] greeter_keeps [OF r(2)]] r(1) show ?thesis by simp
qed (use assms in \<open>auto simp: calltest_iterate_one_shot_def r_bind_eq_Inr dest: bodies_keep\<close>)

lemma iterate_testers_numbers:
  assumes "iterate_testers api av g gr tp cts w = Inr (cts', w')"
  shows "set (map ct_friend_number cts') \<subseteq> set (map ct_friend_number cts) \<and> (testers_ok cts \<longrightarrow> testers_ok cts')"
  using assms
proof (induction cts arbitrary: w cts' w')
  case (Cons ct cts)
  then obtain r w1 cts1 where i: "calltest_iterate_one_shot api av g gr tp ct w = Inr (r, w1)"
    "iterate_testers api av g gr tp cts w1 = Inr (cts1, w')"
    "cts' = (case r of None \<Rightarrow> cts1 | Some ct \<Rightarrow> ct # cts1)" by (auto simp: r_bind_eq_Inr)
  from Cons.IH [OF i(2)] one_shot_keeps [OF i(1)] i(3) show ?case
    by (cases r) (auto simp: testers_ok_def moved_on_def)
qed (simp add: testers_ok_def)

section \<open>Well-formed testers\<close>

text \<open>
  A record is empty and without a format, or has as many samples as its count and channels
  say. The fields that a step reads were written by an earlier one.
\<close>

definition record_ok :: "pcm_record \<Rightarrow> bool" where
  "record_ok rec \<longleftrightarrow> rec = record_init \<or>
     (\<exists>ch rate. channels rec = Some ch \<and> samplerate rec = Some rate \<and>
        length (pcm rec) = unat ch * samples_count rec)"

definition tester_ok :: "call_tester \<Rightarrow> bool" where
  "tester_ok ct \<longleftrightarrow> record_ok (ctrecord ct) \<and>
     (step ct \<noteq> ENTERING \<and> step ct \<noteq> BYE \<longrightarrow> samples_send ct \<noteq> None) \<and>
     (step ct = RECORDING \<longrightarrow> callstart ct \<noteq> None)"

lemma record_ok_init [simp]: "record_ok record_init"
  by (simp add: record_ok_def)

lemma tester_ok_new [simp]: "tester_ok (call_tester_new n name)"
  by (simp add: tester_ok_def call_tester_new_def)

lemma length_append_samples:
  "length data \<ge> ch * n \<Longrightarrow> length (append_samples ch n data rec) = ch * (n + samples_count rec)"
  by (simp add: append_samples_def Let_def add_mult_distrib2)

lemma receive_frame_ok:
  assumes "receive_frame data n ch rate ct = Inr ct'" "tester_ok ct"
  shows "tester_ok ct' \<and> moved_on ct ct'"
  using assms
  by (auto simp: receive_frame_def Let_def tester_ok_def moved_on_def record_ok_def length_append_samples
      not_less add.commute split: if_splits)

lemma playback_result:
  assumes "audio_playback api ct rec tox = Inr (n, ct', tox')"
  shows "\<exists>d sent. ct' = ct\<lparr>delay := d, samples_send := Some sent\<rparr>"
proof -
  from assms obtain r rate sent where r: "rec = Some r" "samplerate r = Some rate" "samples_send ct = Some sent"
    by (auto simp: audio_playback_def rget_def r_bind_eq_Inr Let_def split: option.splits if_splits)
  from assms r have "ct' = ct\<lparr>delay := frame_delay rate\<rparr> \<or>
      ct' = ct\<lparr>delay := frame_delay rate, samples_send := Some (sent + frame_size rate)\<rparr>"
    by (auto simp: audio_playback_def rget_def r_bind_eq_Inr Let_def case_prod_unfold
        split: option.splits if_splits)
  moreover have "ct\<lparr>delay := frame_delay rate\<rparr> = ct\<lparr>delay := frame_delay rate, samples_send := Some sent\<rparr>"
    using r(3) by simp
  ultimately show ?thesis by blast
qed

text \<open>What the two steps that play sound do to the tester.\<close>

lemma greeter_result:
  assumes "do_greeter api gr tp ct w = Inr (ct', w')"
  shows "\<exists>d sent. ct' = ct\<lparr>delay := d, samples_send := Some sent\<rparr> \<or>
    ct' = ct\<lparr>delay := d, samples_send := Some sent, callstart := Some tp, step := next_step (step ct)\<rparr>"
proof -
  from assms obtain n ct1 tox where p: "audio_playback api ct gr (w_tox w) = Inr (n, ct1, tox)"
    by (auto simp: do_greeter_def r_bind_eq_Inr)
  with assms have "ct' = ct1 \<or> ct' = ct1\<lparr>callstart := Some tp, step := next_step (step ct1)\<rparr>"
    by (auto simp: do_greeter_def Let_def split: if_splits)
  moreover obtain d sent where "ct1 = ct\<lparr>delay := d, samples_send := Some sent\<rparr>"
    using playback_result [OF p] by blast
  ultimately show ?thesis by fastforce
qed

lemma echoing_result:
  assumes "do_echoing api ct w = Inr (ct', w')"
  shows "\<exists>d sent. ct' = ct\<lparr>delay := d, samples_send := Some sent\<rparr> \<or>
    ct' = ct\<lparr>delay := d, samples_send := Some sent, step := next_step (step ct)\<rparr>"
proof -
  from assms obtain n ct1 tox where p: "audio_playback api ct (Some (ctrecord ct)) (w_tox w) = Inr (n, ct1, tox)"
    by (auto simp: do_echoing_def r_bind_eq_Inr)
  with assms have "ct' = ct1 \<or> ct' = ct1\<lparr>step := next_step (step ct1)\<rparr>"
    by (auto simp: do_echoing_def Let_def split: if_splits)
  moreover obtain d sent where "ct1 = ct\<lparr>delay := d, samples_send := Some sent\<rparr>"
    using playback_result [OF p] by blast
  ultimately show ?thesis by fastforce
qed

lemma greeter_ok:
  "do_greeter api gr tp ct w = Inr (ct', w') \<Longrightarrow> record_ok (ctrecord ct) \<Longrightarrow> step ct = GREETER \<Longrightarrow> tester_ok ct'"
  by (drule greeter_result) (auto simp: tester_ok_def)

lemma echoing_ok: "do_echoing api ct w = Inr (ct', w') \<Longrightarrow> tester_ok ct \<Longrightarrow> step ct = ECHOING \<Longrightarrow> tester_ok ct'"
  by (drule echoing_result) (auto simp: tester_ok_def)

lemma one_shot_ok:
  assumes "calltest_iterate_one_shot api av g gr tp ct w = Inr (Some ct', w')" "tester_ok ct"
  shows "tester_ok ct'"
proof (cases "step ct")
  case ENTERING
  obtain ct1 w1 where e: "do_entering api ct w = (ct1, w1)" by fastforce
  with ENTERING assms have "do_greeter api gr tp ct1 w1 = Inr (ct', w')"
    by (auto simp: calltest_iterate_one_shot_def r_bind_eq_Inr)
  moreover have "ctrecord ct1 = ctrecord ct" "step ct1 = GREETER"
    using e ENTERING by (auto simp: do_entering_def Let_def)
  moreover have "record_ok (ctrecord ct)" using assms(2) by (simp add: tester_ok_def)
  ultimately show ?thesis using greeter_ok by metis
next
  case GREETER
  with assms show ?thesis
    by (auto simp: calltest_iterate_one_shot_def r_bind_eq_Inr tester_ok_def [of ct] intro: greeter_ok)
next
  case ECHOING
  with assms show ?thesis by (auto simp: calltest_iterate_one_shot_def r_bind_eq_Inr intro: echoing_ok)
qed (use assms in \<open>auto simp: calltest_iterate_one_shot_def do_recording_def do_saving_def do_sending_def
    r_bind_eq_Inr tester_ok_def split: if_splits\<close>)

section \<open>The machine\<close>

text \<open>Everything that happens to the testers, the clock readings included.\<close>

inductive call_move :: "'t toxcore \<Rightarrow> avlib \<Rightarrow> (nat \<Rightarrow> char) \<Rightarrow> 't cstate \<Rightarrow> 't cstate \<Rightarrow> bool" for api av g where
  incoming: "call_move api av g s (call api av n audio video s)"
| reported: "call_move api av g s (call_state api av n st s)"
| framed: "audio_receive_frame n data count ch rate s = Inr s' \<Longrightarrow> call_move api av g s s'"
| visited: "calltest_iterate api av g tp s = Inr s' \<Longrightarrow> call_move api av g s s'"

inductive_cases call_moveE: "call_move api av g s s'"

definition calls_ok :: "'t cstate \<Rightarrow> bool" where
  "calls_ok s \<longleftrightarrow> testers_ok (calltesters s) \<and> (\<forall>ct\<in>set (calltesters s). tester_ok ct)"

lemma add_entry_ok:
  assumes "calls_ok s"
  shows "calls_ok (call_tester_add_entry av n s)"
proof (cases "call_tester_by_friend_number (calltesters s) n")
  case None
  obtain name files where m: "mkstemps av ''/tmp/call-XXXXXX.wav'' (w_fs (c_w s)) = (name, files)" by fastforce
  let ?new = "call_tester_new n name"
  have "ct_friend_number ?new = n" by (simp add: call_tester_new_def)
  with None assms testers.unique_insert [of "calltesters s" ?new]
  have "testers_ok (tester_insert ?new (calltesters s))" by (simp add: calls_ok_def testers_ok_def)
  with None m assms show ?thesis by (simp add: call_tester_add_entry_def calls_ok_def testers.set_insert)
qed (use assms in \<open>simp add: call_tester_add_entry_def\<close>)

lemma calls_ok_world [simp]: "calls_ok (s\<lparr>c_w := w\<rparr>) = calls_ok s"
  by (simp add: calls_ok_def)

lemma update_tester_ok:
  assumes "update_tester n upd cts = Inr cts'" and "\<forall>ct\<in>set cts. tester_ok ct"
    and "\<And>ct ct'. upd ct = Inr ct' \<Longrightarrow> tester_ok ct \<Longrightarrow> tester_ok ct' \<and> moved_on ct ct'"
  shows "map ct_friend_number cts' = map ct_friend_number cts \<and> (\<forall>ct\<in>set cts'. tester_ok ct)"
  using assms(1,2)
proof (induction cts arbitrary: cts')
  case (Cons ct cts)
  show ?case
  proof (cases "ct_friend_number ct = n")
    case True
    with Cons.prems obtain ct' where u: "upd ct = Inr ct'" "cts' = ct' # cts" by (auto simp: r_bind_eq_Inr)
    have "tester_ok ct" using Cons.prems(2) by simp
    from assms(3) [OF u(1) this] u(2) Cons.prems(2) show ?thesis by (simp add: moved_on_def)
  next
    case False
    with Cons.prems obtain cts1 where u: "update_tester n upd cts = Inr cts1" "cts' = ct # cts1"
      by (auto simp: r_bind_eq_Inr)
    have "\<forall>ct\<in>set cts. tester_ok ct" using Cons.prems(2) by simp
    from Cons.IH [OF u(1) this] u(2) Cons.prems(2) show ?thesis by simp
  qed
qed simp

lemma tester_ok_bye [simp]: "tester_ok ct \<Longrightarrow> tester_ok (ct\<lparr>step := BYE\<rparr>)"
  by (simp add: tester_ok_def)

lemma hang_up_ok:
  "map ct_friend_number (set_first P (\<lambda>ct. ct\<lparr>step := BYE\<rparr>) cts) = map ct_friend_number cts"
  "list_all tester_ok cts \<Longrightarrow> list_all tester_ok (set_first P (\<lambda>ct. ct\<lparr>step := BYE\<rparr>) cts)"
  by (induction cts) simp_all

lemma iterate_testers_ok:
  assumes "iterate_testers api av g gr tp cts w = Inr (cts', w')" "\<forall>ct\<in>set cts. tester_ok ct"
  shows "\<forall>ct\<in>set cts'. tester_ok ct"
  using assms
proof (induction cts arbitrary: w cts' w')
  case (Cons ct cts)
  then obtain r w1 cts1 where i: "calltest_iterate_one_shot api av g gr tp ct w = Inr (r, w1)"
    "iterate_testers api av g gr tp cts w1 = Inr (cts1, w')"
    "cts' = (case r of None \<Rightarrow> cts1 | Some ct \<Rightarrow> ct # cts1)" by (auto simp: r_bind_eq_Inr)
  with Cons.IH [OF i(2)] Cons.prems(2) one_shot_ok [of api av g gr tp ct w _ w1] show ?case
    by (auto split: option.splits)
qed simp

interpretation calls: machine_invariant "call_move api av g" calls_ok for api av g
proof
  fix s t
  assume "call_move api av g s t" and ok: "calls_ok s"
  then show "calls_ok t"
  proof cases
    case (incoming n audio video)
    then show ?thesis using ok by (simp add: call_def case_prod_unfold Let_def add_entry_ok)
  next
    case (reported n st)
    have "calls_ok (s\<lparr>calltesters := set_first P (\<lambda>ct. ct\<lparr>step := BYE\<rparr>) (calltesters s)\<rparr>)" for P
      using ok hang_up_ok(2) [of "calltesters s"] by (simp add: testers_ok_def calls_ok_def hang_up_ok(1) list_all_iff)
    with reported ok show ?thesis
      by (simp add: call_state_def Let_def add_entry_ok split: option.splits)
  next
    case (framed n data count ch rate)
    then obtain cts where c: "update_tester n (receive_frame data count ch rate) (calltesters s) = Inr cts"
      "t = s\<lparr>calltesters := cts\<rparr>" by (auto simp: audio_receive_frame_def r_bind_eq_Inr)
    from update_tester_ok [OF c(1)] receive_frame_ok ok show ?thesis
      by (auto simp: c(2) calls_ok_def testers_ok_def)
  next
    case (visited tp)
    then obtain cts w where c: "iterate_testers api av g (greeter s) tp (calltesters s) (c_w s) = Inr (cts, w)"
      "t = s\<lparr>calltesters := cts, c_w := w\<rparr>" by (auto simp: calltest_iterate_def r_bind_eq_Inr)
    from iterate_testers_numbers [OF c(1)] iterate_testers_ok [OF c(1)] ok show ?thesis
      by (auto simp: c(2) calls_ok_def)
  qed
qed

end
