(* ===== verification/Call_Properties.thy ===== *)
theory Call_Properties
  imports Call_Machine File_Transfer
begin

text \<open>
  What a call does: the invariant of all testers, the recording, where the sound is read past
  its end, and that a call ends. For the latter every visit of a tester decreases a bound on
  the visits left.
\<close>

section \<open>Whole frames\<close>

definition whole :: "u32 \<Rightarrow> u8 \<Rightarrow> pcm_record \<Rightarrow> bool" where
  "whole rate ch rec \<longleftrightarrow> rate \<noteq> 0 \<and> samplerate rec = Some rate \<and> channels rec = Some ch \<and>
     (\<exists>xs. pcm rec = map Some xs \<and> length xs = samples_count rec * unat ch) \<and>
     (\<exists>k. samples_count rec = k * frame_size rate)"

definition frames :: "u32 \<Rightarrow> pcm_record \<Rightarrow> nat" where
  "frames rate rec = samples_count rec div frame_size rate"

lemma those_map_Some [simp]: "those (map Some xs) = Some xs"
  by (induction xs) auto

lemma frame_samples_map:
  "from + n \<le> length xs \<Longrightarrow> frame_samples from n (map Some xs) = Inr (take n (drop from xs))"
  by (simp add: frame_samples_def take_map drop_map)

text \<open>Playing the next frame of a whole record: nothing, or exactly one frame.\<close>

lemma playback_whole:
  assumes w: "whole rate ch rec" and s: "samples_send ct = Some (j * frame_size rate)"
  shows "\<exists>m tox'. audio_playback api ct (Some rec) tox = Inr (m, ct\<lparr>delay := frame_delay rate,
        samples_send := Some (j * frame_size rate + m)\<rparr>, tox') \<and>
      (m = 0 \<or> m = frame_size rate \<and> (j + 1) * frame_size rate \<le> samples_count rec)"
proof -
  let ?n = "frame_size rate"
  from w obtain xs k where r: "pcm rec = map Some xs" "length xs = samples_count rec * unat ch"
    "samples_count rec = k * ?n" "samplerate rec = Some rate" "channels rec = Some ch" "rate \<noteq> 0"
    unfolding whole_def by blast
  have same: "ct\<lparr>delay := frame_delay rate, samples_send := Some (j * ?n)\<rparr> = ct\<lparr>delay := frame_delay rate\<rparr>"
    using s by simp
  show ?thesis
  proof (cases "j * ?n < k * ?n")
    case False
    with r s same show ?thesis by (intro exI [of _ 0] exI [of _ tox]) (auto simp: audio_playback_def rget_def Let_def)
  next
    case True
    then have le: "(j + 1) * ?n \<le> samples_count rec" using r(3) mult_le_mono1 [of "j + 1" k ?n] by simp
    then have "(j + 1) * ?n * unat ch \<le> length xs" using r(2) by simp
    then have "j * ?n * unat ch + ?n * unat ch \<le> length xs" by (simp add: algebra_simps)
    from frame_samples_map [OF this] r(1)
    have f: "frame_samples (j * ?n * unat ch) (?n * unat ch) (pcm rec) =
      Inr (take (?n * unat ch) (drop (j * ?n * unat ch) xs))" by simp
    obtain b tox' where a: "toxav_audio_send_frame api (ct_friend_number ct)
      (take (?n * unat ch) (drop (j * ?n * unat ch) xs)) (word_of_nat ?n) ch rate tox = (b, tox')" by fastforce
    have p: "audio_playback api ct (Some rec) tox = (if \<not> b then Inr (0, ct\<lparr>delay := frame_delay rate\<rparr>, tox')
        else Inr (?n, ct\<lparr>delay := frame_delay rate, samples_send := Some (j * ?n + ?n)\<rparr>, tox'))"
      using True r s f a by (simp add: audio_playback_def rget_def Let_def)
    show ?thesis
    proof (cases b)
      case True
      with p le show ?thesis by auto
    next
      case False
      with p same show ?thesis by auto
    qed
  qed
qed

section \<open>The life of one call\<close>

datatype call_event = Tick timespec | Frame "int list" nat u8 u32 | Hangup

fun run_call ::
  "'t toxcore \<Rightarrow> avlib \<Rightarrow> (nat \<Rightarrow> char) \<Rightarrow> pcm_record option \<Rightarrow> call_event list \<Rightarrow> call_tester \<Rightarrow> 't fstate \<Rightarrow>
   (call_tester option \<times> 't fstate) res" where
  "run_call api av g gr [] ct w = Inr (Some ct, w)"
| "run_call api av g gr (Tick tp # es) ct w =
     r_bind (calltest_iterate_one_shot api av g gr tp ct w) (\<lambda>(r, w).
       case r of None \<Rightarrow> Inr (None, w) | Some ct \<Rightarrow> run_call api av g gr es ct w)"
| "run_call api av g gr (Frame data n ch rate # es) ct w =
     r_bind (receive_frame data n ch rate ct) (\<lambda>ct. run_call api av g gr es ct w)"
| "run_call api av g gr (Hangup # es) ct w = run_call api av g gr es (ct\<lparr>step := BYE\<rparr>) w"

text \<open>
  Visits at least \<open>d\<close> nanoseconds apart, the first one after the time \<open>t\<close>, and frames of 20
  milliseconds in one format.
\<close>

fun paced :: "int \<Rightarrow> int \<Rightarrow> u32 \<Rightarrow> u8 \<Rightarrow> call_event list \<Rightarrow> bool" where
  "paced d t rate ch [] = True"
| "paced d t rate ch (Tick tp # es) = (ts_clock tp \<and> t + d \<le> ts_ns tp \<and> paced d (ts_ns tp) rate ch es)"
| "paced d t rate ch (Frame data n c r # es) =
     (n = frame_size rate \<and> c = ch \<and> r = rate \<and> length data = n * unat ch \<and> paced d t rate ch es)"
| "paced d t rate ch (Hangup # es) = paced d t rate ch es"

definition ticks :: "call_event list \<Rightarrow> nat" where
  "ticks es = length (filter (\<lambda>e. case e of Tick _ \<Rightarrow> True | _ \<Rightarrow> False) es)"

definition arrivals :: "call_event list \<Rightarrow> nat" where
  "arrivals es = length (filter (\<lambda>e. case e of Frame _ _ _ _ \<Rightarrow> True | _ \<Rightarrow> False) es)"

lemma ticks_simps [simp]:
  "ticks [] = 0" "ticks (Tick tp # es) = Suc (ticks es)"
  "ticks (Frame data n c r # es) = ticks es" "ticks (Hangup # es) = ticks es"
  by (simp_all add: ticks_def)

lemma arrivals_simps [simp]:
  "arrivals [] = 0" "arrivals (Tick tp # es) = arrivals es"
  "arrivals (Frame data n c r # es) = Suc (arrivals es)" "arrivals (Hangup # es) = arrivals es"
  by (simp_all add: arrivals_def)

text \<open>How a tester looks at the time \<open>t\<close> of its last visit.\<close>

definition live :: "u32 \<Rightarrow> u32 \<Rightarrow> u8 \<Rightarrow> int \<Rightarrow> call_tester \<Rightarrow> bool" where
  "live r1 rate ch t ct \<longleftrightarrow> rate \<noteq> 0 \<and> (ctrecord ct = record_init \<or> whole rate ch (ctrecord ct)) \<and>
     (case step ct of
        GREETER \<Rightarrow> \<exists>j. samples_send ct = Some (j * frame_size r1)
      | RECORDING \<Rightarrow> \<exists>cs. callstart ct = Some cs \<and> ts_clock cs \<and> ts_ns cs \<le> t
      | SENDING \<Rightarrow> samples_send ct = Some 0 \<and> whole rate ch (ctrecord ct)
      | ECHOING \<Rightarrow> (\<exists>j. samples_send ct = Some (j * frame_size rate)) \<and> whole rate ch (ctrecord ct)
      | _ \<Rightarrow> True)"

definition sent_frames :: "u32 \<Rightarrow> call_tester \<Rightarrow> nat" where
  "sent_frames rate ct = (case samples_send ct of None \<Rightarrow> 0 | Some s \<Rightarrow> s div frame_size rate)"

text \<open>The bound on the visits left.\<close>

definition visits :: "u32 \<Rightarrow> pcm_record \<Rightarrow> u32 \<Rightarrow> int \<Rightarrow> int \<Rightarrow> call_tester \<Rightarrow> nat" where
  "visits r1 gr rate d t ct =
     (let rec = frames rate (ctrecord ct); wait = nat (10000000000 div d) in
      case step ct of
        ENTERING \<Rightarrow> frames r1 gr + wait + rec + 7
      | GREETER \<Rightarrow> (frames r1 gr - sent_frames r1 ct) + wait + rec + 6
      | RECORDING \<Rightarrow>
          (case callstart ct of None \<Rightarrow> 0 | Some cs \<Rightarrow> nat ((ts_ns cs + 10000000000 - t) div d) + rec + 5)
      | SAVING \<Rightarrow> rec + 4
      | SENDING \<Rightarrow> rec + 3
      | ECHOING \<Rightarrow> (rec - sent_frames rate ct) + 2
      | BYE \<Rightarrow> 1)"

lemma sent_frames_Some:
  "samples_send ct = Some (j * frame_size rate) \<Longrightarrow> frame_size rate \<noteq> 0 \<Longrightarrow> sent_frames rate ct = j"
  by (simp add: sent_frames_def)

lemma whole_frames:
  assumes "whole rate ch rec" "m = frame_size rate" "m \<noteq> 0" "(j + 1) * m \<le> samples_count rec"
  shows "frames rate rec - (j * m + m) div m < frames rate rec - j * m div m"
proof -
  have "(j * m + m) div m = j + 1" "j * m div m = j" using assms(3) by simp_all
  moreover have "j + 1 \<le> frames rate rec"
    using assms by (simp add: frames_def less_eq_div_iff_mult_less_eq)
  ultimately show ?thesis by linarith
qed

lemma greeter_visit:
  assumes gr: "whole r1 c1 gr" and s: "samples_send ct = Some (j * frame_size r1)" "step ct = GREETER"
    and rec: "rate \<noteq> 0" "ctrecord ct = record_init \<or> whole rate ch (ctrecord ct)" and tp: "ts_clock tp"
  shows "\<exists>ct' w'. do_greeter api (Some gr) tp ct w = Inr (ct', w') \<and> live r1 rate ch (ts_ns tp) ct' \<and>
    visits r1 gr rate d (ts_ns tp) ct' < visits r1 gr rate d t ct"
proof -
  let ?n = "frame_size r1"
  from playback_whole [OF gr s(1), of api "w_tox w"]
  obtain m tox' where p: "audio_playback api ct (Some gr) (w_tox w) = Inr (m, ct\<lparr>delay := frame_delay r1,
        samples_send := Some (j * ?n + m)\<rparr>, tox')"
      "m = 0 \<or> m = ?n \<and> (j + 1) * ?n \<le> samples_count gr"
    by (elim exE conjE) (rule that)
  show ?thesis
  proof (cases "m = 0")
    case True
    with p s rec tp show ?thesis
      by (simp add: do_greeter_def Let_def live_def visits_def)
  next
    case False
    with p(2) have m: "m = ?n" "?n \<noteq> 0" "(j + 1) * ?n \<le> samples_count gr" by auto
    define ct' where "ct' = ct\<lparr>delay := frame_delay r1, samples_send := Some (j * ?n + m)\<rparr>"
    have "j * ?n + m = (j + 1) * ?n" using m(1) by simp
    then have sent: "samples_send ct' = Some ((j + 1) * ?n)" and st: "step ct' = GREETER" "ctrecord ct' = ctrecord ct"
      using s(2) by (simp_all add: ct'_def)
    have less: "frames r1 gr - (j + 1) < frames r1 gr - j"
      using whole_frames [OF gr m(1)] m by simp
    have "do_greeter api (Some gr) tp ct w = Inr (ct', w\<lparr>w_tox := tox'\<rparr>)"
      using False p(1) by (simp add: do_greeter_def ct'_def)
    moreover have "live r1 rate ch (ts_ns tp) ct'"
      unfolding live_def st callstep.case using sent rec by blast
    moreover have "sent_frames r1 ct' = j + 1" "sent_frames r1 ct = j"
      using sent_frames_Some [OF sent m(2)] sent_frames_Some [OF s(1) m(2)] by simp_all
    then have "visits r1 gr rate d (ts_ns tp) ct' < visits r1 gr rate d t ct"
      unfolding visits_def Let_def st s(2) callstep.case using less by linarith
    ultimately show ?thesis by blast
  qed
qed

lemma echoing_visit:
  assumes rec: "whole rate ch (ctrecord ct)" and s: "samples_send ct = Some (j * frame_size rate)" "step ct = ECHOING"
  shows "\<exists>ct' w'. do_echoing api ct w = Inr (ct', w') \<and> live r1 rate ch t' ct' \<and>
    visits r1 gr rate d t' ct' < visits r1 gr rate d t ct"
proof -
  let ?n = "frame_size rate"
  have nz: "rate \<noteq> 0" using rec by (simp add: whole_def)
  from playback_whole [OF rec s(1), of api "w_tox w"]
  obtain m tox' where p: "audio_playback api ct (Some (ctrecord ct)) (w_tox w) = Inr (m, ct\<lparr>delay := frame_delay rate,
        samples_send := Some (j * ?n + m)\<rparr>, tox')"
      "m = 0 \<or> m = ?n \<and> (j + 1) * ?n \<le> samples_count (ctrecord ct)"
    by (elim exE conjE) (rule that)
  show ?thesis
  proof (cases "m = 0")
    case True
    with p s rec nz show ?thesis
      by (simp add: do_echoing_def Let_def live_def visits_def)
  next
    case False
    with p(2) have m: "m = ?n" "?n \<noteq> 0" "(j + 1) * ?n \<le> samples_count (ctrecord ct)" by auto
    define ct' where "ct' = ct\<lparr>delay := frame_delay rate, samples_send := Some (j * ?n + m)\<rparr>"
    have "j * ?n + m = (j + 1) * ?n" using m(1) by simp
    then have sent: "samples_send ct' = Some ((j + 1) * ?n)" and st: "step ct' = ECHOING" "ctrecord ct' = ctrecord ct"
      using s(2) by (simp_all add: ct'_def)
    have less: "frames rate (ctrecord ct) - (j + 1) < frames rate (ctrecord ct) - j"
      using whole_frames [OF rec m(1)] m by simp
    have "do_echoing api ct w = Inr (ct', w\<lparr>w_tox := tox'\<rparr>)"
      using False p(1) by (simp add: do_echoing_def ct'_def)
    moreover have "live r1 rate ch t' ct'"
      unfolding live_def st callstep.case using sent rec nz by blast
    moreover have "sent_frames rate ct' = j + 1" "sent_frames rate ct = j"
      using sent_frames_Some [OF sent m(2)] sent_frames_Some [OF s(1) m(2)] by simp_all
    then have "visits r1 gr rate d t' ct' < visits r1 gr rate d t ct"
      unfolding visits_def Let_def st s(2) callstep.case using less by linarith
    ultimately show ?thesis by blast
  qed
qed

lemma recording_visit:
  assumes rec: "rate \<noteq> 0" "ctrecord ct = record_init \<or> whole rate ch (ctrecord ct)"
    and s: "step ct = RECORDING" "callstart ct = Some cs" "ts_clock cs" "ts_ns cs \<le> t"
    and tp: "ts_clock tp" "0 < d" "t + d \<le> ts_ns tp"
  shows "\<exists>ct' w'. do_recording api tp ct w = Inr (ct', w') \<and> live r1 rate ch (ts_ns tp) ct' \<and>
    visits r1 gr rate d (ts_ns tp) ct' < visits r1 gr rate d t ct"
proof -
  have le: "ts_ns cs \<le> ts_ns tp" using s(4) tp(2,3) by linarith
  have "uint (word_of_int (ts_ns tp - ts_ns cs) :: u64) = ts_ns tp - ts_ns cs"
    by (rule uint_word_of_int64) (use ts_clock_ns [OF tp(1)] ts_clock_ns [OF s(3)] le in auto)
  then have b: "nanosec_timeout cs tp 10000000000 = Inr (10000000000 \<le> ts_ns tp - ts_ns cs)"
    using nanosec_timeout_value [OF s(3) tp(1), of 10000000000] by (simp add: word_le_def)
  show ?thesis
  proof (cases "10000000000 \<le> ts_ns tp - ts_ns cs")
    case True
    with b s rec show ?thesis by (auto simp: do_recording_def rget_def live_def visits_def Let_def)
  next
    case False
    let ?left = "\<lambda>t. ts_ns cs + 10000000000 - t"
    have "?left (ts_ns tp) + d \<le> ?left t" using tp(3) by linarith
    then have "(?left (ts_ns tp) + d) div d \<le> ?left t div d" by (rule zdiv_mono1) (rule tp(2))
    moreover have "(?left (ts_ns tp) + d) div d = ?left (ts_ns tp) div d + 1"
      using tp(2) by (intro div_add_self2) simp
    ultimately have "?left (ts_ns tp) div d + 1 \<le> ?left t div d" by linarith
    moreover have "0 \<le> ?left (ts_ns tp) div d" using False tp(2) by (simp add: pos_imp_zdiv_nonneg_iff)
    ultimately have "nat (?left (ts_ns tp) div d) < nat (?left t div d)" by linarith
    then have "visits r1 gr rate d (ts_ns tp) ct < visits r1 gr rate d t ct"
      unfolding visits_def Let_def s(1,2) callstep.case option.case by linarith
    moreover have "live r1 rate ch (ts_ns tp) ct" unfolding live_def s(1) callstep.case using rec s le by blast
    moreover have "do_recording api tp ct w = Inr (ct, w)" using b False s(2) by (simp add: do_recording_def rget_def)
    ultimately show ?thesis by blast
  qed
qed

lemma saving_visit:
  assumes "whole rate ch (ctrecord ct)" "step ct = SAVING"
  shows "\<exists>ct' w'. do_saving av ct w = Inr (ct', w') \<and> live r1 rate ch t' ct' \<and>
    visits r1 gr rate d t' ct' < visits r1 gr rate d t ct"
proof -
  let ?rec = "ctrecord ct"
  from assms(1) obtain xs where r: "pcm ?rec = map Some xs" "length xs = samples_count ?rec * unat ch"
    "samplerate ?rec = Some rate" "channels ?rec = Some ch" "rate \<noteq> 0" unfolding whole_def by blast
  have "frame_samples 0 (samples_count ?rec * unat ch) (pcm ?rec) = Inr xs"
    using frame_samples_map [of 0 "samples_count ?rec * unat ch" xs] r(1,2) by simp
  then have "\<exists>files. audio_write av (outfilename ct) ?rec (w_fs w) = Inr files"
    using r(3,4) by (simp add: audio_write_def rget_def split: option.splits)
  with assms r(5) show ?thesis by (auto simp: do_saving_def live_def visits_def)
qed

lemma send_path_ok: "\<exists>w'. send_path api g n path name w = Inr w'"
proof -
  have "\<exists>num f' w'. add_filesender api g (file_sender_zero\<lparr>s_friend_number := n, s_pathname := Some path,
      s_info := file_node_zero\<lparr>fn_file := Some name\<rparr>\<rparr>) w = Inr (num, f', w')"
    by (auto simp: add_filesender_def announce_def load_hash_def file_sender_zero_def file_node_zero_def
        measure_file_def case_prod_unfold Let_def split: option.splits)
  then show ?thesis by (auto simp: send_path_def)
qed

lemma sending_visit:
  assumes "whole rate ch (ctrecord ct)" "step ct = SENDING" "samples_send ct = Some 0"
  shows "\<exists>ct' w'. do_sending api g ct w = Inr (ct', w') \<and> live r1 rate ch t' ct' \<and>
    visits r1 gr rate d t' ct' < visits r1 gr rate d t ct"
proof -
  obtain w' where "send_path api g (ct_friend_number ct) (outfilename ct) ''call-test.wav'' w = Inr w'"
    using send_path_ok by blast
  moreover have "rate \<noteq> 0" using assms(1) by (simp add: whole_def)
  ultimately show ?thesis using assms by (auto simp: do_sending_def live_def visits_def sent_frames_def)
qed

text \<open>One visit: the end, a record that was never written, or fewer visits left.\<close>

lemma one_shot_record:
  assumes "calltest_iterate_one_shot api av g gr tp ct w = Inr (Some ct', w')"
  shows "ctrecord ct' = ctrecord ct"
proof (cases "step ct")
  case ENTERING
  obtain ct1 w1 where e: "do_entering api ct w = (ct1, w1)" by fastforce
  with assms ENTERING have "do_greeter api gr tp ct1 w1 = Inr (ct', w')"
    by (auto simp: calltest_iterate_one_shot_def r_bind_eq_Inr)
  from greeter_result [OF this] e show ?thesis by (auto simp: do_entering_def Let_def)
qed (use assms in \<open>auto simp: calltest_iterate_one_shot_def do_recording_def do_saving_def do_sending_def
    r_bind_eq_Inr split: if_splits dest!: greeter_result echoing_result\<close>)

lemma visit:
  assumes gr: "whole r1 c1 gr" and ct: "live r1 rate ch t ct" and tp: "ts_clock tp" "0 < d" "t + d \<le> ts_ns tp"
  shows "(\<exists>w'. calltest_iterate_one_shot api av g (Some gr) tp ct w = Inr (None, w')) \<or>
    calltest_iterate_one_shot api av g (Some gr) tp ct w = Inl Uninit \<and> ctrecord ct = record_init \<or>
    (\<exists>ct' w'. calltest_iterate_one_shot api av g (Some gr) tp ct w = Inr (Some ct', w') \<and>
       live r1 rate ch (ts_ns tp) ct' \<and> visits r1 gr rate d (ts_ns tp) ct' < visits r1 gr rate d t ct)"
proof -
  have rec: "rate \<noteq> 0" "ctrecord ct = record_init \<or> whole rate ch (ctrecord ct)"
    using ct by (simp_all add: live_def)
  show ?thesis
  proof (cases "step ct")
    case ENTERING
    obtain ct1 w1 where e: "do_entering api ct w = (ct1, w1)" by fastforce
    with ENTERING have c1: "samples_send ct1 = Some (0 * frame_size r1)" "step ct1 = GREETER" "ctrecord ct1 = ctrecord ct"
      by (auto simp: do_entering_def Let_def)
    have "visits r1 gr rate d t ct1 < visits r1 gr rate d t ct"
      unfolding visits_def Let_def ENTERING c1 callstep.case by linarith
    with greeter_visit [OF gr c1(1,2) rec [folded c1(3)] tp(1), of api w1 d t] e ENTERING show ?thesis
      by (fastforce simp: calltest_iterate_one_shot_def)
  next
    case GREETER
    with ct obtain j where "samples_send ct = Some (j * frame_size r1)" by (auto simp: live_def)
    from greeter_visit [OF gr this GREETER rec tp(1), of api w d t] GREETER show ?thesis
      by (fastforce simp: calltest_iterate_one_shot_def)
  next
    case RECORDING
    with ct obtain cs where "callstart ct = Some cs" "ts_clock cs" "ts_ns cs \<le> t" by (auto simp: live_def)
    from recording_visit [OF rec RECORDING this tp, of api w] RECORDING show ?thesis
      by (fastforce simp: calltest_iterate_one_shot_def)
  next
    case SAVING
    show ?thesis
    proof (cases "ctrecord ct = record_init")
      case True
      with SAVING show ?thesis
        by (simp add: calltest_iterate_one_shot_def do_saving_def audio_write_def record_init_def rget_def)
    next
      case False
      with rec have "whole rate ch (ctrecord ct)" by blast
      from saving_visit [OF this SAVING, of av w r1 "ts_ns tp" gr d t] SAVING show ?thesis by (fastforce simp: calltest_iterate_one_shot_def)
    qed
  next
    case SENDING
    with ct have "whole rate ch (ctrecord ct)" "samples_send ct = Some 0" by (simp_all add: live_def)
    from sending_visit [OF this(1) SENDING this(2), of api g w r1 "ts_ns tp" gr d t] SENDING show ?thesis
      by (fastforce simp: calltest_iterate_one_shot_def)
  next
    case ECHOING
    with ct obtain j where "whole rate ch (ctrecord ct)" "samples_send ct = Some (j * frame_size rate)"
      by (auto simp: live_def)
    from echoing_visit [OF this ECHOING, of api w r1 "ts_ns tp" gr d t] ECHOING show ?thesis by (fastforce simp: calltest_iterate_one_shot_def)
  next
    case BYE
    then show ?thesis by (simp add: calltest_iterate_one_shot_def)
  qed
qed

text \<open>A frame adds at most one visit, a hangup leaves one.\<close>

lemma append_whole:
  assumes "rec = record_init \<or> whole rate ch rec" "length data = frame_size rate * unat ch" "rate \<noteq> 0"
  shows "whole rate ch \<lparr>pcm = append_samples (unat ch) (frame_size rate) data rec, channels = Some ch,
      samples_count = samples_count rec + frame_size rate, samplerate = Some rate\<rparr>" (is "whole _ _ ?new")
proof -
  obtain xs k where r: "pcm rec = map Some xs" "length xs = samples_count rec * unat ch"
    "samples_count rec = k * frame_size rate"
  proof (cases "rec = record_init")
    case True
    then show ?thesis using that [of "[]" 0] by (simp add: record_init_def)
  next
    case False
    with assms(1) that show ?thesis unfolding whole_def by blast
  qed
  have "pcm ?new = map Some (xs @ data)"
    using assms(2) r(1,2) by (simp add: append_samples_def Let_def mult.commute)
  moreover have "length (xs @ data) = samples_count ?new * unat ch"
    using assms(2) r(2) by (simp add: algebra_simps)
  moreover have "samples_count ?new = (k + 1) * frame_size rate" using r(3) by simp
  ultimately show ?thesis using assms(3) unfolding whole_def by (metis pcm_record.select_convs(2,4))
qed

lemma arrival:
  assumes ct: "live r1 rate ch t ct" and data: "length data = frame_size rate * unat ch"
  shows "\<exists>ct'. receive_frame data (frame_size rate) ch rate ct = Inr ct' \<and> live r1 rate ch t ct' \<and>
    visits r1 gr rate d t ct' \<le> Suc (visits r1 gr rate d t ct)"
proof (cases "step ct = RECORDING")
  case False
  with ct show ?thesis by (simp add: receive_frame_def)
next
  case True
  from ct True obtain cs where l: "rate \<noteq> 0" "ctrecord ct = record_init \<or> whole rate ch (ctrecord ct)"
    "callstart ct = Some cs" "ts_clock cs" "ts_ns cs \<le> t" by (auto simp: live_def)
  let ?rec = "\<lparr>pcm = append_samples (unat ch) (frame_size rate) data (ctrecord ct), channels = Some ch,
      samples_count = samples_count (ctrecord ct) + frame_size rate, samplerate = Some rate\<rparr>"
  have "frames rate ?rec \<le> Suc (frames rate (ctrecord ct))"
    by (cases "frame_size rate = 0") (simp_all add: frames_def div_add_self2)
  then have "visits r1 gr rate d t (ct\<lparr>ctrecord := ?rec\<rparr>) \<le> Suc (visits r1 gr rate d t ct)"
    using True l(3) by (simp add: visits_def)
  moreover have "live r1 rate ch t (ct\<lparr>ctrecord := ?rec\<rparr>)"
    using append_whole [OF l(2) data l(1)] l True by (simp add: live_def)
  moreover have "receive_frame data (frame_size rate) ch rate ct = Inr (ct\<lparr>ctrecord := ?rec\<rparr>)"
    using True data by (simp add: receive_frame_def Let_def mult.commute)
  ultimately show ?thesis by blast
qed

lemma visits_pos: "live r1 rate ch t ct \<Longrightarrow> 0 < visits r1 gr rate d t ct"
  by (auto simp: visits_def live_def Let_def split: callstep.splits)

lemma run_ends:
  assumes "whole r1 c1 gr" "0 < d" "live r1 rate ch t ct" "paced d t rate ch es"
    and "visits r1 gr rate d t ct + arrivals es \<le> ticks es"
  shows "(\<exists>w'. run_call api av g (Some gr) es ct w = Inr (None, w')) \<or>
    run_call api av g (Some gr) es ct w = Inl Uninit \<and> ctrecord ct = record_init"
  using assms(3-)
proof (induction es arbitrary: t ct w)
  case Nil
  with visits_pos [OF Nil(1), of gr d] show ?case by simp
next
  case (Cons e es)
  show ?case
  proof (cases e)
    case (Tick tp)
    with Cons.prems have tp: "ts_clock tp" "t + d \<le> ts_ns tp" "paced d (ts_ns tp) rate ch es" by simp_all
    from visit [OF assms(1) Cons.prems(1) tp(1) assms(2) tp(2), of api av g w]
    consider (gone) w' where "calltest_iterate_one_shot api av g (Some gr) tp ct w = Inr (None, w')"
      | (fault) "calltest_iterate_one_shot api av g (Some gr) tp ct w = Inl Uninit" "ctrecord ct = record_init"
      | (left) ct' w' where "calltest_iterate_one_shot api av g (Some gr) tp ct w = Inr (Some ct', w')"
        "live r1 rate ch (ts_ns tp) ct'" "visits r1 gr rate d (ts_ns tp) ct' < visits r1 gr rate d t ct"
      by blast
    then show ?thesis
    proof cases
      case left
      with Cons.IH [OF left(2) tp(3), of w'] Cons.prems(3) Tick one_shot_record [OF left(1)] show ?thesis by simp
    qed (simp_all add: Tick)
  next
    case (Frame data n c r)
    with Cons.prems(2) have f: "n = frame_size rate" "c = ch" "r = rate" "length data = frame_size rate * unat ch"
      "paced d t rate ch es" by simp_all
    from arrival [OF Cons.prems(1) f(4)] obtain ct' where a: "receive_frame data (frame_size rate) ch rate ct = Inr ct'"
      "live r1 rate ch t ct'" "visits r1 gr rate d t ct' \<le> Suc (visits r1 gr rate d t ct)" by blast
    from a(1) have "ctrecord ct' = record_init \<longrightarrow> ctrecord ct = record_init"
      by (auto simp: receive_frame_def Let_def record_init_def split: if_splits)
    with Cons.IH [OF a(2) f(5), of w] a Cons.prems(3) show ?thesis by (auto simp: Frame f)
  next
    case Hangup
    have "live r1 rate ch t (ct\<lparr>step := BYE\<rparr>)" using Cons.prems(1) by (simp add: live_def)
    moreover have "visits r1 gr rate d t (ct\<lparr>step := BYE\<rparr>) \<le> visits r1 gr rate d t ct"
      using visits_pos [OF Cons.prems(1), of gr d] by (simp add: visits_def)
    ultimately show ?thesis using Cons.IH [of t "ct\<lparr>step := BYE\<rparr>" w] Cons.prems by (simp add: Hangup)
  qed
qed

text \<open>
  A call is heard if after some of the events its record has been written or it is in the last
  step. Up to then a fault is that of the empty record; from then on there is none.
\<close>

definition heard ::
  "'t toxcore \<Rightarrow> avlib \<Rightarrow> (nat \<Rightarrow> char) \<Rightarrow> pcm_record option \<Rightarrow> call_event list \<Rightarrow> call_tester \<Rightarrow> 't fstate \<Rightarrow> bool" where
  "heard api av g gr es ct w =
     list_ex (\<lambda>n. case run_call api av g gr (take n es) ct w of
         Inr (Some ct', _) \<Rightarrow> ctrecord ct' \<noteq> record_init \<or> step ct' = BYE
       | _ \<Rightarrow> False) [0..<Suc (length es)]"

lemma heardE:
  assumes "heard api av g gr es ct w"
  obtains es1 es2 ct1 w1 where "es = es1 @ es2" "run_call api av g gr es1 ct w = Inr (Some ct1, w1)"
    "ctrecord ct1 \<noteq> record_init \<or> step ct1 = BYE"
proof -
  from assms obtain n where n: "case run_call api av g gr (take n es) ct w of
      Inr (Some ct', _) \<Rightarrow> ctrecord ct' \<noteq> record_init \<or> step ct' = BYE | _ \<Rightarrow> False"
    unfolding heard_def list_ex_iff by blast
  then obtain ct1 w1 where "run_call api av g gr (take n es) ct w = Inr (Some ct1, w1)"
    "ctrecord ct1 \<noteq> record_init \<or> step ct1 = BYE" by (simp split: sum.splits prod.splits option.splits)
  then show thesis by (intro that [of "take n es" "drop n es"]) simp_all
qed

lemma heardI:
  assumes "run_call api av g gr es1 ct w = Inr (Some ct1, w1)" "ctrecord ct1 \<noteq> record_init \<or> step ct1 = BYE"
  shows "heard api av g gr (es1 @ es2) ct w"
  unfolding heard_def list_ex_iff using assms
  by (intro bexI [of _ "length es1"]) (auto simp del: upt_Suc)

lemma run_gone:
  "run_call api av g gr es ct w = Inr (None, w') \<Longrightarrow>
   \<exists>es1 es2 ct1 w1. es = es1 @ es2 \<and> run_call api av g gr es1 ct w = Inr (Some ct1, w1) \<and> step ct1 = BYE"
proof (induction es arbitrary: ct w)
  case (Cons e es)
  have first: ?case if "step ct = BYE" using that by (intro exI [of _ "[]"] exI [of _ "e # es"]) simp
  have rest: ?case if "run_call api av g gr es ct1 w1 = Inr (None, w')"
    and "\<And>es. run_call api av g gr (e # es) ct w = run_call api av g gr es ct1 w1" for ct1 w1
    using Cons.IH [OF that(1)] that(2) by (metis append_Cons)
  show ?case
  proof (cases e)
    case (Tick tp)
    with Cons.prems obtain r w1 where i: "calltest_iterate_one_shot api av g gr tp ct w = Inr (r, w1)"
      by (auto simp: r_bind_eq_Inr)
    show ?thesis
    proof (cases r)
      case None
      with one_shot_keeps [OF i] show ?thesis by (intro first) simp
    next
      case (Some ct1)
      with Cons.prems i Tick show ?thesis by (intro rest [of ct1 w1]) simp_all
    qed
  next
    case (Frame data n c r)
    with Cons.prems obtain ct1 where "receive_frame data n c r ct = Inr ct1" by (auto simp: r_bind_eq_Inr)
    with Cons.prems Frame show ?thesis by (intro rest [of ct1 w]) simp_all
  next
    case Hangup
    with Cons.prems show ?thesis by (intro rest [of "ct\<lparr>step := BYE\<rparr>" w]) simp_all
  qed
qed simp

text \<open>A tester that was heard has no fault, and an earlier one becomes it.\<close>

lemma heard_no_fault:
  assumes "whole r1 c1 gr" "0 < d" "live r1 rate ch t ct" "paced d t rate ch es"
    and "ctrecord ct \<noteq> record_init \<or> step ct = BYE"
  shows "run_call api av g (Some gr) es ct w \<noteq> Inl Uninit"
  using assms(3-)
proof (induction es arbitrary: t ct w)
  case (Cons e es)
  show ?case
  proof (cases e)
    case (Tick tp)
    with Cons.prems have tp: "ts_clock tp" "t + d \<le> ts_ns tp" "paced d (ts_ns tp) rate ch es" by simp_all
    show ?thesis
    proof (cases "step ct = BYE")
      case True
      then show ?thesis by (simp add: Tick calltest_iterate_one_shot_def)
    next
      case False
      with Cons.prems(3) have h: "ctrecord ct \<noteq> record_init" by simp
      with visit [OF assms(1) Cons.prems(1) tp(1) assms(2) tp(2), of api av g w]
        Cons.IH [OF _ tp(3)] one_shot_record [of api av g "Some gr" tp ct w]
      show ?thesis by (fastforce simp: Tick)
    qed
  next
    case (Frame data n c r)
    with Cons.prems(2) have f: "n = frame_size rate" "c = ch" "r = rate" "length data = frame_size rate * unat ch"
      "paced d t rate ch es" by simp_all
    from arrival [OF Cons.prems(1) f(4)] obtain ct' where a: "receive_frame data (frame_size rate) ch rate ct = Inr ct'"
      "live r1 rate ch t ct'" by blast
    from a(1) Cons.prems(3) have "ctrecord ct' \<noteq> record_init \<or> step ct' = BYE"
      by (auto simp: receive_frame_def Let_def record_init_def split: if_splits)
    with Cons.IH [OF a(2) f(5), of w] a(1) show ?thesis by (simp add: Frame f)
  next
    case Hangup
    have "live r1 rate ch t (ct\<lparr>step := BYE\<rparr>)" using Cons.prems(1) by (simp add: live_def)
    with Cons.IH [of t "ct\<lparr>step := BYE\<rparr>" w] Cons.prems(2) show ?thesis by (simp add: Hangup)
  qed
qed simp

lemma run_prefix:
  assumes "whole r1 c1 gr" "0 < d" "live r1 rate ch t ct" "paced d t rate ch (es1 @ es2)"
    and "run_call api av g (Some gr) es1 ct w = Inr (Some ct1, w1)"
  shows "\<exists>t'. live r1 rate ch t' ct1 \<and> paced d t' rate ch es2 \<and>
    run_call api av g (Some gr) (es1 @ es2) ct w = run_call api av g (Some gr) es2 ct1 w1"
  using assms(3-)
proof (induction es1 arbitrary: t ct w)
  case (Cons e es)
  show ?case
  proof (cases e)
    case (Tick tp)
    with Cons.prems have tp: "ts_clock tp" "t + d \<le> ts_ns tp" "paced d (ts_ns tp) rate ch (es @ es2)" by simp_all
    from Cons.prems(3) Tick obtain ct' w' where i: "calltest_iterate_one_shot api av g (Some gr) tp ct w = Inr (Some ct', w')"
      "run_call api av g (Some gr) es ct' w' = Inr (Some ct1, w1)" by (auto simp: r_bind_eq_Inr split: option.splits)
    from visit [OF assms(1) Cons.prems(1) tp(1) assms(2) tp(2), of api av g w] i(1)
    have "live r1 rate ch (ts_ns tp) ct'" by auto
    from Cons.IH [OF this tp(3) i(2)] i(1) show ?thesis by (simp add: Tick)
  next
    case (Frame data n c r)
    with Cons.prems(2) have f: "n = frame_size rate" "c = ch" "r = rate" "length data = frame_size rate * unat ch"
      "paced d t rate ch (es @ es2)" by simp_all
    from arrival [OF Cons.prems(1) f(4)] obtain ct' where a: "receive_frame data (frame_size rate) ch rate ct = Inr ct'"
      "live r1 rate ch t ct'" by blast
    from Cons.IH [OF a(2) f(5), of w] a(1) Cons.prems(3) show ?thesis by (simp add: Frame f)
  next
    case Hangup
    have "live r1 rate ch t (ct\<lparr>step := BYE\<rparr>)" using Cons.prems(1) by (simp add: live_def)
    with Cons.IH [of t "ct\<lparr>step := BYE\<rparr>" w] Cons.prems(2,3) show ?thesis by (simp add: Hangup)
  qed
qed auto

lemma run_ends_iff_heard:
  assumes "whole r1 c1 gr" "0 < d" "live r1 rate ch t ct" "paced d t rate ch es"
    and "visits r1 gr rate d t ct + arrivals es \<le> ticks es"
  shows "if heard api av g (Some gr) es ct w then \<exists>w'. run_call api av g (Some gr) es ct w = Inr (None, w')
    else run_call api av g (Some gr) es ct w = Inl Uninit"
proof (cases "heard api av g (Some gr) es ct w")
  case True
  then obtain es1 es2 ct1 w1 where h: "es = es1 @ es2" "run_call api av g (Some gr) es1 ct w = Inr (Some ct1, w1)"
    "ctrecord ct1 \<noteq> record_init \<or> step ct1 = BYE" by (rule heardE)
  from run_prefix [OF assms(1-3) assms(4) [unfolded h(1)] h(2)] obtain t' where
    "live r1 rate ch t' ct1" "paced d t' rate ch es2"
    "run_call api av g (Some gr) es ct w = run_call api av g (Some gr) es2 ct1 w1" unfolding h(1) by blast
  with heard_no_fault [OF assms(1,2) this(1,2) h(3), of api av g w1] run_ends [OF assms, of api av g w] True
  show ?thesis by auto
next
  case False
  with run_gone [of api av g "Some gr" es ct w] heardI have "run_call api av g (Some gr) es ct w \<noteq> Inr (None, w')" for w'
    by blast
  with run_ends [OF assms, of api av g w] False show ?thesis by auto
qed

text \<open>Without a frame the end cannot be reached.\<close>

definition only_ticks :: "call_event list \<Rightarrow> bool" where
  "only_ticks es \<longleftrightarrow> (\<forall>e\<in>set es. \<exists>tp. e = Tick tp)"

lemma silent_visit:
  assumes "calltest_iterate_one_shot api av g gr tp ct w = Inr (r, w')" "step ct \<le> SAVING" "ctrecord ct = record_init"
  shows "\<exists>ct'. r = Some ct' \<and> step ct' \<le> SAVING"
proof (cases "step ct")
  case ENTERING
  obtain ct1 w1 where e: "do_entering api ct w = (ct1, w1)" by fastforce
  with assms ENTERING obtain ct2 where "r = Some ct2" "do_greeter api gr tp ct1 w1 = Inr (ct2, w')"
    by (auto simp: calltest_iterate_one_shot_def r_bind_eq_Inr)
  moreover from greeter_result [OF this(2)] e ENTERING have "step ct2 \<in> {GREETER, RECORDING}"
    by (auto simp: do_entering_def Let_def)
  ultimately show ?thesis by (auto simp: less_eq_callstep_def)
next
  case SAVING
  with assms show ?thesis
    by (simp add: calltest_iterate_one_shot_def do_saving_def audio_write_def rget_def record_init_def)
qed (use assms in \<open>auto simp: calltest_iterate_one_shot_def do_recording_def less_eq_callstep_def
    r_bind_eq_Inr split: if_splits dest!: greeter_result\<close>)

lemma silent_run:
  assumes "only_ticks es" "step ct \<le> SAVING" "ctrecord ct = record_init"
  shows "run_call api av g gr es ct w \<noteq> Inr (None, w')"
  using assms
proof (induction es arbitrary: ct w)
  case (Cons e es)
  then obtain tp where e: "e = Tick tp" by (auto simp: only_ticks_def)
  show ?case
  proof (cases "calltest_iterate_one_shot api av g gr tp ct w")
    case (Inr p)
    then obtain r w1 where i: "calltest_iterate_one_shot api av g gr tp ct w = Inr (r, w1)" by (cases p) auto
    from silent_visit [OF this Cons.prems(2,3)] obtain ct' where "r = Some ct'" "step ct' \<le> SAVING" by blast
    with i one_shot_record [of api av g gr tp ct w ct' w1] Cons.prems Cons.IH [of ct' w1] show ?thesis
      by (simp add: e only_ticks_def)
  qed (simp add: e)
qed simp

section \<open>Properties\<close>

text \<open>
  The instance of the sound library has no files to read; a greeting and a tester in the last
  step but one, both with one frame of one sample.
\<close>

definition sample_av :: avlib where
  "sample_av = \<lparr>sf_read = (\<lambda>path files. None), sf_open_write = (\<lambda>path rate ch files. Some files),
     sf_write_short = (\<lambda>path data files. files), mkstemps = (\<lambda>template files. (''/tmp/call.wav'', files))\<rparr>"

definition beep :: pcm_record where
  "beep = \<lparr>pcm = [Some 7], channels = Some 1, samples_count = 1, samplerate = Some 50\<rparr>"

definition echo5 :: call_tester where
  "echo5 = (call_tester_new 5 ''c'')\<lparr>step := ECHOING, samples_send := Some 0, ctrecord := beep\<rparr>"

definition seconds :: "int list \<Rightarrow> call_event list" where
  "seconds ss = map (\<lambda>s. Tick \<lparr>tv_sec = s, tv_nsec = 0\<rparr>) ss"

lemma frame_size_50 [simp]: "frame_size 50 = 1"
  by (simp add: frame_size_def)

lemma whole_beep: "whole 50 1 beep"
proof -
  have "[Some (7::int)] = map Some [7]" by simp
  then show ?thesis unfolding whole_def beep_def by (auto intro!: exI [of _ "[7]"])
qed

text \<open>
  C10 (liveness): let the greeting consist of whole frames, let the caller send whole frames in
  one format, and let the visits be at least \<open>d\<close> nanoseconds apart on a clock. Whatever step a
  tester is in, after as many visits as the bound says plus one for every frame that arrives
  meanwhile its call is over: if a frame was recorded or the call was hung up, the tester is
  destroyed; if not, the code has read the format of a record that was never written.
\<close>

theorem call_ends:
  assumes "whole r1 c1 gr" and "0 < d" and "live r1 rate ch t ct" and "paced d t rate ch es"
    and "visits r1 gr rate d t ct + arrivals es \<le> ticks es"
  shows "if heard api av g (Some gr) es ct w then \<exists>w'. run_call api av g (Some gr) es ct w = Inr (None, w')
    else run_call api av g (Some gr) es ct w = Inl Uninit"
  using assms by (rule run_ends_iff_heard)

text \<open>A new call: the greeting, one frame at the second visit, and the rest.\<close>

definition short_call :: "call_event list" where
  "short_call = seconds [10, 20] @ Frame [9] 1 1 50 # seconds [30, 40, 50, 60, 70, 80, 90, 100]"

theorem call_ends_witness:
  "\<exists>w'. run_call sample sample_av (\<lambda>_. NUL) (Some beep) short_call (call_tester_new 5 ''c'') world0 = Inr (None, w')"
proof -
  let ?ct = "call_tester_new 5 ''c''"
  have "live 50 50 1 0 ?ct" by (simp add: live_def call_tester_new_def)
  moreover have "visits 50 beep 50 10000000000 0 ?ct + arrivals short_call \<le> ticks short_call"
    by (simp add: visits_def call_tester_new_def frames_def beep_def record_init_def seconds_def short_call_def)
  moreover have "paced 10000000000 0 50 1 short_call"
    by (simp add: short_call_def seconds_def ts_clock_def ts_norm_def ts_ns_def)
  moreover have "heard sample sample_av (\<lambda>_. NUL) (Some beep) short_call ?ct world0" by code_simp
  ultimately show ?thesis
    using call_ends [OF whole_beep, of 10000000000 50 1 0 ?ct short_call sample sample_av "\<lambda>_. NUL" world0]
    by simp
qed

text \<open>
  A caller who says nothing until the end of the recording makes the tester write
  a record whose format and channels were never set: with a greeting of whole frames, no frame and no
  hangup, the run always ends in that fault.
\<close>

theorem silent_call_faults:
  assumes "whole r1 c1 gr" and "0 < d" and "rate \<noteq> 0" and "paced d t rate ch es" and "only_ticks es"
    and "frames r1 gr + nat (10000000000 div d) + 7 \<le> ticks es"
  shows "run_call api av g (Some gr) es (call_tester_new n name) w = Inl Uninit"
proof -
  let ?ct = "call_tester_new n name"
  have "live r1 rate ch t ?ct" using assms(3) by (simp add: live_def call_tester_new_def)
  moreover have "arrivals es = 0" using assms(5) by (auto simp: arrivals_def only_ticks_def filter_empty_conv)
  moreover have "visits r1 gr rate d t ?ct = frames r1 gr + nat (10000000000 div d) + 7"
    by (simp add: visits_def call_tester_new_def frames_def record_init_def)
  moreover have "run_call api av g (Some gr) es ?ct w \<noteq> Inr (None, w')" for w'
    by (rule silent_run [OF assms(5)]) (simp_all add: call_tester_new_def less_eq_callstep_def)
  ultimately show ?thesis using run_ends [OF assms(1,2) _ assms(4), where ct = ?ct and api = api and av = av and g = g and w = w] assms(6) by auto
qed

theorem silent_call_faults_witness:
  "run_call sample sample_av (\<lambda>_. NUL) (Some beep) (seconds [10, 20, 30, 40, 50, 60, 70, 80, 90])
     (call_tester_new 5 ''c'') world0 = Inl Uninit"
proof -
  let ?es = "seconds [10, 20, 30, 40, 50, 60, 70, 80, 90]"
  have "paced 10000000000 0 50 1 ?es" by (simp add: seconds_def ts_clock_def ts_norm_def ts_ns_def)
  moreover have "only_ticks ?es" by (simp add: seconds_def only_ticks_def)
  moreover have "frames 50 beep + nat (10000000000 div 10000000000) + 7 \<le> ticks ?es"
    by (simp add: frames_def beep_def seconds_def)
  ultimately show ?thesis using silent_call_faults [OF whole_beep, of 10000000000 50 0 1 ?es] by simp
qed

text \<open>
  The sound is read past its end exactly when the last frame is not a whole one:
  a greeting or a recording whose length is not a multiple of 20 milliseconds overruns its
  buffer.
\<close>

theorem playback_past_end:
  assumes "pcm rec = map Some xs" and "length xs = samples_count rec * unat ch" and "ch \<noteq> 0"
    and "samplerate rec = Some rate" and "rate \<noteq> 0" and "channels rec = Some ch" and "samples_send ct = Some sent"
  shows "audio_playback api ct (Some rec) tox = Inl OutOfBounds \<longleftrightarrow>
    sent < samples_count rec \<and> samples_count rec < sent + frame_size rate"
proof -
  let ?n = "frame_size rate"
  have "length xs < sent * unat ch + ?n * unat ch \<longleftrightarrow> samples_count rec * unat ch < (sent + ?n) * unat ch"
    using assms(2) by (simp add: algebra_simps)
  also have "\<dots> \<longleftrightarrow> samples_count rec < sent + ?n" using assms(3) by (simp add: unat_gt_0)
  finally have "frame_samples (sent * unat ch) (?n * unat ch) (map Some xs) =
      (if samples_count rec < sent + ?n then Inl OutOfBounds
       else Inr (take (?n * unat ch) (drop (sent * unat ch) xs)))"
    using frame_samples_map [of "sent * unat ch" "?n * unat ch" xs] by (auto simp: frame_samples_def)
  then show ?thesis using assms
    by (auto simp: audio_playback_def rget_def Let_def case_prod_unfold)
qed

theorem playback_past_end_witness:
  "audio_playback sample (echo5\<lparr>samples_send := Some 2\<rparr>) (Some \<lparr>pcm = [Some 1, Some 2, Some 3], channels = Some 1,
     samples_count = 3, samplerate = Some 100\<rparr>) (w_tox world0) = Inl OutOfBounds"
proof -
  let ?rec = "\<lparr>pcm = [Some 1, Some 2, Some 3], channels = Some 1, samples_count = 3, samplerate = Some 100\<rparr>"
  have "frame_size 100 = 2" by (simp add: frame_size_def)
  then show ?thesis
    using playback_past_end [of ?rec "[1, 2, 3]" 1 100 "echo5\<lparr>samples_send := Some 2\<rparr>" 2 sample "w_tox world0"] by simp
qed

text \<open>
  Without the file of the greeting the first visit of the first caller
  dereferences a null pointer.
\<close>

theorem missing_greeting_faults:
  assumes "sf_read av ''greeter.wav'' (w_fs w) = None"
  shows "calltest_iterate api av g tp (call api av n audio video (calltest_init av w)) = Inl NullDeref"
  using assms
  by (simp add: calltest_init_def audio_load_def call_def call_tester_add_entry_def
      call_tester_by_friend_number_def calltest_iterate_def calltest_iterate_one_shot_def call_tester_new_def
      do_entering_def do_greeter_def audio_playback_def Let_def case_prod_unfold)

theorem missing_greeting_faults_witness:
  "calltest_iterate sample sample_av (\<lambda>_. NUL) \<lparr>tv_sec = 1, tv_nsec = 0\<rparr>
     (call sample sample_av 5 True False (calltest_init sample_av world0)) = Inl NullDeref"
  by (rule missing_greeting_faults) (simp add: sample_av_def)

text \<open>
  C11 (functional): the record is what was said: frames of one format that arrive while the
  tester records are appended in order, none is lost and none is cut.
\<close>

theorem recording_exact:
  assumes "step ct = RECORDING" and "pcm (ctrecord ct) = map Some xs" and "length xs = unat ch * samples_count (ctrecord ct)"
    and "\<forall>(data, n)\<in>set fs. length data = unat ch * n" and "fs \<noteq> []"
  shows "run_call api av g gr (map (\<lambda>(data, n). Frame data n ch rate) fs) ct w =
    Inr (Some (ct\<lparr>ctrecord := \<lparr>pcm = map Some (xs @ concat (map fst fs)), channels = Some ch,
      samples_count = samples_count (ctrecord ct) + sum_list (map snd fs), samplerate = Some rate\<rparr>\<rparr>), w)"
  using assms
proof (induction fs arbitrary: ct xs)
  case (Cons f fs)
  obtain data n where f: "f = (data, n)" by fastforce
  let ?ct = "ct\<lparr>ctrecord := \<lparr>pcm = map Some (xs @ data), channels = Some ch,
      samples_count = samples_count (ctrecord ct) + n, samplerate = Some rate\<rparr>\<rparr>"
  have "receive_frame data n ch rate ct = Inr ?ct"
    using Cons.prems f by (simp add: receive_frame_def append_samples_def Let_def algebra_simps)
  moreover have "run_call api av g gr (map (\<lambda>(data, n). Frame data n ch rate) fs) ?ct w =
      Inr (Some (ct\<lparr>ctrecord := \<lparr>pcm = map Some (xs @ data @ concat (map fst fs)), channels = Some ch,
        samples_count = samples_count (ctrecord ct) + n + sum_list (map snd fs), samplerate = Some rate\<rparr>\<rparr>), w)"
  proof (cases "fs = []")
    case False
    with Cons.IH [of ?ct "xs @ data"] Cons.prems f show ?thesis by (simp add: algebra_simps)
  qed simp
  ultimately show ?case by (simp add: f algebra_simps)
qed simp

theorem recording_exact_witness:
  "run_call sample sample_av (\<lambda>_. NUL) None [Frame [1, 2] 2 1 50, Frame [3] 1 1 50]
     ((call_tester_new 5 ''c'')\<lparr>step := RECORDING\<rparr>) world0 =
   Inr (Some ((call_tester_new 5 ''c'')\<lparr>step := RECORDING, ctrecord := \<lparr>pcm = [Some 1, Some 2, Some 3],
     channels = Some 1, samples_count = 3, samplerate = Some 50\<rparr>\<rparr>), world0)"
  using recording_exact [of "(call_tester_new 5 ''c'')\<lparr>step := RECORDING\<rparr>" "[]" 1 "[([1, 2], 2), ([3], 1)]"
      sample sample_av "\<lambda>_. NUL" None 50 world0]
  by (simp add: call_tester_new_def record_init_def)

text \<open>
  C7 (invariant): in every state that is reached from one without calls, each friend has at
  most one tester, in the order of their numbers, and every tester is well-formed: its record
  has the samples that its count and channels announce, and the fields that its step reads are
  set.
\<close>

theorem calls_invariant:
  assumes "(call_move api av g)\<^sup>*\<^sup>* s t" and "calltesters s = []"
  shows "sorted_wrt (<) (map ct_friend_number (calltesters t)) \<and> (\<forall>ct\<in>set (calltesters t). tester_ok ct)"
  using calls.reach_ok [OF assms(1)] assms(2) by (simp add: calls_ok_def testers_ok_def)

theorem calls_invariant_witness:
  "let t = call sample sample_av 5 True False (calltest_init sample_av world0) in
   map ct_friend_number (calltesters t) = [5] \<and> list_all tester_ok (calltesters t)"
proof -
  let ?s = "calltest_init sample_av world0"
  let ?t = "call sample sample_av 5 True False ?s"
  have "(call_move sample sample_av (\<lambda>_. NUL))\<^sup>*\<^sup>* ?s ?t" by (rule r_into_rtranclp) (rule call_move.incoming)
  moreover have "calltesters ?s = []" by (simp add: calltest_init_def)
  ultimately have "list_all tester_ok (calltesters ?t)" unfolding list_all_iff using calls_invariant by blast
  moreover have "map ct_friend_number (calltesters ?t) = [5]"
    by (simp add: call_def call_tester_add_entry_def calltest_init_def call_tester_by_friend_number_def
        call_tester_new_def Let_def case_prod_unfold)
  ultimately show ?thesis by (simp add: Let_def)
qed

text \<open>
  The delay that the main loop waits for is the least of all testers' delays
  and one second less a nanosecond.
\<close>

theorem calltest_interval_least:
  "calltest_iteration_interval cts = Min (insert 999999999 (delay ` set cts))"
proof -
  have "fold (\<lambda>ct l. if delay ct > l then l else delay ct) cts l = Min (insert l (delay ` set cts))" for l
  proof (induction cts arbitrary: l)
    case (Cons ct cts)
    have "(if delay ct > l then l else delay ct) = min (delay ct) l" by (auto simp: min_def)
    then show ?case using Cons.IH [of "min (delay ct) l"]
      by (cases "cts = []") (simp_all add: insert_commute min.assoc min.commute)
  qed simp
  then show ?thesis by (simp add: calltest_iteration_interval_def)
qed

end
