(* ===== verification/Suit_State.thy ===== *)
theory Suit_State
  imports Call Fileop Tsfiles Friend
begin

text \<open>
  The state of the whole program: \<^verbatim>\<open>struct suit_info\<close> of \<^verbatim>\<open>src/suit.h\<close>
  and the static variables of the other files. The libraries that only give texts or tests are
  collected in a record.
\<close>

record clib =
  ctime_of :: "u64 \<Rightarrow> string"
  asctime_of :: "int \<Rightarrow> string"
  owned_by_us :: "string \<Rightarrow> bool"
  regular_file :: "string \<Rightarrow> bool"

record 't suit =
  su_calls :: "'t cstate"
  su_friends :: "friend_info list"
  su_op :: op_state
  su_loaded :: "file_sender list"
  su_own :: client_info
  su_version :: string
  su_xdcc :: bool
  su_group :: int
  su_save :: bool
  su_exit :: bool

text \<open>The parts that most operations work on: the transfers and \<^verbatim>\<open>toxcore\<close>.\<close>

definition su_w :: "'t suit \<Rightarrow> 't fstate" where
  "su_w s = c_w (su_calls s)"

definition set_w :: "'t fstate \<Rightarrow> 't suit \<Rightarrow> 't suit" where
  "set_w w s = s\<lparr>su_calls := (su_calls s)\<lparr>c_w := w\<rparr>\<rparr>"

definition su_tox :: "'t suit \<Rightarrow> 't" where
  "su_tox s = w_tox (su_w s)"

definition set_tox :: "'t \<Rightarrow> 't suit \<Rightarrow> 't suit" where
  "set_tox t s = set_w ((su_w s)\<lparr>w_tox := t\<rparr>) s"

lemma su_w_simps [simp]:
  "su_w (set_w w s) = w" "set_w w (set_w w' s) = set_w w s" "set_w (su_w s) s = s"
  "su_tox (set_w w s) = w_tox w" "su_tox (set_tox t s) = t"
  by (simp_all add: su_w_def set_w_def su_tox_def set_tox_def)

lemma set_w_fields [simp]:
  "su_friends (set_w w s) = su_friends s" "su_op (set_w w s) = su_op s" "su_loaded (set_w w s) = su_loaded s"
  "su_own (set_w w s) = su_own s" "su_version (set_w w s) = su_version s" "su_xdcc (set_w w s) = su_xdcc s"
  "su_group (set_w w s) = su_group s" "su_save (set_w w s) = su_save s" "su_exit (set_w w s) = su_exit s"
  "su_friends (set_tox t s) = su_friends s" "su_xdcc (set_tox t s) = su_xdcc s" "su_op (set_tox t s) = su_op s"
  "su_save (set_tox t s) = su_save s" "su_loaded (set_tox t s) = su_loaded s"
  by (simp_all add: set_w_def set_tox_def)

end
