(* ===== verification/Callbacks.thy ===== *)
theory Callbacks
  imports Suit_State
begin

text \<open>
  \<^verbatim>\<open>src/callbacks.c\<close>: the commands of the file server, taken from a message that
  is split at blanks into a table of three words, and the announcements in a group chat.
\<close>

abbreviation (input) MAX_ARGS_SIZE :: nat where "MAX_ARGS_SIZE \<equiv> 20"
abbreviation (input) MAX_ARGS_NUM :: nat where "MAX_ARGS_NUM \<equiv> 3"
abbreviation (input) TOX_MESSAGE_TYPE_NORMAL :: u32 where "TOX_MESSAGE_TYPE_NORMAL \<equiv> 0"

section \<open>Replies\<close>

definition send_text :: "'t toxcore \<Rightarrow> u32 \<Rightarrow> string \<Rightarrow> 't suit \<Rightarrow> 't suit" where
  "send_text api n txt s = set_tox (snd (tox_friend_send_message api n TOX_MESSAGE_TYPE_NORMAL txt (su_tox s))) s"

definition SYNTAX_ERR_MSG :: string where "SYNTAX_ERR_MSG = ''Invalid syntax!''"
definition NOTFND_ERR_MSG :: string where "NOTFND_ERR_MSG = ''Pack number not found''"
definition NOTFND_F_MSG :: string where "NOTFND_F_MSG = ''Could not open requested file''"
definition QUEUEFULL_F_MSG :: string where "QUEUEFULL_F_MSG = ''The queue is full, try later''"
definition SRVERR_F_MSG :: string where "SRVERR_F_MSG = ''Error sending file''"

text \<open>A string literal that goes over lines keeps the indentation of its lines.\<close>

definition indent12 :: string where
  "indent12 = replicate 12 (CHR '' '')"

definition help_text :: string where
  "help_text = [NL] @ '' Supported commands:'' @ [NL] @
     indent12 @ ''invite          Join the groupchat where new files get announced'' @ [NL] @
     indent12 @ ''send -1         Request a list of all the files available'' @ [NL] @
     indent12 @ ''send x          Request the file (replace x with pack number)'' @ [NL] @
     indent12 @ ''info x          Request details about the file (replace x with pack number)''"

section \<open>The commands\<close>

text \<open>The table of arguments is a block of bytes with a row of 20 for each.\<close>

definition arg :: "string \<Rightarrow> nat \<Rightarrow> string" where
  "arg args i = cstr (drop (MAX_ARGS_SIZE * i) args)"

definition cmd_invite :: "'t toxcore \<Rightarrow> u32 \<Rightarrow> 't suit \<Rightarrow> 't suit" where
  "cmd_invite api n s =
     (if su_group s \<noteq> - 1 then set_tox (snd (tox_invite_friend api n (su_group s) (su_tox s))) s else s)"

definition cmd_help :: "'t toxcore \<Rightarrow> u32 \<Rightarrow> 't suit \<Rightarrow> 't suit" where
  "cmd_help api n s = send_text api n help_text s"

text \<open>The size of the buffer of \<^verbatim>\<open>cmd_info\<close>, from its format and the longest path.\<close>

definition info_format :: string where
  "info_format = ''Pack Info for Pack #%i:'' @ [NL] @
     indent12 @ ''Filename       %s'' @ [NL] @
     indent12 @ ''Filesize       %lu [%s]'' @ [NL] @
     indent12 @ ''Last Modified  %s GMT'' @ [NL] @
     indent12 @ ''Blake2b        %s''"

definition info_bufsize :: nat where
  "info_bufsize = length info_format + 1 + 20 + 4096 + 28 + 26 + 64"

definition info_text :: "int \<Rightarrow> string \<Rightarrow> int \<Rightarrow> string \<Rightarrow> string \<Rightarrow> string \<Rightarrow> string" where
  "info_text packn name len hu_size timestr blake =
     ''Pack Info for Pack #'' @ show_int packn @ '':'' @ [NL] @
     indent12 @ ''Filename       '' @ name @ [NL] @
     indent12 @ ''Filesize       '' @ show_nat (nat (len mod 2 ^ 64)) @ '' ['' @ hu_size @ '']'' @ [NL] @
     indent12 @ ''Last Modified  '' @ timestr @ '' GMT'' @ [NL] @
     indent12 @ ''Blake2b        '' @ blake"

definition bad_pack :: "string \<Rightarrow> int \<Rightarrow> int \<Rightarrow> file_node list \<Rightarrow> bool" where
  "bad_pack word lowest packn shr \<longleftrightarrow>
     packn = 0 \<and> word \<noteq> ''0'' \<or> packn < lowest \<or> to_i32 (int (length shr)) \<le> packn \<or>
     (packn \<noteq> - 1 \<and> \<not> fn_exists (shr ! nat packn))"

definition cmd_info ::
  "'t toxcore \<Rightarrow> sodium \<Rightarrow> clib \<Rightarrow> (nat \<Rightarrow> char) \<Rightarrow> u32 \<Rightarrow> int \<Rightarrow> string \<Rightarrow> 't suit \<Rightarrow> 't suit res" where
  "cmd_info api sod lib g n argc args s =
     (if argc \<noteq> 1 then Inr (send_text api n SYNTAX_ERR_MSG s)
      else
        let packn = atoi (arg args 1); shr = file_get_shared (su_op s) in
        if bad_pack (arg args 1) 0 packn shr then Inr (send_text api n NOTFND_ERR_MSG s)
        else
          let fn = shr ! nat packn in
          r_bind (hash_bytes (fn_BLAKE2b fn) (w_heap (su_w s))) (\<lambda>hash.
          r_bind (human_readable_id sod hash TOX_FILE_ID_LENGTH) (\<lambda>blake.
          r_bind (human_readable_filesize (map g [0..<8]) (fn_length fn)) (\<lambda>hu_size.
          r_bind (node_path fn) (\<lambda>path.
            let txt = info_text packn (gnu_basename path) (fn_length fn) (cstr hu_size)
                        (butlast (asctime_of lib (fn_mtime fn))) blake in
            if info_bufsize < length txt + 1 then Inl OutOfBounds
            else Inr (send_text api n (txt @ [NUL]) s))))))"

definition cmd_send :: "'t toxcore \<Rightarrow> (nat \<Rightarrow> char) \<Rightarrow> u32 \<Rightarrow> int \<Rightarrow> string \<Rightarrow> 't suit \<Rightarrow> 't suit res" where
  "cmd_send api g n argc args s =
     (if argc \<noteq> 1 then Inr (send_text api n SYNTAX_ERR_MSG s)
      else
        let packn = atoi (arg args 1); shr = file_get_shared (su_op s) in
        if bad_pack (arg args 1) (- 1) packn shr then Inr (send_text api n NOTFND_ERR_MSG s)
        else
          r_bind (file_sender_new api g n shr packn (su_w s)) (\<lambda>(rc, w).
            let s = set_w w s in
            Inr (if rc = FILESEND_OK then s
                 else if rc = FILESEND_ERR_FILEIO then send_text api n NOTFND_F_MSG s
                 else if rc = FILESEND_ERR_FULL then send_text api n QUEUEFULL_F_MSG s
                 else send_text api n SRVERR_F_MSG s)))"

section \<open>Parsing\<close>

text \<open>
  The loop of \<^verbatim>\<open>parse_command\<close> with \<open>k\<close> rows left: the word up to the next blank
  is copied into its row without a test of its length. The result is the number of words and
  the table.
\<close>

fun parse_words :: "nat \<Rightarrow> string \<Rightarrow> string \<Rightarrow> (nat \<times> string) res" where
  "parse_words 0 args cmd = Inr (MAX_ARGS_NUM, args)"
| "parse_words (Suc k) args cmd =
     (let num_args = MAX_ARGS_NUM - Suc k;
          word = takeWhile (\<lambda>c. c \<noteq> CHR '' '') cmd;
          rest = drop (length word) cmd in
      r_bind (mem_store args (MAX_ARGS_SIZE * num_args) (word @ [NUL])) (\<lambda>args.
        if rest = [] then Inr (num_args + 1, args) else parse_words k args (tl rest)))"

definition parse_command :: "string \<Rightarrow> string \<Rightarrow> (nat \<times> string) res" where
  "parse_command cmd args = parse_words MAX_ARGS_NUM args (cstr cmd)"

definition execute ::
  "'t toxcore \<Rightarrow> sodium \<Rightarrow> clib \<Rightarrow> (nat \<Rightarrow> char) \<Rightarrow> string \<Rightarrow> u32 \<Rightarrow> 't suit \<Rightarrow> 't suit res" where
  "execute api sod lib g cmd n s =
     r_bind (parse_command cmd (replicate (MAX_ARGS_NUM * MAX_ARGS_SIZE) NUL)) (\<lambda>(num_args, args).
       let argc = int num_args - 1; name = arg args 0 in
       if name = ''invite'' then Inr (cmd_invite api n s)
       else if name = ''help'' then Inr (cmd_help api n s)
       else if name = ''info'' then cmd_info api sod lib g n argc args s
       else if name = ''send'' then cmd_send api g n argc args s
       else Inr s)"

section \<open>The group chat\<close>

text \<open>Neither function is called by the program.\<close>

definition group_chat_init :: "'t toxcore \<Rightarrow> 't suit \<Rightarrow> int \<times> 't suit" where
  "group_chat_init api s =
     (let (n, tox) = tox_add_groupchat api (su_tox s) in (n, (set_tox tox s)\<lparr>su_group := n\<rparr>))"

definition groupmsg_size :: nat where
  "groupmsg_size = length ''New file: # [9999  b]: %s'' + 1 + 4096 + 32"

definition on_new_file :: "'t toxcore \<Rightarrow> (nat \<Rightarrow> char) \<Rightarrow> file_node \<Rightarrow> int \<Rightarrow> 't suit \<Rightarrow> 't suit res" where
  "on_new_file api g fn packn s =
     (if su_group s = - 1 then Inr s
      else
        r_bind (human_readable_filesize (map g [0..<8]) (fn_length fn)) (\<lambda>hu_size.
        r_bind (node_path fn) (\<lambda>path.
          let txt = ''New file: #'' @ show_int packn @ '' ['' @ cstr hu_size @ ''] '' @ gnu_basename path in
          if groupmsg_size < length txt + 1 then Inl OutOfBounds
          else Inr (set_tox (snd (tox_group_message_send api (su_group s) (txt @ [NUL]) (su_tox s))) s))))"

end
