(* ===== verification/Command.thy ===== *)
theory Command
  imports Callbacks
begin

text \<open>
  \<^verbatim>\<open>src/command.c\<close>: the commands that a friend sends as messages. A message that
  starts with \<^verbatim>\<open>!\<close> is split into words and given to \<^verbatim>\<open>getopt_long\<close>;
  the replies are written to a stream that becomes messages when it is closed. The reply is
  taken to fit the buffer of that stream.
\<close>

section \<open>Splitting a message\<close>

function tokens :: "string \<Rightarrow> string list" where
  "tokens s = (case strtok s '' '' of None \<Rightarrow> [] | Some (t, r) \<Rightarrow> t # tokens r)"
  by pat_completeness auto
termination by (relation "measure length") (auto dest: strtok_rest_shorter)

declare tokens.simps [simp del]

text \<open>
  \<^verbatim>\<open>argexp\<close>: \<open>None\<close> if the message is not a command. The message is read as a
  string: it has to end with a NUL in its memory.
\<close>

definition argexp :: "string \<Rightarrow> nat \<Rightarrow> char \<Rightarrow> string list option res" where
  "argexp command len delim =
     (case command of
        [] \<Rightarrow> Inl OutOfBounds
      | c # rest \<Rightarrow>
          if c \<noteq> delim then Inr None
          else if NUL \<notin> set rest then Inl OutOfBounds
          else
            let prefix = ''arg0 ''; line_len = length prefix + len + 2 in
            Inr (Some (tokens (take (line_len - 1) (prefix @ ''--'' @ cstr rest)))))"

section \<open>The options\<close>

text \<open>
  \<^verbatim>\<open>getopt_long\<close> of glibc on the two tables of the program: arguments that are no
  options are passed over and end up last, \<^verbatim>\<open>--\<close> ends the options, a long option may
  be abbreviated to a prefix that only it has. Every result is a character and the value of
  \<^verbatim>\<open>optopt\<close> if the character is \<^verbatim>\<open>?\<close>.
\<close>

datatype has_arg = no_argument | required_argument | optional_argument

definition long_options :: "(string \<times> has_arg \<times> char) list" where
  "long_options =
     [(''addfriend'', required_argument, CHR ''a''), (''banner'', no_argument, CHR ''b''),
      (''callme'', optional_argument, CHR ''c''), (''forgetme'', no_argument, CHR ''g''),
      (''friends'', no_argument, CHR ''f''), (''info'', no_argument, CHR ''i''),
      (''sendimage'', no_argument, CHR ''t''), (''pamarkdown'', no_argument, CHR ''p''),
      (''shema'', no_argument, CHR ''s''), (''whoiam'', no_argument, CHR ''w''),
      (''xdcc'', no_argument, CHR ''x'')]"

definition is_prefix :: "string \<Rightarrow> string \<Rightarrow> bool" where
  "is_prefix p s \<longleftrightarrow> take (length p) s = p"

definition long_match :: "string \<Rightarrow> (has_arg \<times> char) option" where
  "long_match nm =
     (case map_of long_options nm of
        Some r \<Rightarrow> Some r
      | None \<Rightarrow> (case filter (\<lambda>(n, _). is_prefix nm n) long_options of [(_, r)] \<Rightarrow> Some r | _ \<Rightarrow> None))"

text \<open>One long option and the arguments behind it: the result and the arguments left.\<close>

definition long_opt :: "string \<Rightarrow> string list \<Rightarrow> (char \<times> char) \<times> string list" where
  "long_opt word args =
     (let nm = takeWhile (\<lambda>c. c \<noteq> CHR ''='') word; has_value = (CHR ''='' \<in> set word) in
      case long_match nm of
        None \<Rightarrow> ((CHR ''?'', NUL), args)
      | Some (no_argument, v) \<Rightarrow> (if has_value then (CHR ''?'', v) else (v, NUL), args)
      | Some (optional_argument, v) \<Rightarrow> ((v, NUL), args)
      | Some (required_argument, v) \<Rightarrow>
          if has_value then ((v, NUL), args)
          else (case args of [] \<Rightarrow> ((CHR ''?'', v), []) | _ # args \<Rightarrow> ((v, NUL), args)))"

text \<open>A word of short options: \<^verbatim>\<open>a:bcgfi\<close>.\<close>

fun short_opts :: "string \<Rightarrow> string list \<Rightarrow> (char \<times> char) list \<times> string list" where
  "short_opts [] args = ([], args)"
| "short_opts (c # cs) args =
     (if c = CHR ''a'' then
        (if cs \<noteq> [] then ([(c, NUL)], args)
         else case args of [] \<Rightarrow> ([(CHR ''?'', c)], []) | _ # args \<Rightarrow> ([(c, NUL)], args))
      else
        let r = (if c \<in> set ''bcgfi'' then (c, NUL) else (CHR ''?'', c));
            (rs, args) = short_opts cs args in (r # rs, args))"

lemma short_opts_shorter: "length (snd (short_opts cs args)) \<le> length args"
  by (induction cs args rule: short_opts.induct) (auto simp: case_prod_unfold Let_def split: list.splits)

lemma long_opt_shorter: "length (snd (long_opt word args)) \<le> length args"
  by (auto simp: long_opt_def Let_def split: option.splits list.splits has_arg.splits)

function getopt_long :: "string list \<Rightarrow> (char \<times> char) list \<times> string list" where
  "getopt_long [] = ([], [])"
| "getopt_long (a # args) =
     (if a = ''--'' then ([], args)
      else if is_prefix ''--'' a then
        (let r = long_opt (drop 2 a) args; rest = getopt_long (snd r) in (fst r # fst rest, snd rest))
      else if is_prefix ''-'' a \<and> a \<noteq> ''-'' then
        (let r = short_opts (drop 1 a) args; rest = getopt_long (snd r) in (fst r @ fst rest, snd rest))
      else let rest = getopt_long args in (fst rest, a # snd rest))"
  by pat_completeness auto
termination
  by (relation "measure length") (auto simp: less_Suc_eq_le long_opt_shorter short_opts_shorter)

section \<open>The replies\<close>

text \<open>The literals of the banner and of the scheme.\<close>

definition banner_text :: string where
  "banner_text = concat (map (\<lambda>row. row @ [NL])
     [''`      :::::::::: ::::::::  :::    :::  ::::::::  :::::::::   :::::::: :::::::::::`'',
      ''`     :+:       :+:    :+: :+:    :+: :+:    :+: :+:    :+: :+:    :+:    :+:`'',
      ''`    +:+       +:+        +:+    +:+ +:+    +:+ +:+    +:+ +:+    +:+    +:+`'',
      ''`   +#++:++#  +#+        +#++:++#++ +#+    +:+ +#++:++#+  +#+    +:+    +#+`'',
      ''`  +#+       +#+        +#+    +#+ +#+    +#+ +#+    +#+ +#+    +#+    +#+`'',
      ''` #+#       #+#    #+# #+#    #+# #+#    #+# #+#    #+# #+#    #+#    #+#`'',
      ''`########## ########  ###    ###  ########  #########   ########     ###`''])"

definition schema_text :: string where
  "schema_text = concat (map (\<lambda>row. row @ [NL])
     [''                 acti^e.keys                         expired.keys'',
      ''              +--------------+                    +--------------+'',
      ''     add()    |              |    trash()         |              |  purge()'',
      ''+------------^+              +-------------------^+              +---------->'',
      ''              |              |                    |              |'',
      ''              |              |                    |              |'',
      ''              |              |                    |              |'',
      ''              |  publickeys  |                    |  publickeys  |'',
      ''              |              |                    |              |'',
      ''              |              |    untrash()       |              |'',
      ''              |              +^-------------------+              |'',
      ''              |              |                    |              |'',
      ''              |              |                    |              |'',
      ''              +--------------+                    +--------------+''])"

text \<open>
  What the process does after a command: it goes on, or ends with an exit code.
  \<open>run_option\<close> is one pass of the loop over the options, with the text written so far.
\<close>

datatype 's outcome = Running 's | Exited nat 's

definition run_option ::
  "'t toxcore \<Rightarrow> clib \<Rightarrow> (nat \<Rightarrow> char) \<Rightarrow> u32 \<Rightarrow> friend_info option \<Rightarrow> string list \<Rightarrow> char \<times> char \<Rightarrow>
   string \<Rightarrow> 't suit \<Rightarrow> (string \<times> 't suit outcome) res" where
  "run_option api lib g n f argv r out s =
     (let say = (\<lambda>txt. (out @ txt, Running s)); c = fst r in
      if c = CHR ''a'' then Inr (say [])
      else if c = CHR ''i'' then
        r_bind (client_info_print (su_own s)) (\<lambda>txt.
          Inr (say (''ToxSuite version '' @ su_version s @ [NL] @ txt)))
      else if c = CHR ''b'' then Inr (say banner_text)
      else if c = CHR ''c'' then Inr (out, Running (set_tox (toxav_call api n AUDIO_BITRATE 0 (su_tox s)) s))
      else if c = CHR ''f'' then
        r_bind (friends_info_print (ctime_of lib) (su_friends s)) (\<lambda>txt. Inr (say txt))
      else if c = CHR ''g'' then
        Inr (out @ ''Bye old friend... I'' @ [CHR 0x27] @ ''ll never forget you!'' @ [NL],
             Running (set_tox (snd (tox_friend_delete api n (su_tox s))) s))
      else if c = CHR ''p'' then
        (let (txt, code) = printf_file (owned_by_us lib) (regular_file lib) ''pa.md'' (w_fs (su_w s)) in
         Inr (out @ txt, Exited code s))
      else if c = CHR ''s'' then Inr (say schema_text)
      else if c = CHR ''t'' then
        r_bind (send_path api g n ''screenshot.png'' ''shot.png'' (su_w s)) (\<lambda>w. Inr (out, Running (set_w w s)))
      else if c = CHR ''w'' then
        (case f of None \<Rightarrow> Inl NullDeref | Some f \<Rightarrow> r_bind (friend_info_print f) (\<lambda>txt. Inr (say txt)))
      else if c = CHR ''x'' then Inr (out, Running (s\<lparr>su_xdcc := \<not> su_xdcc s\<rparr>))
      else Inr (say (''option '' @ argv ! 1 @ '' not implemented,optopt='' @ [snd r] @ [NL])))"

fun run_options ::
  "'t toxcore \<Rightarrow> clib \<Rightarrow> (nat \<Rightarrow> char) \<Rightarrow> u32 \<Rightarrow> friend_info option \<Rightarrow> string list \<Rightarrow> (char \<times> char) list \<Rightarrow>
   string \<Rightarrow> 't suit \<Rightarrow> (string \<times> 't suit outcome) res" where
  "run_options api lib g n f argv [] out s = Inr (out, Running s)"
| "run_options api lib g n f argv (r # rs) out s =
     r_bind (run_option api lib g n f argv r out s) (\<lambda>(out, after).
       case after of
         Running s \<Rightarrow> run_options api lib g n f argv rs out s
       | Exited code s \<Rightarrow> Inr (out, Exited code s))"

text \<open>Closing the stream: what was written is handed to \<^verbatim>\<open>toxstream_write\<close>.\<close>

definition flush_stream :: "'t toxcore \<Rightarrow> u32 \<Rightarrow> string \<Rightarrow> 't suit \<Rightarrow> 't suit res" where
  "flush_stream api n out s =
     (if out = [] then Inr s
      else r_bind (toxstream_write api \<lparr>ck_friend_number = n, ck_type = TOX_MESSAGE_TYPE_NORMAL\<rparr> out
                     (length out) (su_tox s)) (\<lambda>(_, tox). Inr (set_tox tox s)))"

text \<open>
  The command proper, after the arguments were split: \<^verbatim>\<open>argv\<close> includes
  \<^verbatim>\<open>arg0\<close>.
\<close>

definition run_command ::
  "'t toxcore \<Rightarrow> clib \<Rightarrow> (nat \<Rightarrow> char) \<Rightarrow> u32 \<Rightarrow> friend_info option \<Rightarrow> string list \<Rightarrow> 't suit \<Rightarrow> 't suit outcome res" where
  "run_command api lib g n f argv s =
     (let (rs, others) = getopt_long (tl argv) in
      r_bind (run_options api lib g n f argv rs [] s) (\<lambda>(out, after).
        case after of
          Exited code s \<Rightarrow> r_bind (flush_stream api n out s) (\<lambda>s. Inr (Exited code s))
        | Running s \<Rightarrow>
            (let out = (if others = [] then out
                        else out @ ''non-option ARGV-elements: '' @
                             concat (map (\<lambda>a. a @ '' '') others) @ [NL]) in
             r_bind (flush_stream api n out s) (\<lambda>s. Inr (Running s)))))"

text \<open>
  \<^verbatim>\<open>execute\<close> puts NULs into the message where it splits it, so that the rest of
  the function sees the first word only.
\<close>

definition friend_message ::
  "'t toxcore \<Rightarrow> sodium \<Rightarrow> clib \<Rightarrow> (nat \<Rightarrow> char) \<Rightarrow> u32 \<Rightarrow> string \<Rightarrow> nat \<Rightarrow> 't suit \<Rightarrow> 't suit outcome res" where
  "friend_message api sod lib g n message len s =
     r_bind (if su_xdcc s then
               if NUL \<notin> set message then Inl OutOfBounds
               else r_bind (execute api sod lib g message n s) (\<lambda>s.
                      Inr (takeWhile (\<lambda>c. c \<noteq> CHR '' '') (cstr message) @ [NUL], s))
             else Inr (message, s)) (\<lambda>(message, s).
     let f = friend_info_by_friend_number (su_friends s) n in
     r_bind (argexp message len (CHR ''!'')) (\<lambda>argv.
       case argv of None \<Rightarrow> Inr (Running s) | Some argv \<Rightarrow> run_command api lib g n f argv s))"

end
