(* ===== verification/Command_Properties.thy ===== *)
theory Command_Properties
  imports Command Friend_Registry File_Transfer Fileop_Sharing
begin

text \<open>
  What a friend can do with a message: where the table of words overflows, which packs are
  sent, that unique prefixes are commands, and the commands that end the process or leave the
  registry of friends behind.
\<close>

section \<open>Words\<close>

fun blank_words :: "string \<Rightarrow> string list" where
  "blank_words [] = [[]]"
| "blank_words (c # cs) = (if c = CHR '' '' then [] # blank_words cs
     else (c # hd (blank_words cs)) # tl (blank_words cs))"

lemma blank_words_not_Nil [simp]: "blank_words s \<noteq> []"
  by (induction s) auto

lemma blank_words_split:
  "blank_words s = takeWhile (\<lambda>c. c \<noteq> CHR '' '') s #
     (case dropWhile (\<lambda>c. c \<noteq> CHR '' '') s of [] \<Rightarrow> [] | _ # r \<Rightarrow> blank_words r)"
  by (induction s) auto

lemma drop_takeWhile: "drop (length (takeWhile P s)) s = dropWhile P s"
  by (simp add: dropWhile_eq_drop)

lemma mem_store_length: "mem_store mem p bs = Inr mem' \<Longrightarrow> length mem' = length mem"
  by (auto simp: mem_store_def split: if_splits)

text \<open>Some word of the first three ends behind the table of 60 bytes.\<close>

fun too_long :: "nat \<Rightarrow> string list \<Rightarrow> bool" where
  "too_long row [] = False"
| "too_long row (w # ws) = (row < 3 \<and> (60 < 20 * row + length w + 1 \<or> too_long (Suc row) ws))"

lemma ex_nat_cases: "(\<exists>i. P i) \<longleftrightarrow> P 0 \<or> (\<exists>i. P (Suc i))" for P :: "nat \<Rightarrow> bool"
  by (metis not0_implies_Suc)

lemma too_long_iff:
  "too_long row ws \<longleftrightarrow> (\<exists>i. row + i < 3 \<and> i < length ws \<and> 60 < 20 * (row + i) + length (ws ! i) + 1)"
proof (induction ws arbitrary: row)
  case (Cons w ws)
  show ?case by (subst ex_nat_cases) (auto simp: Cons.IH)
qed simp

lemma parse_words_result:
  assumes "length args = 60" "k \<le> 3"
  shows "parse_words k args cmd =
    (if 0 < k \<and> too_long (3 - k) (blank_words cmd) then Inl OutOfBounds
     else Inr (min 3 (3 - k + length (blank_words cmd)), snd (case parse_words k args cmd of Inr r \<Rightarrow> r)))"
  using assms
proof (induction k arbitrary: args cmd)
  case (Suc k)
  let ?w = "takeWhile (\<lambda>c. c \<noteq> CHR '' '') cmd" and ?r = "dropWhile (\<lambda>c. c \<noteq> CHR '' '') cmd"
  have k: "3 - k = Suc (3 - Suc k)" using Suc.prems(2) by simp
  show ?case
  proof (cases "60 < 20 * (3 - Suc k) + length ?w + 1")
    case True
    with Suc.prems show ?thesis
      by (subst blank_words_split) (simp add: mem_store_def)
  next
    case False
    with Suc.prems obtain args1 where a: "mem_store args (20 * (3 - Suc k)) (?w @ [NUL]) = Inr args1"
      by (simp add: mem_store_def)
    have l: "length args1 = 60" using mem_store_length [OF a] Suc.prems(1) by simp
    show ?thesis
    proof (cases ?r)
      case Nil
      have p: "parse_words (Suc k) args cmd = Inr (3 - Suc k + 1, args1)"
        using Nil a by (simp only: parse_words.simps Let_def drop_takeWhile r_bind_Inr simp_thms if_True)
      have b: "blank_words cmd = [?w]" by (subst blank_words_split) (simp only: Nil list.case)
      have "\<not> too_long (3 - Suc k) [?w]" using False by simp
      then show ?thesis unfolding p b using Suc.prems(2) by simp
    next
      case (Cons c r)
      have p: "parse_words (Suc k) args cmd = parse_words k args1 r"
        using Cons a by (simp only: parse_words.simps Let_def drop_takeWhile r_bind_Inr list.distinct if_False list.sel)
      have b: "blank_words cmd = ?w # blank_words r" using Cons blank_words_split [of cmd] by simp
      have t: "too_long (3 - Suc k) (?w # blank_words r) \<longleftrightarrow> too_long (3 - k) (blank_words r)"
        unfolding too_long.simps k [symmetric] using False by simp
      show ?thesis
      proof (cases "k = 0")
        case True
        have "\<not> too_long 3 ws" for ws by (cases ws) simp_all
        then show ?thesis unfolding p b t by (simp add: True)
      next
        case False
        with Suc.IH [OF l, of r] Suc.prems(2) have e: "parse_words k args1 r = (if too_long (3 - k) (blank_words r) then Inl OutOfBounds
            else Inr (min 3 (3 - k + length (blank_words r)), snd (case parse_words k args1 r of Inr x \<Rightarrow> x)))"
          by simp
        have m: "3 - Suc k + length (?w # blank_words r) = 3 - k + length (blank_words r)"
          using k by simp
        show ?thesis unfolding p b t m eqTrueI [OF zero_less_Suc] simp_thms by (rule e)
      qed
    qed
  qed
qed simp

lemma parse_overflow:
  "parse_command cmd (replicate 60 NUL) = Inl OutOfBounds \<longleftrightarrow> too_long 0 (blank_words (cstr cmd))"
proof -
  obtain z where "parse_words 3 (replicate 60 NUL) (cstr cmd) =
      (if too_long 0 (blank_words (cstr cmd)) then Inl OutOfBounds else Inr z)"
    using parse_words_result [of "replicate 60 NUL" 3 "cstr cmd"] by fastforce
  then show ?thesis by (simp add: parse_command_def del: parse_words.simps)
qed

section \<open>Splitting and options\<close>

lemma no_blank_while:
  assumes "CHR '' '' \<notin> set w"
  shows "takeWhile (\<lambda>c. c \<notin> set '' '') (w @ CHR '' '' # rest) = w" "takeWhile (\<lambda>c. c \<notin> set '' '') w = w"
    "dropWhile (\<lambda>c. c \<notin> set '' '') (w @ CHR '' '' # rest) = CHR '' '' # rest"
    "dropWhile (\<lambda>c. c \<notin> set '' '') w = []"
  using assms by (induction w) auto

lemma no_blank_start: "CHR '' '' \<notin> set w \<Longrightarrow> w \<noteq> [] \<Longrightarrow> dropWhile (\<lambda>c. c \<in> set '' '') (w @ rest) = w @ rest"
  by (cases w) auto

lemma tokens_Nil [simp]: "tokens [] = []"
  by (simp add: tokens.simps strtok_def)

lemma tokens_word:
  assumes "CHR '' '' \<notin> set w" "w \<noteq> []"
  shows "tokens w = [w]"
proof -
  have "dropWhile (\<lambda>c. c \<in> set '' '') w = w" using no_blank_start [OF assms, of "[]"] by simp
  then have "strtok w '' '' = Some (w, [])"
    using assms by (simp only: strtok_def Let_def no_blank_while [OF assms(1)] if_False drop_Nil)
  then show ?thesis by (simp add: tokens.simps [of w])
qed

lemma tokens_first:
  assumes "CHR '' '' \<notin> set w" "w \<noteq> []"
  shows "tokens (w @ CHR '' '' # rest) = w # tokens rest"
proof -
  have "w @ CHR '' '' # rest \<noteq> []" by simp
  then have "strtok (w @ CHR '' '' # rest) '' '' = Some (w, drop 1 (CHR '' '' # rest))"
    by (simp only: strtok_def Let_def no_blank_while [OF assms(1)] no_blank_start [OF assms] if_False)
  then show ?thesis by (simp add: tokens.simps [of "w @ CHR '' '' # rest"])
qed

text \<open>A command of one word.\<close>

lemma argexp_word:
  assumes "CHR '' '' \<notin> set w" "no_nul w"
  shows "argexp (CHR ''!'' # w @ [NUL]) (Suc (length w)) (CHR ''!'') = Inr (Some [''arg0'', ''--'' @ w])"
proof -
  have "tokens (''arg0'' @ CHR '' '' # ''--'' @ w) = ''arg0'' # tokens (''--'' @ w)"
    by (rule tokens_first) simp_all
  moreover have "tokens (''--'' @ w) = [''--'' @ w]"
    by (rule tokens_word) (use assms in simp_all)
  ultimately show ?thesis using assms(2) by (simp add: argexp_def Let_def)
qed

text \<open>The letters of the options, and a word that is one of them without an argument.\<close>

definition option_word :: "string \<Rightarrow> char \<Rightarrow> bool" where
  "option_word w v \<longleftrightarrow> w \<noteq> [] \<and> no_nul w \<and> CHR '' '' \<notin> set w \<and> CHR ''='' \<notin> set w \<and>
     long_match w = Some (no_argument, v)"

lemma getopt_word: "option_word w v \<Longrightarrow> getopt_long [''--'' @ w] = ([(v, NUL)], [])"
proof -
  assume w: "option_word w v"
  then have t: "takeWhile (\<lambda>c. c \<noteq> CHR ''='') w = w" and m: "long_match w = Some (no_argument, v)"
    and e: "CHR ''='' \<notin> set w" by (auto simp: option_word_def takeWhile_eq_all_conv)
  have "long_opt w [] = ((v, NUL), [])"
    unfolding long_opt_def Let_def t m using e by simp
  with w show ?thesis by (simp add: option_word_def is_prefix_def)
qed

text \<open>What such a command comes to.\<close>

definition finish :: "'t toxcore \<Rightarrow> u32 \<Rightarrow> (string \<times> 't suit outcome) res \<Rightarrow> 't suit outcome res" where
  "finish api n r = r_bind r (\<lambda>(out, after). case after of
     Exited code s \<Rightarrow> r_bind (flush_stream api n out s) (\<lambda>s. Inr (Exited code s))
   | Running s \<Rightarrow> r_bind (flush_stream api n out s) (\<lambda>s. Inr (Running s)))"

lemma run_options_Nil: "run_options api lib g n f argv [] out = (\<lambda>s. Inr (out, Running s))"
  by (rule ext) simp

lemma command_word:
  assumes "\<not> su_xdcc s" "option_word w v"
  shows "friend_message api sod lib g n (CHR ''!'' # w @ [NUL]) (Suc (length w)) s =
    finish api n (run_option api lib g n (friend_info_by_friend_number (su_friends s) n)
      [''arg0'', ''--'' @ w] (v, NUL) [] s)"
proof -
  have "CHR '' '' \<notin> set w" "no_nul w" using assms(2) by (simp_all add: option_word_def)
  from argexp_word [OF this] assms(1) have "friend_message api sod lib g n (CHR ''!'' # w @ [NUL]) (Suc (length w)) s =
      run_command api lib g n (friend_info_by_friend_number (su_friends s) n) [''arg0'', ''--'' @ w] s"
    by (simp add: friend_message_def)
  also have "\<dots> = finish api n (r_bind (run_option api lib g n (friend_info_by_friend_number (su_friends s) n)
      [''arg0'', ''--'' @ w] (v, NUL) [] s) (\<lambda>(out, after). case after of
        Running s \<Rightarrow> Inr (out, Running s) | Exited code s \<Rightarrow> Inr (out, Exited code s)))"
    using getopt_word [OF assms(2)]
    by (simp add: run_command_def finish_def run_options_Nil del: getopt_long.simps append_Cons append_Nil)
  also have "(r_bind m (\<lambda>(out, after). case after of
        Running s \<Rightarrow> Inr (out, Running s) | Exited code s \<Rightarrow> Inr (out, Exited code s))) = m"
    for m :: "(string \<times> 'a suit outcome) res"
    by (cases m) (auto split: outcome.splits)
  finally show ?thesis .
qed

lemma long_match_value:
  assumes "long_match nm = Some (a, v)"
  shows "v \<in> set ''aibcfgpstwx''"
proof -
  have "v \<in> (snd \<circ> snd) ` set long_options"
  proof (cases "map_of long_options nm")
    case (Some r)
    with assms have "(nm, a, v) \<in> set long_options" by (simp add: long_match_def map_of_SomeD)
    then show ?thesis by (rule rev_image_eqI) simp
  next
    case None
    with assms obtain x where "filter (\<lambda>(n, _). is_prefix nm n) long_options = [(x, a, v)]"
      by (auto simp: long_match_def split: list.splits)
    then have "(x, a, v) \<in> set (filter (\<lambda>(n, _). is_prefix nm n) long_options)" by (simp only: list.set) simp
    then have "(x, a, v) \<in> set long_options" by (simp only: set_filter) simp
    then show ?thesis by (rule rev_image_eqI) simp
  qed
  then show ?thesis by (simp add: long_options_def insert_commute)
qed

lemma run_option_argv:
  assumes "fst r \<in> set ''aibcfgpstwx''"
  shows "run_option api lib g n f argv r out s = run_option api lib g n f argv' r out s"
  using assms by (auto simp: run_option_def Let_def)

lemma flush_friends:
  assumes "flush_stream api n out s = Inr s'"
  shows "\<exists>t. s' = set_tox t s"
  using assms
  by (auto simp: flush_stream_def set_tox_def su_tox_def r_bind_eq_Inr split: if_splits intro: exI [of _ "w_tox (su_w s)"])

lemma flush_ok: "\<exists>t. flush_stream api n out s = Inr (set_tox t s)"
proof (cases "out = []")
  case True
  then show ?thesis by (intro exI [of _ "su_tox s"]) (simp add: flush_stream_def set_tox_def su_tox_def)
next
  case False
  then show ?thesis by (auto simp: flush_stream_def toxstream_write_def case_prod_unfold)
qed

section \<open>Requests for packs\<close>

lemma show_nat_no_blank: "CHR '' '' \<notin> set (show_nat k)"
  using show_nat_digits [of k] by (auto simp: isdigit_def byte_def)

lemma atoi_show_nat: "int k < 2 ^ 31 \<Longrightarrow> atoi (show_nat k) = int k"
  using strtoll_show_nat [of k NUL "[]"] by (simp add: atoi_def isdigit_def byte_def in_i32_def)

lemma show_nat_0 [simp]: "show_nat 0 = ''0''"
  by code_simp

text \<open>The table after a command of two words that fit.\<close>

lemma parse_two_words:
  assumes "CHR '' '' \<notin> set a" "CHR '' '' \<notin> set b" "no_nul a" "no_nul b" "length a < 20" "length b < 20"
  shows "\<exists>args. parse_command (a @ CHR '' '' # b @ [NUL]) (replicate 60 NUL) = Inr (2, args) \<and>
    arg args 0 = a \<and> arg args 1 = b"
proof -
  have c: "cstr (a @ CHR '' '' # b @ [NUL]) = a @ CHR '' '' # b"
    using cstr_terminated [of "a @ CHR '' '' # b" "[]"] assms(3,4) by simp
  have w: "takeWhile (\<lambda>c. c \<noteq> CHR '' '') (a @ CHR '' '' # b) = a" "takeWhile (\<lambda>c. c \<noteq> CHR '' '') b = b"
    using no_blank_while(1) [OF assms(1), of b] no_blank_while(2) [OF assms(2)] by simp_all
  define m1 where "m1 = a @ NUL # replicate (59 - length a) NUL"
  have m1: "mem_store (replicate 60 NUL) 0 (a @ [NUL]) = Inr m1"
    using assms(5) by (simp add: mem_store_def m1_def del: replicate.simps)
  define m2 where "m2 = take 20 m1 @ b @ NUL # drop (20 + length b + 1) m1"
  have m2: "mem_store m1 20 (b @ [NUL]) = Inr m2"
    using assms(5,6) by (simp add: mem_store_def m2_def m1_def)
  have "parse_words (Suc 1) m1 b = Inr (2, m2)"
    unfolding parse_words.simps(2) [of 1 m1 b] Let_def w using m2 by simp
  moreover have "parse_words (Suc 2) (replicate 60 NUL) (a @ CHR '' '' # b) = parse_words (Suc 1) m1 b"
    unfolding parse_words.simps(2) [of 2] Let_def w using m1
    by (simp add: numeral_2_eq_2 del: replicate.simps parse_words.simps)
  ultimately have "parse_command (a @ CHR '' '' # b @ [NUL]) (replicate 60 NUL) = Inr (2, m2)"
    unfolding parse_command_def c by (simp add: numeral_3_eq_3 numeral_2_eq_2 del: replicate.simps parse_words.simps)
  moreover have "arg m2 0 = a"
  proof -
    have "take 20 m1 = a @ NUL # replicate (19 - length a) NUL"
      using assms(5) by (simp add: m1_def take_Cons')
    then show ?thesis using assms(3) by (simp add: arg_def m2_def)
  qed
  moreover have "arg m2 1 = b"
  proof -
    have "length (take 20 m1) = 20" using assms(5) by (simp add: m1_def)
    then show ?thesis using assms(4) by (simp add: arg_def m2_def)
  qed
  ultimately show ?thesis by blast
qed

section \<open>A number given twice\<close>

lemma add_again_not_ok:
  assumes "n \<in> set (numbers fs)"
  shows "\<not> registry_ok (friend_info_add_entry n fs)"
proof
  assume "registry_ok (friend_info_add_entry n fs)"
  then have "distinct (numbers (friend_info_add_entry n fs))"
    unfolding registry_ok_def by (simp add: strict_sorted_iff)
  from distinct_card [OF this] have "card (set (numbers (friend_info_add_entry n fs))) = Suc (length fs)"
    by (metis length_map length_reg_insert numbers_def friend_info_add_entry_reg)
  moreover have "card (set (numbers fs)) \<le> length fs"
    using card_length [of "numbers fs"] by (simp add: numbers_def)
  ultimately show False using assms by (simp add: insert_absorb)
qed

section \<open>An instance\<close>

text \<open>A program with one friend, which shares one file, and the texts of its C library.\<close>

definition clib0 :: clib where
  "clib0 = \<lparr>ctime_of = (\<lambda>_. ''Thu''), asctime_of = (\<lambda>_. ''Thu''), owned_by_us = (\<lambda>_. True),
     regular_file = (\<lambda>_. True)\<rparr>"

definition suit0 :: "sample_tox suit" where
  "suit0 = \<lparr>su_calls = \<lparr>c_w = world0, calltesters = [], greeter = None\<rparr>,
     su_friends = [friend_info_new 1], su_op = op0\<lparr>shr_list := [node0]\<rparr>, su_loaded = [],
     su_own = \<lparr>ci_name = None, ci_status_message = None, ci_tox_id_bin = None, ci_tox_id_hex = None,
       ci_connect = None\<rparr>,
     su_version = ''1.0'', su_xdcc = False, su_group = - 1, su_save = False, su_exit = False\<rparr>"

lemma suit0_simps [simp]:
  "su_w suit0 = world0" "su_xdcc suit0 = False" "shr_list (su_op suit0) = [node0]" "su_tox suit0 = w_tox world0"
  "numbers (su_friends suit0) = [1]"
  by (simp_all add: suit0_def su_w_def su_tox_def numbers_def friend_info_new_def)

section \<open>Properties\<close>

text \<open>
  C14 (safety): splitting a command writes behind its table of three rows of 20 bytes exactly
  if one of the first three words starts in its row and ends behind the table; rows are not
  tested. Otherwise it gives the number of words, at most three.
\<close>

theorem parse_command_overflow:
  "parse_command cmd (replicate 60 NUL) = Inl OutOfBounds \<longleftrightarrow>
     (\<exists>i. i < 3 \<and> i < length (blank_words (cstr cmd)) \<and> 60 < 20 * i + length (blank_words (cstr cmd) ! i) + 1)"
  unfolding parse_overflow too_long_iff by simp

text \<open>
  Once a friend has switched the file server on, a message of sixty bytes without
  a blank overruns the table on the stack, whoever sends it.
\<close>

theorem long_message_overflows:
  assumes "su_xdcc s" and "no_nul w" and "CHR '' '' \<notin> set w" and "60 \<le> length w"
  shows "friend_message api sod lib g n (w @ [NUL]) len s = Inl OutOfBounds"
proof -
  have "cstr (w @ [NUL]) = w" using assms(2) by simp
  moreover have "blank_words w = [w]" using assms(3) by (induction w) auto
  ultimately have "parse_command (w @ [NUL]) (replicate 60 NUL) = Inl OutOfBounds"
    unfolding parse_overflow using assms(4) by simp
  then show ?thesis using assms(1) by (simp add: friend_message_def execute_def del: replicate.simps)
qed

theorem long_message_overflows_witness:
  "friend_message sample sample_sodium clib0 (\<lambda>_. NUL) 1 (replicate 60 CHR ''x'' @ [NUL]) 60 (suit0\<lparr>su_xdcc := True\<rparr>) =
     Inl OutOfBounds"
  by (rule long_message_overflows) (simp_all add: no_nul_def del: replicate.simps)

text \<open>
  A command may be abbreviated: two words that select the same option have
  the same effect on everything, replies included.
\<close>

theorem abbreviated_command:
  assumes "\<not> su_xdcc s" and "option_word p v" and "option_word nm v"
  shows "friend_message api sod lib g n (CHR ''!'' # p @ [NUL]) (Suc (length p)) s =
    friend_message api sod lib g n (CHR ''!'' # nm @ [NUL]) (Suc (length nm)) s"
proof -
  have "v \<in> set ''aibcfgpstwx''"
    using assms(2) long_match_value [of p no_argument v] unfolding option_word_def by blast
  then have "run_option api lib g n f [''arg0'', ''--'' @ p] (v, NUL) [] s =
      run_option api lib g n f [''arg0'', ''--'' @ nm] (v, NUL) [] s" for f
    by (intro run_option_argv) simp
  then show ?thesis unfolding command_word [OF assms(1,2)] command_word [OF assms(1,3)] by (rule arg_cong)
qed

theorem abbreviated_command_witness:
  "friend_message sample sample_sodium clib0 (\<lambda>_. NUL) 1 (CHR ''!'' # ''ban'' @ [NUL]) (Suc (length ''ban'')) suit0 =
     friend_message sample sample_sodium clib0 (\<lambda>_. NUL) 1 (CHR ''!'' # ''banner'' @ [NUL]) (Suc (length ''banner'')) suit0"
proof (rule abbreviated_command)
  show "option_word ''ban'' (CHR ''b'')" by code_simp
  show "option_word ''banner'' (CHR ''b'')" by code_simp
qed simp

text \<open>
  The sender that a request for a pack adds, and what the command does then: the file cannot be
  opened, and the release of the new sender frees the hash of the shared file; \<^verbatim>\<open>toxcore\<close> refuses
  the transfer; or it has started.
\<close>

definition pack_sender :: "u32 \<Rightarrow> u32 \<Rightarrow> file_node \<Rightarrow> string \<Rightarrow> stream \<Rightarrow> int \<Rightarrow> file_sender" where
  "pack_sender n num node path st len =
     \<lparr>s_info = node\<lparr>fn_file := Some (gnu_basename path), fn_length := len\<rparr>, s_pathname = Some path,
      s_file = Some st, s_file_number = num, s_friend_number = n, s_kind = TOX_FILE_KIND_DATA\<rparr>"

definition pack_request :: "'t toxcore \<Rightarrow> u32 \<Rightarrow> file_node \<Rightarrow> nat \<Rightarrow> string \<Rightarrow> string \<Rightarrow> 't suit \<Rightarrow> 't suit" where
  "pack_request api n node p hash path s =
     (let w = su_w s; h = w_heap w in
      case fopen_read path (w_fs w) of
        None \<Rightarrow> send_text api n NOTFND_F_MSG (set_w (w\<lparr>w_heap := h\<lparr>blk := (blk h)(p := None)\<rparr>\<rparr>) s)
      | Some st \<Rightarrow>
          let len = (if fn_length node = 0 then file_length st (w_fs w) else fn_length node);
              (num, tox) = tox_file_send api n TOX_FILE_KIND_DATA (word_of_int len) (Some hash)
                             (cstr (gnu_basename path)) (w_tox w);
              s' = set_w (w\<lparr>w_tox := tox, w_senders := pack_sender n num node path st len # w_senders w\<rparr>) s in
          if num = UINT32_MAX then send_text api n SRVERR_F_MSG s' else s')"

lemma file_sender_new_pack:
  assumes "k < length shr" "fn_BLAKE2b (shr ! k) = Some p" "blk (w_heap w) p = Some hash" "fn_file (shr ! k) = Some path"
  shows "file_sender_new api g n shr (int k) w =
    (case fopen_read (cstr path) (w_fs w) of
       None \<Rightarrow> Inr (FILESEND_ERR_FILEIO, w\<lparr>w_heap := (w_heap w)\<lparr>blk := (blk (w_heap w))(p := None)\<rparr>\<rparr>)
     | Some st \<Rightarrow>
         let len = (if fn_length (shr ! k) = 0 then file_length st (w_fs w) else fn_length (shr ! k));
             (num, tox) = tox_file_send api n TOX_FILE_KIND_DATA (word_of_int len) (Some hash)
                            (cstr (gnu_basename (cstr path))) (w_tox w) in
         Inr (if num = UINT32_MAX then FILESEND_ERR_SENDING else FILESEND_OK,
              w\<lparr>w_tox := tox, w_senders := pack_sender n num (shr ! k) (cstr path) st len # w_senders w\<rparr>))"
proof (cases "fopen_read (cstr path) (w_fs w)")
  case None
  with assms show ?thesis
    by (simp add: file_sender_new_def load_block_def store_block_def FileSender_release_def free_opt_def
        free_block_def fun_upd_triv Let_def)
next
  case (Some st)
  then have "st\<lparr>st_pos := 0\<rparr> = st" by (auto simp: fopen_read_def split: if_splits)
  moreover have "h\<lparr>blk := (blk h)(p := Some hash)\<rparr> = h" if "blk h p = Some hash" for h :: heap
    using that by (simp add: fun_upd_idem)
  ultimately show ?thesis using assms Some
    by (simp add: file_sender_new_def start_sender_def add_filesender_def sender_stream_def measure_file_def announce_def
        load_hash_def load_block_def store_block_def file_sender_zero_def pack_sender_def case_prod_unfold Let_def)
qed

text \<open>
  C15 (functional): a request \<^verbatim>\<open>send k\<close> for a pack that is not in the list or does not exist
  any more is answered by a message, without any other change. For a pack that is in the list with
  a path and a hash that is allocated, the transfer starts and nothing is said, if its file can be
  opened and \<^verbatim>\<open>toxcore\<close> takes the transfer: the queue gets a sender with the path, the name, the
  length (measured if it is not known) and the hash of the pack and the number that \<^verbatim>\<open>toxcore\<close>
  returns. If \<^verbatim>\<open>toxcore\<close> refuses it, the sender stays in the queue and a message is sent. If the
  file cannot be opened, another message is sent, and the hash of the shared file is freed.
\<close>

theorem send_request:
  assumes "int k < 2 ^ 31" and "length (shr_list (su_op s)) < 2 ^ 31"
  shows "(\<not> (k < length (shr_list (su_op s)) \<and> fn_exists (shr_list (su_op s) ! k)) \<longrightarrow>
      execute api sod lib g (''send '' @ show_nat k @ [NUL]) n s = Inr (send_text api n NOTFND_ERR_MSG s)) \<and>
    (k < length (shr_list (su_op s)) \<and> shr_list (su_op s) ! k = node \<and> fn_exists node \<and> fn_file node = Some path \<and>
      fn_BLAKE2b node = Some p \<and> blk (w_heap (su_w s)) p = Some hash \<longrightarrow>
      execute api sod lib g (''send '' @ show_nat k @ [NUL]) n s = Inr (pack_request api n node p hash (cstr path) s))"
proof -
  let ?shr = "shr_list (su_op s)"
  have "k < 10 ^ 10" using assms(1) by simp
  then have "length (show_nat k) < 20" using length_show_nat [of k 10] by simp
  then obtain args where p: "parse_command (''send'' @ CHR '' '' # show_nat k @ [NUL]) (replicate 60 NUL) = Inr (2, args)"
    "arg args 0 = ''send''" "arg args 1 = show_nat k"
    using parse_two_words [of "''send''" "show_nat k"] show_nat_no_blank by auto
  then have e: "execute api sod lib g (''send '' @ show_nat k @ [NUL]) n s = cmd_send api g n 1 args s"
    by (simp add: execute_def del: replicate.simps)
  have "show_nat k \<noteq> ''0'' \<Longrightarrow> 0 < k" by (cases "k = 0") simp_all
  moreover have "to_i32 (int (length ?shr)) = int (length ?shr)" using assms(2) by (simp add: in_i32_def)
  ultimately have bad: "bad_pack (show_nat k) (- 1) (int k) ?shr \<longleftrightarrow> \<not> (k < length ?shr \<and> fn_exists (?shr ! k))"
    by (auto simp: bad_pack_def)
  show ?thesis unfolding e
    using file_sender_new_pack [of k ?shr p "su_w s" hash path api g n]
    by (auto simp: cmd_send_def p(3) atoi_show_nat [OF assms(1)] file_get_shared_def bad pack_request_def
        case_prod_unfold Let_def simp del: One_nat_def split: option.splits)
qed

theorem send_request_witness:
  "execute sample sample_sodium clib0 (\<lambda>_. NUL) (''send '' @ show_nat 0 @ [NUL]) 1 suit0 =
     Inr (pack_request sample 1 node0 0 (pad32 ''h'') ''/up/a'' suit0) \<and>
   map s_file_number (w_senders (su_w (pack_request sample 1 node0 0 (pad32 ''h'') ''/up/a'' suit0))) = [7] \<and>
   execute sample sample_sodium clib0 (\<lambda>_. NUL) (''send '' @ show_nat 7 @ [NUL]) 1 suit0 =
     Inr (send_text sample 1 NOTFND_ERR_MSG suit0)"
proof (intro conjI)
  have c: "cstr ''/up/a'' = ''/up/a''" by code_simp
  have n: "shr_list (su_op suit0) = [node0]" "blk (w_heap (su_w suit0)) 0 = Some (pad32 ''h'')" "su_w suit0 = world0"
    by (simp_all add: world0_def)
  show "execute sample sample_sodium clib0 (\<lambda>_. NUL) (''send '' @ show_nat 0 @ [NUL]) 1 suit0 =
     Inr (pack_request sample 1 node0 0 (pad32 ''h'') ''/up/a'' suit0)"
    using send_request [where k = 0 and s = suit0 and node = node0 and path = "''/up/a''" and p = 0 and hash = "pad32 ''h''"
        and api = sample and sod = sample_sodium and lib = clib0 and g = "\<lambda>_. NUL" and n = 1] n
    by (simp add: c node0_def)
  show "map s_file_number (w_senders (su_w (pack_request sample 1 node0 0 (pad32 ''h'') ''/up/a'' suit0))) = [7]"
    by (simp add: n pack_request_def fopen_read_def world0_def node0_def sample_def pack_sender_def)
  show "execute sample sample_sodium clib0 (\<lambda>_. NUL) (''send '' @ show_nat 7 @ [NUL]) 1 suit0 =
     Inr (send_text sample 1 NOTFND_ERR_MSG suit0)"
    using send_request [where k = 7 and s = suit0 and node = node0 and path = "''/up/a''" and p = 0 and hash = "pad32 ''h''"
        and api = sample and sod = sample_sodium and lib = clib0 and g = "\<lambda>_. NUL" and n = 1] n by simp
qed

text \<open>
  Any friend ends the bot with the command \<^verbatim>\<open>!pamarkdown\<close>: the process
  exits on every path, with success only for an empty file.
\<close>

theorem pamarkdown_exits:
  assumes "\<not> su_xdcc s"
  shows "\<exists>code s'. friend_message api sod lib g n (''!pamarkdown'' @ [NUL]) 11 s = Inr (Exited code s') \<and>
    (code = 0 \<longrightarrow> file_bytes ''pa.md'' (w_fs (su_w s)) = [])"
proof -
  have w: "option_word ''pamarkdown'' (CHR ''p'')" by code_simp
  obtain out code where f: "printf_file (owned_by_us lib) (regular_file lib) ''pa.md'' (w_fs (su_w s)) = (out, code)"
    by fastforce
  then have "code = 0 \<longrightarrow> file_bytes ''pa.md'' (w_fs (su_w s)) = []"
    by (auto simp: printf_file_def fread_at_def Let_def split: if_splits)
  moreover obtain t where t: "flush_stream api n out s = Inr (set_tox t s)" using flush_ok [of api n out s] by blast
  have "run_option api lib g n (friend_info_by_friend_number (su_friends s) n)
      [''arg0'', ''--'' @ ''pamarkdown''] (CHR ''p'', NUL) [] s = Inr (out, Exited code s)"
    using f by (simp add: run_option_def)
  with t have "friend_message api sod lib g n (CHR ''!'' # ''pamarkdown'' @ [NUL]) (Suc (length ''pamarkdown'')) s =
      Inr (Exited code (set_tox t s))"
    unfolding command_word [OF assms w] by (simp add: finish_def)
  moreover have "Suc (length ''pamarkdown'') = 11" by simp
  ultimately show ?thesis by (metis append_Cons)
qed

theorem pamarkdown_exits_witness:
  "\<exists>code s'. friend_message sample sample_sodium clib0 (\<lambda>_. NUL) 1 (''!pamarkdown'' @ [NUL]) 11 suit0 =
     Inr (Exited code s')"
  using pamarkdown_exits [of suit0 sample sample_sodium clib0 "\<lambda>_. NUL" 1] suit0_simps(2) by metis

text \<open>
  \<^verbatim>\<open>!forgetme\<close> deletes the friend from \<^verbatim>\<open>toxcore\<close> and not
  from the registry. From then on the two disagree, and as soon as the number is given to the
  next friend, two entries have it.
\<close>

theorem forgetme_breaks_registry:
  assumes "agrees api (su_tox s, su_friends s)" and "friend_laws api" and "n \<in> set (numbers (su_friends s))"
    and "\<not> su_xdcc s"
    and "\<And>m t. set (tox_self_get_friend_list api (snd (tox_friend_send_message api n 0 m t))) =
      set (tox_self_get_friend_list api t)"
  shows "\<exists>s'. friend_message api sod lib g n (''!forgetme'' @ [NUL]) 9 s = Inr (Running s') \<and>
    su_friends s' = su_friends s \<and> \<not> agrees api (su_tox s', su_friends s') \<and>
    (\<forall>pk t. tox_friend_add_norequest api pk (su_tox s') = (Some n, t) \<longrightarrow>
       \<not> registry_ok (snd (friend_request_cb api pk (su_tox s') (su_friends s'))))"
proof -
  have w: "option_word ''forgetme'' (CHR ''g'')" by code_simp
  define t1 where "t1 = snd (tox_friend_delete api n (su_tox s))"
  have l1: "set (tox_self_get_friend_list api t1) = set (tox_self_get_friend_list api (su_tox s)) - {n}"
    using assms(2) by (simp add: friend_laws_def t1_def)
  have keep: "set (tox_self_get_friend_list api (snd (send_all api \<lparr>ck_friend_number = n, ck_type = 0\<rparr> ms t))) =
      set (tox_self_get_friend_list api t)" for ms t
    by (induction ms arbitrary: t) (simp_all add: assms(5) case_prod_unfold Let_def)
  have flush: "\<exists>t. flush_stream api n out (set_tox t1 s) = Inr (set_tox t (set_tox t1 s)) \<and>
      set (tox_self_get_friend_list api t) = set (tox_self_get_friend_list api t1)" if "out \<noteq> []" for out
    using that keep [of "chunks out" t1]
    by (intro exI [of _ "snd (toxstream_loop api \<lparr>ck_friend_number = n, ck_type = 0\<rparr> out (length out) 0 t1)"])
      (simp add: flush_stream_def toxstream_write_def case_prod_unfold toxstream_loop_chunks)
  define bye where "bye = ''Bye old friend... I'' @ [CHR 0x27] @ ''ll never forget you!'' @ [NL]"
  obtain t where t: "flush_stream api n bye (set_tox t1 s) = Inr (set_tox t (set_tox t1 s))"
    "set (tox_self_get_friend_list api t) = set (tox_self_get_friend_list api t1)"
    using flush [of bye] by (auto simp: bye_def)
  have "run_option api lib g n (friend_info_by_friend_number (su_friends s) n)
      [''arg0'', ''--'' @ ''forgetme''] (CHR ''g'', NUL) [] s = Inr (bye, Running (set_tox t1 s))"
    by (simp add: run_option_def t1_def bye_def)
  with t(1) have "friend_message api sod lib g n (CHR ''!'' # ''forgetme'' @ [NUL]) (Suc (length ''forgetme'')) s =
      Inr (Running (set_tox t (set_tox t1 s)))"
    unfolding command_word [OF assms(4) w] by (simp add: finish_def)
  moreover have "Suc (length ''forgetme'') = 9" "CHR ''!'' # ''forgetme'' @ [NUL] = ''!forgetme'' @ [NUL]" by simp_all
  ultimately have run: "friend_message api sod lib g n (''!forgetme'' @ [NUL]) 9 s = Inr (Running (set_tox t (set_tox t1 s)))"
    by (simp only:)
  let ?s' = "set_tox t (set_tox t1 s)"
  have "\<not> agrees api (su_tox ?s', su_friends ?s')"
    using assms(1,3) t(2) l1 by (auto simp: agrees_def)
  moreover have "\<not> registry_ok (snd (friend_request_cb api pk (su_tox ?s') (su_friends ?s')))"
    if "tox_friend_add_norequest api pk (su_tox ?s') = (Some n, t')" for pk t'
    using that add_again_not_ok [OF assms(3)] by (simp add: friend_request_cb_def)
  ultimately show ?thesis using run by (intro exI [of _ ?s']) simp
qed

theorem forgetme_breaks_registry_witness:
  "\<exists>s'. friend_message sample sample_sodium clib0 (\<lambda>_. NUL) 1 (''!forgetme'' @ [NUL]) 9 suit0 = Inr (Running s') \<and>
     su_friends s' = su_friends suit0 \<and> \<not> agrees sample (su_tox s', su_friends s')"
proof -
  have "agrees sample (su_tox suit0, su_friends suit0)"
    by (simp add: agrees_def registry_ok_def world0_def sample_def)
  from forgetme_breaks_registry [OF this friend_laws_sample, of 1 sample_sodium clib0 "\<lambda>_. NUL"] show ?thesis
    by (auto simp: sample_def)
qed

end
