(* ===== verification/Ylog.thy ===== *)
theory Ylog
  imports C_Lib
begin

text \<open>
  \<^verbatim>\<open>src/ylog/ylog.c\<close>: log messages, filtered by a level per source file. A file
  computes its level when it logs for the first time and is then in a list, so that a change
  of the configuration reaches it. \<^verbatim>\<open>fnmatch\<close> with its flags is a parameter; what
  POSIX says of it for patterns without brackets and backslashes is the function \<open>glob\<close>.
  \<^verbatim>\<open>malloc\<close> succeeds.
\<close>

section \<open>State\<close>

abbreviation (input) YLOG_WARN :: int where "YLOG_WARN \<equiv> 2"
abbreviation (input) YLOG_MAX :: int where "YLOG_MAX \<equiv> 9999"
abbreviation (input) YLOG_UNINITIALIZED :: int where "YLOG_UNINITIALIZED \<equiv> 10000"

text \<open>The structure of a source file. Its place in the list is in the state of the logger.\<close>

record ylog_file_t =
  ylevel :: int
  yname :: "string option"

text \<open>
  A callback gets the file name, the line, the level and the message, and appends to what was
  written to \<^verbatim>\<open>stderr\<close>. Source files have numbers; \<open>ylog_files\<close> is the list.
\<close>

type_synonym handler = "string \<Rightarrow> int \<Rightarrow> int \<Rightarrow> string \<Rightarrow> string \<Rightarrow> string res"

record ylog_state =
  yfile :: "nat \<Rightarrow> ylog_file_t"
  ylog_files :: "nat list"
  ylog_default_level :: int
  ylog_pattern :: "string option"
  ylog_handler :: handler
  ystderr :: string

section \<open>The level of a file\<close>

text \<open>
  \<^verbatim>\<open>fnmatch\<close> of the C library: a pattern, a string and the flags. It is true here when
  the C function returns 0. With \<^verbatim>\<open>FNM_PATHNAME\<close> a slash is only matched by a slash.
\<close>

type_synonym fnmatch_fun = "string \<Rightarrow> string \<Rightarrow> int \<Rightarrow> bool"

abbreviation (input) FNM_PATHNAME :: int where "FNM_PATHNAME \<equiv> 1"

text \<open>The suffixes behind a slash, the last of several, are names of the file as well.\<close>

fun match_suffix :: "fnmatch_fun \<Rightarrow> string \<Rightarrow> string \<Rightarrow> bool" where
  "match_suffix fnmatch pat [] = False"
| "match_suffix fnmatch pat (c # f) =
     ((c = CHR ''/'' \<and> (f = [] \<or> hd f \<noteq> CHR ''/'') \<and> fnmatch pat f 0) \<or> match_suffix fnmatch pat f)"

definition ylog_match :: "fnmatch_fun \<Rightarrow> string \<Rightarrow> string \<Rightarrow> bool" where
  "ylog_match fnmatch pat fn \<longleftrightarrow> fnmatch pat fn 0 \<or> match_suffix fnmatch pat fn"

definition no_mark :: "char \<Rightarrow> bool" where
  "no_mark c \<longleftrightarrow> c \<noteq> CHR '':'' \<and> c \<noteq> CHR '',''"

lemma length_dropWhile_tl:
  assumes "dropWhile P s \<noteq> []"
  shows "length (drop 1 (dropWhile Q (tl (dropWhile P s)))) < length s"
proof -
  have "length (dropWhile Q (tl (dropWhile P s))) \<le> length (tl (dropWhile P s))"
    by (rule length_dropWhile_le)
  also have "\<dots> < length (dropWhile P s)" using assms by simp
  also have "\<dots> \<le> length s" by (rule length_dropWhile_le)
  finally show ?thesis by simp
qed

text \<open>The first loop: where the number of the level is expected.\<close>

function level_scan :: "fnmatch_fun \<Rightarrow> string \<Rightarrow> string \<Rightarrow> string" where
  "level_scan fnmatch nm pat =
     (if pat = [] then []
      else
        let start = takeWhile no_mark pat; rest = dropWhile no_mark pat in
        if rest = [] \<or> hd rest \<noteq> CHR '':'' then pat
        else if ylog_match fnmatch start nm then tl rest
        else level_scan fnmatch nm (drop 1 (dropWhile (\<lambda>c. c \<noteq> CHR '','') (tl rest))))"
  by pat_completeness auto

termination
proof (relation "measure (\<lambda>(f, n, p). length p)")
  fix fnmatch nm and pat x xa :: string
  assume "xa = dropWhile no_mark pat" "\<not> (xa = [] \<or> hd xa \<noteq> CHR '':'')"
  then show "((fnmatch, nm, drop 1 (dropWhile (\<lambda>c. c \<noteq> CHR '','') (tl xa))), fnmatch, nm, pat)
      \<in> measure (\<lambda>(f, n, p). length p)"
    using length_dropWhile_tl [of no_mark pat] by simp
qed simp

declare level_scan.simps [simp del]

text \<open>The second loop: the number, cut off as soon as it is too large.\<close>

fun level_number :: "nat \<Rightarrow> string \<Rightarrow> nat \<times> string" where
  "level_number val [] = (val, [])"
| "level_number val (c # cs) =
     (if int val < YLOG_MAX \<and> isdigit c then level_number (val * 10 + digit_val c) cs else (val, c # cs))"

definition level_read :: "int \<Rightarrow> string \<Rightarrow> int" where
  "level_read default_level pat =
     (let (val, rest) = level_number 0 pat in
      if pat \<noteq> [] \<and> int val \<le> YLOG_MAX \<and> rest \<noteq> pat \<and> (rest = [] \<or> hd rest = CHR '','') then int val
      else default_level)"

definition ylog_set_file_level :: "fnmatch_fun \<Rightarrow> int \<Rightarrow> string option \<Rightarrow> string \<Rightarrow> int" where
  "ylog_set_file_level fnmatch default_level pattern nm =
     (case pattern of
        None \<Rightarrow> default_level
      | Some p \<Rightarrow> level_read default_level (level_scan fnmatch nm p))"

text \<open>\<^verbatim>\<open>ylog_set_file_name\<close>: the name without its extension.\<close>

definition ylog_set_file_name :: "string \<Rightarrow> string" where
  "ylog_set_file_name f =
     (let l = length f; at = (\<lambda>k. f ! (l - k)) in
      if 2 < l \<and> (at 1 = CHR ''c'' \<or> at 1 = CHR ''h'') \<and> at 2 = CHR ''.'' then take (l - 2) f
      else if 3 < l \<and> at 1 = CHR ''c'' \<and> at 2 = CHR ''c'' \<and> at 3 = CHR ''.'' then take (l - 3) f
      else if 4 < l \<and> at 1 = CHR ''p'' \<and> at 2 = CHR ''p'' \<and> (at 3 = CHR ''c'' \<or> at 3 = CHR ''h'') \<and> at 4 = CHR ''.''
        then take (l - 4) f
      else f)"

section \<open>Logging\<close>

text \<open>The text of the level has a buffer of eight bytes.\<close>

definition level_name :: "int \<Rightarrow> string" where
  "level_name level =
     (if level = 1 then ''ERROR'' else if level = 2 then ''WARN'' else if level = 3 then ''info''
      else if level = 4 then ''debug'' else if level = 5 then ''trace'' else show_int level)"

definition ylog_default_handler :: handler where
  "ylog_default_handler file line level message err =
     (if 8 < length (level_name level) + 1 then Inl OutOfBounds
      else Inr (err @ ''--'' @ level_name level @ ''-- '' @ file @ '':'' @ show_int line @ '': '' @ message @ [CHR 0x0A]))"

text \<open>
  \<^verbatim>\<open>ylog_impl\<close>, called with the formatted message: it is complete whatever its length,
  since a long one gets a buffer of its own.
\<close>

definition ylog_impl ::
  "fnmatch_fun \<Rightarrow> nat \<Rightarrow> int \<Rightarrow> int \<Rightarrow> string \<Rightarrow> string \<Rightarrow> ylog_state \<Rightarrow> ylog_state res" where
  "ylog_impl fnmatch k level line filename msg s =
     (let first = (ylevel (yfile s k) = YLOG_UNINITIALIZED);
          nm = ylog_set_file_name filename;
          lv = ylog_set_file_level fnmatch (ylog_default_level s) (ylog_pattern s) nm;
          s = (if first then s\<lparr>yfile := (yfile s)(k := \<lparr>ylevel = lv, yname = Some nm\<rparr>), ylog_files := k # ylog_files s\<rparr>
               else s) in
      if first \<and> level > ylevel (yfile s k) then Inr s
      else r_bind (ylog_handler s filename line level msg (ystderr s)) (\<lambda>err. Inr (s\<lparr>ystderr := err\<rparr>)))"

text \<open>The macros.\<close>

definition ylog_enabled :: "nat \<Rightarrow> int \<Rightarrow> ylog_state \<Rightarrow> bool" where
  "ylog_enabled k level s \<longleftrightarrow> level \<le> ylevel (yfile s k)"

definition ylog ::
  "fnmatch_fun \<Rightarrow> nat \<Rightarrow> int \<Rightarrow> int \<Rightarrow> string \<Rightarrow> string \<Rightarrow> ylog_state \<Rightarrow> ylog_state res" where
  "ylog fnmatch k level line filename msg s =
     (if ylog_enabled k level s then ylog_impl fnmatch k level line filename msg s else Inr s)"

definition ylog_set_handler :: "handler \<Rightarrow> ylog_state \<Rightarrow> ylog_state" where
  "ylog_set_handler cb s = s\<lparr>ylog_handler := cb\<rparr>"

text \<open>
  The loop over the list. A file of the list has a name; without one the matching would
  dereference a null pointer.
\<close>

fun set_levels ::
  "fnmatch_fun \<Rightarrow> int \<Rightarrow> string option \<Rightarrow> nat list \<Rightarrow> (nat \<Rightarrow> ylog_file_t) \<Rightarrow> (nat \<Rightarrow> ylog_file_t) res" where
  "set_levels fnmatch d p [] fs = Inr fs"
| "set_levels fnmatch d p (k # ks) fs =
     (case yname (fs k) of
        None \<Rightarrow> Inl NullDeref
      | Some nm \<Rightarrow> set_levels fnmatch d p ks (fs(k := (fs k)\<lparr>ylevel := ylog_set_file_level fnmatch d p nm\<rparr>)))"

definition ylog_set_level :: "fnmatch_fun \<Rightarrow> int \<Rightarrow> string option \<Rightarrow> ylog_state \<Rightarrow> ylog_state res" where
  "ylog_set_level fnmatch default_level pattern s =
     (let p = map_option cstr pattern in
      r_bind (set_levels fnmatch default_level p (ylog_files s) (yfile s)) (\<lambda>fs.
        Inr (s\<lparr>ylog_default_level := default_level, ylog_pattern := p, yfile := fs\<rparr>)))"

text \<open>The state of a program that has just started.\<close>

definition ylog_start :: ylog_state where
  "ylog_start = \<lparr>yfile = (\<lambda>k. \<lparr>ylevel = YLOG_UNINITIALIZED, yname = None\<rparr>), ylog_files = [],
     ylog_default_level = YLOG_WARN, ylog_pattern = None, ylog_handler = ylog_default_handler, ystderr = []\<rparr>"

section \<open>The documented configuration\<close>

text \<open>
  A configuration as the comment of \<^verbatim>\<open>ylog.h\<close> describes it: patterns with levels,
  traversed in order, and an optional level for the other files.
\<close>

type_synonym config = "(string \<times> nat) list \<times> nat option"

definition config_level :: "(string \<Rightarrow> string \<Rightarrow> bool) \<Rightarrow> int \<Rightarrow> config \<Rightarrow> string \<Rightarrow> int" where
  "config_level matches default_level c nm =
     (case List.find (\<lambda>(pat, _). matches pat nm) (fst c) of
        Some (_, l) \<Rightarrow> int l
      | None \<Rightarrow> (case snd c of Some l \<Rightarrow> int l | None \<Rightarrow> default_level))"

fun config_text :: "(string \<times> nat) list \<Rightarrow> nat option \<Rightarrow> string" where
  "config_text [] None = []"
| "config_text [] (Some l) = show_nat l"
| "config_text [(pat, l)] None = pat @ CHR '':'' # show_nat l"
| "config_text ((pat, l) # rules) d = pat @ CHR '':'' # show_nat l @ CHR '','' # config_text rules d"

definition config_ok :: "config \<Rightarrow> bool" where
  "config_ok c \<longleftrightarrow> list_all (\<lambda>(pat, l). list_all no_mark pat \<and> l \<le> 9999) (fst c) \<and>
     (case snd c of None \<Rightarrow> True | Some l \<Rightarrow> l \<le> 9999)"

lemma config_text_Cons:
  "config_text ((pat, l) # rules) d =
     pat @ CHR '':'' # show_nat l @ (if rules = [] \<and> d = None then [] else CHR '','' # config_text rules d)"
  by (cases rules; cases d) auto

lemma level_number_stop: "rest = [] \<or> \<not> isdigit (hd rest) \<Longrightarrow> level_number v rest = (v, rest)"
  by (cases rest) auto

lemma dec_fold_ge: "v \<le> foldl (\<lambda>a d. 10 * a + digit_val d) v ds"
proof (induction ds arbitrary: v)
  case (Cons d ds)
  have "v \<le> 10 * v + digit_val d" by simp
  also note Cons [of "10 * v + digit_val d"]
  finally show ?case by simp
qed simp

lemma level_number_digits:
  assumes "foldl (\<lambda>a d. 10 * a + digit_val d) v ds \<le> 9999" "\<forall>d\<in>set ds. isdigit d" "rest = [] \<or> \<not> isdigit (hd rest)"
  shows "level_number v (ds @ rest) = (foldl (\<lambda>a d. 10 * a + digit_val d) v ds, rest)"
  using assms
proof (induction ds arbitrary: v)
  case Nil
  then show ?case by (simp add: level_number_stop)
next
  case (Cons d ds)
  have "10 * v + digit_val d \<le> 9999"
    using Cons.prems(1) dec_fold_ge [of "10 * v + digit_val d" ds] by simp
  then have "v < 9999" by simp
  with Cons show ?case by (simp add: mult.commute)
qed

lemma level_read_number:
  assumes "n \<le> 9999" "rest = [] \<or> hd rest = CHR '',''"
  shows "level_read d (show_nat n @ rest) = int n"
proof -
  have "rest = [] \<or> \<not> isdigit (hd rest)" using assms(2) by (auto simp: isdigit_def byte_def)
  then have "level_number 0 (show_nat n @ rest) = (n, rest)"
    using level_number_digits [of 0 "show_nat n" rest] assms(1) show_nat_digits [of n] dec_val_show_nat [of n]
    by (simp add: dec_val_def)
  moreover have "rest \<noteq> show_nat n @ rest" by (metis append_self_conv2 show_nat_not_Nil)
  ultimately show ?thesis using assms by (simp add: level_read_def)
qed

lemma digits_no_mark: "list_all no_mark (show_nat n)"
  using show_nat_digits [of n] isdigit_not by (auto simp: list_all_iff no_mark_def)

lemma no_comma_show_nat: "\<forall>c\<in>set (show_nat n). c \<noteq> CHR '',''"
  using show_nat_digits [of n] isdigit_not by blast

lemma level_scan_end: "list_all no_mark pat \<Longrightarrow> level_scan fnmatch nm pat = pat"
  by (subst level_scan.simps) (simp add: list_all_iff)

lemma level_scan_rule:
  assumes "list_all no_mark pat"
  shows "level_scan fnmatch nm (pat @ CHR '':'' # rest) =
    (if ylog_match fnmatch pat nm then rest
     else level_scan fnmatch nm (drop 1 (dropWhile (\<lambda>c. c \<noteq> CHR '','') rest)))"
proof -
  have "\<not> no_mark (CHR '':'')" by (simp add: no_mark_def)
  then have "takeWhile no_mark (pat @ CHR '':'' # rest) = pat"
    "dropWhile no_mark (pat @ CHR '':'' # rest) = CHR '':'' # rest"
    using assms by (simp_all add: list_all_iff)
  then show ?thesis by (subst level_scan.simps) (simp add: Let_def)
qed

lemma read_config:
  assumes "config_ok (rules, d)"
  shows "level_read dl (level_scan fnmatch nm (config_text rules d)) = config_level (ylog_match fnmatch) dl (rules, d) nm"
  using assms
proof (induction rules)
  case Nil
  have "level_read dl [] = dl" by (simp add: level_read_def)
  with Nil show ?case
    using level_read_number [of _ "[]" dl] digits_no_mark
    by (cases d) (auto simp: config_level_def config_ok_def level_scan_end)
next
  case (Cons r rules)
  obtain pat l where r: "r = (pat, l)" by (cases r)
  with Cons.prems have p: "list_all no_mark pat" "l \<le> 9999" and ok: "config_ok (rules, d)"
    by (auto simp: config_ok_def)
  define tail where "tail = (if rules = [] \<and> d = None then [] else CHR '','' # config_text rules d)"
  have text_eq: "config_text (r # rules) d = pat @ CHR '':'' # show_nat l @ tail"
    unfolding r config_text_Cons tail_def ..
  have "drop 1 (dropWhile (\<lambda>c. c \<noteq> CHR '','') (show_nat l @ tail)) = config_text rules d"
    using no_comma_show_nat [of l] by (auto simp: tail_def dropWhile_append2)
  then have "level_scan fnmatch nm (config_text (r # rules) d) =
      (if ylog_match fnmatch pat nm then show_nat l @ tail else level_scan fnmatch nm (config_text rules d))"
    unfolding text_eq level_scan_rule [OF p(1)] by simp
  moreover have "level_read dl (show_nat l @ tail) = int l"
    using p(2) by (intro level_read_number) (simp_all add: tail_def)
  ultimately show ?case using Cons.IH [OF ok] r by (auto simp: config_level_def split: option.split)
qed

section \<open>Matching as documented\<close>

text \<open>
  The comment of \<^verbatim>\<open>ylog.h\<close>: directories that the pattern does not name are ignored, and
  \<^verbatim>\<open>net/*\<close> stands for the files of a directory \<^verbatim>\<open>net\<close>, not for those of its
  subdirectories. That is \<^verbatim>\<open>fnmatch\<close> with \<^verbatim>\<open>FNM_PATHNAME\<close> on the rest of the
  name behind some directories.
\<close>

definition behind_dirs :: "string \<Rightarrow> nat \<Rightarrow> bool" where
  "behind_dirs nm i \<longleftrightarrow> i = 0 \<or> nm ! (i - 1) = CHR ''/'' \<and> (i = length nm \<or> nm ! i \<noteq> CHR ''/'')"

definition documented_match :: "fnmatch_fun \<Rightarrow> string \<Rightarrow> string \<Rightarrow> bool" where
  "documented_match fnmatch pat nm =
     list_ex (\<lambda>i. behind_dirs nm i \<and> fnmatch pat (drop i nm) FNM_PATHNAME) [0..<Suc (length nm)]"

text \<open>
  What POSIX says of \<^verbatim>\<open>fnmatch\<close> for patterns of ordinary characters, question marks and
  stars.
\<close>

fun glob :: fnmatch_fun where
  "glob [] s flags = (s = [])"
| "glob (p # ps) [] flags = (p = CHR ''*'' \<and> glob ps [] flags)"
| "glob (p # ps) (c # s) flags =
     (if p = CHR ''*'' then glob ps (c # s) flags \<or> (\<not> (odd flags \<and> c = CHR ''/'') \<and> glob (p # ps) s flags)
      else (if p = CHR ''?'' then \<not> (odd flags \<and> c = CHR ''/'') else c = p) \<and> glob ps s flags)"

definition ordinary :: "char \<Rightarrow> bool" where
  "ordinary c \<longleftrightarrow> c \<notin> {CHR ''*'', CHR ''?'', CHR ''['', CHR 0x5C}"

definition plain_pattern :: "string \<Rightarrow> bool" where
  "plain_pattern pat \<longleftrightarrow> list_all (\<lambda>c. c \<noteq> CHR ''['' \<and> c \<noteq> CHR 0x5C) pat"

definition posix_fnmatch :: "fnmatch_fun \<Rightarrow> bool" where
  "posix_fnmatch fnmatch \<longleftrightarrow> (\<forall>pat s. plain_pattern pat \<longrightarrow>
     fnmatch pat s 0 = glob pat s 0 \<and> fnmatch pat s FNM_PATHNAME = glob pat s FNM_PATHNAME)"

text \<open>
  Patterns for which the flag does not matter: without wildcards, and a star before a text
  without wildcards and slashes, as \<^verbatim>\<open>main\<close> and \<^verbatim>\<open>*_util\<close> of the comment.
\<close>

definition steady_pattern :: "string \<Rightarrow> bool" where
  "steady_pattern pat \<longleftrightarrow> list_all ordinary pat \<or>
     (pat \<noteq> [] \<and> hd pat = CHR ''*'' \<and> list_all (\<lambda>c. ordinary c \<and> c \<noteq> CHR ''/'') (tl pat))"

lemma match_suffix_iff:
  "match_suffix fnmatch pat f \<longleftrightarrow>
    (\<exists>p s. f = p @ CHR ''/'' # s \<and> (s = [] \<or> hd s \<noteq> CHR ''/'') \<and> fnmatch pat s 0)"
proof (induction f)
  case (Cons c f)
  show ?case
  proof
    assume "match_suffix fnmatch pat (c # f)"
    then show "\<exists>p s. c # f = p @ CHR ''/'' # s \<and> (s = [] \<or> hd s \<noteq> CHR ''/'') \<and> fnmatch pat s 0"
    proof (cases "match_suffix fnmatch pat f")
      case True
      with Cons.IH show ?thesis by (metis append_Cons)
    qed auto
  next
    assume "\<exists>p s. c # f = p @ CHR ''/'' # s \<and> (s = [] \<or> hd s \<noteq> CHR ''/'') \<and> fnmatch pat s 0"
    then show "match_suffix fnmatch pat (c # f)" using Cons.IH by (auto simp: Cons_eq_append_conv)
  qed
qed simp

lemma documented_match_iff:
  "documented_match fnmatch pat nm \<longleftrightarrow> fnmatch pat nm FNM_PATHNAME \<or>
    (\<exists>p s. nm = p @ CHR ''/'' # s \<and> (s = [] \<or> hd s \<noteq> CHR ''/'') \<and> fnmatch pat s FNM_PATHNAME)"
  (is "?l \<longleftrightarrow> ?r")
proof
  assume ?l
  then obtain i where i: "i \<le> length nm" "behind_dirs nm i" "fnmatch pat (drop i nm) FNM_PATHNAME"
    unfolding documented_match_def list_ex_iff by (metis atLeastLessThan_iff less_Suc_eq_le set_upt)
  show ?r
  proof (cases i)
    case (Suc k)
    with i have k: "k < length nm" "nm ! k = CHR ''/''" "i = length nm \<or> nm ! i \<noteq> CHR ''/''"
      by (auto simp: behind_dirs_def)
    with Suc i(1) have "drop i nm = [] \<or> hd (drop i nm) \<noteq> CHR ''/''" by (auto simp: hd_drop_conv_nth)
    moreover have "nm = take k nm @ CHR ''/'' # drop i nm" using id_take_nth_drop [OF k(1)] k(2) Suc by simp
    ultimately show ?thesis using i(3) by blast
  qed (use i in simp)
next
  assume r: ?r
  show ?l
  proof (cases "fnmatch pat nm FNM_PATHNAME")
    case True
    then show ?thesis by (auto simp: documented_match_def list_ex_iff behind_dirs_def)
  next
    case False
    with r obtain p s where s: "nm = p @ CHR ''/'' # s" "s = [] \<or> hd s \<noteq> CHR ''/''" "fnmatch pat s FNM_PATHNAME"
      by blast
    then have "behind_dirs nm (Suc (length p))" by (cases s) (auto simp: behind_dirs_def nth_append)
    moreover have "Suc (length p) \<in> set [0..<Suc (length nm)]"
      using s(1) by (simp only: set_upt atLeastLessThan_iff) simp
    moreover have "drop (Suc (length p)) nm = s" using s(1) by simp
    ultimately show ?thesis unfolding documented_match_def list_ex_iff using s(3) by blast
  qed
qed

lemma glob_ordinary: "list_all ordinary pat \<Longrightarrow> glob pat s flags \<longleftrightarrow> s = pat"
  by (induction pat s flags rule: glob.induct) (auto simp: ordinary_def)

lemma glob_pathname: "glob pat s FNM_PATHNAME \<Longrightarrow> glob pat s 0"
  by (induction pat s "FNM_PATHNAME" rule: glob.induct) (auto split: if_splits)

lemma glob_no_slash: "CHR ''/'' \<notin> set s \<Longrightarrow> glob pat s flags = glob pat s flags'"
  by (induction pat s flags rule: glob.induct) auto

lemma glob_star:
  assumes "list_all ordinary q"
  shows "glob (CHR ''*'' # q) s flags \<longleftrightarrow> (\<exists>r. s = r @ q \<and> \<not> (odd flags \<and> CHR ''/'' \<in> set r))"
proof (induction s)
  case Nil
  then show ?case using glob_ordinary [OF assms, of "[]" flags] by auto
next
  case (Cons c s)
  have "glob (CHR ''*'' # q) (c # s) flags \<longleftrightarrow>
      c # s = q \<or> (\<not> (odd flags \<and> c = CHR ''/'') \<and> (\<exists>r. s = r @ q \<and> \<not> (odd flags \<and> CHR ''/'' \<in> set r)))"
    using glob_ordinary [OF assms, of "c # s" flags] Cons by auto
  also have "\<dots> \<longleftrightarrow> (\<exists>r. c # s = r @ q \<and> \<not> (odd flags \<and> CHR ''/'' \<in> set r))"
    by (auto simp: Cons_eq_append_conv)
  finally show ?case .
qed

lemma last_slash:
  assumes "CHR ''/'' \<in> set r"
  obtains p s where "r = p @ CHR ''/'' # s" "CHR ''/'' \<notin> set s"
  using split_list_last [OF assms] by blast

text \<open>Whatever matches as documented matches in the code; for steady patterns also conversely.\<close>

lemma documented_ylog_match:
  assumes "posix_fnmatch fnmatch" "plain_pattern pat" "documented_match fnmatch pat nm"
  shows "ylog_match fnmatch pat nm"
  using assms(3) glob_pathname [of pat] assms(1,2)
  unfolding documented_match_iff ylog_match_def match_suffix_iff posix_fnmatch_def by blast

lemma ordinary_plain: "list_all ordinary pat \<Longrightarrow> plain_pattern pat"
  by (auto simp: plain_pattern_def list_all_iff ordinary_def)

lemma steady_plain: "steady_pattern pat \<Longrightarrow> plain_pattern pat"
  by (cases pat) (auto simp: steady_pattern_def plain_pattern_def list_all_iff ordinary_def)

lemma steady_match:
  assumes "posix_fnmatch fnmatch" "plain_pattern pat" "steady_pattern pat \<or> CHR ''/'' \<notin> set nm"
  shows "ylog_match fnmatch pat nm = documented_match fnmatch pat nm"
proof
  have law: "fnmatch pat s 0 = glob pat s 0" "fnmatch pat s FNM_PATHNAME = glob pat s FNM_PATHNAME" for s
    using assms(1,2) by (auto simp: posix_fnmatch_def)
  assume m: "ylog_match fnmatch pat nm"
  consider (noslash) "CHR ''/'' \<notin> set nm" | (literal) "list_all ordinary pat"
    | (star) q where "pat = CHR ''*'' # q" "list_all ordinary q" "CHR ''/'' \<notin> set q"
    using assms(3) by (cases pat) (auto simp: steady_pattern_def list_all_iff)
  then show "documented_match fnmatch pat nm"
  proof cases
    case noslash
    with m show ?thesis
      using glob_no_slash [OF noslash, of pat 0 FNM_PATHNAME]
      by (auto simp: ylog_match_def match_suffix_iff documented_match_iff law)
  next
    case literal
    with m show ?thesis
      by (auto simp: ylog_match_def match_suffix_iff documented_match_iff law glob_ordinary)
  next
    case star
    from m obtain r where r: "nm = r @ q"
      unfolding ylog_match_def match_suffix_iff law unfolding star(1) glob_star [OF star(2)] by auto
    show ?thesis
    proof (cases "CHR ''/'' \<in> set r")
      case True
      then obtain p s where s: "r = p @ CHR ''/'' # s" "CHR ''/'' \<notin> set s" by (rule last_slash)
      have "s @ q = [] \<or> hd (s @ q) \<noteq> CHR ''/''"
        using s(2) star(3) by (cases "s @ q") (auto simp: append_eq_Cons_conv)
      with r s show ?thesis unfolding documented_match_iff law unfolding star(1) glob_star [OF star(2)]
        by (intro disjI2 exI [of _ p] exI [of _ "s @ q"]) auto
    next
      case False
      with r show ?thesis unfolding documented_match_iff law unfolding star(1) glob_star [OF star(2)] by auto
    qed
  qed
qed (rule documented_ylog_match [OF assms(1,2)])

lemma config_level_cong:
  assumes "list_all (\<lambda>(pat, l). m pat nm = m' pat nm) (fst c)"
  shows "config_level m d c nm = config_level m' d c nm"
proof -
  have "List.find (\<lambda>(pat, _). m pat nm) rs = List.find (\<lambda>(pat, _). m' pat nm) rs"
    if "list_all (\<lambda>(pat, l). m pat nm = m' pat nm) rs" for rs
    using that by (induction rs) auto
  from this [OF assms] show ?thesis unfolding config_level_def by (rule arg_cong)
qed

text \<open>A file two directories below one that a pattern names with a star.\<close>

lemma split_two_dirs:
  assumes "d @ CHR ''/'' # sub @ CHR ''/'' # f = p @ CHR ''/'' # s"
    and "CHR ''/'' \<notin> set d" "CHR ''/'' \<notin> set sub" "CHR ''/'' \<notin> set f"
  shows "s = sub @ CHR ''/'' # f \<or> s = f"
  using assms by (auto simp: append_eq_append_conv2 append_eq_Cons_conv Cons_eq_append_conv)

lemma star_dir:
  assumes "list_all ordinary d" "CHR ''/'' \<notin> set d"
  shows "glob (d @ ''/*'') s flags \<longleftrightarrow> (\<exists>x. s = d @ CHR ''/'' # x \<and> \<not> (odd flags \<and> CHR ''/'' \<in> set x))"
  using assms
proof (induction d arbitrary: s)
  case Nil
  show ?case using glob_star [of "[]" "tl s" flags] by (cases s) auto
next
  case (Cons c d)
  then show ?case by (cases s) (auto simp: ordinary_def)
qed

lemma star_crosses_directories:
  assumes "posix_fnmatch fnmatch" "list_all ordinary d"
    and "list_all (\<lambda>x. x \<noteq> [] \<and> CHR ''/'' \<notin> set x) [d, sub, f]" "sub \<noteq> d"
  shows "ylog_match fnmatch (d @ ''/*'') (d @ ''/'' @ sub @ ''/'' @ f)"
    and "\<not> documented_match fnmatch (d @ ''/*'') (d @ ''/'' @ sub @ ''/'' @ f)"
proof -
  have "plain_pattern (d @ ''/*'')" using ordinary_plain [OF assms(2)] by (simp add: plain_pattern_def)
  with assms(1) have law: "fnmatch (d @ ''/*'') s 0 = glob (d @ ''/*'') s 0"
    "fnmatch (d @ ''/*'') s FNM_PATHNAME = glob (d @ ''/*'') s FNM_PATHNAME" for s
    unfolding posix_fnmatch_def by blast+
  have "CHR ''/'' \<notin> set d" using assms(3) by simp
  note dir = star_dir [OF assms(2) this]
  show "ylog_match fnmatch (d @ ''/*'') (d @ ''/'' @ sub @ ''/'' @ f)"
    unfolding ylog_match_def law dir by simp
  have no: "\<not> glob (d @ ''/*'') s FNM_PATHNAME"
    if "s = d @ CHR ''/'' # sub @ CHR ''/'' # f \<or> s = sub @ CHR ''/'' # f \<or> s = f" for s
    unfolding dir using that assms(3,4)
    by (auto simp: append_eq_append_conv2 append_eq_Cons_conv Cons_eq_append_conv)
  show "\<not> documented_match fnmatch (d @ ''/*'') (d @ ''/'' @ sub @ ''/'' @ f)"
    unfolding documented_match_iff law using no assms(3)
    by (auto dest: split_two_dirs)
qed

section \<open>The cache of levels\<close>

text \<open>The level that the configuration gives to a file, whose path is fixed.\<close>

definition effective :: "fnmatch_fun \<Rightarrow> (nat \<Rightarrow> string) \<Rightarrow> ylog_state \<Rightarrow> nat \<Rightarrow> int" where
  "effective fnmatch path s k =
     ylog_set_file_level fnmatch (ylog_default_level s) (ylog_pattern s) (ylog_set_file_name (path k))"

inductive ylog_move :: "fnmatch_fun \<Rightarrow> (nat \<Rightarrow> string) \<Rightarrow> ylog_state \<Rightarrow> ylog_state \<Rightarrow> bool"
  for fnmatch path where
  message: "ylog fnmatch k level line (path k) msg s = Inr s' \<Longrightarrow> ylog_move fnmatch path s s'"
| configure: "ylog_set_level fnmatch d p s = Inr s' \<Longrightarrow> d \<le> YLOG_MAX \<Longrightarrow> ylog_move fnmatch path s s'"
| handle: "ylog_move fnmatch path s (ylog_set_handler cb s)"

inductive_cases ylog_moveE: "ylog_move fnmatch path s s'"

definition ylog_ok :: "fnmatch_fun \<Rightarrow> (nat \<Rightarrow> string) \<Rightarrow> ylog_state \<Rightarrow> bool" where
  "ylog_ok fnmatch path s \<longleftrightarrow> distinct (ylog_files s) \<and> ylog_default_level s \<le> YLOG_MAX \<and>
     (\<forall>k. if k \<in> set (ylog_files s)
          then yname (yfile s k) = Some (ylog_set_file_name (path k)) \<and> ylevel (yfile s k) = effective fnmatch path s k
          else ylevel (yfile s k) = YLOG_UNINITIALIZED)"

lemma level_read_le: "d \<le> YLOG_MAX \<Longrightarrow> level_read d pat \<le> YLOG_MAX"
  by (simp add: level_read_def case_prod_unfold Let_def)

lemma effective_le: "ylog_default_level s \<le> YLOG_MAX \<Longrightarrow> effective fnmatch path s k \<le> YLOG_MAX"
  by (simp add: effective_def ylog_set_file_level_def level_read_le split: option.splits)

lemma ylog_ok_init: "ylog_ok fnmatch path s \<Longrightarrow> ylevel (yfile s k) = YLOG_UNINITIALIZED \<longleftrightarrow> k \<notin> set (ylog_files s)"
  using effective_le [of s fnmatch path k] by (auto simp: ylog_ok_def split: if_splits dest: spec [of _ k])

lemma ylog_result:
  assumes "ylog_ok fnmatch path s"
  shows "\<exists>s1. ylog_ok fnmatch path s1 \<and> ylog_handler s1 = ylog_handler s \<and> ystderr s1 = ystderr s \<and>
    ylog fnmatch k level line (path k) msg s =
      (if level \<le> effective fnmatch path s k
       then r_bind (ylog_handler s (path k) line level msg (ystderr s)) (\<lambda>err. Inr (s1\<lparr>ystderr := err\<rparr>))
       else Inr s1)"
proof (cases "k \<in> set (ylog_files s)")
  case True
  then have "ylevel (yfile s k) = effective fnmatch path s k" "ylevel (yfile s k) \<noteq> YLOG_UNINITIALIZED"
    using assms ylog_ok_init [OF assms, of k] by (auto simp: ylog_ok_def split: if_splits)
  then show ?thesis using assms by (intro exI [of _ s]) (simp add: ylog_def ylog_enabled_def ylog_impl_def Let_def)
next
  case False
  then have u: "ylevel (yfile s k) = YLOG_UNINITIALIZED" using ylog_ok_init [OF assms] by simp
  have e: "effective fnmatch path s k \<le> YLOG_MAX" using assms effective_le by (simp add: ylog_ok_def)
  show ?thesis
  proof (cases "level \<le> YLOG_UNINITIALIZED")
    case True
    define s1 where "s1 = s\<lparr>yfile := (yfile s)(k := \<lparr>ylevel = effective fnmatch path s k,
      yname = Some (ylog_set_file_name (path k))\<rparr>), ylog_files := k # ylog_files s\<rparr>"
    have "effective fnmatch path s1 = effective fnmatch path s" by (rule ext) (simp add: effective_def s1_def)
    then have "ylog_ok fnmatch path s1" using assms False by (simp add: ylog_ok_def s1_def)
    with True u show ?thesis
      by (intro exI [of _ s1]) (simp add: ylog_def ylog_enabled_def ylog_impl_def Let_def effective_def s1_def)
  next
    case False
    with u e assms show ?thesis by (intro exI [of _ s]) (simp add: ylog_def ylog_enabled_def)
  qed
qed

lemma set_levels_result:
  assumes "distinct ks" "\<forall>k\<in>set ks. yname (fs k) = Some (nm k)"
  shows "set_levels fnmatch d p ks fs =
    Inr (\<lambda>k. if k \<in> set ks then (fs k)\<lparr>ylevel := ylog_set_file_level fnmatch d p (nm k)\<rparr> else fs k)"
  using assms
proof (induction ks arbitrary: fs)
  case (Cons k ks)
  then show ?case by (auto simp: fun_eq_iff)
qed simp

lemma ylog_set_level_result:
  assumes "ylog_ok fnmatch path s" "d \<le> YLOG_MAX"
  shows "\<exists>s'. ylog_set_level fnmatch d p s = Inr s' \<and> ylog_ok fnmatch path s' \<and>
    ylog_default_level s' = d \<and> ylog_pattern s' = map_option cstr p"
proof -
  define fs where "fs = (\<lambda>k. if k \<in> set (ylog_files s)
        then (yfile s k)\<lparr>ylevel := ylog_set_file_level fnmatch d (map_option cstr p) (ylog_set_file_name (path k))\<rparr>
        else yfile s k)"
  let ?s = "s\<lparr>ylog_default_level := d, ylog_pattern := map_option cstr p, yfile := fs\<rparr>"
  have "set_levels fnmatch d (map_option cstr p) (ylog_files s) (yfile s) = Inr fs"
    unfolding fs_def using assms(1) by (intro set_levels_result) (auto simp: ylog_ok_def split: if_splits)
  then have "ylog_set_level fnmatch d p s = Inr ?s" by (simp add: ylog_set_level_def)
  moreover have "ylog_ok fnmatch path ?s"
    using assms unfolding ylog_ok_def effective_def fs_def by (auto split: if_splits)
  ultimately show ?thesis by (intro exI [of _ ?s]) simp
qed

lemma ylog_ok_stderr [simp]: "ylog_ok fnmatch path (s\<lparr>ystderr := e\<rparr>) = ylog_ok fnmatch path s"
  by (simp add: ylog_ok_def effective_def)

interpretation logger: machine_invariant "ylog_move fnmatch path" "ylog_ok fnmatch path" for fnmatch path
proof
  fix s t
  assume "ylog_move fnmatch path s t" and ok: "ylog_ok fnmatch path s"
  then show "ylog_ok fnmatch path t"
  proof cases
    case (message k level line msg)
    obtain s1 where s1: "ylog_ok fnmatch path s1"
      "ylog fnmatch k level line (path k) msg s =
        (if level \<le> effective fnmatch path s k
         then r_bind (ylog_handler s (path k) line level msg (ystderr s)) (\<lambda>err. Inr (s1\<lparr>ystderr := err\<rparr>))
         else Inr s1)"
      using ylog_result [OF ok, of k level line msg] by blast
    with message have "t = s1 \<or> (\<exists>err. t = s1\<lparr>ystderr := err\<rparr>)"
      by (cases "ylog_handler s (path k) line level msg (ystderr s)") (auto split: if_splits)
    with s1(1) show ?thesis by auto
  next
    case (configure d p)
    with ylog_set_level_result [OF ok, of d p] show ?thesis by auto
  next
    case (handle cb)
    with ok show ?thesis by (simp add: ylog_ok_def ylog_set_handler_def effective_def)
  qed
qed

lemma ylog_start_ok: "ylog_ok fnmatch path ylog_start"
  by (simp add: ylog_ok_def ylog_start_def)

section \<open>Properties\<close>

text \<open>
  C23 (refinement): for every list of patterns without colon and comma, with levels up to 9999,
  and every optional level at its end, a file gets the level of the first pattern that the code
  matches, then the one at the end, then the default. That is the level of the documentation if
  the name has no slash, or if every pattern is free of wildcards or is a star before a text
  without slashes. It is another one for a pattern such as \<^verbatim>\<open>net/*\<close>, which the
  documentation says is not for subdirectories: the code calls \<^verbatim>\<open>fnmatch\<close> without
  \<^verbatim>\<open>FNM_PATHNAME\<close>, and a file of a subdirectory gets its level all the same.
\<close>

theorem ylog_level_documented:
  assumes "config_ok c" and "list_all (\<lambda>(pat, l). no_nul pat) (fst c)" and "posix_fnmatch fnmatch"
  shows "ylog_set_file_level fnmatch default_level (map_option cstr (Some (config_text (fst c) (snd c)))) nm =
      config_level (ylog_match fnmatch) default_level c nm \<and>
    (list_all (\<lambda>(pat, l). plain_pattern pat \<and> (steady_pattern pat \<or> CHR ''/'' \<notin> set nm)) (fst c) \<longrightarrow>
      ylog_set_file_level fnmatch default_level (map_option cstr (Some (config_text (fst c) (snd c)))) nm =
      config_level (documented_match fnmatch) default_level c nm) \<and>
    (fst c = [(d @ ''/*'', l)] \<and> list_all ordinary d \<and> nm = d @ ''/'' @ sub @ ''/'' @ f \<and> sub \<noteq> d \<and>
      list_all (\<lambda>x. x \<noteq> [] \<and> CHR ''/'' \<notin> set x) [d, sub, f] \<longrightarrow>
      ylog_set_file_level fnmatch default_level (map_option cstr (Some (config_text (fst c) (snd c)))) nm = int l \<and>
      config_level (documented_match fnmatch) default_level c nm =
        (case snd c of Some e \<Rightarrow> int e | None \<Rightarrow> default_level))"
proof -
  have "no_nul (config_text rules d)" if "list_all (\<lambda>(pat, l). no_nul pat) rules" for rules and d
    using that by (induction rules d rule: config_text.induct) auto
  with assms(2) have "cstr (config_text (fst c) (snd c)) = config_text (fst c) (snd c)" by simp
  then have code: "ylog_set_file_level fnmatch default_level (map_option cstr (Some (config_text (fst c) (snd c)))) nm =
      config_level (ylog_match fnmatch) default_level c nm"
    using read_config [of "fst c" "snd c"] assms(1) by (simp add: ylog_set_file_level_def)
  have agree: "config_level (ylog_match fnmatch) default_level c nm = config_level (documented_match fnmatch) default_level c nm"
    if "list_all (\<lambda>(pat, l). plain_pattern pat \<and> (steady_pattern pat \<or> CHR ''/'' \<notin> set nm)) (fst c)"
    using that steady_match [OF assms(3)] by (intro config_level_cong) (auto simp: list_all_iff)
  show ?thesis unfolding code
    using agree star_crosses_directories [OF assms(3), of d sub f] by (auto simp: config_level_def)
qed

theorem ylog_level_documented_witness:
  "ylog_set_file_level glob 2 (map_option cstr (Some (config_text [(''*_util'', 4), (''main'', 1)] (Some 3)))) ''net/main'' =
     config_level (documented_match glob) 2 ([(''*_util'', 4), (''main'', 1)], Some 3) ''net/main'' \<and>
   ylog_set_file_level glob 2 (map_option cstr (Some (config_text [(''net/*'', 3)] (Some 9)))) ''net/ip/route'' = 3 \<and>
   config_level (documented_match glob) 2 ([(''net/*'', 3)], Some 9) ''net/ip/route'' = 9"
  using ylog_level_documented [of "([(''*_util'', 4), (''main'', 1)], Some 3)" glob 2 "''net/main''"]
    ylog_level_documented [of "([(''net/*'', 3)], Some 9)" glob 2 "''net/ip/route''" "''net''" 3 "''ip''" "''route''"]
  by (simp add: config_ok_def no_mark_def posix_fnmatch_def plain_pattern_def steady_pattern_def ordinary_def)

text \<open>
  C22 (equivalence): the level that a file keeps in its structure is never stale. After any
  sequence of messages, configurations and changes of the callback, a message reaches the
  callback exactly if its level is at most the one that the present configuration gives to the
  file, and configuring never meets a file without a name.
\<close>

theorem ylog_filter_exact:
  assumes "(ylog_move fnmatch path)\<^sup>*\<^sup>* ylog_start s" and "d \<le> YLOG_MAX"
  shows "r_bind (ylog fnmatch k level line (path k) msg s) (\<lambda>s'. Inr (ystderr s')) =
      (if level \<le> effective fnmatch path s k then ylog_handler s (path k) line level msg (ystderr s)
       else Inr (ystderr s)) \<and>
    (\<exists>s'. ylog_set_level fnmatch d p s = Inr s' \<and>
       effective fnmatch path s' k = ylog_set_file_level fnmatch d (map_option cstr p) (ylog_set_file_name (path k)))"
proof
  have ok: "ylog_ok fnmatch path s" using logger.reach_ok [OF assms(1) ylog_start_ok] .
  have "r_bind m Inr = m" for m :: "string res" by (cases m) auto
  with ylog_result [OF ok, of k level line msg]
  show "r_bind (ylog fnmatch k level line (path k) msg s) (\<lambda>s'. Inr (ystderr s')) =
      (if level \<le> effective fnmatch path s k then ylog_handler s (path k) line level msg (ystderr s)
       else Inr (ystderr s))"
    by (auto simp: r_bind_assoc)
  show "\<exists>s'. ylog_set_level fnmatch d p s = Inr s' \<and>
       effective fnmatch path s' k = ylog_set_file_level fnmatch d (map_option cstr p) (ylog_set_file_name (path k))"
    using ylog_set_level_result [OF ok assms(2), of p] by (auto simp: effective_def)
qed

definition paths0 :: "nat \<Rightarrow> string" where
  "paths0 k = (if k = 0 then ''src/main.c'' else ''src/call.c'')"

theorem ylog_filter_exact_witness:
  "r_bind (ylog glob 0 3 70 (paths0 0) ''hello'' ylog_start) (\<lambda>s. Inr (ystderr s)) = Inr [] \<and>
   r_bind (ylog glob 0 1 71 (paths0 0) ''bad'' ylog_start) (\<lambda>s. Inr (ystderr s)) =
     Inr (''--ERROR-- src/main.c:71: bad'' @ [CHR 0x0A])"
proof -
  have e: "effective glob paths0 ylog_start 0 = 2"
    by (simp add: effective_def ylog_start_def ylog_set_file_level_def)
  have "show_int 71 = ''71''" by code_simp
  then show ?thesis
    using ylog_filter_exact [of "glob" paths0 ylog_start 0 0 3 70 "''hello''"]
      ylog_filter_exact [of "glob" paths0 ylog_start 0 0 1 71 "''bad''"] unfolding e
    by (simp add: ylog_start_def paths0_def ylog_default_handler_def level_name_def)
qed

end
