(* ===== verification/Toxdata.thy ===== *)
theory Toxdata
  imports Friend Friend_Registry
begin

text \<open>
  \<^verbatim>\<open>src/toxdata.c\<close>: the profile on disk, encrypted if there is a passphrase, and lists
  of public keys as text; and \<^verbatim>\<open>src/toxdatatool.c\<close>, the command line tool on top of
  them. \<^verbatim>\<open>tox_new\<close> is a parameter: what it makes of the save data it is given
  (\<open>None\<close>: no save data).
\<close>

section \<open>The profile\<close>

abbreviation (input) TOX_PASS_ENCRYPTION_EXTRA_LENGTH :: nat where "TOX_PASS_ENCRYPTION_EXTRA_LENGTH \<equiv> 80"

abbreviation (input) EXIT_FAILURE :: int where "EXIT_FAILURE \<equiv> 1"

text \<open>
  The exit code and the new \<^verbatim>\<open>Tox\<close>. The decrypted bytes are at the front of a
  buffer as long as the file; behind them is what the allocator left there (\<open>g\<close>).
\<close>

definition load_profile ::
  "sodium \<Rightarrow> (nat \<Rightarrow> char) \<Rightarrow> (string option \<Rightarrow> 't option) \<Rightarrow> string \<Rightarrow> string option \<Rightarrow> fs \<Rightarrow> (int \<times> 't option) res" where
  "load_profile sod g tox_new data_filename passphrase files =
     (case fopen_read data_filename files of
        None \<Rightarrow> Inr (- 1, None)
      | Some file \<Rightarrow>
          let file_size = length (file_bytes data_filename files);
              save_data = fread_at file file_size files;
              create = (\<lambda>data. case tox_new (Some data) of None \<Rightarrow> (EXIT_FAILURE, None) | Some tox \<Rightarrow> (0, Some tox)) in
          if \<not> tox_is_data_encrypted sod save_data then Inr (create save_data)
          else
            case passphrase of
              None \<Rightarrow> Inr (EXIT_FAILURE, None)
            | Some pass \<Rightarrow>
                (case tox_pass_decrypt sod save_data pass of
                   None \<Rightarrow> Inr (EXIT_FAILURE, None)
                 | Some clear \<Rightarrow>
                     r_bind (mem_store (map g [0..<file_size]) 0 clear) (\<lambda>cypher_data. Inr (create cypher_data))))"

text \<open>The encryption gives its error number, which is then the result, or the encrypted bytes.\<close>

definition save_profile ::
  "'t toxcore \<Rightarrow> sodium \<Rightarrow> (nat \<Rightarrow> char) \<Rightarrow> 't \<Rightarrow> string \<Rightarrow> string option \<Rightarrow> fs \<Rightarrow> (int \<times> fs) res" where
  "save_profile api sod g tox filename passphrase files =
     (let clear_data = tox_get_savedata api tox;
          encrypted_length = length clear_data + TOX_PASS_ENCRYPTION_EXTRA_LENGTH;
          write = (\<lambda>data. case fopen_write filename files of
                     None \<Rightarrow> (- 1, files)
                   | Some (file, files) \<Rightarrow> (0, append_bytes filename data files)) in
      case passphrase of
        None \<Rightarrow> Inr (write clear_data)
      | Some pass \<Rightarrow>
          (case tox_pass_encrypt sod clear_data pass of
             Inl err \<Rightarrow> Inr (err, files)
           | Inr encrypted \<Rightarrow>
               r_bind (mem_store (map g [0..<encrypted_length]) 0 encrypted) (\<lambda>encrypted_data.
                 Inr (write encrypted_data))))"

section \<open>Lists of keys\<close>

text \<open>\<^verbatim>\<open>getline\<close>: lines with their newline, the last one perhaps without.\<close>

function getlines :: "string \<Rightarrow> string list" where
  "getlines s =
     (if s = [] then []
      else case dropWhile (\<lambda>c. c \<noteq> NL) s of
             [] \<Rightarrow> [s]
           | _ # rest \<Rightarrow> (takeWhile (\<lambda>c. c \<noteq> NL) s @ [NL]) # getlines rest)"
  by pat_completeness auto
termination
proof (relation "measure length")
  fix s rest :: string and c
  assume "dropWhile (\<lambda>c. c \<noteq> NL) s = c # rest"
  then show "(rest, s) \<in> measure length"
    using length_dropWhile_le [of "\<lambda>c. c \<noteq> NL" s] by simp
qed simp

declare getlines.simps [simp del]

text \<open>The text for the names of imported friends, and the length of a valid line.\<close>

definition imported_name :: string where
  "imported_name = ''_IMPORTED_KEY_''"

definition export_keys :: "string \<Rightarrow> friend_info list \<Rightarrow> fs \<Rightarrow> (int \<times> fs) res" where
  "export_keys filename friends files =
     (case fopen_write filename files of
        None \<Rightarrow> Inr (- 1, files)
      | Some (file, files) \<Rightarrow>
          r_bind (concat_res (map (\<lambda>f. r_bind (fget tox_id_hex f) (\<lambda>hex. Inr (cstr hex @ [NL]))) friends))
            (\<lambda>txt. Inr (0, append_bytes filename txt files)))"

text \<open>
  The entry that is added is written through the pointer that \<^verbatim>\<open>friend_info_add_entry\<close>
  returned, so it is inserted with what it is given later; its number does not change.
\<close>

fun import_lines ::
  "'t toxcore \<Rightarrow> sodium \<Rightarrow> (nat \<Rightarrow> char) \<Rightarrow> string list \<Rightarrow> 't \<Rightarrow> friend_info list \<Rightarrow> ('t \<times> friend_info list) res" where
  "import_lines api sod g [] tox friends = Inr (tox, friends)"
| "import_lines api sod g (line # ls) tox friends =
     (let public_key = cstr line in
      if length public_key \<noteq> TOX_PUBLIC_KEY_SIZE * 2 + 1 then import_lines api sod g ls tox friends
      else
        case tox_friend_add_norequest api (sodium_hex2bin sod public_key) tox of
          (None, tox) \<Rightarrow> import_lines api sod g ls tox friends
        | (Some n, tox) \<Rightarrow>
            r_bind (friend_info_update api sod g tox ((friend_info_new n)\<lparr>fname := Some (imported_name @ [NUL])\<rparr>))
              (\<lambda>f. import_lines api sod g ls tox (friend_insert f friends)))"

definition import_keys ::
  "'t toxcore \<Rightarrow> sodium \<Rightarrow> (nat \<Rightarrow> char) \<Rightarrow> 't \<Rightarrow> friend_info list \<Rightarrow> string \<Rightarrow> fs \<Rightarrow>
   (int \<times> 't \<times> friend_info list) res" where
  "import_keys api sod g tox friends filename files =
     (case fopen_read filename files of
        None \<Rightarrow> Inr (- 1, tox, friends)
      | Some file \<Rightarrow>
          r_bind (import_lines api sod g (getlines (fread_at file (length (file_bytes filename files)) files)) tox friends)
            (\<lambda>(tox, friends). Inr (0, tox, friends)))"

text \<open>The entry that is removed is the one that the search by key found.\<close>

fun remove_lines ::
  "'t toxcore \<Rightarrow> string list \<Rightarrow> 't \<Rightarrow> friend_info list \<Rightarrow> ('t \<times> friend_info list) res" where
  "remove_lines api [] tox friends = Inr (tox, friends)"
| "remove_lines api (line # ls) tox friends =
     (let public_key = cstr line in
      if length public_key \<noteq> TOX_PUBLIC_KEY_SIZE * 2 + 1 then remove_lines api ls tox friends
      else
        r_bind (find_index_res (\<lambda>f. r_bind (fget tox_id_hex f) (\<lambda>h.
                  Inr (strncmp_eq h public_key (TOX_PUBLIC_KEY_SIZE * 2)))) 0 friends) (\<lambda>i.
          case i of
            None \<Rightarrow> remove_lines api ls tox friends
          | Some i \<Rightarrow>
              let (ok, tox) = tox_friend_delete api (friend_number (friends ! i)) tox in
              remove_lines api ls tox (if ok then take i friends @ drop (Suc i) friends else friends)))"

definition remove_keys ::
  "'t toxcore \<Rightarrow> 't \<Rightarrow> friend_info list \<Rightarrow> string \<Rightarrow> fs \<Rightarrow> (int \<times> 't \<times> friend_info list) res" where
  "remove_keys api tox friends filename files =
     (case fopen_read filename files of
        None \<Rightarrow> Inr (- 1, tox, friends)
      | Some file \<Rightarrow>
          r_bind (remove_lines api (getlines (fread_at file (length (file_bytes filename files)) files)) tox friends)
            (\<lambda>(tox, friends). Inr (0, tox, friends)))"

section \<open>The tool\<close>

text \<open>What \<^verbatim>\<open>popt\<close> found on the command line.\<close>

record tool_options =
  po_passphrase :: "string option"
  toxfile :: "string option"
  exportfile :: "string option"
  importfile :: "string option"
  removefile :: "string option"
  purge_delay :: u64
  print_flag :: bool

text \<open>
  \<^verbatim>\<open>main\<close> of the tool after the options were parsed: exit code, files, output, and the
  registry before it is released. Without a tox file the clean-up reads a record that was never
  written; with one that is not there, \<^verbatim>\<open>toxcore\<close> is called on a null pointer.
\<close>

definition tool_main ::
  "'t toxcore \<Rightarrow> sodium \<Rightarrow> (nat \<Rightarrow> char) \<Rightarrow> (u64 \<Rightarrow> string) \<Rightarrow> (string option \<Rightarrow> 't option) \<Rightarrow> u64 \<Rightarrow> tool_options \<Rightarrow>
   fs \<Rightarrow> (int \<times> fs \<times> string \<times> friend_info list) res" where
  "tool_main api sod g ctime tox_new current_time po files =
     (case toxfile po of
        None \<Rightarrow> Inl Uninit
      | Some path \<Rightarrow>
          if fs_data files path = None \<or> \<not> fs_readable files path \<or> \<not> fs_writable files path then Inl NullDeref
          else
            r_bind (load_profile sod g tox_new path (po_passphrase po) files) (\<lambda>(code, tox).
              case tox of
                None \<Rightarrow> Inr (EXIT_FAILURE, files, ''Failed to load data from disk'' @ [NL], [])
              | Some tox \<Rightarrow>
                  r_bind (client_info_update api sod g tox (client_info_new
                     \<lparr>ci_name = None, ci_status_message = None, ci_tox_id_bin = None, ci_tox_id_hex = None,
                      ci_connect = None\<rparr>)) (\<lambda>own_info.
                  r_bind (friends_info_init api sod g tox []) (\<lambda>(friends, _).
                  r_bind (case exportfile po of None \<Rightarrow> Inr files
                          | Some f \<Rightarrow> r_bind (export_keys f friends files) (\<lambda>(_, files). Inr files)) (\<lambda>files.
                  r_bind (case importfile po of None \<Rightarrow> Inr (tox, friends)
                          | Some f \<Rightarrow> r_bind (import_keys api sod g tox friends f files) (\<lambda>(_, r). Inr r)) (\<lambda>(tox, friends).
                  r_bind (case removefile po of None \<Rightarrow> Inr (tox, friends)
                          | Some f \<Rightarrow> r_bind (remove_keys api tox friends f files) (\<lambda>(_, r). Inr r)) (\<lambda>(tox, friends).
                  r_bind (if 0 < purge_delay po then friend_cleanup api (purge_delay po) current_time tox friends
                          else Inr (tox, friends)) (\<lambda>(tox, friends).
                  r_bind (if po_passphrase po \<noteq> None \<or> importfile po \<noteq> None \<or> removefile po \<noteq> None \<or> 0 < purge_delay po
                          then r_bind (save_profile api sod g tox path (po_passphrase po) files) (\<lambda>(_, files). Inr files)
                          else Inr files) (\<lambda>files.
                  r_bind (if print_flag po then
                            r_bind (client_info_print own_info) (\<lambda>a.
                            r_bind (friends_info_print ctime friends) (\<lambda>b. Inr (a @ b)))
                          else Inr []) (\<lambda>out.
                  Inr (0, files, out, friends)))))))))))"

section \<open>Lines\<close>

lemma getlines_Nil [simp]: "getlines [] = []"
  by (simp add: getlines.simps)

lemma getlines_line:
  assumes "NL \<notin> set l"
  shows "getlines (l @ NL # rest) = (l @ [NL]) # getlines rest"
proof -
  have "\<forall>c\<in>set l. c \<noteq> NL" using assms by auto
  then show ?thesis by (subst getlines.simps) simp
qed

lemma getlines_concat:
  "\<forall>l\<in>set ls. NL \<notin> set l \<Longrightarrow> getlines (concat (map (\<lambda>l. l @ [NL]) ls)) = map (\<lambda>l. l @ [NL]) ls"
  by (induction ls) (simp_all add: getlines_line)

lemma concat_res_pure: "\<forall>f\<in>set fs. r f = Inr (t f) \<Longrightarrow> concat_res (map r fs) = Inr (concat (map t fs))"
  by (induction fs) simp_all

text \<open>An entry that was refreshed has a key of 64 digits; \<open>keys_of\<close> are the keys of a registry.\<close>

definition hex_key :: "string \<Rightarrow> bool" where
  "hex_key h \<longleftrightarrow> length h = 64 \<and> no_nul h \<and> NL \<notin> set h"

definition keyed :: "friend_info \<Rightarrow> bool" where
  "keyed f \<longleftrightarrow> (case tox_id_hex f of None \<Rightarrow> False | Some h \<Rightarrow> hex_key h)"

definition keys_of :: "friend_info list \<Rightarrow> string list" where
  "keys_of fs = map (\<lambda>f. case tox_id_hex f of None \<Rightarrow> [] | Some h \<Rightarrow> h) fs"

lemma keyed_hex: "keyed f \<Longrightarrow> tox_id_hex f = Some (hd (keys_of [f])) \<and> hex_key (hd (keys_of [f]))"
  by (auto simp: keyed_def keys_of_def split: option.splits)

lemma keyed_keys: "list_all keyed fs \<Longrightarrow> list_all hex_key (keys_of fs)"
  by (induction fs) (auto simp: keys_of_def keyed_def split: option.splits)

lemma keys_of_simps [simp]:
  "keys_of [] = []" "keys_of (f # fs) = (case tox_id_hex f of None \<Rightarrow> [] | Some h \<Rightarrow> h) # keys_of fs"
  "length (keys_of fs) = length fs"
  by (simp_all add: keys_of_def)

text \<open>What is in the file after the keys were exported, and how it is read.\<close>

lemma export_keys_file:
  assumes "list_all keyed fs" and "fs_writable files p" and "fs_readable files p"
  shows "\<exists>files'. export_keys p fs files = Inr (0, files') \<and>
    (\<exists>s. fopen_read p files' = Some s \<and>
      getlines (fread_at s (length (file_bytes p files')) files') = map (\<lambda>l. l @ [NL]) (keys_of fs))"
proof -
  have k: "\<forall>f\<in>set fs. r_bind (fget tox_id_hex f) (\<lambda>hex. Inr (cstr hex @ [NL])) =
      Inr ((case tox_id_hex f of None \<Rightarrow> [] | Some h \<Rightarrow> h) @ [NL])"
    using assms(1) by (auto simp: list_all_iff keyed_def hex_key_def split: option.splits)
  define lns where "lns = concat (map (\<lambda>l. l @ [NL]) (keys_of fs))"
  have "concat_res (map (\<lambda>f. r_bind (fget tox_id_hex f) (\<lambda>hex. Inr (cstr hex @ [NL]))) fs) = Inr lns"
    using concat_res_pure [OF k] by (simp add: lns_def keys_of_def comp_def)
  moreover obtain s f1 where w: "fopen_write p files = Some (s, f1)" "file_bytes p f1 = []"
    "fs_readable f1 = fs_readable files"
    using assms(2) by (auto simp: fopen_write_def file_bytes_def)
  moreover have "\<exists>s. fopen_read p (append_bytes p lns f1) = Some s \<and> st_pos s = 0 \<and> st_path s = p \<and> st_reads s"
    using w(3) assms(3) by (auto simp: fopen_read_def append_bytes_def)
  moreover have "getlines lns = map (\<lambda>l. l @ [NL]) (keys_of fs)"
    unfolding lns_def using keyed_keys [OF assms(1)] by (intro getlines_concat) (auto simp: list_all_iff hex_key_def)
  ultimately show ?thesis by (auto simp: export_keys_def fread_at_def)
qed

end
