(* ===== verification/Toxdata_Properties.thy ===== *)
theory Toxdata_Properties
  imports Toxdata
begin

text \<open>
  The profile that is saved and loaded again, lists of keys that are exported, imported and
  removed, and what the tool leaves in the registry.
\<close>

section \<open>Removing\<close>

text \<open>The keys that a file lists: the lines of 65 bytes, newline included.\<close>

definition listed :: "string \<Rightarrow> string set" where
  "listed bs = (\<lambda>l. take 64 (cstr l)) ` {l \<in> set (getlines bs). length (cstr l) = 65}"

definition key_of :: "friend_info \<Rightarrow> string" where
  "key_of f = (case tox_id_hex f of None \<Rightarrow> [] | Some h \<Rightarrow> h)"

lemma keys_of_map: "keys_of fs = map key_of fs"
  by (simp add: keys_of_def key_of_def)

lemma keyed_key: "keyed f \<Longrightarrow> tox_id_hex f = Some (key_of f) \<and> length (key_of f) = 64 \<and> no_nul (key_of f)"
  by (auto simp: keyed_def key_of_def hex_key_def split: option.splits)

lemma find_keyed:
  assumes "list_all keyed fs" "length key = 65" "no_nul key"
  shows "\<exists>r. find_index_res (\<lambda>f. r_bind (fget tox_id_hex f) (\<lambda>h. Inr (strncmp_eq h key (TOX_PUBLIC_KEY_SIZE * 2)))) 0 fs = Inr r \<and>
    (case r of None \<Rightarrow> take 64 key \<notin> set (keys_of fs)
     | Some i \<Rightarrow> i < length fs \<and> key_of (fs ! i) = take 64 key)"
proof -
  have "\<forall>f\<in>set fs. r_bind (fget tox_id_hex f) (\<lambda>h. Inr (strncmp_eq h key (TOX_PUBLIC_KEY_SIZE * 2))) =
      Inr (key_of f = take 64 key)"
    using assms keyed_key by (auto simp: list_all_iff strncmp_eq_def)
  from find_index_res_pure [OF this, of 0] obtain r where
    r: "find_index_res (\<lambda>f. r_bind (fget tox_id_hex f) (\<lambda>h. Inr (strncmp_eq h key (TOX_PUBLIC_KEY_SIZE * 2)))) 0 fs = Inr r"
    "case r of None \<Rightarrow> \<forall>f\<in>set fs. key_of f \<noteq> take 64 key
     | Some i \<Rightarrow> 0 \<le> i \<and> i < 0 + length fs \<and> key_of (fs ! (i - 0)) = take 64 key" by blast
  then show ?thesis by (intro exI [of _ r]) (auto simp: keys_of_map split: option.splits)
qed

lemma remove_nth_filter:
  assumes "distinct (map f xs)" "i < length xs"
  shows "take i xs @ drop (Suc i) xs = filter (\<lambda>x. f x \<noteq> f (xs ! i)) xs"
proof -
  let ?P = "\<lambda>x. f x \<noteq> f (xs ! i)"
  have s: "xs = take i xs @ xs ! i # drop (Suc i) xs" using assms(2) by (rule id_take_nth_drop)
  then have "map f xs = map f (take i xs) @ f (xs ! i) # map f (drop (Suc i) xs)" by (metis list.map(2) map_append)
  with assms(1) have n: "f (xs ! i) \<notin> f ` set (take i xs)" "f (xs ! i) \<notin> f ` set (drop (Suc i) xs)" by auto
  have "filter ?P (take i xs) = take i xs" "filter ?P (drop (Suc i) xs) = drop (Suc i) xs"
    using n by (auto simp: filter_id_conv image_iff)
  moreover have "filter ?P xs = filter ?P (take i xs) @ filter ?P (xs ! i # drop (Suc i) xs)"
    by (subst s) (simp only: filter_append)
  ultimately show ?thesis by simp
qed

text \<open>\<^verbatim>\<open>toxcore\<close> deletes a friend that it has.\<close>

definition deletes :: "'t toxcore \<Rightarrow> bool" where
  "deletes api \<longleftrightarrow> (\<forall>n t. n \<in> set (tox_self_get_friend_list api t) \<longrightarrow> fst (tox_friend_delete api n t))"

text \<open>Deleting one friend from \<^verbatim>\<open>toxcore\<close> and its entry.\<close>

lemma agrees_delete:
  assumes "friend_laws api" and "agrees api (tox, fs)" and "i < length fs"
  shows "agrees api (snd (tox_friend_delete api (friend_number (fs ! i)) tox), take i fs @ drop (Suc i) fs)"
proof -
  let ?n = "friend_number (fs ! i)"
  have d: "distinct (map friend_number fs)"
    using assms(2) registry_distinct by (auto simp: agrees_def numbers_def)
  have e: "take i fs @ drop (Suc i) fs = filter (\<lambda>f. friend_number f \<noteq> ?n) fs"
    by (rule remove_nth_filter [OF d assms(3)])
  have "registry_ok (filter (\<lambda>f. friend_number f \<noteq> ?n) fs)"
    using assms(2) sorted_wrt_filter_map by (auto simp: agrees_def registry_ok_def numbers_def)
  moreover have "set (numbers (filter (\<lambda>f. friend_number f \<noteq> ?n) fs)) = set (numbers fs) - {?n}"
    by (auto simp: numbers_def)
  moreover have "set (tox_self_get_friend_list api (snd (tox_friend_delete api ?n tox))) =
      set (tox_self_get_friend_list api tox) - {?n}"
    using assms(1) unfolding friend_laws_def by blast
  ultimately show ?thesis using assms(2) unfolding e by (simp add: agrees_def)
qed

lemma remove_lines_filter:
  assumes "friend_laws api" and "deletes api" and "agrees api (tox, fs)" and "list_all keyed fs"
    and "distinct (keys_of fs)"
  shows "\<exists>tox'. remove_lines api ls tox fs =
      Inr (tox', filter (\<lambda>f. key_of f \<notin> (\<lambda>l. take 64 (cstr l)) ` {l \<in> set ls. length (cstr l) = 65}) fs) \<and>
    agrees api (tox', filter (\<lambda>f. key_of f \<notin> (\<lambda>l. take 64 (cstr l)) ` {l \<in> set ls. length (cstr l) = 65}) fs)"
  using assms(3-5)
proof (induction ls arbitrary: tox fs)
  case (Cons l ls)
  let ?K = "\<lambda>ls. (\<lambda>l. take 64 (cstr l)) ` {l \<in> set ls. length (cstr l) = 65}"
  let ?key = "cstr l"
  show ?case
  proof (cases "length ?key = 65")
    case False
    then have "?K (l # ls) = ?K ls" by auto
    with Cons.IH [OF Cons.prems] False show ?thesis by (simp add: Let_def)
  next
    case True
    then have K: "?K (l # ls) = insert (take 64 ?key) (?K ls)" by auto
    obtain r where r: "find_index_res (\<lambda>f. r_bind (fget tox_id_hex f) (\<lambda>h.
        Inr (strncmp_eq h ?key (TOX_PUBLIC_KEY_SIZE * 2)))) 0 fs = Inr r"
      "case r of None \<Rightarrow> take 64 ?key \<notin> set (keys_of fs) | Some i \<Rightarrow> i < length fs \<and> key_of (fs ! i) = take 64 ?key"
      using find_keyed [OF Cons.prems(2) True] no_nul_cstr by blast
    show ?thesis
    proof (cases r)
      case None
      with r(2) have "\<forall>f\<in>set fs. key_of f \<noteq> take 64 ?key" by (auto simp: keys_of_map image_iff)
      then have "filter (\<lambda>f. key_of f \<notin> ?K (l # ls)) fs = filter (\<lambda>f. key_of f \<notin> ?K ls) fs"
        unfolding K by (auto intro: filter_cong)
      moreover have "remove_lines api (l # ls) tox fs = remove_lines api ls tox fs"
        using True r(1) None by (simp add: Let_def)
      ultimately show ?thesis using Cons.IH [OF Cons.prems] by simp
    next
      case (Some i)
      with r(2) have i: "i < length fs" "key_of (fs ! i) = take 64 ?key" by simp_all
      let ?n = "friend_number (fs ! i)"
      define tox1 where "tox1 = snd (tox_friend_delete api ?n tox)"
      define fs1 where "fs1 = filter (\<lambda>f. key_of f \<noteq> take 64 ?key) fs"
      have fs1: "take i fs @ drop (Suc i) fs = fs1"
        using remove_nth_filter [of key_of fs i] i Cons.prems(3) by (simp add: keys_of_map fs1_def)
      have "?n \<in> set (numbers fs)" using i(1) by (simp add: numbers_def)
      then have "fst (tox_friend_delete api ?n tox)"
        using assms(2) Cons.prems(1) by (simp add: agrees_def deletes_def)
      then have del: "tox_friend_delete api ?n tox = (True, tox1)" by (simp add: tox1_def prod_eq_iff)
      have a: "agrees api (tox1, fs1)"
        using agrees_delete [OF assms(1) Cons.prems(1) i(1)] by (simp add: fs1 tox1_def)
      have k: "list_all keyed fs1" "distinct (keys_of fs1)"
        using Cons.prems(2,3) by (auto simp: fs1_def list_all_iff keys_of_map distinct_map intro: inj_on_subset)
      have f: "filter (\<lambda>f. key_of f \<notin> ?K ls) fs1 = filter (\<lambda>f. key_of f \<notin> ?K (l # ls)) fs"
        unfolding fs1_def K filter_filter by (rule filter_cong) auto
      have "remove_lines api (l # ls) tox fs = remove_lines api ls tox1 fs1"
        using True r(1) Some del fs1 by (simp add: Let_def)
      with Cons.IH [OF a k] f show ?thesis by simp
    qed
  qed
qed simp

section \<open>Importing\<close>

text \<open>Adding the friends of a list of keys, the end of the loop of \<^verbatim>\<open>import_keys\<close>.\<close>

fun add_keys ::
  "'t toxcore \<Rightarrow> sodium \<Rightarrow> (nat \<Rightarrow> char) \<Rightarrow> string list \<Rightarrow> 't \<Rightarrow> friend_info list \<Rightarrow> ('t \<times> friend_info list) res" where
  "add_keys api sod g [] tox friends = Inr (tox, friends)"
| "add_keys api sod g (key # ks) tox friends =
     (case tox_friend_add_norequest api key tox of
        (None, tox) \<Rightarrow> add_keys api sod g ks tox friends
      | (Some n, tox) \<Rightarrow>
          r_bind (friend_info_update api sod g tox ((friend_info_new n)\<lparr>fname := Some (imported_name @ [NUL])\<rparr>))
            (\<lambda>f. add_keys api sod g ks tox (friend_insert f friends)))"

lemma import_lines_keys:
  assumes "list_all hex_key ks"
  shows "import_lines api sod g (map (\<lambda>l. l @ [NL]) ks) tox friends =
    add_keys api sod g (map (\<lambda>k. sodium_hex2bin sod (k @ [NL])) ks) tox friends"
  using assms
proof (induction ks arbitrary: tox friends)
  case (Cons k ks)
  then have "cstr (k @ [NL]) = k @ [NL]" "length (k @ [NL]) = 65" by (simp_all add: hex_key_def)
  with Cons show ?case by (simp add: Let_def split: prod.split option.split)
qed simp

section \<open>The profile\<close>

text \<open>The documented behaviour of the encryption of save data.\<close>

definition crypt_laws :: "sodium \<Rightarrow> bool" where
  "crypt_laws sod \<longleftrightarrow> (\<forall>d p e. tox_pass_encrypt sod d p = Inr e \<longrightarrow>
     length e = length d + TOX_PASS_ENCRYPTION_EXTRA_LENGTH \<and> tox_is_data_encrypted sod e \<and>
     tox_pass_decrypt sod e p = Some d)"

lemma save_write:
  assumes "fs_writable files p" "fs_readable files p"
  shows "\<exists>s files'. (case fopen_write p files of None \<Rightarrow> (- 1, files)
      | Some (file, files) \<Rightarrow> (0, append_bytes p bs files)) = (0 :: int, files') \<and>
    fopen_read p files' = Some s \<and> file_bytes p files' = bs \<and> fread_at s (length bs) files' = bs"
  using assms by (auto simp: fopen_write_def append_bytes_def fopen_read_def file_bytes_def fread_at_def)

section \<open>Instances\<close>

definition sample_crypt :: sodium where
  "sample_crypt = sample_sodium\<lparr>tox_pass_encrypt := (\<lambda>d p. Inr (''tox'' @ replicate 77 NUL @ d)),
     tox_pass_decrypt := (\<lambda>d p. Some (drop 80 d))\<rparr>"

definition files0 :: fs where
  "files0 = \<lparr>fs_data = (\<lambda>p. None), fs_readable = (\<lambda>_. True), fs_writable = (\<lambda>_. True)\<rparr>"

definition keyed0 :: friend_info where
  "keyed0 = (friend_info_new 1)\<lparr>tox_id_hex := Some (replicate 64 (CHR ''A'')), last_online := Some 5\<rparr>"

lemma keyed0: "keyed keyed0" "friend_number keyed0 = 1" "key_of keyed0 = replicate 64 (CHR ''A'')"
  "last_online keyed0 = Some 5"
  by (simp_all add: keyed0_def keyed_def hex_key_def no_nul_def key_of_def friend_info_new_def del: replicate.simps)

definition tox0 :: sample_tox where
  "tox0 = \<lparr>sm_friends = [1], sm_log = []\<rparr>"

definition saved0 :: "string option \<Rightarrow> sample_tox option" where
  "saved0 d = (case d of None \<Rightarrow> Some tox0 | Some d \<Rightarrow> Some \<lparr>sm_friends = [], sm_log = [d]\<rparr>)"

definition key_file0 :: fs where
  "key_file0 = append_bytes ''k'' (replicate 64 (CHR ''A'') @ [NL]) files0"

lemma agrees_keyed0: "agrees sample (tox0, [keyed0])"
  by (simp add: agrees_def registry_ok_def numbers_def keyed0 sample_def tox0_def)

section \<open>Properties\<close>

text \<open>
  C19 (roundtrip): a profile that was saved without a passphrase is loaded with the save data
  that it was saved with. With a passphrase, \<^verbatim>\<open>toxcore\<close> is given the save data
  and 80 bytes that were never written: the length of the file is used where the decrypted
  data is shorter.
\<close>

theorem profile_saved_and_loaded:
  assumes "crypt_laws sod" and "fs_writable files p" and "fs_readable files p"
    and "case pass of None \<Rightarrow> \<not> tox_is_data_encrypted sod (tox_get_savedata api tox)
      | Some w \<Rightarrow> \<not> isl (tox_pass_encrypt sod (tox_get_savedata api tox) w)"
  shows "\<exists>files'. save_profile api sod g tox p pass files = Inr (0, files') \<and>
    load_profile sod g' tox_new p pass files' =
      (let clear = tox_get_savedata api tox;
           data = (if pass = None then clear else clear @ map g' [length clear..<length clear + 80]) in
       Inr (case tox_new (Some data) of None \<Rightarrow> (1, None) | Some tox \<Rightarrow> (0, Some tox)))"
proof (cases pass)
  case None
  from save_write [OF assms(2,3), of "tox_get_savedata api tox"] assms(4) None show ?thesis
    by (auto simp: save_profile_def load_profile_def Let_def)
next
  case (Some w)
  define clear where "clear = tox_get_savedata api tox"
  from assms(4) Some obtain e where e: "tox_pass_encrypt sod clear w = Inr e"
    by (cases "tox_pass_encrypt sod clear w") (auto simp: clear_def)
  then have l: "length e = length clear + 80" "tox_is_data_encrypted sod e" "tox_pass_decrypt sod e w = Some clear"
    using assms(1) by (auto simp: crypt_laws_def)
  then have m: "mem_store (map g [0..<length clear + 80]) 0 e = Inr e" by (simp add: mem_store_def)
  have "drop (length clear) (map g' [0..<length clear + 80]) = map g' [length clear..<length clear + 80]"
    by (simp add: drop_map)
  then have "mem_store (map g' [0..<length clear + 80]) 0 clear =
      Inr (clear @ map g' [length clear..<length clear + 80])"
    by (simp add: mem_store_def)
  with save_write [OF assms(2,3), of e] e l m Some show ?thesis
    by (auto simp: save_profile_def load_profile_def Let_def clear_def)
qed

theorem profile_saved_and_loaded_witness:
  "\<exists>files'. save_profile sample sample_crypt (\<lambda>_. NUL) tox0 ''data.tox'' (Some ''pw'') files0 = Inr (0, files') \<and>
    load_profile sample_crypt (\<lambda>_. CHR ''x'') saved0 ''data.tox'' (Some ''pw'') files' =
      Inr (0, saved0 (Some (''save'' @ replicate 80 (CHR ''x''))))"
proof -
  have "crypt_laws sample_crypt" by (auto simp: crypt_laws_def sample_crypt_def sample_sodium_def)
  moreover have "map (\<lambda>_. CHR ''x'') [length ''save''..<length ''save'' + 80] = replicate 80 (CHR ''x'')"
    by (simp only: map_replicate_const length_upt add_diff_cancel_left')
  moreover have "tox_get_savedata sample tox0 = ''save''" by (simp add: sample_def)
  moreover have "(case saved0 (Some d) of None \<Rightarrow> (1, None) | Some tox \<Rightarrow> (0, Some tox)) = (0 :: int, saved0 (Some d))" for d
    by (simp add: saved0_def)
  moreover have "fs_writable files0 p" "fs_readable files0 p" "\<not> isl (tox_pass_encrypt sample_crypt d w)" for p d w
    by (simp_all add: files0_def sample_crypt_def)
  ultimately show ?thesis
    using profile_saved_and_loaded [of sample_crypt files0 "''data.tox''" sample tox0 "Some ''pw''"
        "\<lambda>_. NUL" "\<lambda>_. CHR ''x''" saved0]
    by (simp only: Let_def option.case option.distinct if_False simp_thms)
qed

text \<open>
  C21 (roundtrip): importing the file that was exported from a registry offers
  \<^verbatim>\<open>toxcore\<close> the key of every friend of the registry, in the order of the registry
  and nothing else: every line that the export writes is accepted by the import.
\<close>

theorem exported_keys_imported:
  assumes "list_all keyed fs" and "fs_writable files p" and "fs_readable files p"
    and "map (\<lambda>h. sodium_hex2bin sod (h @ [NL])) (keys_of fs) = ks"
  shows "\<exists>files'. export_keys p fs files = Inr (0, files') \<and>
    import_keys api sod g tox friends p files' =
      r_bind (add_keys api sod g ks tox friends) (\<lambda>(tox, friends). Inr (0, tox, friends))"
proof -
  obtain files' s where f: "export_keys p fs files = Inr (0, files')" "fopen_read p files' = Some s"
    "getlines (fread_at s (length (file_bytes p files')) files') = map (\<lambda>l. l @ [NL]) (keys_of fs)"
    using export_keys_file [OF assms(1-3)] by blast
  then show ?thesis
    using import_lines_keys [OF keyed_keys [OF assms(1)], of api sod g tox friends] assms(4)
    by (auto simp: import_keys_def)
qed

theorem exported_keys_imported_witness:
  "\<exists>files' tox' fs'. export_keys ''k'' [keyed0] files0 = Inr (0, files') \<and>
    import_keys sample sample_sodium (\<lambda>_. NUL) tox0 [] ''k'' files' = Inr (0, tox', fs') \<and> numbers fs' = [65]"
proof -
  let ?k = "pad32 (replicate 64 (CHR ''A'') @ [NL])"
  let ?f = "(friend_info_new 65)\<lparr>fname := Some (imported_name @ [NUL])\<rparr>"
  have "hd ?k = CHR ''A''" by (simp add: pad32_def)
  then have "tox_friend_add_norequest sample ?k tox0 = (Some 65, \<lparr>sm_friends = [1, 65], sm_log = []\<rparr>)"
    by (simp add: sample_def tox0_def byte_def Let_def)
  moreover obtain f' where "friend_info_update sample sample_sodium (\<lambda>_. NUL) \<lparr>sm_friends = [1, 65], sm_log = []\<rparr> ?f = Inr f'"
    "friend_number f' = 65"
    using friend_info_update_mirrors [OF text_laws_sample, of sample_sodium "\<lambda>_. NUL" _ ?f] by fastforce
  ultimately have "add_keys sample sample_sodium (\<lambda>_. NUL) [?k] tox0 [] = Inr (\<lparr>sm_friends = [1, 65], sm_log = []\<rparr>, [f'])"
    by simp
  moreover have "map (\<lambda>h. sodium_hex2bin sample_sodium (h @ [NL])) (keys_of [keyed0]) = [?k]"
    using keyed0(3) by (simp add: sample_sodium_def keys_of_map del: replicate.simps)
  moreover have "list_all keyed [keyed0]" "fs_writable files0 ''k''" "fs_readable files0 ''k''"
    by (simp_all add: keyed0(1) files0_def)
  ultimately obtain files' where "export_keys ''k'' [keyed0] files0 = Inr (0, files')"
    "import_keys sample sample_sodium (\<lambda>_. NUL) tox0 [] ''k'' files' = Inr (0, \<lparr>sm_friends = [1, 65], sm_log = []\<rparr>, [f'])"
    using exported_keys_imported [of "[keyed0]" files0 "''k''" sample_sodium "[?k]" sample "\<lambda>_. NUL" tox0 "[]"]
    by (auto simp del: replicate.simps add_keys.simps)
  moreover have "numbers [f'] = [65]" using \<open>friend_number f' = 65\<close> by (simp add: numbers_def)
  ultimately show ?thesis by blast
qed

text \<open>
  C20 (functional): whatever the file holds, removing its keys leaves exactly the friends whose
  key no line of 65 bytes starts with, and the registry and \<^verbatim>\<open>toxcore\<close> still
  have the same friends.
\<close>

theorem remove_keys_exact:
  assumes "friend_laws api" and "deletes api" and "agrees api (tox, fs)" and "list_all keyed fs"
    and "distinct (keys_of fs)" and "fopen_read p files \<noteq> None"
  shows "\<exists>tox'. remove_keys api tox fs p files =
      Inr (0, tox', filter (\<lambda>f. key_of f \<notin> listed (file_bytes p files)) fs) \<and>
    agrees api (tox', filter (\<lambda>f. key_of f \<notin> listed (file_bytes p files)) fs)"
proof -
  obtain s where s: "fopen_read p files = Some s" using assms(6) by blast
  then have "fread_at s (length (file_bytes p files)) files = file_bytes p files"
    using fopen_read_stream [OF s] by (simp add: fread_at_def)
  with s remove_lines_filter [OF assms(1-5), of "getlines (file_bytes p files)"] show ?thesis
    by (auto simp: remove_keys_def listed_def)
qed

theorem remove_keys_exact_witness:
  "\<exists>tox'. remove_keys sample tox0 [keyed0] ''k'' key_file0 = Inr (0, tox', []) \<and> sm_friends tox' = []"
proof -
  have k: "cstr (replicate 64 (CHR ''A'') @ [NL]) = replicate 64 (CHR ''A'') @ [NL]"
    by (simp add: no_nul_def del: replicate.simps)
  have "getlines (replicate 64 (CHR ''A'') @ [NL]) = [replicate 64 (CHR ''A'') @ [NL]]"
    using getlines_line [of "replicate 64 (CHR ''A'')" "[]"] by (simp del: replicate.simps)
  then have "key_of keyed0 \<in> listed (file_bytes ''k'' key_file0)"
    using k by (auto simp: listed_def key_file0_def files0_def file_bytes_def append_bytes_def keyed0 simp del: replicate.simps)
  moreover have "deletes sample" by (simp add: deletes_def sample_def)
  moreover have "fopen_read ''k'' key_file0 \<noteq> None"
    by (simp add: fopen_read_def key_file0_def files0_def append_bytes_def)
  ultimately show ?thesis
    using remove_keys_exact [OF friend_laws_sample _ agrees_keyed0, of "''k''" key_file0] keyed0(1)
    by (auto simp: agrees_def sample_def numbers_def)
qed

end
