(* ===== verification/Suit.thy ===== *)
theory Suit
  imports Command Toxdata
begin

text \<open>
  \<^verbatim>\<open>src/suit.c\<close>: the program itself, from the profile on disk through the polling loop
  to the shut-down. Everything before \<^verbatim>\<open>suit_info_new\<close> (environment, working
  directory) is done. What comes out of \<^verbatim>\<open>tox_iterate\<close> and
  \<^verbatim>\<open>toxav_iterate\<close> are lists of calls of the program's callbacks.
\<close>

section \<open>The libraries\<close>

datatype tox_event =
    FriendMessage u32 string nat
  | FriendRequest string
  | FriendName u32 string u64
  | FriendStatusMessage u32 string u64
  | FriendStatus u32 u32
  | FriendConnection u32 u32
  | SelfConnection u32
  | NeedChunk u32 u32 u64 nat
  | RecvControl u32 u32 u32
  | RecvOffer u32 u32 u32
  | RecvChunk u32 u32 u64 string nat

datatype av_event =
    IncomingCall u32 bool bool
  | CallState u32 u32
  | AudioFrame u32 "int list" nat u8 u32
  | BitRate u32 u32 u32

text \<open>
  All that the program stands on: the libraries of the other theories, the contents of fresh
  memory, and the calls that only this file makes. \<open>e_walk\<close> is what \<^verbatim>\<open>ftw\<close>
  finds in the shared directory.
\<close>

record 't env =
  e_api :: "'t toxcore"
  e_sod :: sodium
  e_lib :: clib
  e_av :: avlib
  e_g :: "nat \<Rightarrow> char"
  e_node :: "nat \<Rightarrow> file_node"
  e_walk :: "fs \<Rightarrow> (string \<times> int \<times> int \<times> nat) list option"
  tox_new :: "string option \<Rightarrow> 't option"
  tox_self_set_name :: "string \<Rightarrow> 't \<Rightarrow> 't"
  tox_self_set_status_message :: "string \<Rightarrow> 't \<Rightarrow> 't"
  tox_bootstrap :: "string \<Rightarrow> u16 \<Rightarrow> string \<Rightarrow> 't \<Rightarrow> bool \<times> 't"
  tox_iterate :: "'t \<Rightarrow> tox_event list \<times> 't"
  toxav_iterate :: "'t \<Rightarrow> av_event list \<times> 't"

section \<open>Starting\<close>

definition nodes :: "(string \<times> u16 \<times> string) list" where
  "nodes =
     [(''127.0.0.1'', 33445, ''728925473812C7AAC482BE7250BCCAD0B8CB9F737BF3D42ABD34459C1768F854''),
      (''144.76.60.215'', 33445, ''04119E835DF3E78BACF0F84235B300546AF8B936F035185E2A8E9E0A67C8924F''),
      (''192.210.149.121'', 33445, ''F404ABAA1C99A9D37D61AB54898F56793E1DEF8BD46B1038B9D822E8460FAB67''),
      (''195.154.119.113'', 33445, ''E398A69646B8CEACA9F0B84F553726C1C49270558C57DF5F3C368F05A7D71354''),
      (''46.38.239.179'', 33445, ''F5A1A38EFB6BD3C2C8AF8B10D85F0F89E931704D349F1D0720C3C4059AF2440A''),
      (''76.191.23.96'', 33445, ''93574A3FAB7D612FEA29FD8D67D3DD10DFD07A075A5D62E8AF3DD9F5D0932E11'')]"

definition bootstrap_DHT :: "'t env \<Rightarrow> 't \<Rightarrow> 't" where
  "bootstrap_DHT e tox =
     fold (\<lambda>(ip, port, key) tox. snd (tox_bootstrap e ip port (sodium_hex2bin (e_sod e) key) tox)) nodes tox"

definition data_filename :: string where "data_filename = ''data.tox''"
definition shrlist_filename :: string where "shrlist_filename = ''savfileshr.dat''"

text \<open>The version goes into a buffer of 40 bytes.\<close>

definition suit_info_new :: "string \<Rightarrow> string \<Rightarrow> string res" where
  "suit_info_new version git_version =
     (let txt = version @ ''-'' @ git_version in
      if 40 < length txt + 1 then Inl OutOfBounds else Inr txt)"

text \<open>Name and status message from the environment are cut to the sizes of the protocol.\<close>

definition set_user_config :: "'t env \<Rightarrow> string option \<Rightarrow> string option \<Rightarrow> 't \<Rightarrow> 't" where
  "set_user_config e nm status_msg tox =
     (let tox = (case nm of None \<Rightarrow> tox | Some n \<Rightarrow> tox_self_set_name e (take 128 (cstr n)) tox) in
      case status_msg of None \<Rightarrow> tox | Some m \<Rightarrow> tox_self_set_status_message e (take 1007 (cstr m)) tox)"

text \<open>The profile, or a new one if there is none: \<open>None\<close> if that fails, else whether to save it.\<close>

definition open_profile :: "'t env \<Rightarrow> string option \<Rightarrow> fs \<Rightarrow> ('t \<times> bool) option res" where
  "open_profile e passphrase files =
     (if fs_data files data_filename \<noteq> None \<and> fs_readable files data_filename \<and> fs_writable files data_filename then
        r_bind (load_profile (e_sod e) (e_g e) (tox_new e) data_filename passphrase files) (\<lambda>(code, tox).
          Inr (map_option (\<lambda>tox. (tox, False)) (if code = 0 then tox else None)))
      else Inr (map_option (\<lambda>tox. (tox, True)) (tox_new e None)))"

text \<open>The static variables of \<^verbatim>\<open>fileop.c\<close> when the program starts.\<close>

definition op_start :: "fs \<Rightarrow> heap \<Rightarrow> op_state" where
  "op_start files h = \<lparr>op_fs = files, op_heap = h, shr_list = [], new_list = [], file_recheck = True,
     file_new_c = False, notified = [], hashing = - 1, last_one = 0, ck_file = None, ck_state = []\<rparr>"

definition suit_start ::
  "'t env \<Rightarrow> string \<Rightarrow> string \<Rightarrow> string option \<Rightarrow> string option \<Rightarrow> string option \<Rightarrow> fs \<Rightarrow> heap \<Rightarrow> 't suit option res" where
  "suit_start e version git_version passphrase nm status_msg files h =
     r_bind (suit_info_new version git_version) (\<lambda>version.
     r_bind (open_profile e passphrase files) (\<lambda>r.
       case r of
         None \<Rightarrow> Inr None
       | Some (tox, save) \<Rightarrow>
           let tox = bootstrap_DHT e (set_user_config e nm status_msg tox) in
           r_bind (client_info_update (e_api e) (e_sod e) (e_g e) tox (client_info_new
              \<lparr>ci_name = None, ci_status_message = None, ci_tox_id_bin = None, ci_tox_id_hex = None,
               ci_connect = None\<rparr>)) (\<lambda>own_info.
           let calls = calltest_init (e_av e) \<lparr>w_tox = tox, w_fs = files, w_heap = h, w_senders = []\<rparr> in
           r_bind (friends_info_init (e_api e) (e_sod e) (e_g e) tox []) (\<lambda>(friends, _).
           r_bind (load_shrlist (e_node e) shrlist_filename files [] h) (\<lambda>(_, shr, h).
           let op = file_recheck_callback SIGUSR1 ((op_start files h)\<lparr>shr_list := shr\<rparr>) in
           r_bind (load_senders [] friends h files) (\<lambda>(_, loaded, h).
             Inr (Some \<lparr>su_calls = calls\<lparr>c_w := (c_w calls)\<lparr>w_heap := h\<rparr>\<rparr>, su_friends = friends, su_op = op,
               su_loaded = loaded, su_own = own_info, su_version = version, su_xdcc = False, su_group = - 1,
               su_save = save, su_exit = False\<rparr>)))))))"

section \<open>Events\<close>

text \<open>\<^verbatim>\<open>callbacks_init\<close> as a table: which function gets which event, on which part of the state.\<close>

definition on_friends :: "friend_info list res \<Rightarrow> 't suit \<Rightarrow> 't suit outcome res" where
  "on_friends r s = r_bind r (\<lambda>fs. Inr (Running (s\<lparr>su_friends := fs\<rparr>)))"

definition on_files :: "'t fstate res \<Rightarrow> 't suit \<Rightarrow> 't suit outcome res" where
  "on_files r s = r_bind r (\<lambda>w. Inr (Running (set_w w s)))"

fun handle_tox :: "'t env \<Rightarrow> tox_event \<Rightarrow> 't suit \<Rightarrow> 't suit outcome res" where
  "handle_tox e (FriendMessage n message len) s =
     friend_message (e_api e) (e_sod e) (e_lib e) (e_g e) n message len s"
| "handle_tox e (FriendRequest pk) s =
     (let (tox, fs) = friend_request_cb (e_api e) pk (su_tox s) (su_friends s) in
      Inr (Running ((set_tox tox s)\<lparr>su_friends := fs\<rparr>)))"
| "handle_tox e (FriendName n name len) s = on_friends (friend_name_cb (e_g e) n name len (su_friends s)) s"
| "handle_tox e (FriendStatusMessage n msg len) s =
     on_friends (friend_status_message_cb (e_g e) n msg len (su_friends s)) s"
| "handle_tox e (FriendStatus n st) s = on_friends (friend_status_cb n st (su_friends s)) s"
| "handle_tox e (FriendConnection n cs) s =
     r_bind (friend_connection_status_cb (e_api e) (e_g e) n cs (su_friends s) (su_loaded s) (su_w s)) (\<lambda>(fs, loaded, w).
       Inr (Running ((set_w w s)\<lparr>su_friends := fs, su_loaded := loaded\<rparr>)))"
| "handle_tox e (SelfConnection st) s = Inr (Running s)"
| "handle_tox e (NeedChunk n f pos len) s = on_files (file_chunk_request_cb (e_api e) n f pos len (su_w s)) s"
| "handle_tox e (RecvControl n f c) s = on_files (file_recv_control_cb n f c (su_w s)) s"
| "handle_tox e (RecvOffer n f k) s = on_files (Inr (file_recv_cb (e_api e) n f k (su_w s))) s"
| "handle_tox e (RecvChunk n f pos bs len) s = on_files (file_recv_chunk_cb n f pos bs len (su_w s)) s"

text \<open>
  The callbacks that \<^verbatim>\<open>calltest_init\<close> registers; the one for video frames is not
  among them, and the one for bit rates only logs.
\<close>

fun handle_av :: "'t env \<Rightarrow> av_event \<Rightarrow> 't suit \<Rightarrow> 't suit res" where
  "handle_av e (IncomingCall n audio video) s =
     Inr (s\<lparr>su_calls := call (e_api e) (e_av e) n audio video (su_calls s)\<rparr>)"
| "handle_av e (CallState n st) s = Inr (s\<lparr>su_calls := call_state (e_api e) (e_av e) n st (su_calls s)\<rparr>)"
| "handle_av e (AudioFrame n sound count ch rate) s =
     r_bind (audio_receive_frame n sound count ch rate (su_calls s)) (\<lambda>c. Inr (s\<lparr>su_calls := c\<rparr>))"
| "handle_av e (BitRate n a v) s = Inr s"

fun handle_all_tox :: "'t env \<Rightarrow> tox_event list \<Rightarrow> 't suit \<Rightarrow> 't suit outcome res" where
  "handle_all_tox e [] s = Inr (Running s)"
| "handle_all_tox e (ev # evs) s =
     r_bind (handle_tox e ev s) (\<lambda>r. case r of
       Running s \<Rightarrow> handle_all_tox e evs s | Exited code s \<Rightarrow> Inr (Exited code s))"

fun handle_all_av :: "'t env \<Rightarrow> av_event list \<Rightarrow> 't suit \<Rightarrow> 't suit res" where
  "handle_all_av e [] s = Inr s"
| "handle_all_av e (ev # evs) s = r_bind (handle_av e ev s) (handle_all_av e evs)"

section \<open>The polling loop\<close>

abbreviation (input) FRIEND_PURGE_INTERVAL :: int where "FRIEND_PURGE_INTERVAL \<equiv> SEC_PER_HOUR * HOUR_PER_DAY * 30"

record 't loop =
  lp_suit :: "'t suit"
  tsprev :: timespec
  tstox :: timespec
  tsav :: timespec
  tsfriend :: timespec
  tscalltest :: timespec

definition loop_start :: "'t suit \<Rightarrow> 't loop" where
  "loop_start s = (let t0 = \<lparr>tv_sec = 0, tv_nsec = 0\<rparr> in
     \<lparr>lp_suit = s, tsprev = t0, tstox = t0, tsav = t0, tsfriend = t0, tscalltest = t0\<rparr>)"

text \<open>What a pass did; a rest has the nanoseconds slept, \<open>None\<close> if the sleep was refused.\<close>

datatype pass = Calls | Toxcore | Toxav | Purge | Rest "u64 option"

definition calltest_delay :: "'t suit \<Rightarrow> u64" where
  "calltest_delay s = calltest_iteration_interval (calltesters (su_calls s))"

definition tox_delay :: "'t env \<Rightarrow> 't suit \<Rightarrow> u64" where
  "tox_delay e s = ucast (tox_iteration_interval (e_api e) (su_tox s)) * word_of_int NSEC_PER_MSEC"

definition toxav_delay :: "'t env \<Rightarrow> 't suit \<Rightarrow> u64" where
  "toxav_delay e s = ucast (toxav_iteration_interval (e_api e) (su_tox s)) * word_of_int NSEC_PER_MSEC"

text \<open>
  The sleep at the end of a pass. \<^verbatim>\<open>min\<close> fetches its arguments as \<^verbatim>\<open>int\<close>;
  \<^verbatim>\<open>nanosleep\<close> refuses a second or more.
\<close>

definition sleep_time :: "u64 \<Rightarrow> u64 \<Rightarrow> u64 \<Rightarrow> int \<Rightarrow> u64 option res" where
  "sleep_time calls_d tox_d av_d spent =
     r_bind (min_args 3 (map (\<lambda>d. to_i32 (uint d)) [calls_d, tox_d, av_d])) (\<lambda>m.
       let sleep_delay = (word_of_int m - word_of_int spent) div 10 in
       Inr (if sleep_delay \<le> word_of_int MAX_NS then Some sleep_delay else None))"

text \<open>\<^verbatim>\<open>file_do\<close> works on the files and blocks of the rest of the program.\<close>

definition run_file_do :: "'t env \<Rightarrow> 't suit \<Rightarrow> 't suit res" where
  "run_file_do e s =
     (let w = su_w s; op = (su_op s)\<lparr>op_fs := w_fs w, op_heap := w_heap w\<rparr> in
      r_bind (file_do (e_sod e) (e_g e) (e_walk e (w_fs w)) op) (\<lambda>(_, op).
        Inr ((set_w (w\<lparr>w_fs := op_fs op, w_heap := op_heap op\<rparr>) s)\<lparr>su_op := op\<rparr>)))"

text \<open>
  The flag is cleared before it is tested, as the code does; \<open>save_pass\<close> is the code between.
\<close>

definition save_pass :: "'t env \<Rightarrow> string option \<Rightarrow> 't suit \<Rightarrow> 't suit res" where
  "save_pass e passphrase s =
     (let s = s\<lparr>su_save := False\<rparr> in
      if su_save s then
        let s = s\<lparr>su_save := False\<rparr>; w = su_w s in
        r_bind (save_profile (e_api e) (e_sod e) (e_g e) (w_tox w) data_filename passphrase (w_fs w)) (\<lambda>(_, files).
          Inr (set_w (w\<lparr>w_fs := files\<rparr>) s))
      else Inr s)"

definition rest_pass :: "'t env \<Rightarrow> string option \<Rightarrow> timespec \<Rightarrow> 't loop \<Rightarrow> (pass \<times> 't loop) outcome res" where
  "rest_pass e passphrase tpnow l =
     (let s = lp_suit l; calls_d = calltest_delay s; tox_d = tox_delay e s; av_d = toxav_delay e s in
      r_bind (nanosec_timeout (tsfriend l) tpnow (word_of_int (5000 * NSEC_PER_USEC))) (\<lambda>due.
      r_bind (if due then run_file_do e s else Inr s) (\<lambda>s.
      r_bind (save_pass e passphrase s) (\<lambda>s.
      r_bind (timespec_subtract tpnow (tsprev l)) (\<lambda>el.
      r_bind (timespec_to_ns el) (\<lambda>spent.
      r_bind (sleep_time calls_d tox_d av_d spent) (\<lambda>slept.
        Inr (Running (Rest slept, l\<lparr>lp_suit := s, tsprev := tpnow\<rparr>)))))))))"

definition purge_pass :: "'t env \<Rightarrow> timespec \<Rightarrow> 't loop \<Rightarrow> (pass \<times> 't loop) outcome res" where
  "purge_pass e tpnow l =
     (let s = lp_suit l in
      r_bind (timespec_to_ns tpnow) (\<lambda>ns.
      r_bind (friend_cleanup (e_api e) (word_of_int FRIEND_PURGE_INTERVAL) (word_of_int ns) (su_tox s) (su_friends s))
        (\<lambda>(tox, fs). Inr (Running (Purge,
          l\<lparr>lp_suit := (set_tox tox s)\<lparr>su_friends := fs, su_save := True\<rparr>, tsfriend := tpnow\<rparr>)))))"

text \<open>One pass of the loop, with the work of the highest priority that is due.\<close>

definition loop_pass :: "'t env \<Rightarrow> string option \<Rightarrow> timespec \<Rightarrow> 't loop \<Rightarrow> (pass \<times> 't loop) outcome res" where
  "loop_pass e passphrase tpnow l =
     (let s = lp_suit l in
      r_bind (nanosec_timeout (tscalltest l) tpnow (calltest_delay s)) (\<lambda>due.
      if due then
        r_bind (calltest_iterate (e_api e) (e_av e) (e_g e) tpnow (su_calls s)) (\<lambda>c.
          Inr (Running (Calls, l\<lparr>lp_suit := s\<lparr>su_calls := c\<rparr>, tscalltest := tpnow\<rparr>)))
      else
      r_bind (nanosec_timeout (tstox l) tpnow (tox_delay e s)) (\<lambda>due.
      if due then
        (let (evs, tox) = tox_iterate e (su_tox s) in
         r_bind (handle_all_tox e evs (set_tox tox s)) (\<lambda>r. Inr (case r of
           Running s \<Rightarrow> Running (Toxcore, l\<lparr>lp_suit := s, tstox := tpnow\<rparr>)
         | Exited code s \<Rightarrow> Exited code (Toxcore, l\<lparr>lp_suit := s\<rparr>))))
      else
      r_bind (nanosec_timeout (tsav l) tpnow (toxav_delay e s)) (\<lambda>due.
      if due then
        (let (evs, tox) = toxav_iterate e (su_tox s) in
         r_bind (handle_all_av e evs (set_tox tox s)) (\<lambda>s.
           Inr (Running (Toxav, l\<lparr>lp_suit := s, tsav := tpnow\<rparr>))))
      else
      r_bind (nanosec_timeout (tsfriend l) tpnow (word_of_int (FRIEND_PURGE_INTERVAL * NSEC_PER_SEC))) (\<lambda>due.
      if due then purge_pass e tpnow l else rest_pass e passphrase tpnow l)))))"

definition handle_signal :: "'t suit \<Rightarrow> 't suit" where
  "handle_signal s = s\<lparr>su_exit := True\<rparr>"

text \<open>
  The loop over the readings of the clock, each with whether the signal came before it. It
  ends with the signal or when a command exits.
\<close>

fun loop_run :: "'t env \<Rightarrow> string option \<Rightarrow> (bool \<times> timespec) list \<Rightarrow> 't loop \<Rightarrow> 't suit outcome res" where
  "loop_run e passphrase [] l = Inr (Running (lp_suit l))"
| "loop_run e passphrase ((sig, tpnow) # tps) l =
     (let s = (if sig then handle_signal (lp_suit l) else lp_suit l); l = l\<lparr>lp_suit := s\<rparr> in
      if su_exit s then Inr (Running s)
      else
        r_bind (loop_pass e passphrase tpnow l) (\<lambda>r. case r of
          Running (_, l) \<Rightarrow> loop_run e passphrase tps l
        | Exited code (_, l) \<Rightarrow> Inr (Exited code (lp_suit l))))"

section \<open>Shutting down\<close>

text \<open>The files that are left.\<close>

definition shut_down :: "'t env \<Rightarrow> (nat \<Rightarrow> string) \<Rightarrow> string option \<Rightarrow> 't suit \<Rightarrow> fs res" where
  "shut_down e fresh passphrase s =
     (let w = su_w s in
      r_bind (dump_shrlist fresh shrlist_filename (shr_list (su_op s)) (w_heap w) (w_fs w)) (\<lambda>files.
      r_bind (save_senders fresh (w_senders w) (su_friends s) (w_heap w) files) (\<lambda>(_, files).
      r_bind (save_profile (e_api e) (e_sod e) (e_g e) (w_tox w) data_filename passphrase files) (\<lambda>(_, files).
      let calls = calltest_destroy (su_calls s) in
      r_bind (FileQueue_destroy (w_senders w) (w_heap w)) (\<lambda>h.
      r_bind (FileQueue_destroy (su_loaded s) h) (\<lambda>h. Inr files))))))"

end
