(* ===== verification/Suit_Properties.thy ===== *)
theory Suit_Properties
  imports Suit Toxdata_Properties Command_Properties Tsfiles_Roundtrip
begin

text \<open>
  The polling loop: what it does to the friends when it first has the time, how often it does
  its work, how long it sleeps, and what is lost when it rests and when it ends.
\<close>

section \<open>Clocks\<close>

lemma clock_zero [simp]: "ts_clock \<lparr>tv_sec = 0, tv_nsec = 0\<rparr>" "ts_ns \<lparr>tv_sec = 0, tv_nsec = 0\<rparr> = 0"
  by (simp_all add: ts_clock_def ts_norm_def ts_ns_def)

text \<open>With readings in order the test of the loop compares the time that has passed.\<close>

lemma timeout_forward:
  assumes "ts_clock a" "ts_clock b" "ts_ns a \<le> ts_ns b"
  shows "nanosec_timeout a b d = Inr (uint d \<le> ts_ns b - ts_ns a)"
proof -
  have "0 \<le> ts_ns b - ts_ns a" "ts_ns b - ts_ns a < 2 ^ 64"
    using assms ts_clock_ns [OF assms(1)] ts_clock_ns [OF assms(2)] by auto
  then have "uint (word_of_int (ts_ns b - ts_ns a) :: u64) = ts_ns b - ts_ns a" by (rule uint_word_of_int64)
  then show ?thesis by (simp add: nanosec_timeout_value [OF assms(1,2)] word_le_def)
qed

section \<open>The work of the loop\<close>

text \<open>The reading at which a kind of work was last done, and the delay until it is due again.\<close>

primrec stamp :: "pass \<Rightarrow> 't loop \<Rightarrow> timespec" where
  "stamp Calls l = tscalltest l"
| "stamp Toxcore l = tstox l"
| "stamp Toxav l = tsav l"
| "stamp Purge l = tsfriend l"
| "stamp (Rest t) l = tsprev l"

primrec due_delay :: "pass \<Rightarrow> 't env \<Rightarrow> 't suit \<Rightarrow> u64" where
  "due_delay Calls e s = calltest_delay s"
| "due_delay Toxcore e s = tox_delay e s"
| "due_delay Toxav e s = toxav_delay e s"
| "due_delay Purge e s = word_of_int (FRIEND_PURGE_INTERVAL * NSEC_PER_SEC)"
| "due_delay (Rest t) e s = 0"

text \<open>
  What the passes at some readings of the clock did, each with its reading and the delay that
  the loop had computed for that work in the state that the pass met.
\<close>

type_synonym work = "pass \<times> timespec \<times> u64"

fun loop_works :: "'t env \<Rightarrow> string option \<Rightarrow> timespec list \<Rightarrow> 't loop \<Rightarrow> work list" where
  "loop_works e p [] l = []"
| "loop_works e p (tp # tps) l =
     (case loop_pass e p tp l of
        Inr (Running (k, l')) \<Rightarrow> (k, tp, due_delay k e (lp_suit l)) # loop_works e p tps l'
      | _ \<Rightarrow> [])"

definition works_of :: "pass \<Rightarrow> work list \<Rightarrow> work list" where
  "works_of k = filter (\<lambda>(j, _). j = k)"

lemma works_of_simps [simp]:
  "works_of k [] = []" "works_of k ((j, tp, d) # ws) = (if j = k then (j, tp, d) # works_of k ws else works_of k ws)"
  by (simp_all add: works_of_def)

text \<open>From the time \<open>t\<close> on each work waits for its delay after the one before.\<close>

fun spaced :: "int \<Rightarrow> work list \<Rightarrow> bool" where
  "spaced t [] = True"
| "spaced t ((k, tp, d) # ws) = (t + uint d \<le> ts_ns tp \<and> spaced (ts_ns tp) ws)"

lemma spaced_count:
  assumes "spaced t ws" "\<forall>(k, tp, u)\<in>set ws. d \<le> uint u \<and> ts_ns tp \<le> stop" "t \<le> stop"
  shows "int (length ws) * d \<le> stop - t"
  using assms
proof (induction t ws rule: spaced.induct)
  case (2 t k tp u ws)
  then have "int (length ws) * d \<le> stop - ts_ns tp" "t + d \<le> ts_ns tp" by auto
  then show ?case by (simp add: distrib_right)
qed simp

text \<open>What a pass did, by the first of the tests that was true.\<close>

lemma pass_cases:
  assumes "loop_pass e p tp l = Inr (Running (k, l'))"
  shows "(k = Calls \<and> nanosec_timeout (tscalltest l) tp (calltest_delay (lp_suit l)) = Inr True \<and>
      (\<exists>s. l' = l\<lparr>lp_suit := s, tscalltest := tp\<rparr>)) \<or>
    (k = Toxcore \<and> nanosec_timeout (tstox l) tp (tox_delay e (lp_suit l)) = Inr True \<and>
      (\<exists>s. l' = l\<lparr>lp_suit := s, tstox := tp\<rparr>)) \<or>
    (k = Toxav \<and> nanosec_timeout (tsav l) tp (toxav_delay e (lp_suit l)) = Inr True \<and>
      (\<exists>s. l' = l\<lparr>lp_suit := s, tsav := tp\<rparr>)) \<or>
    (k = Purge \<and> nanosec_timeout (tsfriend l) tp (word_of_int (FRIEND_PURGE_INTERVAL * NSEC_PER_SEC)) = Inr True \<and>
      (\<exists>s. l' = l\<lparr>lp_suit := s, tsfriend := tp\<rparr>)) \<or>
    (\<exists>t s. k = Rest t \<and> rest_pass e p tp l = Inr (Running (k, l')) \<and> l' = l\<lparr>lp_suit := s, tsprev := tp\<rparr>)"
proof -
  let ?s = "lp_suit l"
  from assms obtain d1 where d1: "nanosec_timeout (tscalltest l) tp (calltest_delay ?s) = Inr d1"
    by (auto simp: loop_pass_def Let_def r_bind_eq_Inr)
  show ?thesis
  proof (cases d1)
    case True
    with assms d1 obtain c where "k = Calls" "l' = l\<lparr>lp_suit := ?s\<lparr>su_calls := c\<rparr>, tscalltest := tp\<rparr>"
      by (clarsimp simp: loop_pass_def Let_def r_bind_eq_Inr)
    with True d1 show ?thesis by simp blast
  next
    case n1: False
    with assms d1 obtain d2 where d2: "nanosec_timeout (tstox l) tp (tox_delay e ?s) = Inr d2"
      by (auto simp: loop_pass_def Let_def r_bind_eq_Inr)
    show ?thesis
    proof (cases d2)
      case True
      with assms d1 n1 d2 obtain r where "(case r of Running s \<Rightarrow> Running (Toxcore, l\<lparr>lp_suit := s, tstox := tp\<rparr>)
          | Exited code s \<Rightarrow> Exited code (Toxcore, l\<lparr>lp_suit := s\<rparr>)) = Running (k, l')"
        by (auto simp: loop_pass_def Let_def r_bind_eq_Inr case_prod_unfold)
      with True d2 show ?thesis by (cases r) auto
    next
      case n2: False
      with assms d1 n1 d2 obtain d3 where d3: "nanosec_timeout (tsav l) tp (toxav_delay e ?s) = Inr d3"
        by (auto simp: loop_pass_def Let_def r_bind_eq_Inr)
      show ?thesis
      proof (cases d3)
        case True
        with assms d1 n1 d2 n2 d3 show ?thesis
          by (auto simp: loop_pass_def Let_def r_bind_eq_Inr case_prod_unfold)
      next
        case n3: False
        let ?d = "word_of_int (FRIEND_PURGE_INTERVAL * NSEC_PER_SEC) :: u64"
        from assms d1 n1 d2 n2 d3 n3 have r: "r_bind (nanosec_timeout (tsfriend l) tp ?d)
            (\<lambda>due. if due then purge_pass e tp l else rest_pass e p tp l) = Inr (Running (k, l'))"
          by (simp add: loop_pass_def Let_def)
        then obtain d4 where d4: "nanosec_timeout (tsfriend l) tp ?d = Inr d4"
          unfolding r_bind_eq_Inr by blast
        show ?thesis
        proof (cases d4)
          case True
          with r d4 have "purge_pass e tp l = Inr (Running (k, l'))" by simp
          then have "k = Purge \<and> (\<exists>s. l' = l\<lparr>lp_suit := s, tsfriend := tp\<rparr>)"
            by (auto simp: purge_pass_def Let_def r_bind_eq_Inr)
          with d4 True show ?thesis by simp
        next
          case False
          with r d4 have rest: "rest_pass e p tp l = Inr (Running (k, l'))" by simp
          then have "\<exists>t s. k = Rest t \<and> l' = l\<lparr>lp_suit := s, tsprev := tp\<rparr>"
            unfolding rest_pass_def Let_def r_bind_eq_Inr by blast
          with rest show ?thesis by blast
        qed
      qed
    qed
  qed
qed

lemma pass_due:
  assumes "loop_pass e p tp l = Inr (Running (k, l'))" and "\<forall>t. k \<noteq> Rest t"
  shows "nanosec_timeout (stamp k l) tp (due_delay k e (lp_suit l)) = Inr True"
  using pass_cases [OF assms(1)] assms(2) by auto

lemma pass_stamps:
  assumes "loop_pass e p tp l = Inr (Running (j, l'))" and "\<forall>t. k \<noteq> Rest t"
  shows "stamp k l' = (if k = j then tp else stamp k l)"
  using pass_cases [OF assms(1)] assms(2) by (cases k) auto

lemma works_spaced:
  assumes "list_all ts_clock (stamp k l # tps)" and "sorted (map ts_ns (stamp k l # tps))" and "\<forall>t. k \<noteq> Rest t"
  shows "spaced (ts_ns (stamp k l)) (works_of k (loop_works e p tps l)) \<and>
    (\<forall>(j, tp, u)\<in>set (loop_works e p tps l). tp \<in> set tps)"
  using assms(1,2)
proof (induction tps arbitrary: l)
  case (Cons tp tps)
  show ?case
  proof (cases "\<exists>j l'. loop_pass e p tp l = Inr (Running (j, l'))")
    case False
    then show ?thesis by (auto split: sum.splits outcome.splits)
  next
    case True
    then obtain j l' where j: "loop_pass e p tp l = Inr (Running (j, l'))" by blast
    note s = pass_stamps [OF j assms(3)]
    have "list_all ts_clock (stamp k l' # tps)" "sorted (map ts_ns (stamp k l' # tps))" using Cons.prems s by auto
    note ih = Cons.IH [OF this]
    show ?thesis
    proof (cases "j = k")
      case True
      have "nanosec_timeout (stamp k l) tp (due_delay k e (lp_suit l)) = Inr True"
        using pass_due [OF j] True assms(3) by blast
      then have "ts_ns (stamp k l) + uint (due_delay k e (lp_suit l)) \<le> ts_ns tp"
        using timeout_forward [of "stamp k l" tp] Cons.prems by auto
      with ih j True s show ?thesis by auto
    next
      case False
      with ih j s show ?thesis by auto
    qed
  qed
qed simp

section \<open>Files\<close>

lemma checksum_files:
  "file_checksumcalc_noblock sod g p path w = Inr (rc, w') \<Longrightarrow> op_fs w' = op_fs w"
  by (auto simp: file_checksumcalc_noblock_def r_bind_eq_Inr Let_def split: option.splits if_splits)

lemma ftw_files: "ftw es w = Inr (rc, w') \<Longrightarrow> op_fs w' = op_fs w"
proof (induction es arbitrary: w)
  case (Cons en es)
  obtain path mtime sz type where en: "en = (path, mtime, sz, type)" by (cases en)
  with Cons.prems obtain rc1 w1 where c: "file_walk_callback path mtime sz type w = Inr (rc1, w1)"
    and r: "(if rc1 \<noteq> 0 then Inr (rc1, w1) else ftw es w1) = Inr (rc, w')"
    by (auto simp: r_bind_eq_Inr)
  have "op_fs w1 = op_fs w"
    using c by (auto simp: file_walk_callback_def r_bind_eq_Inr split: if_splits option.splits)
  with r Cons.IH [of w1] show ?case by (auto split: if_splits)
qed simp

lemma walk_files: "file_walk_shared walk w = Inr (rc, w') \<Longrightarrow> op_fs w' = op_fs w"
  by (auto simp: file_walk_shared_def r_bind_eq_Inr dest: ftw_files split: option.splits)

lemma hash_step_files:
  assumes "file_hash_step sod g w = Inr (rc, w')"
  shows "op_fs w' = op_fs w"
proof -
  let ?fn = "shr_list w ! last_one w"
  show ?thesis
  proof (cases "fn_BLAKE2b ?fn")
    case None
    with assms show ?thesis by (simp add: file_hash_step_def Let_def split: if_splits)
  next
    case (Some q)
    with assms obtain path1 rc2 w2 where n: "node_path ?fn = Inr path1"
      and c2: "file_checksumcalc_noblock sod g q path1 w = Inr (rc2, w2)"
      by (auto simp: file_hash_step_def Let_def r_bind_eq_Inr split: if_splits)
    have "op_fs w' = op_fs w2"
      using assms Some n c2 by (auto simp: file_hash_step_def Let_def split: if_splits)
    with checksum_files [OF c2] show ?thesis by simp
  qed
qed

lemma file_do_files: "file_do sod g walk w = Inr (rc, w') \<Longrightarrow> op_fs w' = op_fs w"
proof -
  assume "file_do sod g walk w = Inr (rc, w')"
  then obtain w1 w2 where 1: "(if file_recheck w \<and> new_list w = [] \<and> hashing w = - 1
        then r_bind (file_exists_shared w) (\<lambda>w. r_bind (file_walk_shared walk w) (\<lambda>(_, w). Inr w))
        else Inr w) = Inr w1"
    and 2: "(if new_list w1 \<noteq> [] \<and> hashing w1 = - 1 then file_take_new g w1 else Inr w1) = Inr w2"
    and 3: "(if 0 \<le> hashing w2 then file_hash_step sod g w2 else Inr (0, w2)) = Inr (rc, w')"
    unfolding file_do_def r_bind_eq_Inr by blast
  have "op_fs w1 = op_fs w"
    using 1 by (auto simp: r_bind_eq_Inr file_exists_shared_def dest: walk_files split: if_splits)
  moreover have "op_fs w2 = op_fs w1"
    using 2 by (auto simp: file_take_new_def place_new_def r_bind_eq_Inr Let_def case_prod_unfold
        split: if_splits option.splits)
  moreover have "op_fs w' = op_fs w2"
    using 3 hash_step_files by (auto split: if_splits)
  ultimately show ?thesis by simp
qed

lemma write_others:
  assumes "(case fopen_write p files of None \<Rightarrow> (- 1, files)
      | Some (file, files) \<Rightarrow> (0, append_bytes p bs files)) = (r :: int, files')" and "q \<noteq> p"
  shows "fs_data files' q = fs_data files q"
proof (cases "fopen_write p files")
  case (Some sf)
  then obtain st f where "fopen_write p files = Some (st, f)" by (cases sf) simp
  with assms fopen_write_bytes [OF this] show ?thesis by (auto simp: append_bytes_def)
qed (use assms in simp)

lemma save_profile_others:
  assumes "save_profile api sod g tox p pass files = Inr (r, files')" and "q \<noteq> p"
  shows "fs_data files' q = fs_data files q"
proof (cases pass)
  case None
  with assms show ?thesis using write_others [where p = p and files = files and q = q, OF _ assms(2)] by (simp add: save_profile_def Let_def)
next
  case (Some w)
  show ?thesis
  proof (cases "tox_pass_encrypt sod (tox_get_savedata api tox) w")
    case (Inl err)
    with assms Some show ?thesis by (simp add: save_profile_def Let_def)
  next
    case (Inr e)
    with assms \<open>pass = Some w\<close> show ?thesis using write_others [where p = p and files = files and q = q, OF _ assms(2)]
      by (auto simp: save_profile_def Let_def r_bind_eq_Inr)
  qed
qed

section \<open>The sleep\<close>

lemma sleep_time_value:
  assumes "uint c < 2 ^ 31" and "uint t < 2 ^ 31" and "uint a < 2 ^ 31" and "0 \<le> spent" and "spent < 2 ^ 63"
  shows "sleep_time c t a spent =
    (let m = min (uint c) (min (uint t) (uint a)) in
     Inr (if spent \<le> m then Some (word_of_int ((m - spent) div 10)) else None))"
proof -
  define m where "m = min (uint c) (min (uint t) (uint a))"
  have m: "0 \<le> m" "m < 2 ^ 31" using assms(1-3) by (simp_all add: m_def)
  have r: "min_args 3 (map (\<lambda>d. to_i32 (uint d)) [c, t, a]) = Inr m"
  proof -
    have "to_i32 (uint w) = uint w" if "uint w < 2 ^ 31" for w :: u64
    proof (rule to_i32_id)
      have "- (2 ^ 31) \<le> uint w" by (rule order_trans [OF _ uint_ge_0]) simp
      with that show "in_i32 (uint w)" by (simp add: in_i32_def)
    qed
    with assms(1-3) show ?thesis by (simp add: min_args_def m_def numeral_2_eq_2 min_def)
  qed
  define x where "x = (word_of_int m - word_of_int spent :: u64)"
  have xi: "x = word_of_int (m - spent)" by (simp add: x_def)
  have x: "uint x = (if spent \<le> m then m - spent else 2 ^ 64 + (m - spent))"
  proof (cases "spent \<le> m")
    case True
    then show ?thesis using m assms(4) uint_word_of_int64 [of "m - spent"] by (simp add: xi)
  next
    case False
    have "(m - spent) mod 2 ^ 64 = (2 ^ 64 + (m - spent)) mod 2 ^ 64" by simp
    also have "\<dots> = 2 ^ 64 + (m - spent)" using False m assms(5) by (intro mod_pos_pos_trivial) auto
    finally have "uint x = 2 ^ 64 + (m - spent)" unfolding xi by (subst uint_word_of_int) simp
    with False show ?thesis by simp
  qed
  have d: "uint (x div 10) = uint x div 10" by (simp add: uint_div)
  show ?thesis
  proof (cases "spent \<le> m")
    case True
    then have "uint (x div 10) = (m - spent) div 10" using d x by simp
    moreover from this have "x div 10 = word_of_int ((m - spent) div 10)" by (metis word_of_int_uint)
    ultimately show ?thesis using True m assms(4) r
      by (simp add: sleep_time_def Let_def m_def [symmetric] x_def [symmetric] word_le_def)
  next
    case False
    then have "999999999 < uint (x div 10)" using d x m assms(5) by simp
    then have "\<not> x div 10 \<le> 999999999" by (simp add: word_le_def)
    then show ?thesis using False r by (simp add: sleep_time_def Let_def m_def [symmetric] x_def [symmetric])
  qed
qed

section \<open>The purge\<close>

lemma expired_at_once:
  assumes "ts_clock now" and "2592000 \<le> tv_sec now" and "last_online f = Some lo" and "uint lo < 2 ^ 40"
  shows "expired 2592000 (word_of_int (ts_ns now)) f"
proof -
  let ?now = "word_of_int (ts_ns now) :: u64"
  have n: "2592000 * 1000000000 \<le> ts_ns now" "0 \<le> ts_ns now" "ts_ns now < 2 ^ 64"
    using assms(1,2) ts_clock_ns [OF assms(1)] by (auto simp: ts_ns_def ts_clock_def ts_norm_def)
  have u: "uint ?now = ts_ns now" by (rule uint_word_of_int64 [OF n(2,3)])
  then have "uint lo \<le> uint ?now" using n(1) assms(4) by simp
  then have "uint (?now - lo) = uint ?now - uint lo" by (rule uint_sub_lem [THEN iffD1])
  then have "uint (?now - lo) = ts_ns now - uint lo" unfolding u .
  then have "(2592000 :: u64) \<le> ?now - lo" using n(1) assms(4) by (simp add: word_le_def)
  moreover have "lo \<noteq> UINT64_MAX" using assms(4) by auto
  ultimately show ?thesis using assms(3) by (simp add: expired_def)
qed

lemma purge_all:
  assumes "ts_clock now" and "2592000 \<le> tv_sec now"
    and "list_all (\<lambda>f. case last_online f of None \<Rightarrow> False | Some lo \<Rightarrow> uint lo < 2 ^ 40) fs"
  shows "friend_cleanup api 2592000 (word_of_int (ts_ns now)) tox fs = Inr (delete_all api fs tox, [])"
proof -
  have "\<forall>f\<in>set fs. last_online f \<noteq> None \<and> expired 2592000 (word_of_int (ts_ns now)) f"
    using assms(3) expired_at_once [OF assms(1,2)] by (fastforce simp: list_all_iff split: option.splits)
  then show ?thesis by (auto simp: friend_cleanup_eq filter_empty_conv)
qed

section \<open>Instances\<close>

definition env0 :: "sample_tox env" where
  "env0 = \<lparr>e_api = sample, e_sod = sample_sodium, e_lib = clib0,
     e_av = \<lparr>sf_read = (\<lambda>path files. None), sf_open_write = (\<lambda>path rate ch files. Some files),
       sf_write_short = (\<lambda>path xs files. files), mkstemps = (\<lambda>t files. (t, files))\<rparr>,
     e_g = (\<lambda>_. NUL), e_node = (\<lambda>_. file_node_zero), e_walk = (\<lambda>files. None), tox_new = saved0,
     tox_self_set_name = (\<lambda>n t. t), tox_self_set_status_message = (\<lambda>m t. t),
     tox_bootstrap = (\<lambda>ip port key t. (True, t)), tox_iterate = (\<lambda>t. ([], t)), toxav_iterate = (\<lambda>t. ([], t))\<rparr>"

definition at :: "int \<Rightarrow> timespec" where
  "at n = \<lparr>tv_sec = 1456790400, tv_nsec = n\<rparr>"

lemma at_clock [simp]: "0 \<le> n \<Longrightarrow> n < 1000000000 \<Longrightarrow> ts_clock (at n)" "ts_ns (at n) = 1456790400000000000 + n"
  by (simp_all add: at_def ts_clock_def ts_norm_def ts_ns_def)

text \<open>The loop has polled everything once and has not purged yet.\<close>

definition polled0 :: "sample_tox loop" where
  "polled0 = (loop_start (suit0\<lparr>su_friends := [keyed0]\<rparr>))\<lparr>tscalltest := at 0, tstox := at 0, tsav := at 0\<rparr>"

lemma polled0_simps [simp]:
  "tscalltest polled0 = at 0" "tstox polled0 = at 0" "tsav polled0 = at 0"
  "tsfriend polled0 = \<lparr>tv_sec = 0, tv_nsec = 0\<rparr>" "tsprev polled0 = \<lparr>tv_sec = 0, tv_nsec = 0\<rparr>"
  "su_friends (lp_suit polled0) = [keyed0]" "calltesters (su_calls (lp_suit polled0)) = []"
  by (simp_all add: polled0_def loop_start_def suit0_def Let_def)

lemma delays0 [simp]:
  "calltest_delay (lp_suit polled0) = 999999999" "tox_delay env0 s = 50000000" "toxav_delay env0 s = 20000000"
  by (simp_all add: calltest_delay_def calltest_iteration_interval_def tox_delay_def toxav_delay_def env0_def sample_def)

section \<open>Properties\<close>

text \<open>
  C24 (error): the first purge removes every friend that was ever seen. The time of the last
  purge starts at 1970, so the purge is due in the first pass that nothing else is due in, and
  it is given the present time in nanoseconds where the times of the friends are seconds: all
  of them look older than thirty days. After that pass neither the registry nor
  \<^verbatim>\<open>toxcore\<close> has a friend left.
\<close>

theorem first_purge_removes_all:
  assumes "friend_laws (e_api e)" and "agrees (e_api e) (su_tox (lp_suit l), su_friends (lp_suit l))"
    and "list_all (\<lambda>f. case last_online f of None \<Rightarrow> False | Some lo \<Rightarrow> uint lo < 2 ^ 40) (su_friends (lp_suit l))"
    and "ts_clock now" and "2592000 \<le> tv_sec now" and "tsfriend l = \<lparr>tv_sec = 0, tv_nsec = 0\<rparr>"
    and "nanosec_timeout (tscalltest l) now (calltest_delay (lp_suit l)) = Inr False"
    and "nanosec_timeout (tstox l) now (tox_delay e (lp_suit l)) = Inr False"
    and "nanosec_timeout (tsav l) now (toxav_delay e (lp_suit l)) = Inr False"
  shows "\<exists>l'. loop_pass e passphrase now l = Inr (Running (Purge, l')) \<and> su_friends (lp_suit l') = [] \<and>
    tox_self_get_friend_list (e_api e) (su_tox (lp_suit l')) = []"
proof -
  let ?s = "lp_suit l" and ?tox = "delete_all (e_api e) (su_friends (lp_suit l)) (su_tox (lp_suit l))"
  have "2592000 * 1000000000 \<le> ts_ns now"
    using assms(4,5) by (simp add: ts_ns_def ts_clock_def ts_norm_def)
  then have "nanosec_timeout (tsfriend l) now (word_of_int (FRIEND_PURGE_INTERVAL * NSEC_PER_SEC)) = Inr True"
    using timeout_forward [OF _ assms(4), of "tsfriend l"] assms(6) by simp
  then have "loop_pass e passphrase now l = purge_pass e now l"
    using assms(7-9) by (simp add: loop_pass_def Let_def)
  also have "\<dots> = Inr (Running (Purge, l\<lparr>lp_suit := (set_tox ?tox ?s)\<lparr>su_friends := [], su_save := True\<rparr>, tsfriend := now\<rparr>))"
    using purge_all [OF assms(4,5,3), of "e_api e" "su_tox ?s"] by (simp add: purge_pass_def timespec_to_ns_clock [OF assms(4)] Let_def)
  finally have p: "loop_pass e passphrase now l = \<dots>" .
  have "set (tox_self_get_friend_list (e_api e) ?tox) = {}"
    using delete_all_list [OF assms(1), of "su_friends ?s" "su_tox ?s"] assms(2) by (auto simp: agrees_def)
  moreover have "su_tox ((set_tox ?tox ?s)\<lparr>su_friends := [], su_save := True\<rparr>) = ?tox"
    by (simp add: su_tox_def su_w_def set_tox_def set_w_def)
  ultimately show ?thesis using p by (intro exI [of _ "l\<lparr>lp_suit := (set_tox ?tox ?s)\<lparr>su_friends := [], su_save := True\<rparr>, tsfriend := now\<rparr>"]) simp
qed

theorem first_purge_removes_all_witness:
  "\<exists>l'. loop_pass env0 None (at 1000) polled0 = Inr (Running (Purge, l')) \<and> su_friends (lp_suit l') = [] \<and>
    sm_friends (su_tox (lp_suit l')) = []"
proof -
  have s: "su_tox (lp_suit polled0) = tox0"
    by (simp add: polled0_def loop_start_def suit0_def su_tox_def su_w_def world0_def tox0_def Let_def)
  have api: "e_api env0 = sample" by (simp add: env0_def)
  have "nanosec_timeout (at 0) (at 1000) d = Inr (uint d \<le> 1000)" for d
    using timeout_forward [of "at 0" "at 1000" d] by simp
  moreover have "tv_sec (at 1000) = 1456790400" by (simp add: at_def)
  ultimately show ?thesis
    using first_purge_removes_all [of env0 polled0 "at 1000" None] friend_laws_sample agrees_keyed0
    by (simp add: s api keyed0) (simp add: sample_def)
qed

text \<open>
  C16 (bounds): the loop does no work too early. The calls, \<^verbatim>\<open>toxcore\<close>, \<^verbatim>\<open>toxav\<close> and the
  purge have a delay each, which the loop computes anew in every pass. Between two times that a
  pass does the same of them at least the delay passes that it had at the second time, and the
  first time comes at least its delay after the stamp that the run starts with, if the readings
  of the clock do not go back, whatever the callbacks do in between. So if none of these delays
  was less than \<open>d\<close> nanoseconds, the work was done at most once for every \<open>d\<close> nanoseconds. The
  rest of a pass has no delay and is left out.
\<close>

theorem work_rate:
  assumes "list_all ts_clock (stamp k l # tps)" and "sorted (map ts_ns (stamp k l # tps))" and "\<forall>t. k \<noteq> Rest t"
  shows "spaced (ts_ns (stamp k l)) (works_of k (loop_works e p tps l)) \<and>
    (\<forall>d. (\<forall>(j, tp, u)\<in>set (works_of k (loop_works e p tps l)). d \<le> uint u) \<longrightarrow>
      int (length (works_of k (loop_works e p tps l))) * d \<le> ts_ns (last (stamp k l # tps)) - ts_ns (stamp k l))"
proof -
  note w = works_spaced [OF assms, of e p]
  let ?stop = "ts_ns (last (stamp k l # tps))"
  have le: "ts_ns t \<le> ?stop" if "t \<in> set (stamp k l # tps)" for t
  proof -
    let ?ts = "stamp k l # tps"
    from that obtain i where i: "i < length ?ts" "?ts ! i = t" by (meson in_set_conv_nth)
    have "map ts_ns ?ts ! i \<le> map ts_ns ?ts ! (length ?ts - 1)"
      by (rule sorted_nth_mono [OF assms(2)]) (use i in simp_all)
    moreover have "last ?ts = ?ts ! (length ?ts - 1)" by (rule last_conv_nth) simp
    ultimately show ?thesis using i by (metis length_greater_0_conv diff_less length_0_conv list.simps(3) nth_map zero_less_one)
  qed
  have "int (length (works_of k (loop_works e p tps l))) * d \<le> ?stop - ts_ns (stamp k l)"
    if "\<forall>(j, tp, u)\<in>set (works_of k (loop_works e p tps l)). d \<le> uint u" for d
    by (rule spaced_count) (use w that le in \<open>auto simp: works_of_def\<close>)
  with w show ?thesis by blast
qed

text \<open>Three passes, of which one is work of \<^verbatim>\<open>toxcore\<close>, and three of which one is for the calls.\<close>

theorem work_rate_witness:
  "spaced 1456790400000000000 (works_of Toxcore (loop_works env0 None [at 1000, at 50000000, at 60000000] polled0)) \<and>
   length (works_of Toxcore (loop_works env0 None [at 1000, at 50000000, at 60000000] polled0)) = 1 \<and>
   spaced 1456790400000000000 (works_of Calls (loop_works env0 None [at 1000, at 50000000, at 999999999] polled0)) \<and>
   length (works_of Calls (loop_works env0 None [at 1000, at 50000000, at 999999999] polled0)) = 1"
proof (intro conjI)
  have "ts_ns (at a) \<le> ts_ns (at b) \<longleftrightarrow> a \<le> b" if "0 \<le> a" "a < 1000000000" "0 \<le> b" "b < 1000000000" for a b
    using that by simp
  then show
    "spaced 1456790400000000000 (works_of Toxcore (loop_works env0 None [at 1000, at 50000000, at 60000000] polled0))"
    "spaced 1456790400000000000 (works_of Calls (loop_works env0 None [at 1000, at 50000000, at 999999999] polled0))"
    using work_rate [of Toxcore polled0 "[at 1000, at 50000000, at 60000000]" env0 None]
      work_rate [of Calls polled0 "[at 1000, at 50000000, at 999999999]" env0 None] by simp_all
qed (code_simp, code_simp)

text \<open>
  The sleep at the end of a pass is a tenth of the least delay less the time
  since the last rest; if more time than that has passed, the unsigned difference wraps around
  and \<^verbatim>\<open>nanosleep\<close> refuses it: the loop spins without sleeping.
\<close>

theorem sleep_time_exact:
  assumes "uint c < 2 ^ 31" and "uint t < 2 ^ 31" and "uint a < 2 ^ 31" and "0 \<le> spent" and "spent < 2 ^ 63"
  shows "sleep_time c t a spent =
    (let m = min (uint c) (min (uint t) (uint a)) in
     Inr (if spent \<le> m then Some (word_of_int ((m - spent) div 10)) else None))"
  using sleep_time_value [OF assms] .

theorem sleep_time_exact_witness:
  "sleep_time 999999999 50000000 20000000 1000 = Inr (Some 1999900) \<and>
   sleep_time 999999999 50000000 20000000 30000000 = Inr None"
  using sleep_time_exact [of 999999999 50000000 20000000 1000] sleep_time_exact [of 999999999 50000000 20000000 30000000]
  by simp

text \<open>
  A pass that rests, the only place of the loop where the profile can be saved,
  never saves it: no file changes, and the mark that there is something to save is lost.
\<close>

theorem rest_saves_nothing:
  assumes "loop_pass e passphrase now l = Inr (Running (Rest t, l'))"
  shows "w_fs (su_w (lp_suit l')) = w_fs (su_w (lp_suit l)) \<and> \<not> su_save (lp_suit l')"
proof -
  have "rest_pass e passphrase now l = Inr (Running (Rest t, l'))" using pass_cases [OF assms] by auto
  then obtain due s1 s2 where 1: "(if due then run_file_do e (lp_suit l) else Inr (lp_suit l)) = Inr s1"
    and 2: "save_pass e passphrase s1 = Inr s2" and 3: "lp_suit l' = s2"
    unfolding rest_pass_def Let_def r_bind_eq_Inr by fastforce
  from 2 have s2: "s2 = s1\<lparr>su_save := False\<rparr>" by (simp add: save_pass_def Let_def)
  have "w_fs (su_w s1) = w_fs (su_w (lp_suit l))"
  proof (cases due)
    case True
    with 1 obtain rc op where "file_do (e_sod e) (e_g e) (e_walk e (w_fs (su_w (lp_suit l))))
        ((su_op (lp_suit l))\<lparr>op_fs := w_fs (su_w (lp_suit l)), op_heap := w_heap (su_w (lp_suit l))\<rparr>) = Inr (rc, op)"
      and s1: "s1 = (set_w ((su_w (lp_suit l))\<lparr>w_fs := op_fs op, w_heap := op_heap op\<rparr>) (lp_suit l))\<lparr>su_op := op\<rparr>"
      by (auto simp: run_file_do_def Let_def r_bind_eq_Inr)
    from file_do_files [OF this(1)] show ?thesis unfolding s1 by (simp add: su_w_def set_w_def)
  next
    case False
    with 1 show ?thesis by simp
  qed
  then show ?thesis unfolding 3 s2 by (simp add: su_w_def)
qed

theorem rest_saves_nothing_witness:
  "\<exists>t l'. loop_pass env0 None (at 1000) (polled0\<lparr>tsfriend := at 0, tsprev := at 0\<rparr>) = Inr (Running (Rest t, l')) \<and>
    w_fs (su_w (lp_suit l')) = w_fs world0 \<and> \<not> su_save (lp_suit l')"
proof -
  let ?l = "polled0\<lparr>tsfriend := at 0, tsprev := at 0\<rparr>"
  have due: "nanosec_timeout (at 0) (at 1000) d = Inr (uint d \<le> 1000)" for d
    using timeout_forward [of "at 0" "at 1000" d] by simp
  have el: "timespec_subtract (at 1000) (at 0) = Inr \<lparr>tv_sec = 0, tv_nsec = 1000\<rparr>"
    by (simp add: timespec_subtract_def at_def in_i64_def)
  have "\<exists>r. sleep_time 999999999 50000000 20000000 1000 = Inr r"
    using sleep_time_value [of 999999999 50000000 20000000 1000] by (simp add: Let_def)
  then have "\<exists>t l'. loop_pass env0 None (at 1000) ?l = Inr (Running (Rest t, l'))"
    by (auto simp: loop_pass_def rest_pass_def due el save_pass_def timespec_to_ns_def in_i64_def Let_def)
  then obtain t l' where r: "loop_pass env0 None (at 1000) ?l = Inr (Running (Rest t, l'))" by blast
  have "su_w (lp_suit ?l) = world0" by (simp add: polled0_def loop_start_def suit0_def su_w_def Let_def)
  with rest_saves_nothing [OF r] r show ?thesis by auto
qed

text \<open>
  The transfers that wait for their friends to come back are lost when the program
  ends. Only the running ones are saved; if there are none, the file that the waiting ones
  were loaded from is removed.
\<close>

theorem waiting_transfers_lost:
  assumes "w_senders (su_w s) = []" and "\<And>n. length (fresh n) = n"
    and "shut_down e fresh passphrase s = Inr files"
  shows "fs_data files savesender_filename = None"
proof -
  let ?w = "su_w s"
  obtain f1 where 1: "dump_shrlist fresh shrlist_filename (shr_list (su_op s)) (w_heap ?w) (w_fs ?w) = Inr f1"
    using assms(3) by (auto simp: shut_down_def Let_def r_bind_eq_Inr)
  obtain r2 f2 where 2: "save_senders fresh [] (su_friends s) (w_heap ?w) f1 = Inr (r2, f2)"
    using assms(3) 1 by (auto simp: shut_down_def Let_def r_bind_eq_Inr assms(1))
  obtain r3 f3 where 3: "save_profile (e_api e) (e_sod e) (e_g e) (w_tox ?w) data_filename passphrase f2 = Inr (r3, f3)"
    using assms(3) 1 2 by (auto simp: shut_down_def Let_def r_bind_eq_Inr assms(1))
  have f: "files = f3"
    using assms(3) 1 2 3 by (auto simp: shut_down_def Let_def r_bind_eq_Inr assms(1))
  have "be_encode_alloc fresh (BE_LIST []) = Inr (benc (BE_LIST []), length (benc (BE_LIST [])))"
    by (rule be_encode_alloc_benc [OF assms(2)]) simp
  then have "f2 = unlink savesender_filename f1"
    using 2 by (simp add: save_senders_def new_list_node)
  then have "fs_data f2 savesender_filename = None" by (simp add: unlink_def)
  moreover have "savesender_filename \<noteq> data_filename" by (simp add: savesender_filename_def data_filename_def)
  ultimately show ?thesis using save_profile_others [OF 3] f by simp
qed

definition waiting0 :: "sample_tox suit" where
  "waiting0 = suit0\<lparr>su_op := op0, su_loaded := [sender5]\<rparr>"

theorem waiting_transfers_lost_witness:
  "\<exists>files. shut_down env0 (\<lambda>n. replicate n NUL) None waiting0 = Inr files \<and>
    fs_data files savesender_filename = None \<and> su_loaded waiting0 = [sender5]"
proof -
  have w: "su_w waiting0 = world0" by (simp add: waiting0_def su_w_def suit0_def)
  have b: "be_encode_alloc (\<lambda>n. replicate n NUL) (BE_LIST []) = Inr (benc (BE_LIST []), length (benc (BE_LIST [])))"
    by (rule be_encode_alloc_benc) simp_all
  have "\<exists>h. FileQueue_destroy [sender5] (w_heap world0) = Inr h"
    by (simp add: FileSender_release_def sender5_def file_sender_zero_def node0_def world0_def free_opt_def free_block_def)
  then have "\<exists>files. shut_down env0 (\<lambda>n. replicate n NUL) None waiting0 = Inr files"
    using b w
    by (auto simp: shut_down_def waiting0_def suit0_def op0_def dump_shrlist_def new_list_node save_senders_def
        save_profile_def Let_def world0_def fopen_write_def split: option.splits)
  moreover have "w_senders (su_w waiting0) = []" by (simp add: w world0_def)
  ultimately show ?thesis
    using waiting_transfers_lost [of waiting0 "\<lambda>n. replicate n NUL" env0 None] by (auto simp: waiting0_def)
qed

end
