(* ===== verification/List_Entries.thy ===== *)
theory List_Entries
  imports Linux_List
begin

text \<open>
  \<^verbatim>\<open>src/list.h\<close>: from the cell to the structure around it
  (\<^verbatim>\<open>container_of\<close>), and the loops over structures. A link inside of a structure is
  at a fixed offset of it; the address of a structure is an integer, because the address that
  \<^verbatim>\<open>container_of\<close> computes from a head lies outside of any structure. All loops are
  instances of two: one that visits, and one that fetches the successor before the body runs.
  The lemmas show that the loops over structures are the loops over their cells.
\<close>

section \<open>Structures around cells\<close>

definition container_of :: "nat \<Rightarrow> addr \<Rightarrow> int" where
  "container_of off ptr = int ptr - int off"

text \<open>\<^verbatim>\<open>&pos->member\<close>\<close>

definition member_at :: "nat \<Rightarrow> int \<Rightarrow> addr" where
  "member_at off pos = nat (pos + int off)"

definition list_entry :: "nat \<Rightarrow> addr \<Rightarrow> int" where
  "list_entry off ptr = container_of off ptr"

definition list_first_entry :: "nat \<Rightarrow> addr \<Rightarrow> links \<Rightarrow> int" where
  "list_first_entry off ptr h = list_entry off (nxt h ptr)"

definition list_last_entry :: "nat \<Rightarrow> addr \<Rightarrow> links \<Rightarrow> int" where
  "list_last_entry off ptr h = list_entry off (prv h ptr)"

definition list_first_entry_or_null :: "nat \<Rightarrow> addr \<Rightarrow> links \<Rightarrow> int option" where
  "list_first_entry_or_null off ptr h =
     (if \<not> list_empty ptr h then Some (list_first_entry off ptr h) else None)"

definition list_next_entry :: "nat \<Rightarrow> int \<Rightarrow> links \<Rightarrow> int" where
  "list_next_entry off pos h = list_entry off (nxt h (member_at off pos))"

definition list_prev_entry :: "nat \<Rightarrow> int \<Rightarrow> links \<Rightarrow> int" where
  "list_prev_entry off pos h = list_entry off (prv h (member_at off pos))"

text \<open>The cursor of a loop that is to continue from it: the head stands for no cursor.\<close>

definition list_prepare_entry :: "nat \<Rightarrow> int option \<Rightarrow> addr \<Rightarrow> int" where
  "list_prepare_entry off pos head = (case pos of Some p \<Rightarrow> p | None \<Rightarrow> list_entry off head)"

definition list_safe_reset_next :: "nat \<Rightarrow> int \<Rightarrow> links \<Rightarrow> int" where
  "list_safe_reset_next off pos h = list_next_entry off pos h"

section \<open>The two kinds of loops\<close>

partial_function (option) visit :: "('p \<Rightarrow> 'p) \<Rightarrow> ('p \<Rightarrow> bool) \<Rightarrow> 'p \<Rightarrow> 'p list option" where
  "visit step stop pos =
     (if stop pos then Some []
      else Option.bind (visit step stop (step pos)) (\<lambda>ps. Some (pos # ps)))"

partial_function (option) visit_safe ::
  "('s \<Rightarrow> 'p \<Rightarrow> 'p) \<Rightarrow> ('p \<Rightarrow> bool) \<Rightarrow> ('p \<Rightarrow> 's \<Rightarrow> 's) \<Rightarrow> 'p \<Rightarrow> 'p \<Rightarrow> 's \<Rightarrow> 's option" where
  "visit_safe step stop body pos n s =
     (if stop pos then Some s
      else let s = body pos s in visit_safe step stop body n (step s n) s)"

definition list_for_each_prev_safe ::
  "('s \<Rightarrow> links) \<Rightarrow> (addr \<Rightarrow> 's \<Rightarrow> 's) \<Rightarrow> addr \<Rightarrow> 's \<Rightarrow> 's option" where
  "list_for_each_prev_safe lk body head s =
     (let pos = prv (lk s) head in
      visit_safe (\<lambda>s. prv (lk s)) (\<lambda>p. p = head) body pos (prv (lk s) pos) s)"

section \<open>Loops over structures\<close>

definition at_head :: "nat \<Rightarrow> addr \<Rightarrow> int \<Rightarrow> bool" where
  "at_head off head pos \<longleftrightarrow> member_at off pos = head"

definition list_for_each_entry :: "nat \<Rightarrow> addr \<Rightarrow> links \<Rightarrow> int list option" where
  "list_for_each_entry off head h =
     visit (\<lambda>p. list_next_entry off p h) (at_head off head) (list_first_entry off head h)"

definition list_for_each_entry_reverse :: "nat \<Rightarrow> addr \<Rightarrow> links \<Rightarrow> int list option" where
  "list_for_each_entry_reverse off head h =
     visit (\<lambda>p. list_prev_entry off p h) (at_head off head) (list_last_entry off head h)"

definition list_for_each_entry_continue :: "nat \<Rightarrow> int \<Rightarrow> addr \<Rightarrow> links \<Rightarrow> int list option" where
  "list_for_each_entry_continue off pos head h =
     visit (\<lambda>p. list_next_entry off p h) (at_head off head) (list_next_entry off pos h)"

definition list_for_each_entry_continue_reverse :: "nat \<Rightarrow> int \<Rightarrow> addr \<Rightarrow> links \<Rightarrow> int list option" where
  "list_for_each_entry_continue_reverse off pos head h =
     visit (\<lambda>p. list_prev_entry off p h) (at_head off head) (list_prev_entry off pos h)"

definition list_for_each_entry_from :: "nat \<Rightarrow> int \<Rightarrow> addr \<Rightarrow> links \<Rightarrow> int list option" where
  "list_for_each_entry_from off pos head h =
     visit (\<lambda>p. list_next_entry off p h) (at_head off head) pos"

text \<open>The loops whose body may remove the cursor; the links are part of the state of the body.\<close>

definition list_for_each_entry_safe ::
  "('s \<Rightarrow> links) \<Rightarrow> (int \<Rightarrow> 's \<Rightarrow> 's) \<Rightarrow> nat \<Rightarrow> addr \<Rightarrow> 's \<Rightarrow> 's option" where
  "list_for_each_entry_safe lk body off head s =
     (let pos = list_first_entry off head (lk s); n = list_next_entry off pos (lk s) in
      visit_safe (\<lambda>s p. list_next_entry off p (lk s)) (at_head off head) body pos n s)"

definition list_for_each_entry_safe_continue ::
  "('s \<Rightarrow> links) \<Rightarrow> (int \<Rightarrow> 's \<Rightarrow> 's) \<Rightarrow> nat \<Rightarrow> int \<Rightarrow> addr \<Rightarrow> 's \<Rightarrow> 's option" where
  "list_for_each_entry_safe_continue lk body off pos head s =
     (let pos = list_next_entry off pos (lk s); n = list_next_entry off pos (lk s) in
      visit_safe (\<lambda>s p. list_next_entry off p (lk s)) (at_head off head) body pos n s)"

definition list_for_each_entry_safe_from ::
  "('s \<Rightarrow> links) \<Rightarrow> (int \<Rightarrow> 's \<Rightarrow> 's) \<Rightarrow> nat \<Rightarrow> int \<Rightarrow> addr \<Rightarrow> 's \<Rightarrow> 's option" where
  "list_for_each_entry_safe_from lk body off pos head s =
     (let n = list_next_entry off pos (lk s) in
      visit_safe (\<lambda>s p. list_next_entry off p (lk s)) (at_head off head) body pos n s)"

definition list_for_each_entry_safe_reverse ::
  "('s \<Rightarrow> links) \<Rightarrow> (int \<Rightarrow> 's \<Rightarrow> 's) \<Rightarrow> nat \<Rightarrow> addr \<Rightarrow> 's \<Rightarrow> 's option" where
  "list_for_each_entry_safe_reverse lk body off head s =
     (let pos = list_last_entry off head (lk s); n = list_prev_entry off pos (lk s) in
      visit_safe (\<lambda>s p. list_prev_entry off p (lk s)) (at_head off head) body pos n s)"

section \<open>What the loops do\<close>

text \<open>\<open>walk step p xs e\<close>: the steps lead from \<open>p\<close> over \<open>xs\<close> to \<open>e\<close>.\<close>

fun walk :: "('p \<Rightarrow> 'p) \<Rightarrow> 'p \<Rightarrow> 'p list \<Rightarrow> 'p \<Rightarrow> bool" where
  "walk step p [] e \<longleftrightarrow> p = e"
| "walk step p (x # xs) e \<longleftrightarrow> p = x \<and> walk step (step x) xs e"

lemma visit_walk:
  "walk step p xs e \<Longrightarrow> stop e \<Longrightarrow> \<forall>x\<in>set xs. \<not> stop x \<Longrightarrow> visit step stop p = Some xs"
proof (induction xs arbitrary: p)
  case (Cons x xs)
  then have "visit step stop (step x) = Some xs" by simp
  with Cons.prems show ?case by (simp add: visit.simps [of _ _ x])
qed (simp add: visit.simps)

lemma walk_chain: "chain h a xs e \<Longrightarrow> walk (nxt h) (nxt h a) xs e"
  by (induction xs arbitrary: a) auto

lemma walk_chain_back: "chain h a xs e \<Longrightarrow> walk (prv h) (prv h e) (rev xs) a"
proof (induction xs arbitrary: e rule: rev_induct)
  case (snoc x xs)
  then have "chain h a xs x" "prv h e = x" by (simp_all add: chain_append)
  with snoc.IH [of x] show ?case by simp
qed simp

text \<open>
  A loop that fetches the successor first runs its body on every cursor, in order, as long as
  the body keeps what is left to visit: \<open>J s rest\<close> says that \<open>rest\<close> is left in \<open>s\<close>.
\<close>

lemma visit_safe_fold:
  assumes step: "\<And>s x rest. J s (x # rest) \<Longrightarrow> \<not> stop x \<and> step s x = hd (rest @ [e])"
    and body: "\<And>s x rest. J s (x # rest) \<Longrightarrow> J (body x s) rest"
    and e: "stop e"
  shows "J s xs \<Longrightarrow> xs \<noteq> [] \<longrightarrow> n = step s (hd xs) \<Longrightarrow>
    visit_safe step stop body (hd (xs @ [e])) n s = Some (fold body xs s) \<and> J (fold body xs s) []"
proof (induction xs arbitrary: s n)
  case Nil
  with e show ?case by (simp add: visit_safe.simps)
next
  case (Cons x xs)
  from step [OF Cons.prems(1)] body [OF Cons.prems(1)] Cons.prems(2)
  have "\<not> stop x" "n = hd (xs @ [e])" "J (body x s) xs" by simp_all
  moreover have "xs \<noteq> [] \<longrightarrow> step (body x s) n = step (body x s) (hd xs)"
    using calculation(2) by (cases xs) auto
  ultimately show ?case
    using Cons.IH [of "body x s" "step (body x s) n"] by (simp add: visit_safe.simps [of _ _ _ x] Let_def)
qed

text \<open>
  Cursors that are structures instead of cells: the contract is that \<open>member\<close> undoes
  \<open>entry\<close>.
\<close>

locale container =
  fixes entry :: "'p \<Rightarrow> 'e" and member :: "'e \<Rightarrow> 'p"
  assumes member_entry: "member (entry p) = p"
begin

lemma entry_inj: "entry p = entry q \<longleftrightarrow> p = q"
  by (metis member_entry)

lemma walk_entry:
  "walk step p xs e \<Longrightarrow> walk (\<lambda>x. entry (step (member x))) (entry p) (map entry xs) (entry e)"
  by (induction xs arbitrary: p) (auto simp: member_entry)

lemma visit_entry:
  assumes "walk step p xs e" "e \<notin> set xs"
  shows "visit (\<lambda>x. entry (step (member x))) (\<lambda>x. member x = e) (entry p) = Some (map entry xs)"
  using assms by (intro visit_walk [OF walk_entry [OF assms(1)]]) (auto simp: member_entry)

text \<open>The loop over cells with a body on structures.\<close>

lemma visit_safe_entry:
  assumes step: "\<And>s x rest. J s (x # rest) \<Longrightarrow> x \<noteq> e \<and> step s x = hd (rest @ [e])"
    and body: "\<And>s x rest. J s (x # rest) \<Longrightarrow> J (body (entry x) s) rest"
    and J: "J s xs" and n: "xs \<noteq> [] \<longrightarrow> n = entry (step s (hd xs))"
  shows "visit_safe (\<lambda>s x. entry (step s (member x))) (\<lambda>x. member x = e) body (entry (hd (xs @ [e]))) n s =
      Some (fold body (map entry xs) s) \<and> J (fold body (map entry xs) s) []"
proof -
  define K where "K s ys \<longleftrightarrow> J s (map member ys) \<and> map entry (map member ys) = ys" for s ys
  have "visit_safe (\<lambda>s x. entry (step s (member x))) (\<lambda>x. member x = e) body (hd (map entry xs @ [entry e])) n s =
      Some (fold body (map entry xs) s) \<and> K (fold body (map entry xs) s) []"
  proof (rule visit_safe_fold [where J = K])
    fix s x rest
    assume K: "K s (x # rest)"
    then show "\<not> member x = e \<and> entry (step s (member x)) = hd (rest @ [entry e])"
      using step [of s "member x" "map member rest"] by (cases rest) (auto simp: K_def)
    show "K (body x s) rest"
      using K body [of s "member x" "map member rest"] by (simp add: K_def)
  next
    show "K s (map entry xs)" using J by (simp add: K_def comp_def member_entry)
    show "map entry xs \<noteq> [] \<longrightarrow> n = entry (step s (member (hd (map entry xs))))"
      using n by (cases xs) (simp_all add: member_entry)
  qed (simp add: member_entry)
  moreover have "hd (map entry xs @ [entry e]) = entry (hd (xs @ [e]))" by (cases xs) simp_all
  ultimately show ?thesis by (simp add: K_def)
qed

end

interpretation list_container: container "list_entry off" "member_at off" for off
  by unfold_locales (simp add: list_entry_def container_of_def member_at_def)

lemmas entry_loop_defs = list_for_each_entry_def list_for_each_entry_reverse_def
  list_for_each_entry_continue_def list_for_each_entry_continue_reverse_def
  list_for_each_entry_from_def list_first_entry_def list_last_entry_def list_next_entry_def
  list_prev_entry_def at_head_def [abs_def] list_container.member_entry

lemmas safe_loop_defs = list_for_each_entry_safe_def list_for_each_entry_safe_continue_def
  list_for_each_entry_safe_from_def list_for_each_entry_safe_reverse_def Let_def
  list_first_entry_def list_last_entry_def list_next_entry_def list_prev_entry_def at_head_def [abs_def]
  list_container.member_entry

section \<open>Loops over lists\<close>

lemma dlist_entries:
  assumes "dlist h head xs"
  shows "list_for_each_entry off head h = Some (map (list_entry off) xs)"
    and "list_for_each_entry_reverse off head h = Some (map (list_entry off) (rev xs))"
proof -
  from assms have c: "chain h head xs head" and n: "head \<notin> set xs" by (auto simp: dlist_def)
  show "list_for_each_entry off head h = Some (map (list_entry off) xs)"
    using list_container.visit_entry [OF walk_chain [OF c] n] by (simp add: entry_loop_defs)
  show "list_for_each_entry_reverse off head h = Some (map (list_entry off) (rev xs))"
    using list_container.visit_entry [OF walk_chain_back [OF c]] n by (simp add: entry_loop_defs)
qed

text \<open>Continuing a loop at a cursor, after it or from it, in both directions.\<close>

lemma dlist_entries_from:
  assumes "dlist h head (us @ x # vs)"
  shows "list_for_each_entry_continue off (list_entry off x) head h = Some (map (list_entry off) vs)"
    and "list_for_each_entry_from off (list_entry off x) head h = Some (map (list_entry off) (x # vs))"
    and "list_for_each_entry_continue_reverse off (list_entry off x) head h = Some (map (list_entry off) (rev us))"
proof -
  from assms have c: "chain h head us x" "chain h x vs head" and n: "head \<notin> set us" "head \<notin> set (x # vs)"
    by (auto simp: dlist_split)
  then have w: "walk (nxt h) x (x # vs) head" using walk_chain [OF c(2)] by simp
  show "list_for_each_entry_continue off (list_entry off x) head h = Some (map (list_entry off) vs)"
    using list_container.visit_entry [OF walk_chain [OF c(2)]] n by (simp add: entry_loop_defs)
  show "list_for_each_entry_from off (list_entry off x) head h = Some (map (list_entry off) (x # vs))"
    using list_container.visit_entry [OF w] n by (simp add: entry_loop_defs)
  show "list_for_each_entry_continue_reverse off (list_entry off x) head h = Some (map (list_entry off) (rev us))"
    using list_container.visit_entry [OF walk_chain_back [OF c(1)]] n by (simp add: entry_loop_defs)
qed

text \<open>
  Loops whose body removes some of the cursors: \<open>J\<close> is about the cells that are left in the
  list. The body gets every structure, in the order of the loop, once.
\<close>

definition drops :: "('s \<Rightarrow> links) \<Rightarrow> (int \<Rightarrow> 's \<Rightarrow> 's) \<Rightarrow> nat \<Rightarrow> addr \<Rightarrow> (addr \<Rightarrow> bool) \<Rightarrow> bool" where
  "drops lk body off head rm \<longleftrightarrow>
     (\<forall>s us x vs. dlist (lk s) head (us @ x # vs) \<longrightarrow>
        dlist (lk (body (list_entry off x) s)) head (if rm x then us @ vs else us @ x # vs))"

lemma drops_rest:
  assumes "drops lk body off head rm" "dlist (lk s) head (us @ x # vs)"
  shows "dlist (lk (body (list_entry off x) s)) head (us @ filter (\<lambda>x. \<not> rm x) [x] @ vs)"
proof -
  have "dlist (lk (body (list_entry off x) s)) head (if rm x then us @ vs else us @ x # vs)"
    using assms unfolding drops_def by blast
  then show ?thesis by (cases "rm x") simp_all
qed

lemma safe_forward:
  assumes d: "drops lk body off head rm" and l: "dlist (lk s) head (us @ vs)"
    and n: "vs \<noteq> [] \<longrightarrow> n = list_entry off (nxt (lk s) (hd vs))"
  shows "visit_safe (\<lambda>s x. list_entry off (nxt (lk s) (member_at off x))) (\<lambda>x. member_at off x = head) body
      (list_entry off (hd (vs @ [head]))) n s = Some (fold body (map (list_entry off) vs) s) \<and>
    dlist (lk (fold body (map (list_entry off) vs) s)) head (us @ filter (\<lambda>x. \<not> rm x) vs)"
proof -
  define J where "J s rest \<longleftrightarrow> (\<exists>ws. dlist (lk s) head (ws @ rest) \<and>
      us @ filter (\<lambda>x. \<not> rm x) vs = ws @ filter (\<lambda>x. \<not> rm x) rest)" for s rest
  have "visit_safe (\<lambda>s x. list_entry off (nxt (lk s) (member_at off x))) (\<lambda>x. member_at off x = head) body
      (list_entry off (hd (vs @ [head]))) n s = Some (fold body (map (list_entry off) vs) s) \<and>
    J (fold body (map (list_entry off) vs) s) []"
  proof (rule list_container.visit_safe_entry)
    fix s x rest
    assume "J s (x # rest)"
    then obtain ws where ws: "dlist (lk s) head (ws @ x # rest)"
      "us @ filter (\<lambda>x. \<not> rm x) vs = ws @ filter (\<lambda>x. \<not> rm x) (x # rest)" by (auto simp: J_def)
    show "x \<noteq> head \<and> nxt (lk s) x = hd (rest @ [head])"
      using dlist_nxt [OF ws(1)] dlist_distinct [OF ws(1)] by auto
    show "J (body (list_entry off x) s) rest"
      unfolding J_def using drops_rest [OF d ws(1)] ws(2)
      by (intro exI [of _ "ws @ filter (\<lambda>x. \<not> rm x) [x]"]) auto
  qed (use l n in \<open>auto simp: J_def\<close>)
  then show ?thesis by (simp add: J_def)
qed

lemma safe_backward:
  assumes d: "drops lk body off head rm" and l: "dlist (lk s) head (rev us @ vs)"
    and n: "us \<noteq> [] \<longrightarrow> n = list_entry off (prv (lk s) (hd us))"
  shows "visit_safe (\<lambda>s x. list_entry off (prv (lk s) (member_at off x))) (\<lambda>x. member_at off x = head) body
      (list_entry off (hd (us @ [head]))) n s = Some (fold body (map (list_entry off) us) s) \<and>
    dlist (lk (fold body (map (list_entry off) us) s)) head (filter (\<lambda>x. \<not> rm x) (rev us) @ vs)"
proof -
  define J where "J s rest \<longleftrightarrow> (\<exists>ws. dlist (lk s) head (rev rest @ ws) \<and>
      filter (\<lambda>x. \<not> rm x) (rev us) @ vs = filter (\<lambda>x. \<not> rm x) (rev rest) @ ws)" for s rest
  have "visit_safe (\<lambda>s x. list_entry off (prv (lk s) (member_at off x))) (\<lambda>x. member_at off x = head) body
      (list_entry off (hd (us @ [head]))) n s = Some (fold body (map (list_entry off) us) s) \<and>
    J (fold body (map (list_entry off) us) s) []"
  proof (rule list_container.visit_safe_entry)
    fix s x rest
    assume "J s (x # rest)"
    then obtain ws where ws: "dlist (lk s) head (rev rest @ x # ws)"
      "filter (\<lambda>x. \<not> rm x) (rev us) @ vs = filter (\<lambda>x. \<not> rm x) (rev (x # rest)) @ ws" by (auto simp: J_def)
    show "x \<noteq> head \<and> prv (lk s) x = hd (rest @ [head])"
      using dlist_prv [OF ws(1)] dlist_distinct [OF ws(1)] by (cases rest) auto
    show "J (body (list_entry off x) s) rest"
      unfolding J_def using drops_rest [OF d ws(1)] ws(2)
      by (intro exI [of _ "filter (\<lambda>x. \<not> rm x) [x] @ ws"]) (auto split: if_splits)
  qed (use l n in \<open>auto simp: J_def\<close>)
  then show ?thesis by (simp add: J_def)
qed

lemma entry_safe_fold:
  assumes "drops lk body off head rm" "dlist (lk s) head xs"
  shows "list_for_each_entry_safe lk body off head s = Some (fold body (map (list_entry off) xs) s)"
    and "dlist (lk (fold body (map (list_entry off) xs) s)) head (filter (\<lambda>x. \<not> rm x) xs)"
proof -
  note f = safe_forward [OF assms(1), of s "[]" xs "list_entry off (nxt (lk s) (hd (xs @ [head])))"]
  show "list_for_each_entry_safe lk body off head s = Some (fold body (map (list_entry off) xs) s)"
    using f assms(2) dlist_nxt_head [OF assms(2)] by (cases xs) (simp_all add: safe_loop_defs)
  show "dlist (lk (fold body (map (list_entry off) xs) s)) head (filter (\<lambda>x. \<not> rm x) xs)"
    using f assms(2) by (cases xs) simp_all
qed

lemma entry_safe_reverse_fold:
  assumes "drops lk body off head rm" "dlist (lk s) head xs"
  shows "list_for_each_entry_safe_reverse lk body off head s = Some (fold body (map (list_entry off) (rev xs)) s)"
    and "dlist (lk (fold body (map (list_entry off) (rev xs)) s)) head (filter (\<lambda>x. \<not> rm x) xs)"
proof -
  have p: "prv (lk s) head = hd (rev xs @ [head])"
    using dlist_prv_head [OF assms(2)] by (cases xs rule: rev_cases) simp_all
  note f = safe_backward [OF assms(1), of s "rev xs" "[]" "list_entry off (prv (lk s) (hd (rev xs @ [head])))"]
  show "list_for_each_entry_safe_reverse lk body off head s = Some (fold body (map (list_entry off) (rev xs)) s)"
    using f assms(2) p by (cases xs rule: rev_cases) (simp_all add: safe_loop_defs)
  show "dlist (lk (fold body (map (list_entry off) (rev xs)) s)) head (filter (\<lambda>x. \<not> rm x) xs)"
    using f assms(2) by (cases xs rule: rev_cases) simp_all
qed

text \<open>Continuing such a loop after or from a cursor leaves what is before it alone.\<close>

lemma entry_safe_continue_fold:
  assumes "drops lk body off head rm" "dlist (lk s) head (us @ x # vs)"
  shows "list_for_each_entry_safe_continue lk body off (list_entry off x) head s =
      Some (fold body (map (list_entry off) vs) s)"
    and "dlist (lk (fold body (map (list_entry off) vs) s)) head (us @ x # filter (\<lambda>x. \<not> rm x) vs)"
    and "list_for_each_entry_safe_from lk body off (list_entry off x) head s =
      Some (fold body (map (list_entry off) (x # vs)) s)"
    and "dlist (lk (fold body (map (list_entry off) (x # vs)) s)) head (us @ filter (\<lambda>x. \<not> rm x) (x # vs))"
proof -
  note f = safe_forward [OF assms(1), of s "us @ [x]" vs "list_entry off (nxt (lk s) (hd (vs @ [head])))"]
  note g = safe_forward [OF assms(1), of s us "x # vs" "list_entry off (nxt (lk s) x)"]
  show "list_for_each_entry_safe_continue lk body off (list_entry off x) head s =
      Some (fold body (map (list_entry off) vs) s)"
    using f assms(2) dlist_nxt [OF assms(2)] by (cases vs) (simp_all add: safe_loop_defs)
  show "dlist (lk (fold body (map (list_entry off) vs) s)) head (us @ x # filter (\<lambda>x. \<not> rm x) vs)"
    using f assms(2) by (cases vs) simp_all
  show "list_for_each_entry_safe_from lk body off (list_entry off x) head s =
      Some (fold body (map (list_entry off) (x # vs)) s)"
    using g assms(2) dlist_nxt [OF assms(2)] by (simp add: safe_loop_defs)
  show "dlist (lk (fold body (map (list_entry off) (x # vs)) s)) head (us @ filter (\<lambda>x. \<not> rm x) (x # vs))"
    using g assms(2) by simp
qed

text \<open>Going backwards over cells only, with the successor fetched first.\<close>

lemma prev_safe_fold:
  assumes body: "\<And>s us x vs. dlist (lk s) head (us @ x # vs) \<Longrightarrow>
      dlist (lk (body x s)) head (us @ filter (\<lambda>x. \<not> rm x) [x] @ vs)"
    and l: "dlist (lk s) head xs"
  shows "list_for_each_prev_safe lk body head s = Some (fold body (rev xs) s) \<and>
    dlist (lk (fold body (rev xs) s)) head (filter (\<lambda>x. \<not> rm x) xs)"
proof -
  define J where "J s rest \<longleftrightarrow> (\<exists>ws. dlist (lk s) head (rev rest @ ws) \<and>
      filter (\<lambda>x. \<not> rm x) xs = filter (\<lambda>x. \<not> rm x) (rev rest) @ ws)" for s rest
  have p: "prv (lk s) head = hd (rev xs @ [head])"
    using dlist_prv_head [OF l] by (cases xs rule: rev_cases) simp_all
  have "visit_safe (\<lambda>s. prv (lk s)) (\<lambda>p. p = head) body (hd (rev xs @ [head])) (prv (lk s) (hd (rev xs @ [head]))) s =
      Some (fold body (rev xs) s) \<and> J (fold body (rev xs) s) []"
  proof (rule visit_safe_fold)
    fix s x rest
    assume "J s (x # rest)"
    then obtain ws where ws: "dlist (lk s) head (rev rest @ x # ws)"
      "filter (\<lambda>x. \<not> rm x) xs = filter (\<lambda>x. \<not> rm x) (rev (x # rest)) @ ws" by (auto simp: J_def)
    show "\<not> x = head \<and> prv (lk s) x = hd (rest @ [head])"
      using dlist_prv [OF ws(1)] dlist_distinct [OF ws(1)] by (cases rest) auto
    show "J (body x s) rest"
      unfolding J_def using body [OF ws(1)] ws(2)
      by (intro exI [of _ "filter (\<lambda>x. \<not> rm x) [x] @ ws"]) (auto split: if_splits)
  qed (use l in \<open>auto simp: J_def\<close>)
  with p show ?thesis by (simp add: list_for_each_prev_safe_def J_def)
qed

section \<open>Removing structures from a list\<close>

text \<open>The body of the loops that release entries: it takes those with a property off the list.\<close>

definition unlink_if :: "(addr \<Rightarrow> bool) \<Rightarrow> nat \<Rightarrow> int \<Rightarrow> links \<Rightarrow> links" where
  "unlink_if rm off pos h = (if rm (member_at off pos) then list_del (member_at off pos) h else h)"

lemma unlink_drops: "drops (\<lambda>h. h) (unlink_if rm off) off head rm"
  by (simp add: drops_def unlink_if_def list_container.member_entry dlist_del)

text \<open>
  C33 (functional): over a list, each of the loops that are safe against removal ends, and takes off exactly the
  entries it was to take off, whichever end it starts from; started at an entry it leaves what
  is before that entry alone.
\<close>

theorem safe_loops_remove:
  assumes "dlist h head (us @ x # vs)"
  shows "\<exists>h1 h2 h3 h4.
    list_for_each_entry_safe (\<lambda>h. h) (unlink_if rm off) off head h = Some h1 \<and>
    dlist h1 head (filter (\<lambda>p. \<not> rm p) (us @ x # vs)) \<and>
    list_for_each_entry_safe_reverse (\<lambda>h. h) (unlink_if rm off) off head h = Some h2 \<and>
    dlist h2 head (filter (\<lambda>p. \<not> rm p) (us @ x # vs)) \<and>
    list_for_each_entry_safe_from (\<lambda>h. h) (unlink_if rm off) off (list_entry off x) head h = Some h3 \<and>
    dlist h3 head (us @ filter (\<lambda>p. \<not> rm p) (x # vs)) \<and>
    list_for_each_entry_safe_continue (\<lambda>h. h) (unlink_if rm off) off (list_entry off x) head h = Some h4 \<and>
    dlist h4 head (us @ x # filter (\<lambda>p. \<not> rm p) vs)"
  using entry_safe_fold [OF unlink_drops assms] entry_safe_reverse_fold [OF unlink_drops assms]
    entry_safe_continue_fold [OF unlink_drops assms] by meson

lemma safe_loops_remove_witness:
  "\<exists>h. list_for_each_entry_safe (\<lambda>h. h) (unlink_if even 8) 8 0 (list_add_tail 4 0 (list_add_tail 3 0 (INIT_LIST_HEAD 0
      \<lparr>nxt = \<lambda>_. 0, prv = \<lambda>_. 0\<rparr>))) = Some h \<and> dlist h 0 [3]"
proof -
  let ?h = "list_add_tail 4 0 (list_add_tail 3 0 (INIT_LIST_HEAD 0 \<lparr>nxt = \<lambda>_. 0, prv = \<lambda>_. 0\<rparr>))"
  have "dlist ?h 0 ([] @ 3 # [4])"
    using dlist_add_tail [OF dlist_add_tail [OF dlist_INIT]] by simp
  from safe_loops_remove [OF this, of even 8] show ?thesis by auto
qed

end
