(* ===== verification/Hlist.thy ===== *)
theory Hlist
  imports List_Entries
begin

text \<open>
  \<^verbatim>\<open>src/list.h\<close>: the doubly linked lists whose head is a single pointer. The
  second link of a node is the address of the pointer that leads to it. That pointer is the
  first member of its structure, in a head as in a node, so its address is the address of the
  structure: \<open>hptr\<close> holds what is stored there, for heads and nodes alike. Null and the poison
  of removed nodes are addresses at which an access faults. The lemmas show that no operation
  on a well-formed list faults, and that the operations are those of a list.
\<close>

section \<open>Cells and accesses\<close>

record hlinks =
  hptr :: "addr \<Rightarrow> addr"
  hpprev :: "addr \<Rightarrow> addr"

abbreviation NULL :: addr where "NULL \<equiv> 0"

definition access :: "addr \<Rightarrow> unit res" where
  "access p =
     (if p = NULL then Inl NullDeref
      else if p = LIST_POISON1 \<or> p = LIST_POISON2 then Inl OutOfBounds else Inr ())"

definition get_ptr :: "addr \<Rightarrow> hlinks \<Rightarrow> addr res" where
  "get_ptr p h = r_bind (access p) (\<lambda>_. Inr (hptr h p))"

definition get_pprev :: "addr \<Rightarrow> hlinks \<Rightarrow> addr res" where
  "get_pprev p h = r_bind (access p) (\<lambda>_. Inr (hpprev h p))"

definition put_ptr :: "addr \<Rightarrow> addr \<Rightarrow> hlinks \<Rightarrow> hlinks res" where
  "put_ptr p q h = r_bind (access p) (\<lambda>_. Inr (h\<lparr>hptr := (hptr h)(p := q)\<rparr>))"

definition put_pprev :: "addr \<Rightarrow> addr \<Rightarrow> hlinks \<Rightarrow> hlinks res" where
  "put_pprev p q h = r_bind (access p) (\<lambda>_. Inr (h\<lparr>hpprev := (hpprev h)(p := q)\<rparr>))"

section \<open>Operations\<close>

definition INIT_HLIST_HEAD :: "addr \<Rightarrow> hlinks \<Rightarrow> hlinks res" where
  "INIT_HLIST_HEAD ptr h = put_ptr ptr NULL h"

definition INIT_HLIST_NODE :: "addr \<Rightarrow> hlinks \<Rightarrow> hlinks res" where
  "INIT_HLIST_NODE n h = r_bind (put_ptr n NULL h) (put_pprev n NULL)"

definition hlist_unhashed :: "addr \<Rightarrow> hlinks \<Rightarrow> bool res" where
  "hlist_unhashed n h = r_bind (get_pprev n h) (\<lambda>p. Inr (p = NULL))"

definition hlist_empty :: "addr \<Rightarrow> hlinks \<Rightarrow> bool res" where
  "hlist_empty head h = r_bind (get_ptr head h) (\<lambda>p. Inr (p = NULL))"

definition hlist_del_raw :: "addr \<Rightarrow> hlinks \<Rightarrow> hlinks res" where
  "hlist_del_raw n h =
     r_bind (get_ptr n h) (\<lambda>next.
     r_bind (get_pprev n h) (\<lambda>pprev.
     r_bind (put_ptr pprev next h) (\<lambda>h.
     if next \<noteq> NULL then put_pprev next pprev h else Inr h)))"

definition hlist_del :: "addr \<Rightarrow> hlinks \<Rightarrow> hlinks res" where
  "hlist_del n h =
     r_bind (hlist_del_raw n h) (\<lambda>h. r_bind (put_ptr n LIST_POISON1 h) (put_pprev n LIST_POISON2))"

definition hlist_del_init :: "addr \<Rightarrow> hlinks \<Rightarrow> hlinks res" where
  "hlist_del_init n h =
     r_bind (hlist_unhashed n h) (\<lambda>unhashed.
     if \<not> unhashed then r_bind (hlist_del_raw n h) (INIT_HLIST_NODE n) else Inr h)"

definition hlist_add_head :: "addr \<Rightarrow> addr \<Rightarrow> hlinks \<Rightarrow> hlinks res" where
  "hlist_add_head n head h =
     r_bind (get_ptr head h) (\<lambda>first.
     r_bind (put_ptr n first h) (\<lambda>h.
     r_bind (if first \<noteq> NULL then put_pprev first n h else Inr h) (\<lambda>h.
     r_bind (put_ptr head n h) (\<lambda>h.
     put_pprev n head h))))"

definition hlist_add_before :: "addr \<Rightarrow> addr \<Rightarrow> hlinks \<Rightarrow> hlinks res" where
  "hlist_add_before n next h =
     r_bind (get_pprev next h) (\<lambda>p.
     r_bind (put_pprev n p h) (\<lambda>h.
     r_bind (put_ptr n next h) (\<lambda>h.
     r_bind (put_pprev next n h) (\<lambda>h.
     r_bind (get_pprev n h) (\<lambda>p. put_ptr p n h)))))"

definition hlist_add_behind :: "addr \<Rightarrow> addr \<Rightarrow> hlinks \<Rightarrow> hlinks res" where
  "hlist_add_behind n prev h =
     r_bind (get_ptr prev h) (\<lambda>next.
     r_bind (put_ptr n next h) (\<lambda>h.
     r_bind (put_ptr prev n h) (\<lambda>h.
     r_bind (put_pprev n prev h) (\<lambda>h.
     r_bind (get_ptr n h) (\<lambda>next.
     if next \<noteq> NULL then put_pprev next n h else Inr h)))))"

definition hlist_add_fake :: "addr \<Rightarrow> hlinks \<Rightarrow> hlinks res" where
  "hlist_add_fake n h = put_pprev n n h"

definition hlist_fake :: "addr \<Rightarrow> hlinks \<Rightarrow> bool res" where
  "hlist_fake n h = r_bind (get_pprev n h) (\<lambda>p. Inr (p = n))"

definition hlist_move_list :: "addr \<Rightarrow> addr \<Rightarrow> hlinks \<Rightarrow> hlinks res" where
  "hlist_move_list old new h =
     r_bind (get_ptr old h) (\<lambda>first.
     r_bind (put_ptr new first h) (\<lambda>h.
     r_bind (get_ptr new h) (\<lambda>first.
     r_bind (if first \<noteq> NULL then put_pprev first new h else Inr h) (\<lambda>h.
     put_ptr old NULL h))))"

section \<open>Representation\<close>

text \<open>\<open>hseg h a xs b\<close>: from the pointer at \<open>a\<close> the nodes \<open>xs\<close> lead to \<open>b\<close>, null or the next node.\<close>

fun hseg :: "hlinks \<Rightarrow> addr \<Rightarrow> addr list \<Rightarrow> addr \<Rightarrow> bool" where
  "hseg h a [] b \<longleftrightarrow> hptr h a = b \<and> (b \<noteq> NULL \<longrightarrow> hpprev h b = a)"
| "hseg h a (x # xs) b \<longleftrightarrow> hptr h a = x \<and> hpprev h x = a \<and> hseg h x xs b"

definition hlist :: "hlinks \<Rightarrow> addr \<Rightarrow> addr list \<Rightarrow> bool" where
  "hlist h head xs \<longleftrightarrow>
     distinct (head # xs) \<and> (\<forall>p\<in>set (head # xs). access p = Inr ()) \<and> hseg h head xs NULL"

lemma access_NULL: "access p = Inr () \<Longrightarrow> p \<noteq> NULL"
  by (auto simp: access_def split: if_splits)

lemma accesses [simp]:
  assumes "access p = Inr ()"
  shows "get_ptr p h = Inr (hptr h p)" "get_pprev p h = Inr (hpprev h p)"
    "put_ptr p q h = Inr (h\<lparr>hptr := (hptr h)(p := q)\<rparr>)"
    "put_pprev p q h = Inr (h\<lparr>hpprev := (hpprev h)(p := q)\<rparr>)"
  using assms by (simp_all add: get_ptr_def get_pprev_def put_ptr_def put_pprev_def)

lemma hseg_append:
  "y \<noteq> NULL \<Longrightarrow> hseg h a (us @ y # vs) b \<longleftrightarrow> hseg h a us y \<and> hseg h y vs b"
  by (induction us arbitrary: a) auto

lemma hseg_first: "hseg h a xs b \<Longrightarrow> hptr h a = hd (xs @ [b])"
  by (cases xs) auto

lemma hseg_frame:
  "\<lbrakk>hseg h a xs b; \<forall>p\<in>set (a # xs). hptr h' p = hptr h p; \<forall>p\<in>set (xs @ [b]). hpprev h' p = hpprev h p\<rbrakk>
   \<Longrightarrow> hseg h' a xs b"
  by (induction xs arbitrary: a) auto

lemma hseg_frame_NULL:
  "\<lbrakk>hseg h a xs NULL; \<forall>p\<in>set (a # xs). hptr h' p = hptr h p; \<forall>p\<in>set xs. hpprev h' p = hpprev h p\<rbrakk>
   \<Longrightarrow> hseg h' a xs NULL"
  by (induction xs arbitrary: a) auto

lemma hlist_distinct: "hlist h head xs \<Longrightarrow> distinct (head # xs)"
  by (simp add: hlist_def)

lemma hlist_access: "hlist h head xs \<Longrightarrow> p \<in> set (head # xs) \<Longrightarrow> access p = Inr ()"
  by (auto simp: hlist_def)

lemma hlist_links:
  assumes "hlist h head (us @ x # vs)"
  shows "hpprev h x = last (head # us)" "hptr h x = hd (vs @ [NULL])" "x \<noteq> NULL"
proof -
  show x: "x \<noteq> NULL" using hlist_access [OF assms, of x] access_NULL by simp
  have pp: "hseg h a us x \<Longrightarrow> hpprev h x = last (a # us)" for a
    by (induction us arbitrary: a) (use x in auto)
  from assms x have "hseg h head us x" "hseg h x vs NULL" by (simp_all add: hlist_def hseg_append)
  then show "hpprev h x = last (head # us)" "hptr h x = hd (vs @ [NULL])"
    using pp hseg_first by auto
qed

lemma hlist_first: "hlist h head xs \<Longrightarrow> hptr h head = hd (xs @ [NULL])"
  by (simp add: hlist_def hseg_first)

lemma hlist_frame:
  assumes "hlist h head xs" "\<forall>p\<in>set (head # xs). hptr h' p = hptr h p" "\<forall>p\<in>set xs. hpprev h' p = hpprev h p"
  shows "hlist h' head xs"
  using assms hseg_frame_NULL [of h head xs h'] by (auto simp: hlist_def)

section \<open>Insertion and removal\<close>

text \<open>The links after putting \<open>n\<close> between the pointer at \<open>p\<close> and its node \<open>q\<close>, and without a node.\<close>

definition with_node :: "addr \<Rightarrow> addr \<Rightarrow> addr \<Rightarrow> hlinks \<Rightarrow> hlinks" where
  "with_node p n q h =
     h\<lparr>hptr := (hptr h)(n := q, p := n),
       hpprev := (if q = NULL then (hpprev h)(n := p) else (hpprev h)(n := p, q := n))\<rparr>"

definition without_node :: "addr \<Rightarrow> addr \<Rightarrow> hlinks \<Rightarrow> hlinks" where
  "without_node p q h =
     h\<lparr>hptr := (hptr h)(p := q), hpprev := (if q = NULL then hpprev h else (hpprev h)(q := p))\<rparr>"

lemma with_node_sel:
  "hptr (with_node p n q h) = (hptr h)(n := q, p := n)"
  "hpprev (with_node p n q h) = (if q = NULL then (hpprev h)(n := p) else (hpprev h)(n := p, q := n))"
  "hptr (without_node p q h) = (hptr h)(p := q)"
  "hpprev (without_node p q h) = (if q = NULL then hpprev h else (hpprev h)(q := p))"
  by (simp_all add: with_node_def without_node_def)

lemma last_not_in: "distinct (a # us @ vs) \<Longrightarrow> last (a # us) \<notin> set vs"
  by (metis append_Cons distinct_append disjoint_iff last_in_set list.discI)

lemma hseg_insert:
  assumes "hseg h a (us @ vs) NULL" "distinct (a # us @ vs)" "n \<notin> set (a # us @ vs)" "NULL \<notin> set (n # us @ vs)"
    and p: "p = last (a # us)" and q: "q = hd (vs @ [NULL])"
  shows "hseg (with_node p n q h) a (us @ n # vs) NULL"
  using assms(1-5)
proof (induction us arbitrary: a)
  case Nil
  then have pa: "p = a" by simp
  show ?case
  proof (cases vs)
    case (Cons v ws)
    with Nil q have v: "hseg h v ws NULL" "q = v" by simp_all
    have "a \<notin> set (v # ws)" "n \<notin> set (v # ws)" "v \<notin> set ws" using Nil.prems(2,3) Cons by auto
    then have "hseg (with_node a n v h) v ws NULL"
      by (intro hseg_frame_NULL [OF v(1)]) (auto simp: with_node_sel)
    moreover have "p = a" "v \<noteq> n" "a \<noteq> n" "v \<noteq> 0" using Nil.prems Cons by auto
    ultimately show ?thesis using Cons v(1) \<open>q = v\<close> by (simp add: with_node_sel)
  next
    assume "vs = []"
    with Nil.prems q show ?thesis by (simp add: with_node_sel)
  qed
next
  case (Cons x us)
  have l: "p = last (x # us)" using Cons.prems(5) by simp
  have "hseg (with_node p n q h) x (us @ n # vs) NULL"
    by (rule Cons.IH [OF _ _ _ _ l]) (use Cons.prems(1-4) in simp_all)
  moreover have "p \<noteq> a" using Cons.prems(2) last_in_set [of "x # us"] l by auto
  moreover have "x \<noteq> q" using Cons.prems(2,4) q by (cases vs) auto
  moreover have "x \<noteq> n" "a \<noteq> n" "hptr h a = x" "hpprev h x = a" using Cons.prems(1,3) by auto
  ultimately show ?case by (simp add: with_node_sel)
qed

lemma hseg_remove:
  assumes "hseg h a (us @ x # vs) NULL" "distinct (a # us @ x # vs)" "NULL \<notin> set (us @ x # vs)"
    and p: "p = last (a # us)" and q: "q = hd (vs @ [NULL])"
  shows "hseg (without_node p q h) a (us @ vs) NULL"
  using assms(1-4)
proof (induction us arbitrary: a)
  case Nil
  then have pa: "p = a" by simp
  show ?case
  proof (cases vs)
    case (Cons v ws)
    with Nil q have v: "hseg h v ws NULL" "q = v" by simp_all
    have "a \<notin> set (v # ws)" "v \<notin> set ws" using Nil.prems(2) Cons by auto
    then have "hseg (without_node a v h) v ws NULL"
      by (intro hseg_frame_NULL [OF v(1)]) (auto simp: with_node_sel)
    moreover have "p = a" "v \<noteq> 0" using Nil.prems Cons by auto
    ultimately show ?thesis using Cons v(1) \<open>q = v\<close> by (simp add: with_node_sel)
  next
    assume "vs = []"
    with Nil.prems q show ?thesis by (simp add: with_node_sel)
  qed
next
  case (Cons y us)
  have l: "p = last (y # us)" using Cons.prems(4) by simp
  have "hseg (without_node p q h) y (us @ vs) NULL"
    by (rule Cons.IH [OF _ _ _ l]) (use Cons.prems(1-3) in simp_all)
  moreover have "p \<noteq> a" using Cons.prems(2) last_in_set [of "y # us"] l by auto
  moreover have "y \<noteq> q" using Cons.prems(2,3) q by (cases vs) auto
  moreover have "hptr h a = y" "hpprev h y = a" using Cons.prems(1) by auto
  ultimately show ?case by (simp add: with_node_sel)
qed

lemma hlist_insert:
  assumes "hlist h head (us @ vs)" "n \<notin> set (head # us @ vs)" "access n = Inr ()"
  shows "hlist (with_node (last (head # us)) n (hd (vs @ [NULL])) h) head (us @ n # vs)"
proof -
  have "NULL \<notin> set (n # us @ vs)"
    using assms hlist_access [OF assms(1)] access_NULL by auto
  with hseg_insert [of h head us vs n] assms show ?thesis by (auto simp: hlist_def simp del: last.simps)
qed

lemma hlist_remove:
  assumes "hlist h head (us @ x # vs)"
  shows "hlist (without_node (last (head # us)) (hd (vs @ [NULL])) h) head (us @ vs)"
proof -
  have "NULL \<notin> set (us @ x # vs)" using hlist_access [OF assms] access_NULL by auto
  with hseg_remove [of h head us x vs] assms show ?thesis by (auto simp: hlist_def simp del: last.simps)
qed

text \<open>Every operation on a list does what its name says, and accesses no bad address.\<close>

lemma hlist_add_head_ok:
  assumes l: "hlist h head xs" and n: "n \<notin> set (head # xs)" "access n = Inr ()"
  shows "\<exists>h'. hlist_add_head n head h = Inr h' \<and> hlist h' head (n # xs)"
proof -
  have "access head = Inr ()" using hlist_access [OF l] by simp
  moreover have "hptr h head \<noteq> NULL \<longrightarrow> access (hptr h head) = Inr ()"
    using hlist_first [OF l] hlist_access [OF l] by (cases xs) auto
  moreover have "hptr h head \<noteq> n" using hlist_first [OF l] n access_NULL by (cases xs) auto
  ultimately have "hlist_add_head n head h = Inr (with_node head n (hptr h head) h)"
    using n by (auto simp: hlist_add_head_def with_node_def fun_eq_iff)
  moreover have "hlist (with_node head n (hptr h head) h) head (n # xs)"
    using hlist_insert [of h head "[]" xs n] l n hlist_first [OF l] by simp
  ultimately show ?thesis by blast
qed

lemma hlist_add_before_ok:
  assumes l: "hlist h head (us @ x # vs)" and n: "n \<notin> set (head # us @ x # vs)" "access n = Inr ()"
  shows "\<exists>h'. hlist_add_before n x h = Inr h' \<and> hlist h' head (us @ n # x # vs)"
proof -
  let ?p = "last (head # us)"
  have pin: "?p \<in> set (head # us)" by (metis last_in_set list.discI)
  have "access x = Inr ()" "access ?p = Inr ()" using hlist_access [OF l] pin by auto
  moreover have "?p \<noteq> n" "x \<noteq> NULL" "x \<noteq> n" using pin n hlist_links [OF l] by auto
  ultimately have "hlist_add_before n x h = Inr (with_node ?p n x h)"
    using n hlist_links [OF l]
    by (auto simp: hlist_add_before_def with_node_def fun_upd_twist simp del: last.simps)
  moreover have "hlist (with_node ?p n x h) head (us @ n # x # vs)"
    using hlist_insert [of h head us "x # vs" n] l n by simp
  ultimately show ?thesis by blast
qed

lemma hlist_add_behind_ok:
  assumes l: "hlist h head (us @ x # vs)" and n: "n \<notin> set (head # us @ x # vs)" "access n = Inr ()"
  shows "\<exists>h'. hlist_add_behind n x h = Inr h' \<and> hlist h' head (us @ x # n # vs)"
proof -
  let ?q = "hd (vs @ [NULL])"
  have "access x = Inr ()" using hlist_access [OF l] by auto
  moreover have "?q \<noteq> NULL \<longrightarrow> access ?q = Inr ()" using hlist_access [OF l] by (cases vs) auto
  moreover have "?q \<noteq> n" "x \<noteq> n" using n access_NULL by (cases vs; auto)+
  ultimately have "hlist_add_behind n x h = Inr (with_node x n ?q h)"
    using n hlist_links [OF l] by (auto simp: hlist_add_behind_def with_node_def)
  moreover have "hlist (with_node x n ?q h) head (us @ x # n # vs)"
    using hlist_insert [of h head "us @ [x]" vs n] l n by simp
  ultimately show ?thesis by blast
qed

lemma hlist_del_raw_ok:
  assumes l: "hlist h head (us @ x # vs)"
  shows "hlist_del_raw x h = Inr (without_node (last (head # us)) (hd (vs @ [NULL])) h)"
proof -
  let ?p = "last (head # us)" and ?q = "hd (vs @ [NULL])"
  have "?p \<in> set (head # us)" by (metis last_in_set list.discI)
  then have "access x = Inr ()" "access ?p = Inr ()" using hlist_access [OF l] by auto
  moreover have "?q \<noteq> NULL \<longrightarrow> access ?q = Inr ()" using hlist_access [OF l] by (cases vs) auto
  ultimately show ?thesis
    using hlist_links [OF l] by (auto simp: hlist_del_raw_def without_node_def simp del: last.simps)
qed

lemma hlist_del_ok:
  assumes l: "hlist h head (us @ x # vs)"
  shows "\<exists>h'. hlist_del x h = Inr h' \<and> hlist h' head (us @ vs) \<and> hpprev h' x = LIST_POISON2"
proof -
  let ?h = "without_node (last (head # us)) (hd (vs @ [NULL])) h"
  have x: "access x = Inr ()" "x \<notin> set (head # us @ vs)" using hlist_access [OF l] hlist_distinct [OF l] by auto
  then show ?thesis
    using hlist_frame [OF hlist_remove [OF l]] by (auto simp: hlist_del_def hlist_del_raw_ok [OF l])
qed

lemma hlist_del_init_ok:
  assumes l: "hlist h head (us @ x # vs)"
  shows "\<exists>h'. hlist_del_init x h = Inr h' \<and> hlist h' head (us @ vs) \<and> hpprev h' x = NULL"
proof -
  have x: "access x = Inr ()" "x \<notin> set (head # us @ vs)" using hlist_access [OF l] hlist_distinct [OF l] by auto
  have "last (head # us) \<in> set (head # us)" by (metis last_in_set list.discI)
  then have "last (head # us) \<noteq> NULL" using hlist_access [OF l, of "last (head # us)"] access_NULL by auto
  then show ?thesis
    using x hlist_links [OF l] hlist_frame [OF hlist_remove [OF l]]
    by (auto simp: hlist_del_init_def hlist_unhashed_def INIT_HLIST_NODE_def hlist_del_raw_ok [OF l])
qed

lemma hlist_move_list_ok:
  assumes l: "hlist h old xs" and n: "new \<notin> set (old # xs)" "access new = Inr ()"
  shows "\<exists>h'. hlist_move_list old new h = Inr h' \<and> hlist h' new xs \<and> hlist h' old []"
proof -
  have o: "access old = Inr ()" using hlist_access [OF l] by simp
  have d: "distinct (old # xs)" by (rule hlist_distinct [OF l])
  show ?thesis
  proof (cases xs)
    case Nil
    then have "hptr h old = NULL" using hlist_first [OF l] by simp
    with o n Nil show ?thesis by (auto simp: hlist_move_list_def hlist_def)
  next
    case (Cons x ys)
    have f: "hptr h old = x" "x \<noteq> NULL" using hlist_first [OF l] Cons hlist_access [OF l, of x] access_NULL by auto
    define h' where "h' = h\<lparr>hptr := (hptr h)(new := x, old := NULL), hpprev := (hpprev h)(x := new)\<rparr>"
    have "hlist_move_list old new h = Inr h'"
      using o n f Cons hlist_access [OF l, of x] by (simp add: hlist_move_list_def h'_def)
    moreover have s: "hseg h x ys NULL" using l Cons by (simp add: hlist_def)
    have "hseg h' x ys NULL"
      using d n Cons by (intro hseg_frame_NULL [OF s]) (auto simp: h'_def)
    then have "hlist h' new xs" "hlist h' old []"
      using l n Cons o by (auto simp: hlist_def h'_def)
    ultimately show ?thesis by blast
  qed
qed

lemma hlist_INIT: "access head = Inr () \<Longrightarrow> \<exists>h'. INIT_HLIST_HEAD head h = Inr h' \<and> hlist h' head []"
  by (simp add: INIT_HLIST_HEAD_def hlist_def)

lemma hlist_empty_ok: "hlist h head xs \<Longrightarrow> hlist_empty head h = Inr (xs = [])"
  using hlist_first [of h head xs] hlist_access [of h head xs] access_NULL
  by (cases xs) (auto simp: hlist_empty_def)

section \<open>Iteration\<close>

text \<open>
  The loops end at null and read a pointer in every step, which may fault. The safe ones read
  the successor in their condition, before the body.
\<close>

partial_function (option) hvisit :: "('p \<Rightarrow> 'p res) \<Rightarrow> ('p \<Rightarrow> bool) \<Rightarrow> 'p \<Rightarrow> 'p list res option" where
  "hvisit step stop pos =
     (if stop pos then Some (Inr [])
      else case step pos of
        Inl e \<Rightarrow> Some (Inl e)
      | Inr n \<Rightarrow> Option.bind (hvisit step stop n) (\<lambda>r. Some (r_bind r (\<lambda>ps. Inr (pos # ps)))))"

partial_function (option) hvisit_safe ::
  "('s \<Rightarrow> 'p \<Rightarrow> 'p res) \<Rightarrow> ('p \<Rightarrow> bool) \<Rightarrow> ('p \<Rightarrow> 's \<Rightarrow> 's res) \<Rightarrow> 'p \<Rightarrow> 's \<Rightarrow> 's res option" where
  "hvisit_safe step stop body pos s =
     (if stop pos then Some (Inr s)
      else case r_bind (step s pos) (\<lambda>n. r_bind (body pos s) (\<lambda>s. Inr (n, s))) of
        Inl e \<Rightarrow> Some (Inl e)
      | Inr (n, s) \<Rightarrow> hvisit_safe step stop body n s)"

definition hloop :: "'p res \<Rightarrow> ('p \<Rightarrow> 'a res option) \<Rightarrow> 'a res option" where
  "hloop first f = (case first of Inl e \<Rightarrow> Some (Inl e) | Inr p \<Rightarrow> f p)"

definition hlist_for_each :: "addr \<Rightarrow> hlinks \<Rightarrow> addr list res option" where
  "hlist_for_each head h = hloop (get_ptr head h) (hvisit (\<lambda>p. get_ptr p h) (\<lambda>p. p = NULL))"

definition hlist_for_each_safe ::
  "('s \<Rightarrow> hlinks) \<Rightarrow> (addr \<Rightarrow> 's \<Rightarrow> 's res) \<Rightarrow> addr \<Rightarrow> 's \<Rightarrow> 's res option" where
  "hlist_for_each_safe lk body head s =
     hloop (get_ptr head (lk s)) (\<lambda>p. hvisit_safe (\<lambda>s p. get_ptr p (lk s)) (\<lambda>p. p = NULL) body p s)"

definition hlist_entry :: "nat \<Rightarrow> addr \<Rightarrow> int" where
  "hlist_entry off ptr = container_of off ptr"

definition hlist_entry_safe :: "nat \<Rightarrow> addr \<Rightarrow> int" where
  "hlist_entry_safe off ptr = (if ptr \<noteq> NULL then hlist_entry off ptr else 0)"

definition next_hentry :: "nat \<Rightarrow> hlinks \<Rightarrow> int \<Rightarrow> int res" where
  "next_hentry off h pos = r_bind (get_ptr (member_at off pos) h) (\<lambda>p. Inr (hlist_entry_safe off p))"

definition hlist_for_each_entry :: "nat \<Rightarrow> addr \<Rightarrow> hlinks \<Rightarrow> int list res option" where
  "hlist_for_each_entry off head h =
     hloop (r_bind (get_ptr head h) (\<lambda>p. Inr (hlist_entry_safe off p))) (hvisit (next_hentry off h) (\<lambda>p. p = 0))"

definition hlist_for_each_entry_continue :: "nat \<Rightarrow> int \<Rightarrow> hlinks \<Rightarrow> int list res option" where
  "hlist_for_each_entry_continue off pos h =
     hloop (next_hentry off h pos) (hvisit (next_hentry off h) (\<lambda>p. p = 0))"

definition hlist_for_each_entry_from :: "nat \<Rightarrow> int \<Rightarrow> hlinks \<Rightarrow> int list res option" where
  "hlist_for_each_entry_from off pos h = hvisit (next_hentry off h) (\<lambda>p. p = 0) pos"

definition hlist_for_each_entry_safe ::
  "('s \<Rightarrow> hlinks) \<Rightarrow> (int \<Rightarrow> 's \<Rightarrow> 's res) \<Rightarrow> nat \<Rightarrow> addr \<Rightarrow> 's \<Rightarrow> 's res option" where
  "hlist_for_each_entry_safe lk body off head s =
     hloop (r_bind (get_ptr head (lk s)) (\<lambda>p. Inr (hlist_entry_safe off p)))
       (\<lambda>p. hvisit_safe (\<lambda>s. next_hentry off (lk s)) (\<lambda>p. p = 0) body p s)"

text \<open>What the loops visit.\<close>

fun hwalk :: "('p \<Rightarrow> 'p res) \<Rightarrow> 'p \<Rightarrow> 'p list \<Rightarrow> 'p \<Rightarrow> bool" where
  "hwalk step p [] e \<longleftrightarrow> p = e"
| "hwalk step p (x # xs) e \<longleftrightarrow> p = x \<and> (case step x of Inl _ \<Rightarrow> False | Inr q \<Rightarrow> hwalk step q xs e)"

lemma hvisit_walk:
  "hwalk step p xs e \<Longrightarrow> stop e \<Longrightarrow> \<forall>x\<in>set xs. \<not> stop x \<Longrightarrow> hvisit step stop p = Some (Inr xs)"
proof (induction xs arbitrary: p)
  case (Cons x xs)
  then obtain q where "step x = Inr q" "hwalk step q xs e" by (auto split: sum.splits)
  with Cons show ?case by (simp add: hvisit.simps [of _ _ x])
qed (simp add: hvisit.simps)

lemma hwalk_seg:
  "hseg h a xs NULL \<Longrightarrow> \<forall>p\<in>set xs. access p = Inr () \<Longrightarrow> hwalk (\<lambda>p. get_ptr p h) (hptr h a) xs NULL"
  by (induction xs arbitrary: a) auto

lemma hlist_member_at [simp]: "member_at off (hlist_entry off p) = p"
  by (simp add: hlist_entry_def container_of_def member_at_def)

lemma hwalk_entries:
  "hseg h a xs NULL \<Longrightarrow> \<forall>p\<in>set xs. access p = Inr () \<Longrightarrow>
   hwalk (next_hentry off h) (hlist_entry_safe off (hptr h a)) (map (hlist_entry off) xs) 0"
proof (induction xs arbitrary: a)
  case (Cons x xs)
  then have "x \<noteq> NULL" using access_NULL by auto
  with Cons show ?case by (auto simp: hlist_entry_safe_def next_hentry_def)
qed (simp add: hlist_entry_safe_def)

lemma hlist_visits:
  assumes "hlist h head xs"
  shows "hlist_for_each head h = Some (Inr xs)"
    and "\<forall>x\<in>set xs. hlist_entry off x \<noteq> 0 \<Longrightarrow>
      hlist_for_each_entry off head h = Some (Inr (map (hlist_entry off) xs))"
proof -
  from assms have s: "hseg h head xs NULL" and a: "\<forall>p\<in>set xs. access p = Inr ()" "access head = Inr ()"
    by (auto simp: hlist_def)
  have "\<forall>x\<in>set xs. x \<noteq> NULL" using a(1) access_NULL by blast
  then show "hlist_for_each head h = Some (Inr xs)"
    using hvisit_walk [OF hwalk_seg [OF s a(1)]] a(2) by (simp add: hlist_for_each_def hloop_def)
  show "hlist_for_each_entry off head h = Some (Inr (map (hlist_entry off) xs))"
    if "\<forall>x\<in>set xs. hlist_entry off x \<noteq> 0"
    using hvisit_walk [OF hwalk_entries [OF s a(1)]] a(2) that by (simp add: hlist_for_each_entry_def hloop_def)
qed

lemma hlist_visits_from:
  assumes l: "hlist h head (us @ x # vs)" and n: "\<forall>x\<in>set (x # vs). hlist_entry off x \<noteq> 0"
  shows "hlist_for_each_entry_continue off (hlist_entry off x) h = Some (Inr (map (hlist_entry off) vs))"
    and "hlist_for_each_entry_from off (hlist_entry off x) h = Some (Inr (map (hlist_entry off) (x # vs)))"
proof -
  have x: "access x = Inr ()" "x \<noteq> NULL" using hlist_access [OF l, of x] access_NULL by auto
  from l x have s: "hseg h x vs NULL" and a: "\<forall>p\<in>set vs. access p = Inr ()" by (auto simp: hlist_def hseg_append)
  have w: "hwalk (next_hentry off h) (hlist_entry_safe off (hptr h x)) (map (hlist_entry off) vs) 0"
    by (rule hwalk_entries [OF s a])
  then have w': "hwalk (next_hentry off h) (hlist_entry off x) (map (hlist_entry off) (x # vs)) 0"
    using x by (simp add: next_hentry_def)
  have p: "next_hentry off h (hlist_entry off x) = Inr (hlist_entry_safe off (hptr h x))"
    using x by (simp add: next_hentry_def)
  show "hlist_for_each_entry_continue off (hlist_entry off x) h = Some (Inr (map (hlist_entry off) vs))"
    using hvisit_walk [OF w, of "\<lambda>p. p = 0"] p n by (simp add: hlist_for_each_entry_continue_def hloop_def)
  show "hlist_for_each_entry_from off (hlist_entry off x) h = Some (Inr (map (hlist_entry off) (x # vs)))"
    using hvisit_walk [OF w', of "\<lambda>p. p = 0"] n by (simp add: hlist_for_each_entry_from_def)
qed

text \<open>The safe loop over a list whose body removes the entry: it empties the list.\<close>

lemma hlist_drain_cells:
  assumes "hlist h head xs"
  shows "\<exists>h'. hvisit_safe (\<lambda>h p. get_ptr p h) (\<lambda>p. p = NULL) hlist_del (hptr h head) h = Some (Inr h') \<and>
    hlist h' head []"
  using assms
proof (induction xs arbitrary: h)
  case Nil
  then show ?case using hlist_first [OF Nil] by (simp add: hvisit_safe.simps)
next
  case (Cons x xs)
  from hlist_del_ok [of h head "[]" x xs] Cons.prems obtain h' where
    h': "hlist_del x h = Inr h'" "hlist h' head xs" by auto
  have x: "access x = Inr ()" "x \<noteq> NULL" using hlist_access [OF Cons.prems, of x] access_NULL by auto
  have "hptr h head = x" "hptr h x = hptr h' head"
    using hlist_first [OF Cons.prems] hlist_links [of h head "[]" x xs] hlist_first [OF h'(2)] Cons.prems by auto
  with Cons.IH [OF h'(2)] h'(1) x show ?case
    by (simp add: hvisit_safe.simps [of _ _ _ x])
qed

lemma hlist_drain_entries:
  assumes "hlist h head xs" "\<forall>x\<in>set xs. hlist_entry off x \<noteq> 0"
  shows "\<exists>h'. hvisit_safe (\<lambda>h. next_hentry off h) (\<lambda>p. p = 0) (\<lambda>pos. hlist_del (member_at off pos))
      (hlist_entry_safe off (hptr h head)) h = Some (Inr h') \<and> hlist h' head []"
  using assms
proof (induction xs arbitrary: h)
  case Nil
  then show ?case using hlist_first [OF Nil(1)] by (simp add: hvisit_safe.simps hlist_entry_safe_def)
next
  case (Cons x xs)
  from hlist_del_ok [of h head "[]" x xs] Cons.prems(1) obtain h' where
    h': "hlist_del x h = Inr h'" "hlist h' head xs" by auto
  have x: "access x = Inr ()" "x \<noteq> NULL" using hlist_access [OF Cons.prems(1), of x] access_NULL by auto
  have e: "hptr h head = x" "hptr h x = hptr h' head"
    using hlist_first [OF Cons.prems(1)] hlist_links [of h head "[]" x xs] hlist_first [OF h'(2)] Cons.prems(1)
    by auto
  have "next_hentry off h (hlist_entry off x) = Inr (hlist_entry_safe off (hptr h' head))"
    using x e by (simp add: next_hentry_def)
  with Cons.IH [OF h'(2)] Cons.prems(2) h'(1) x e show ?case
    by (simp add: hvisit_safe.simps [of _ _ _ "hlist_entry off x"] hlist_entry_safe_def)
qed

section \<open>Sequences of operations\<close>

text \<open>
  A client of one list: the head it works with and the operations it makes. On the side of
  the specification the list is a list, an operation whose precondition fails is \<open>None\<close>.
\<close>

datatype hop =
    HAddHead addr
  | HAddBefore addr addr
  | HAddBehind addr addr
  | HDel addr
  | HDelInit addr
  | HMoveList addr

fun hop_step :: "hop \<Rightarrow> addr \<times> hlinks \<Rightarrow> (addr \<times> hlinks) res" where
  "hop_step (HAddHead n) (head, h) = r_bind (hlist_add_head n head h) (\<lambda>h. Inr (head, h))"
| "hop_step (HAddBefore n x) (head, h) = r_bind (hlist_add_before n x h) (\<lambda>h. Inr (head, h))"
| "hop_step (HAddBehind n x) (head, h) = r_bind (hlist_add_behind n x h) (\<lambda>h. Inr (head, h))"
| "hop_step (HDel x) (head, h) = r_bind (hlist_del x h) (\<lambda>h. Inr (head, h))"
| "hop_step (HDelInit x) (head, h) = r_bind (hlist_del_init x h) (\<lambda>h. Inr (head, h))"
| "hop_step (HMoveList new) (head, h) = r_bind (hlist_move_list head new h) (\<lambda>h. Inr (new, h))"

definition new_cell :: "addr \<Rightarrow> addr \<times> addr list \<Rightarrow> bool" where
  "new_cell n s \<longleftrightarrow> access n = Inr () \<and> n \<notin> set (fst s # snd s)"

fun hop_spec :: "hop \<Rightarrow> addr \<times> addr list \<Rightarrow> (addr \<times> addr list) option" where
  "hop_spec (HAddHead n) (head, xs) = (if new_cell n (head, xs) then Some (head, n # xs) else None)"
| "hop_spec (HAddBefore n x) (head, xs) =
     (if new_cell n (head, xs) \<and> x \<in> set xs
      then Some (head, takeWhile (\<lambda>y. y \<noteq> x) xs @ n # dropWhile (\<lambda>y. y \<noteq> x) xs) else None)"
| "hop_spec (HAddBehind n x) (head, xs) =
     (if new_cell n (head, xs) \<and> x \<in> set xs
      then Some (head, takeWhile (\<lambda>y. y \<noteq> x) xs @ x # n # tl (dropWhile (\<lambda>y. y \<noteq> x) xs)) else None)"
| "hop_spec (HDel x) (head, xs) = (if x \<in> set xs then Some (head, remove1 x xs) else None)"
| "hop_spec (HDelInit x) (head, xs) = (if x \<in> set xs then Some (head, remove1 x xs) else None)"
| "hop_spec (HMoveList new) (head, xs) = (if new_cell new (head, xs) then Some (new, xs) else None)"

fun hop_runs :: "hop list \<Rightarrow> addr \<times> hlinks \<Rightarrow> (addr \<times> hlinks) res" where
  "hop_runs [] s = Inr s"
| "hop_runs (k # ks) s = r_bind (hop_step k s) (hop_runs ks)"

fun hop_specs :: "hop list \<Rightarrow> addr \<times> addr list \<Rightarrow> (addr \<times> addr list) option" where
  "hop_specs [] s = Some s"
| "hop_specs (k # ks) s = Option.bind (hop_spec k s) (hop_specs ks)"

lemma split_at:
  assumes "x \<in> set xs" "distinct xs"
  obtains us vs where "xs = us @ x # vs" "takeWhile (\<lambda>y. y \<noteq> x) xs = us" "dropWhile (\<lambda>y. y \<noteq> x) xs = x # vs"
    "remove1 x xs = us @ vs"
proof -
  from split_list_first [OF assms(1)] obtain us vs where s: "xs = us @ x # vs" "x \<notin> set us" by blast
  then have "\<forall>y\<in>set us. y \<noteq> x" by auto
  with s that show thesis by (simp add: remove1_append)
qed

lemma hop_step_refines:
  assumes l: "hlist h head xs" and k: "hop_spec k (head, xs) = Some (head', xs')"
  shows "\<exists>h'. hop_step k (head, h) = Inr (head', h') \<and> hlist h' head' xs'"
proof -
  have d: "distinct xs" using hlist_distinct [OF l] by simp
  show ?thesis
  proof (cases k)
    case (HAddHead n)
    with k hlist_add_head_ok [OF l, of n] show ?thesis by (auto simp: new_cell_def split: if_splits)
  next
    case (HAddBefore n x)
    with k have x: "x \<in> set xs" "new_cell n (head, xs)" by (simp_all split: if_splits)
    from split_at [OF x(1) d] obtain us vs where s: "xs = us @ x # vs" "takeWhile (\<lambda>y. y \<noteq> x) xs = us"
      "dropWhile (\<lambda>y. y \<noteq> x) xs = x # vs" by metis
    from hlist_add_before_ok [of h head us x vs n] l x s(1) k HAddBefore show ?thesis
      by (auto simp: new_cell_def s(2,3) [unfolded s(1)])
  next
    case (HAddBehind n x)
    with k have x: "x \<in> set xs" "new_cell n (head, xs)" by (simp_all split: if_splits)
    from split_at [OF x(1) d] obtain us vs where s: "xs = us @ x # vs" "takeWhile (\<lambda>y. y \<noteq> x) xs = us"
      "dropWhile (\<lambda>y. y \<noteq> x) xs = x # vs" by metis
    from hlist_add_behind_ok [of h head us x vs n] l x s(1) k HAddBehind show ?thesis
      by (auto simp: new_cell_def s(2,3) [unfolded s(1)])
  next
    case (HDel x)
    with k have x: "x \<in> set xs" by (simp split: if_splits)
    from split_at [OF this d] obtain us vs where "xs = us @ x # vs" "remove1 x xs = us @ vs" by metis
    with hlist_del_ok [of h head us x vs] l k HDel show ?thesis by (auto split: if_splits)
  next
    case (HDelInit x)
    with k have x: "x \<in> set xs" by (simp split: if_splits)
    from split_at [OF this d] obtain us vs where "xs = us @ x # vs" "remove1 x xs = us @ vs" by metis
    with hlist_del_init_ok [of h head us x vs] l k HDelInit show ?thesis by (auto split: if_splits)
  next
    case (HMoveList new)
    with k hlist_move_list_ok [OF l, of new] show ?thesis by (auto simp: new_cell_def split: if_splits)
  qed
qed

text \<open>
  C32 (refinement): any sequence of operations whose preconditions hold runs without a fault, and the loop over
  the result visits exactly the list that the sequence specifies.
\<close>

theorem hlist_refines:
  assumes "hlist h head xs" "hop_specs ks (head, xs) = Some (head', xs')"
  shows "\<exists>h'. hop_runs ks (head, h) = Inr (head', h') \<and> hlist_for_each head' h' = Some (Inr xs') \<and>
    hlist_empty head' h' = Inr (xs' = [])"
proof -
  have "\<exists>h'. hop_runs ks (head, h) = Inr (head', h') \<and> hlist h' head' xs'"
    using assms
  proof (induction ks arbitrary: h head xs)
    case (Cons k ks)
    then obtain hd1 xs1 where k: "hop_spec k (head, xs) = Some (hd1, xs1)" "hop_specs ks (hd1, xs1) = Some (head', xs')"
      by (auto simp: Option.bind_eq_Some_conv)
    from hop_step_refines [OF Cons.prems(1) k(1)] obtain h1 where
      "hop_step k (head, h) = Inr (hd1, h1)" "hlist h1 hd1 xs1" by blast
    with Cons.IH k(2) show ?case by simp
  qed simp
  with hlist_visits(1) hlist_empty_ok show ?thesis by blast
qed

definition hempty :: hlinks where
  "hempty = \<lparr>hptr = \<lambda>_. NULL, hpprev = \<lambda>_. NULL\<rparr>"

lemma hlist_refines_witness:
  "\<exists>h. hop_runs [HAddHead 2, HAddBehind 3 2, HAddBefore 4 3, HDel 2, HMoveList 9] (1, hempty) = Inr (9, h) \<and>
     hlist_for_each 9 h = Some (Inr [4, 3])"
proof -
  have l: "hlist hempty 1 []" by (simp add: hlist_def hempty_def access_def)
  have "hop_specs [HAddHead 2, HAddBehind 3 2, HAddBefore 4 3, HDel 2, HMoveList 9] (1, []) = Some (9, [4, 3])"
    by (simp add: new_cell_def access_def)
  from hlist_refines [OF l this] show ?thesis by blast
qed

text \<open>
  A node that was removed is not removed again by accident: the poison faults. A node that was
  removed and initialised may be removed again, which does nothing.
\<close>

theorem hlist_removed_again:
  assumes "hlist h head (us @ x # vs)"
  shows "\<exists>h1 h2. hlist_del x h = Inr h1 \<and> hlist_del x h1 = Inl OutOfBounds \<and>
    hlist_del_init x h = Inr h2 \<and> hlist_del_init x h2 = Inr h2 \<and> hlist_unhashed x h2 = Inr True"
proof -
  have x: "access x = Inr ()" using hlist_access [OF assms] by simp
  from hlist_del_ok [OF assms] obtain h1 where h1: "hlist_del x h = Inr h1" "hpprev h1 x = LIST_POISON2" by blast
  then have "hlist_del x h1 = Inl OutOfBounds"
    using x by (simp add: hlist_del_def hlist_del_raw_def put_ptr_def [of LIST_POISON2] access_def [of LIST_POISON2])
  moreover from hlist_del_init_ok [OF assms] obtain h2 where h2: "hlist_del_init x h = Inr h2" "hpprev h2 x = NULL"
    by blast
  moreover have "hlist_unhashed x h2 = Inr True" using x h2 by (simp add: hlist_unhashed_def)
  ultimately show ?thesis using h1(1) by (auto simp: hlist_del_init_def)
qed

lemma hlist_removed_again_witness:
  "\<exists>h h1. hlist_add_head 2 1 hempty = Inr h \<and> hlist_del 2 h = Inr h1 \<and> hlist_del 2 h1 = Inl OutOfBounds"
proof -
  have "hlist hempty 1 []" "access 2 = Inr ()" by (simp_all add: hlist_def hempty_def access_def)
  from hlist_add_head_ok [OF this(1), of 2] this(2) obtain h where
    "hlist_add_head 2 1 hempty = Inr h" "hlist h 1 ([] @ 2 # [])" by auto
  with hlist_removed_again [of h 1 "[]" 2 "[]"] show ?thesis by auto
qed

text \<open>
  A node that only appears to be on a list can be removed if its own pointer was initialised:
  otherwise the removal would go on to whatever the pointer leads to.
\<close>

lemma hlist_fake_del:
  assumes "access n = Inr ()" "hptr h n = NULL"
  shows "\<exists>h1 h2. hlist_add_fake n h = Inr h1 \<and> hlist_fake n h1 = Inr True \<and> hlist_unhashed n h1 = Inr False \<and>
    hlist_del n h1 = Inr h2"
  using assms access_NULL [OF assms(1)]
  by (simp add: hlist_add_fake_def hlist_fake_def hlist_unhashed_def hlist_del_def hlist_del_raw_def)

lemma hlist_for_each_safe_del:
  assumes "hlist h head xs"
  shows "\<exists>h'. hlist_for_each_safe (\<lambda>h. h) hlist_del head h = Some (Inr h') \<and> hlist h' head []"
  using hlist_drain_cells [OF assms] hlist_access [OF assms, of head]
  by (simp add: hlist_for_each_safe_def hloop_def)

lemma hlist_for_each_entry_safe_del:
  assumes "hlist h head xs" "\<forall>x\<in>set xs. hlist_entry off x \<noteq> 0"
  shows "\<exists>h'. hlist_for_each_entry_safe (\<lambda>h. h) (\<lambda>pos. hlist_del (member_at off pos)) off head h = Some (Inr h') \<and>
    hlist h' head []"
  using hlist_drain_entries [OF assms] hlist_access [OF assms(1), of head]
  by (simp add: hlist_for_each_entry_safe_def hloop_def)

end
