(* ===== verification/Time64.thy ===== *)
theory Time64
  imports Timespec
begin

text \<open>
  \<^verbatim>\<open>src/time64.h\<close>: seconds of 64 bits on platforms whose \<^verbatim>\<open>long\<close> and
  \<^verbatim>\<open>time_t\<close> may be narrower. Where the header distinguishes the platforms, the
  definitions for a \<^verbatim>\<open>long\<close> of 64 bits have the suffix \<open>_native\<close>; the others take
  the width \<open>lw\<close> of \<^verbatim>\<open>long\<close> or \<open>tw\<close> of \<^verbatim>\<open>time_t\<close>. The function
  \<^verbatim>\<open>set_normalized_timespec64\<close> is declared and defined nowhere: it is the argument
  \<open>norm\<close>. A \<^verbatim>\<open>struct timespec64\<close> has the fields of \<open>timespec\<close>.
\<close>

section \<open>Data\<close>

type_synonym timespec64 = timespec

record itimerspec64 =
  it_interval :: timespec64
  it_value :: timespec64

abbreviation KTIME_MAX :: int where "KTIME_MAX \<equiv> 0x7FFFFFFFFFFFFFFF"
abbreviation KTIME_SEC_MAX :: int where "KTIME_SEC_MAX \<equiv> KTIME_MAX div NSEC_PER_SEC"

text \<open>A value stored in a signed integer of \<open>w\<close> bits, and whether it fits.\<close>

definition to_signed :: "nat \<Rightarrow> int \<Rightarrow> int" where
  "to_signed w x = signed_take_bit (w - 1) x"

definition fits :: "nat \<Rightarrow> int \<Rightarrow> bool" where
  "fits w x \<longleftrightarrow> - (2 ^ (w - 1)) \<le> x \<and> x < 2 ^ (w - 1)"

definition chk :: "nat \<Rightarrow> int \<Rightarrow> int res" where
  "chk w x = (if fits w x then Inr x else Inl IntOverflow)"

lemma to_signed_fits: "to_signed w x = x \<longleftrightarrow> fits w x"
  by (simp add: to_signed_def fits_def signed_take_bit_int_eq_self_iff)

section \<open>Conversions\<close>

definition timespec64_to_timespec_native :: "timespec64 \<Rightarrow> timespec" where
  "timespec64_to_timespec_native tint64_t = tint64_t"

definition timespec_to_timespec64_native :: "timespec \<Rightarrow> timespec64" where
  "timespec_to_timespec64_native ts = ts"

definition itimerspec64_to_itimerspec_native :: "itimerspec64 \<Rightarrow> itimerspec64" where
  "itimerspec64_to_itimerspec_native itint64_t = itint64_t"

definition itimerspec_to_itimerspec64_native :: "itimerspec64 \<Rightarrow> itimerspec64" where
  "itimerspec_to_itimerspec64_native its = its"

definition timespec64_to_timespec :: "nat \<Rightarrow> timespec64 \<Rightarrow> timespec" where
  "timespec64_to_timespec tw tint64_t = \<lparr>tv_sec = to_signed tw (tv_sec tint64_t), tv_nsec = tv_nsec tint64_t\<rparr>"

definition timespec_to_timespec64 :: "timespec \<Rightarrow> timespec64" where
  "timespec_to_timespec64 ts = \<lparr>tv_sec = tv_sec ts, tv_nsec = tv_nsec ts\<rparr>"

definition itimerspec64_to_itimerspec :: "nat \<Rightarrow> itimerspec64 \<Rightarrow> itimerspec64" where
  "itimerspec64_to_itimerspec tw itint64_t =
     \<lparr>it_interval = timespec64_to_timespec tw (it_interval itint64_t),
      it_value = timespec64_to_timespec tw (it_value itint64_t)\<rparr>"

definition itimerspec_to_itimerspec64 :: "itimerspec64 \<Rightarrow> itimerspec64" where
  "itimerspec_to_itimerspec64 its =
     \<lparr>it_interval = timespec_to_timespec64 (it_interval its),
      it_value = timespec_to_timespec64 (it_value its)\<rparr>"

section \<open>Comparisons\<close>

definition timespec64_equal :: "timespec64 \<Rightarrow> timespec64 \<Rightarrow> bool" where
  "timespec64_equal a b \<longleftrightarrow> tv_sec a = tv_sec b \<and> tv_nsec a = tv_nsec b"

definition timespec64_compare :: "nat \<Rightarrow> timespec64 \<Rightarrow> timespec64 \<Rightarrow> int res" where
  "timespec64_compare lw lhs rhs =
     (if tv_sec lhs < tv_sec rhs then Inr (- 1)
      else if tv_sec lhs > tv_sec rhs then Inr 1
      else r_bind (chk lw (tv_nsec lhs - tv_nsec rhs)) (\<lambda>d. Inr (to_i32 d)))"

definition timespec64_valid :: "nat \<Rightarrow> timespec64 \<Rightarrow> bool" where
  "timespec64_valid lw ts =
     (if tv_sec ts < 0 then False
      else if take_bit lw (tv_nsec ts) \<ge> NSEC_PER_SEC then False
      else True)"

definition timespec64_valid_strict :: "nat \<Rightarrow> timespec64 \<Rightarrow> bool" where
  "timespec64_valid_strict lw ts =
     (if \<not> timespec64_valid lw ts then False
      else if (word_of_int (tv_sec ts) :: u64) \<ge> word_of_int KTIME_SEC_MAX then False
      else True)"

section \<open>Arithmetic\<close>

definition timespec64_add ::
  "(int \<Rightarrow> int \<Rightarrow> timespec64) \<Rightarrow> nat \<Rightarrow> timespec64 \<Rightarrow> timespec64 \<Rightarrow> timespec64 res" where
  "timespec64_add norm lw lhs rhs =
     r_bind (chk64 (tv_sec lhs + tv_sec rhs)) (\<lambda>s.
     r_bind (chk lw (tv_nsec lhs + tv_nsec rhs)) (\<lambda>ns. Inr (norm s ns)))"

definition timespec64_sub ::
  "(int \<Rightarrow> int \<Rightarrow> timespec64) \<Rightarrow> nat \<Rightarrow> timespec64 \<Rightarrow> timespec64 \<Rightarrow> timespec64 res" where
  "timespec64_sub norm lw lhs rhs =
     r_bind (chk64 (tv_sec lhs - tv_sec rhs)) (\<lambda>s.
     r_bind (chk lw (tv_nsec lhs - tv_nsec rhs)) (\<lambda>ns. Inr (norm s ns)))"

definition timespec64_to_ns :: "timespec64 \<Rightarrow> int res" where
  "timespec64_to_ns ts = r_bind (chk64 (tv_sec ts * NSEC_PER_SEC)) (\<lambda>s. chk64 (s + tv_nsec ts))"

section \<open>What they compute\<close>

text \<open>
  A time goes to the platform's type and back unchanged if and only if its seconds fit there.
\<close>

lemma timespec64_round_trip:
  "timespec_to_timespec64 (timespec64_to_timespec tw t) = t \<longleftrightarrow> fits tw (tv_sec t)"
  by (cases t) (simp add: timespec_to_timespec64_def timespec64_to_timespec_def to_signed_fits)

lemma itimerspec64_round_trip:
  "itimerspec_to_itimerspec64 (itimerspec64_to_itimerspec tw t) = t \<longleftrightarrow>
     fits tw (tv_sec (it_interval t)) \<and> fits tw (tv_sec (it_value t))"
  by (cases t) (simp add: itimerspec_to_itimerspec64_def itimerspec64_to_itimerspec_def timespec64_round_trip)

text \<open>With 32 bits the seconds end in the year 2038: the first second after is in 1901.\<close>

lemma timespec64_2038:
  "timespec64_to_timespec 32 \<lparr>tv_sec = 2147483648, tv_nsec = 5\<rparr> = \<lparr>tv_sec = - 2147483648, tv_nsec = 5\<rparr>"
  by (simp add: timespec64_to_timespec_def to_signed_def signed_take_bit_eq_take_bit_minus take_bit_int_def
      bit_iff_odd)

text \<open>The range of a nanosecond field in a \<^verbatim>\<open>long\<close> of at least 32 bits.\<close>

lemma take_bit_nsec:
  assumes "32 \<le> lw" "fits lw x"
  shows "take_bit lw x < NSEC_PER_SEC \<longleftrightarrow> 0 \<le> x \<and> x < NSEC_PER_SEC"
proof -
  have p: "(2 :: int) ^ 31 \<le> 2 ^ (lw - 1)" using assms(1) by (intro power_increasing) auto
  have d: "(2 :: int) ^ lw = 2 * 2 ^ (lw - 1)" using assms(1) by (cases lw) simp_all
  show ?thesis
  proof (cases "0 \<le> x")
    case True
    with assms(2) d have "take_bit lw x = x" by (simp add: take_bit_int_eq_self fits_def)
    with True show ?thesis by simp
  next
    case False
    then have "take_bit lw x = take_bit lw (x + 2 ^ lw)" by (simp add: take_bit_eq_mod)
    also have "\<dots> = x + 2 ^ lw"
      using False assms(2) d by (intro take_bit_int_eq_self) (auto simp: fits_def)
    finally have "take_bit lw x = x + 2 ^ lw" .
    moreover have "2 ^ 31 \<le> x + 2 ^ lw" using assms(2) p d by (simp add: fits_def)
    ultimately show ?thesis using False by simp
  qed
qed

lemma timespec64_valid_iff:
  assumes "32 \<le> lw" "fits lw (tv_nsec t)"
  shows "timespec64_valid lw t \<longleftrightarrow> 0 \<le> tv_sec t \<and> ts_norm t"
  using take_bit_nsec [OF assms] by (auto simp: timespec64_valid_def ts_norm_def not_le)

lemma timespec64_valid_strict_iff:
  assumes "32 \<le> lw" "fits lw (tv_nsec t)" "in_i64 (tv_sec t)"
  shows "timespec64_valid_strict lw t \<longleftrightarrow> ts_clock t"
proof -
  have "(word_of_int (tv_sec t) :: u64) \<ge> word_of_int KTIME_SEC_MAX \<longleftrightarrow> 9223372036 \<le> tv_sec t"
    if "0 \<le> tv_sec t"
    using that assms(3) by (simp add: word_le_def uint_word_of_int_eq take_bit_int_eq_self in_i64_def)
  then show ?thesis
    using timespec64_valid_iff [OF assms(1,2)] by (auto simp: timespec64_valid_strict_def ts_clock_def)
qed

text \<open>
  C36 (bounds): the strict test is what it is for: a time that passes it has a value in nanoseconds that does
  not overflow. The plain test does not do that.
\<close>

theorem timespec64_strict_to_ns:
  assumes "32 \<le> lw" "fits lw (tv_nsec t)" "in_i64 (tv_sec t)" "timespec64_valid_strict lw t"
  shows "timespec64_to_ns t = Inr (ts_ns t) \<and> 0 \<le> ts_ns t \<and> ts_ns t \<le> KTIME_MAX"
  using assms timespec64_valid_strict_iff [OF assms(1-3)]
  by (auto simp: timespec64_to_ns_def ts_defs in_i64_def)

lemma timespec64_strict_to_ns_witness:
  "timespec64_to_ns \<lparr>tv_sec = 9223372035, tv_nsec = 999999999\<rparr> = Inr 9223372035999999999"
  using timespec64_strict_to_ns [of 32 "\<lparr>tv_sec = 9223372035, tv_nsec = 999999999\<rparr>"]
  by (simp add: fits_def in_i64_def ts_ns_def timespec64_valid_strict_iff ts_clock_def ts_norm_def)

lemma timespec64_valid_overflows:
  "timespec64_valid 64 \<lparr>tv_sec = 9223372036, tv_nsec = 999999999\<rparr>"
  "timespec64_to_ns \<lparr>tv_sec = 9223372036, tv_nsec = 999999999\<rparr> = Inl IntOverflow"
  by (simp_all add: timespec64_valid_iff fits_def ts_norm_def timespec64_to_ns_def chk64_def in_i64_def)

text \<open>
  With a function that normalises as its callers expect, sums and differences of valid times
  are normalised and have the value of the sum and of the difference.
\<close>

definition normalises :: "(int \<Rightarrow> int \<Rightarrow> timespec64) \<Rightarrow> bool" where
  "normalises norm \<longleftrightarrow> (\<forall>s ns. ts_norm (norm s ns) \<and> ts_ns (norm s ns) = s * NSEC_PER_SEC + ns)"

lemma timespec64_add_sub_value:
  assumes "normalises norm" "32 \<le> lw" "ts_norm a" "ts_norm b" "\<bar>tv_sec a\<bar> < 2 ^ 62" "\<bar>tv_sec b\<bar> < 2 ^ 62"
  shows "r_ok (\<lambda>r. ts_norm r \<and> ts_ns r = ts_ns a + ts_ns b) (timespec64_add norm lw a b)"
    and "r_ok (\<lambda>r. ts_norm r \<and> ts_ns r = ts_ns a - ts_ns b) (timespec64_sub norm lw a b)"
proof -
  have p: "(2 :: int) ^ 31 \<le> 2 ^ (lw - 1)" using assms(2) by (intro power_increasing) auto
  have f: "fits lw (tv_nsec a + tv_nsec b)" "fits lw (tv_nsec a - tv_nsec b)"
    using assms(3,4) p by (simp_all add: fits_def ts_norm_def)
  have i: "in_i64 (tv_sec a + tv_sec b)" "in_i64 (tv_sec a - tv_sec b)"
    using assms(5,6) unfolding in_i64_def by (simp_all, linarith+)
  show "r_ok (\<lambda>r. ts_norm r \<and> ts_ns r = ts_ns a + ts_ns b) (timespec64_add norm lw a b)"
    using f i assms(1) by (simp add: timespec64_add_def chk_def normalises_def ts_ns_def)
  show "r_ok (\<lambda>r. ts_norm r \<and> ts_ns r = ts_ns a - ts_ns b) (timespec64_sub norm lw a b)"
    using f i assms(1) by (simp add: timespec64_sub_def chk_def normalises_def ts_ns_def)
qed

text \<open>The comparison of normalised times has the sign of the difference of their values.\<close>

lemma timespec64_compare_value:
  assumes "32 \<le> lw" "ts_norm a" "ts_norm b"
  shows "r_ok (\<lambda>c. (c < 0 \<longleftrightarrow> ts_ns a < ts_ns b) \<and> (c = 0 \<longleftrightarrow> timespec64_equal a b)) (timespec64_compare lw a b)"
proof -
  have p: "(2 :: int) ^ 31 \<le> 2 ^ (lw - 1)" using assms(1) by (intro power_increasing) auto
  have "fits lw (tv_nsec a - tv_nsec b)" "in_i32 (tv_nsec a - tv_nsec b)"
    using assms(2,3) p by (simp_all add: fits_def ts_norm_def in_i32_def)
  then show ?thesis
    using ts_norm_ns_less [OF assms(2,3)]
    by (auto simp: timespec64_compare_def chk_def timespec64_equal_def)
qed

lemma normalises_div_mod: "normalises (\<lambda>s ns. \<lparr>tv_sec = s + ns div NSEC_PER_SEC, tv_nsec = ns mod NSEC_PER_SEC\<rparr>)"
  by (simp add: normalises_def ts_norm_def ts_ns_def distrib_right)

end
