(* ===== verification/Timesp.thy ===== *)
theory Timesp
  imports Friend Misc Timespec
begin

text \<open>
  \<^verbatim>\<open>src/timesp.c\<close>: an earlier main program, kept beside the current one to try the
  clock. It has its own purge of friends, its own start and a loop that prints how long a sleep
  took; the lemmas compare the two purges.
\<close>

section \<open>The purge\<close>

text \<open>
  The library's answer to \<^verbatim>\<open>tox_friend_get_last_online\<close> is an argument: the time,
  \<open>None\<close> where the call reports an error.
\<close>

fun old_cleanup_loop ::
  "'t toxcore \<Rightarrow> ('t \<Rightarrow> u32 \<Rightarrow> u64 option) \<Rightarrow> u64 \<Rightarrow> u32 list \<Rightarrow> 't \<Rightarrow> 't" where
  "old_cleanup_loop api online curr_time [] tox = tox"
| "old_cleanup_loop api online curr_time (n # ns) tox =
     (case online tox n of
        None \<Rightarrow> old_cleanup_loop api online curr_time ns tox
      | Some seen \<Rightarrow>
          if curr_time - seen > 2629743
          then old_cleanup_loop api online curr_time ns (snd (tox_friend_delete api n tox))
          else old_cleanup_loop api online curr_time ns tox)"

definition old_friend_cleanup :: "'t toxcore \<Rightarrow> ('t \<Rightarrow> u32 \<Rightarrow> u64 option) \<Rightarrow> u64 \<Rightarrow> 't \<Rightarrow> 't" where
  "old_friend_cleanup api online curr_time tox =
     (let friends = tox_self_get_friend_list api tox in
      if length friends = 0 then tox else old_cleanup_loop api online curr_time friends tox)"

section \<open>Starting\<close>

record old_suit_info =
  osi_tox :: "nat option"
  osi_toxav :: "nat option"
  osi_start_time :: int
  osi_data_filename :: string
  osi_last_purge :: u64
  osi_friends :: "friend_info list"

text \<open>Whatever the record held before, if there was one, is overwritten.\<close>

definition old_suit_info_new :: "int \<Rightarrow> old_suit_info option \<Rightarrow> old_suit_info" where
  "old_suit_info_new now si =
     \<lparr>osi_tox = None, osi_toxav = None, osi_start_time = now, osi_data_filename = ''data.tox'',
      osi_last_purge = 0, osi_friends = []\<rparr>"

definition old_handle_signal :: "bool \<Rightarrow> bool" where
  "old_handle_signal signal_exit = True"

definition old_min :: "int \<Rightarrow> int list \<Rightarrow> int res" where
  "old_min arg_count args =
     (case args of [] \<Rightarrow> Inl OutOfBounds
      | a # rest \<Rightarrow> min_loop rest (nat (arg_count - 1)) a)"

section \<open>The loop\<close>

text \<open>
  One round for every pair of readings of the clock, before and after the sleep. The result
  is what the rounds print, as \<^verbatim>\<open>uint64_t\<close>; \<open>i\<close> counts down to the end of the loop.
\<close>

fun old_loop :: "nat \<Rightarrow> (timespec \<times> timespec) list \<Rightarrow> u64 list res" where
  "old_loop 0 ts = Inr []"
| "old_loop (Suc i) ts =
     (if i = 0 then Inr []
      else case ts of [] \<Rightarrow> Inr []
      | (tsprev, tpnow) # ts \<Rightarrow>
          r_bind (timespec_subtract tpnow tsprev) (\<lambda>el.
          r_bind (timespec_to_ns el) (\<lambda>ns.
          r_bind (old_loop i ts) (\<lambda>out. Inr (word_of_int ns # out)))))"

definition old_main :: "(timespec \<times> timespec) list \<Rightarrow> u64 list res" where
  "old_main ts = old_loop 10 ts"

section \<open>What they do\<close>

lemma old_cleanup_loop_eq:
  "(\<And>tox n m. online (snd (tox_friend_delete api n tox)) m = online tox m) \<Longrightarrow>
   old_cleanup_loop api online now ns tox =
     fold (\<lambda>n tox. snd (tox_friend_delete api n tox))
       (filter (\<lambda>n. case online tox n of None \<Rightarrow> False | Some lo \<Rightarrow> now - lo > 2629743) ns) tox"
  by (induction ns arbitrary: tox) (auto split: option.splits)

text \<open>
  The old purge deletes exactly the friends that were last seen more than a month ago, where
  the answers of the library do not depend on the friends deleted before. The difference is
  unsigned: a friend who was last seen after the clock was read, even by a second, is among them.
\<close>

lemma old_friend_cleanup_exact:
  assumes "\<And>tox n m. online (snd (tox_friend_delete api n tox)) m = online tox m"
  shows "old_friend_cleanup api online now tox =
    fold (\<lambda>n tox. snd (tox_friend_delete api n tox))
      (filter (\<lambda>n. case online tox n of None \<Rightarrow> False | Some lo \<Rightarrow> now - lo > 2629743)
        (tox_self_get_friend_list api tox)) tox"
  using old_cleanup_loop_eq [where online = online, OF assms] by (simp add: old_friend_cleanup_def Let_def)

lemma old_cleanup_seen_later:
  assumes "now < seen" "uint seen - uint now < 2 ^ 64 - 2629743"
  shows "now - seen > (2629743 :: u64)"
proof -
  have "uint (now - seen) = uint now - uint seen + 2 ^ 64"
    using assms(1) by (subst uint_sub_if') (auto simp: word_less_def)
  with assms(2) show ?thesis by (simp add: word_less_def)
qed

text \<open>The loop prints nine times at most, each time the nanoseconds between the readings.\<close>

lemma old_loop_exact:
  assumes "\<forall>(a, b)\<in>set ts. ts_clock a \<and> ts_clock b"
  shows "old_loop (Suc i) ts = Inr (map (\<lambda>(a, b). word_of_int (ts_ns b - ts_ns a)) (take i ts))"
  using assms
proof (induction i arbitrary: ts)
  case (Suc i)
  show ?case
  proof (cases ts)
    case (Cons t rest)
    obtain a b where t: "t = (a, b)" by (cases t)
    with Suc.prems Cons have ab: "ts_clock a" "ts_clock b" "\<forall>(a, b)\<in>set rest. ts_clock a \<and> ts_clock b" by auto
    from timespec_subtract_value [OF ab(2,1)] obtain d where "timespec_subtract b a = Inr d"
      by (auto simp: r_ok_iff)
    with timespec_subtract_clock [OF ab(2,1)] Suc.IH [OF ab(3)] show ?thesis
      by (simp add: Cons t)
  qed simp
qed simp

lemma old_main_exact:
  "\<forall>(a, b)\<in>set ts. ts_clock a \<and> ts_clock b \<Longrightarrow>
   old_main ts = Inr (map (\<lambda>(a, b). word_of_int (ts_ns b - ts_ns a)) (take 9 ts))"
  using old_loop_exact [of ts 9] by (simp add: old_main_def eval_nat_numeral)

end
