(* ===== verification/Memory_Safety.thy ===== *)
theory Memory_Safety
  imports Suit Fileop_Sharing Friend_Registry Call_Machine Tsfiles_Roundtrip
begin

text \<open>
  What the operations of every component keep of the state they share: the store of hash
  blocks, each with one owner among the transfers, the loaded transfers and the shared files,
  and the friend list of \<^verbatim>\<open>toxcore\<close>, which only the friend operations change. The
  judgement \<open>safe P m\<close> says that a computation uses no freed hash block and that its result, if
  it has one, satisfies \<open>P\<close>; there is one rule for every operation.
\<close>

section \<open>The judgement\<close>

named_theorems no_uaf \<open>computations that do not touch the store\<close>

definition safe :: "('a \<Rightarrow> bool) \<Rightarrow> 'a res \<Rightarrow> bool" where
  "safe P m \<longleftrightarrow> (case m of Inl e \<Rightarrow> e \<noteq> UseAfterFree | Inr x \<Rightarrow> P x)"

lemma safe_simps [simp]: "safe P (Inr x) = P x" "safe P (Inl e) \<longleftrightarrow> e \<noteq> UseAfterFree"
  by (simp_all add: safe_def)

lemma safe_bind: "safe P m \<Longrightarrow> (\<And>x. P x \<Longrightarrow> safe Q (f x)) \<Longrightarrow> safe Q (r_bind m f)"
  by (cases m) simp_all

lemma safe_mono: "safe P m \<Longrightarrow> (\<And>x. P x \<Longrightarrow> Q x) \<Longrightarrow> safe Q m"
  by (cases m) simp_all

lemma safe_conj: "safe P m \<Longrightarrow> (\<And>x. m = Inr x \<Longrightarrow> Q x) \<Longrightarrow> safe (\<lambda>x. P x \<and> Q x) m"
  by (cases m) simp_all

lemma safe_Inr: "m = Inr x \<Longrightarrow> safe P m \<Longrightarrow> P x"
  by simp

abbreviation nouaf :: "'a res \<Rightarrow> bool" where
  "nouaf m \<equiv> safe (\<lambda>_. True) m"

lemma safe_bind_pure: "nouaf m \<Longrightarrow> (\<And>x. m = Inr x \<Longrightarrow> safe Q (f x)) \<Longrightarrow> safe Q (r_bind m f)"
  by (cases m) simp_all

lemma safe_nouaf: "nouaf m \<Longrightarrow> (\<And>x. m = Inr x \<Longrightarrow> P x) \<Longrightarrow> safe P m"
  by (cases m) simp_all

lemma nouaf_safe: "safe P m \<Longrightarrow> nouaf m"
  by (cases m) simp_all

lemma nouaf_iff: "nouaf m \<longleftrightarrow> m \<noteq> Inl UseAfterFree"
  by (cases m) auto

lemma keeps_safe: "keeps others r \<longleftrightarrow> safe (queue_wf others) r"
  by (simp add: keeps_def safe_def)

section \<open>Computations without a store\<close>

lemma mem_store_safe [no_uaf]: "nouaf (mem_store m p bs)"
  by (simp add: mem_store_def)

lemma chk64_safe [no_uaf]: "nouaf (chk64 x)"
  by (simp add: chk64_def)

lemma rget_safe [no_uaf]: "nouaf (rget x)"
  by (simp add: rget_def split: option.splits)

lemma fget_safe [no_uaf]: "nouaf (fget field f)"
  by (simp add: fget_def split: option.splits)

lemma timespec_safe [no_uaf]:
  "nouaf (timespec_to_ns t)" "nouaf (timespec_subtract t u)" "nouaf (nanosec_timeout t u d)"
proof -
  show n: "nouaf (timespec_to_ns t)" for t by (simp add: timespec_to_ns_def chk64_def)
  show s: "nouaf (timespec_subtract t u)" for t u
    by (auto simp: timespec_subtract_def chk64_def)
  show "nouaf (nanosec_timeout t u d)"
    unfolding nanosec_timeout_def by (intro safe_bind_pure s n) simp
qed

lemma min_loop_safe: "nouaf (min_loop args n m)"
  by (induction args n m rule: min_loop.induct) simp_all

lemma min_args_safe [no_uaf]: "nouaf (min_args n args)"
  by (auto simp: min_args_def min_loop_safe split: list.splits)

lemma copy_text_safe [no_uaf]: "nouaf (copy_text g old sz txt)"
  by (auto simp: copy_text_def intro!: safe_bind_pure no_uaf split: option.splits)

lemma update_first_safe: "(\<And>e. nouaf (upd e)) \<Longrightarrow> nouaf (update_first P upd es)"
  by (induction es) (auto intro!: safe_bind_pure)

lemma friend_callbacks_safe [no_uaf]:
  "nouaf (friend_name_cb g n name len fs)" "nouaf (friend_status_message_cb g n msg len fs)"
  "nouaf (friend_status_cb n st fs)"
  by (auto simp: friend_name_cb_def friend_status_message_cb_def friend_status_cb_def
      intro!: update_first_safe safe_bind_pure no_uaf)

lemma friend_cleanup_safe [no_uaf]: "nouaf (friend_cleanup api timeout now tox fs)"
  by (simp add: friend_cleanup_eq)

lemma filesize_safe [no_uaf]: "nouaf (human_readable_filesize d sz)"
  by (simp add: nouaf_iff human_readable_filesize_no_uaf)

lemma readable_id_safe [no_uaf]: "nouaf (human_readable_id sod a n)"
  by (simp add: human_readable_id_def)

lemma node_path_safe [no_uaf]: "nouaf (node_path fn)"
  by (simp add: node_path_def split: option.splits)

lemma client_info_print_safe [no_uaf]: "nouaf (client_info_print ci)"
  by (simp add: client_info_print_def split: option.splits)

lemma friend_info_print_safe [no_uaf]: "nouaf (friend_info_print f)"
  by (auto simp: friend_info_print_def intro!: safe_bind_pure no_uaf)

lemma concat_res_safe: "list_all nouaf ms \<Longrightarrow> nouaf (concat_res ms)"
  by (induction ms) (auto intro!: safe_bind_pure)

lemma friends_info_print_safe [no_uaf]: "nouaf (friends_info_print ctime fs)"
  by (auto simp: friends_info_print_def friend_row_def list_all_iff
      intro!: safe_bind_pure concat_res_safe no_uaf)

lemma parse_words_safe: "nouaf (parse_words k args cmd)"
  by (induction k args cmd rule: parse_words.induct) (auto simp: Let_def intro!: safe_bind_pure no_uaf)

lemma parse_command_safe [no_uaf]: "nouaf (parse_command cmd args)"
  by (simp add: parse_command_def parse_words_safe)

lemma argexp_safe [no_uaf]: "nouaf (argexp m n c)"
  by (simp add: argexp_def Let_def split: list.splits)

lemma frame_samples_safe [no_uaf]: "nouaf (frame_samples from n xs)"
  by (simp add: frame_samples_def split: option.splits)

lemma audio_write_safe [no_uaf]: "nouaf (audio_write av dest rec files)"
  by (auto simp: audio_write_def intro!: safe_bind_pure no_uaf split: option.splits)

lemma update_tester_safe: "(\<And>ct. nouaf (upd ct)) \<Longrightarrow> nouaf (update_tester n upd cts)"
  by (induction cts) (auto intro!: safe_bind_pure)

lemma audio_receive_frame_safe [no_uaf]: "nouaf (audio_receive_frame n data cnt ch rate s)"
  by (auto simp: audio_receive_frame_def receive_frame_def Let_def intro!: safe_bind_pure update_tester_safe)

lemma recv_chunk_safe [no_uaf]: "nouaf (file_recv_chunk_cb n f pos data len w)"
  by (auto simp: file_recv_chunk_cb_def Let_def split: option.splits)

section \<open>The friend list\<close>

definition friends_in :: "'t toxcore \<Rightarrow> 't \<Rightarrow> u32 set" where
  "friends_in api t = set (tox_self_get_friend_list api t)"

text \<open>
  As documented, the calls for messages, files, groups and calls do not add or delete friends.
\<close>

definition quiet :: "'t toxcore \<Rightarrow> bool" where
  "quiet api \<longleftrightarrow>
     (\<forall>n ty m t. friends_in api (snd (tox_friend_send_message api n ty m t)) = friends_in api t) \<and>
     (\<forall>n k sz i nm t. friends_in api (snd (tox_file_send api n k sz i nm t)) = friends_in api t) \<and>
     (\<forall>n f p d t. friends_in api (tox_file_send_chunk api n f p d t) = friends_in api t) \<and>
     (\<forall>n f c t. friends_in api (snd (tox_file_control api n f c t)) = friends_in api t) \<and>
     (\<forall>n gr t. friends_in api (snd (tox_invite_friend api n gr t)) = friends_in api t) \<and>
     (\<forall>n a v t. friends_in api (snd (toxav_answer api n a v t)) = friends_in api t) \<and>
     (\<forall>n a v t. friends_in api (toxav_call api n a v t) = friends_in api t) \<and>
     (\<forall>n c t. friends_in api (toxav_call_control api n c t) = friends_in api t) \<and>
     (\<forall>n a v t. friends_in api (toxav_bit_rate_set api n a v t) = friends_in api t) \<and>
     (\<forall>n p k c r t. friends_in api (snd (toxav_audio_send_frame api n p k c r t)) = friends_in api t)"

lemma quietD:
  assumes "quiet api"
  shows "friends_in api (snd (tox_friend_send_message api n ty m t)) = friends_in api t"
    "friends_in api (snd (tox_file_send api n k sz i nm t)) = friends_in api t"
    "friends_in api (tox_file_send_chunk api n f p d t) = friends_in api t"
    "friends_in api (snd (tox_file_control api n f c t)) = friends_in api t"
    "friends_in api (snd (tox_invite_friend api n gr t)) = friends_in api t"
    "friends_in api (snd (toxav_answer api n a v t)) = friends_in api t"
    "friends_in api (toxav_call api n a v t) = friends_in api t"
    "friends_in api (toxav_call_control api n c t) = friends_in api t"
    "friends_in api (toxav_bit_rate_set api n a v t) = friends_in api t"
    "friends_in api (snd (toxav_audio_send_frame api n p2 k2 c2 r2 t)) = friends_in api t"
  using assms by (simp_all add: quiet_def)

lemma quiet_sample: "quiet sample"
  by (simp add: quiet_def friends_in_def sample_def)

section \<open>Transfers\<close>

text \<open>The state of the transfers with the friends \<open>F\<close>; \<open>others\<close> are the blocks of other parts.\<close>

definition world_ok :: "'t toxcore \<Rightarrow> u32 set \<Rightarrow> nat list \<Rightarrow> 't fstate \<Rightarrow> bool" where
  "world_ok api F others w \<longleftrightarrow> queue_wf others w \<and> friends_in api (w_tox w) = F"

lemma world_ok_update [simp]:
  "world_ok api F others (w\<lparr>w_fs := files\<rparr>) = world_ok api F others w"
  "friends_in api t = F \<Longrightarrow> world_ok api F others (w\<lparr>w_tox := t\<rparr>) = queue_wf others w"
  by (simp_all add: world_ok_def)

lemma world_okD: "world_ok api F others w \<Longrightarrow> queue_wf others w \<and> friends_in api (w_tox w) = F"
  by (simp add: world_ok_def)

lemma world_quiet:
  assumes "quiet api" "world_ok api F others w"
  shows "world_ok api F others (w\<lparr>w_tox := snd (tox_friend_send_message api n ty m (w_tox w))\<rparr>)"
    "world_ok api F others (w\<lparr>w_tox := snd (tox_invite_friend api n gr (w_tox w))\<rparr>)"
    "world_ok api F others (w\<lparr>w_tox := snd (tox_file_control api n f c (w_tox w))\<rparr>)"
    "world_ok api F others (w\<lparr>w_tox := snd (toxav_answer api n a v (w_tox w))\<rparr>)"
    "world_ok api F others (w\<lparr>w_tox := toxav_call api n a v (w_tox w)\<rparr>)"
    "world_ok api F others (w\<lparr>w_tox := toxav_call_control api n c (w_tox w)\<rparr>)"
    "world_ok api F others (w\<lparr>w_tox := toxav_bit_rate_set api n a v (w_tox w)\<rparr>)"
  using assms(2) by (simp_all add: world_ok_def quietD [OF assms(1)])

lemma announce_friends:
  assumes "quiet api" "announce api g f w = Inr (num, f', w')"
  shows "friends_in api (w_tox w') = friends_in api (w_tox w)"
proof (cases "fn_file (s_info f)")
  case (Some name)
  with assms(2) obtain hash where h: "load_hash (fn_BLAKE2b (s_info f)) (w_heap w) = Inr hash"
    by (auto simp: announce_def r_bind_eq_Inr)
  obtain k t where s: "tox_file_send api (s_friend_number f) (s_kind f)
      (word_of_int (fn_length (s_info f))) hash (cstr name) (w_tox w) = (k, t)" by fastforce
  with quietD(2) [OF assms(1), of "s_friend_number f" "s_kind f" "word_of_int (fn_length (s_info f))" hash
      "cstr name" "w_tox w"] have fr: "friends_in api t = friends_in api (w_tox w)" by simp
  have "w_tox w' = t"
  proof (cases "fn_BLAKE2b (s_info f)")
    case None
    obtain p h' where "alloc (case tox_file_get_file_id api t (s_friend_number f) k of
        Some b \<Rightarrow> b | None \<Rightarrow> map g [0..<TOX_FILE_ID_LENGTH]) (w_heap w) = (p, h')" by fastforce
    with assms(2) \<open>fn_file (s_info f) = Some name\<close> h s None show ?thesis by (auto simp: announce_def Let_def)
  next
    case (Some p)
    with assms(2) \<open>fn_file (s_info f) = Some name\<close> h s show ?thesis by (auto simp: announce_def Let_def)
  qed
  with fr show ?thesis by simp
qed (use assms in \<open>simp add: announce_def\<close>)

lemma add_filesender_friends:
  assumes "quiet api" "add_filesender api g f w = Inr (num, f', w')"
  shows "friends_in api (w_tox w') = friends_in api (w_tox w)"
  using assms announce_friends [OF assms(1)]
  by (fastforce simp: add_filesender_def case_prod_unfold Let_def split: option.splits)

lemma add_filesender_safe:
  assumes "quiet api" "owned (hash_of f @ ps) (w_heap w)"
  shows "safe (\<lambda>(_, f', w'). owned (hash_of f' @ ps) (w_heap w') \<and> w_senders w' = w_senders w \<and>
    friends_in api (w_tox w') = friends_in api (w_tox w)) (add_filesender api g f w)"
  using add_filesender_owned [OF assms(2), of api g] add_filesender_friends [OF assms(1), of g f w] by auto

lemma send_path_safe:
  assumes "quiet api" "world_ok api F others w"
  shows "safe (world_ok api F others) (send_path api g n path name w)"
proof (rule safe_mono [OF safe_conj])
  show "safe (queue_wf others) (send_path api g n path name w)"
    using send_path_keeps [of others w] assms(2) by (simp add: keeps_safe world_ok_def)
  show "friends_in api (w_tox w') = F" if "send_path api g n path name w = Inr w'" for w'
    using that add_filesender_friends [OF assms(1)] assms(2)
    by (auto simp: send_path_def r_bind_eq_Inr world_ok_def)
qed (simp add: world_ok_def)

lemma pack_list_safe:
  assumes "quiet api" "world_ok api F others w" "packn < 0"
  shows "safe (\<lambda>(_, w). world_ok api F others w) (file_sender_new api g n shr packn w)"
proof -
  have "safe (queue_wf others) (r_bind (file_sender_new api g n shr packn w) (\<lambda>(_, w). Inr w))"
    using pack_list_keeps [of others w packn api g n shr] assms(2,3) by (simp add: keeps_safe world_ok_def)
  then have q: "safe (\<lambda>(_, w). queue_wf others w) (file_sender_new api g n shr packn w)"
    by (cases "file_sender_new api g n shr packn w") auto
  have f: "friends_in api (w_tox w') = F" if "file_sender_new api g n shr packn w = Inr (rc, w')" for rc w'
    using that assms(2,3) add_filesender_friends [OF assms(1)]
    by (auto simp: file_sender_new_def start_sender_def Let_def r_bind_eq_Inr world_ok_def split: option.splits)
  show ?thesis
    by (rule safe_mono [OF safe_conj [OF q, of "\<lambda>(_, w). friends_in api (w_tox w) = F"]])
      (use f in \<open>auto simp: world_ok_def\<close>)
qed

lemma chunk_request_safe:
  assumes "quiet api" "world_ok api F others w"
  shows "safe (world_ok api F others) (file_chunk_request_cb api n f pos len w)"
proof (rule safe_mono [OF safe_conj])
  show "safe (queue_wf others) (file_chunk_request_cb api n f pos len w)"
    using chunk_request_keeps [of others w] assms(2) by (simp add: keeps_safe world_ok_def)
  show "friends_in api (w_tox w') = F" if "file_chunk_request_cb api n f pos len w = Inr w'" for w'
    using that assms(2) quietD(3) [OF assms(1)]
    by (auto simp: file_chunk_request_cb_def Let_def r_bind_eq_Inr world_ok_def split: option.splits if_splits)
qed (simp add: world_ok_def)

lemma recv_control_safe:
  assumes "world_ok api F others w"
  shows "safe (world_ok api F others) (file_recv_control_cb n f c w)"
proof (rule safe_mono [OF safe_conj])
  show "safe (queue_wf others) (file_recv_control_cb n f c w)"
    using destroy_keeps [of others w] assms by (simp add: keeps_safe world_ok_def file_recv_control_cb_def)
  show "friends_in api (w_tox w') = F" if "file_recv_control_cb n f c w = Inr w'" for w'
    using that assms by (auto simp: file_recv_control_cb_def r_bind_eq_Inr world_ok_def split: if_splits)
qed (simp add: world_ok_def)

lemma recv_ok: "quiet api \<Longrightarrow> world_ok api F others w \<Longrightarrow> world_ok api F others (file_recv_cb api n f k w)"
  by (simp add: file_recv_cb_def world_quiet)

lemma recv_chunk_ok: "world_ok api F others w \<Longrightarrow> safe (world_ok api F others) (file_recv_chunk_cb n f pos data len w)"
  by (auto simp: file_recv_chunk_cb_def Let_def split: option.splits)

text \<open>Resuming moves senders from the loaded queue to the active one, with their blocks.\<close>

lemma resume_send_safe:
  assumes "quiet api" "world_ok api F (hashes loaded @ others) w"
  shows "safe (\<lambda>(loaded, w). world_ok api F (hashes loaded @ others) w) (resume_send api g n loaded w)"
  using assms(2)
proof (induction loaded arbitrary: w)
  case (Cons f loaded)
  show ?case
  proof (cases "s_friend_number f = n")
    case True
    have "owned (hash_of f @ hashes (w_senders w) @ hashes loaded @ others) (w_heap w)"
      using Cons.prems owned_swap [of "hash_of f" "hashes (w_senders w)"] by (simp add: world_ok_def queue_wf_def)
    note a = add_filesender_safe [OF assms(1) this, of g]
    show ?thesis unfolding resume_send.simps using True
    proof (simp, intro safe_bind [OF a])
      fix x :: "u32 \<times> file_sender \<times> 'a fstate"
      obtain num f' w' where x: "x = (num, f', w')" by (cases x)
      assume "case x of (_, f', w') \<Rightarrow> owned (hash_of f' @ hashes (w_senders w) @ hashes loaded @ others) (w_heap w') \<and>
        w_senders w' = w_senders w \<and> friends_in api (w_tox w') = friends_in api (w_tox w)"
      then have o: "owned (hash_of f' @ hashes (w_senders w) @ hashes loaded @ others) (w_heap w')"
        and q: "w_senders w' = w_senders w" and fr: "friends_in api (w_tox w') = F"
        using Cons.prems by (simp_all add: x world_ok_def)
      then have "world_ok api F (hashes loaded @ others) (w'\<lparr>w_senders := f' # w_senders w'\<rparr>)"
        by (simp add: world_ok_def queue_wf_def)
      from Cons.IH [OF this] show "safe (\<lambda>(loaded, w). world_ok api F (hashes loaded @ others) w)
        (case x of (_, f, w) \<Rightarrow> resume_send api g n loaded (w\<lparr>w_senders := f # w_senders w\<rparr>))"
        by (simp add: x)
    qed
  qed (use Cons in simp)
qed simp

section \<open>Calls\<close>

lemma add_entry_world:
  "world_ok api F others (c_w (call_tester_add_entry av n s)) = world_ok api F others (c_w s)"
  by (auto simp: call_tester_add_entry_def case_prod_unfold Let_def split: option.splits)

lemma call_world: "quiet api \<Longrightarrow> world_ok api F others (c_w s) \<Longrightarrow> world_ok api F others (c_w (call api av n a v s))"
  by (simp add: call_def case_prod_unfold Let_def add_entry_world world_quiet)

lemma call_state_world:
  "quiet api \<Longrightarrow> world_ok api F others (c_w s) \<Longrightarrow> world_ok api F others (c_w (call_state api av n st s))"
  by (simp add: call_state_def Let_def add_entry_world world_quiet split: option.splits)

lemma control_world: "quiet api \<Longrightarrow> world_ok api F others w \<Longrightarrow> world_ok api F others (control api ct c w)"
  by (simp add: control_def world_quiet)

lemma playback_safe:
  assumes "quiet api"
  shows "safe (\<lambda>(_, _, t'). friends_in api t' = friends_in api t) (audio_playback api ct rec t)"
  using quietD(10) [OF assms]
  by (auto simp: audio_playback_def Let_def case_prod_unfold intro!: safe_bind_pure no_uaf split: option.splits)

lemma greeter_safe:
  assumes "quiet api" "world_ok api F others w"
  shows "safe (\<lambda>(_, w). world_ok api F others w) (do_greeter api gr tp ct w)"
  unfolding do_greeter_def
  by (rule safe_bind [OF playback_safe [OF assms(1)]])
    (use assms in \<open>auto simp: Let_def control_def quietD(8) world_ok_def\<close>)

lemma echoing_safe:
  assumes "quiet api" "world_ok api F others w"
  shows "safe (\<lambda>(_, w). world_ok api F others w) (do_echoing api ct w)"
  unfolding do_echoing_def
  by (rule safe_bind [OF playback_safe [OF assms(1)]])
    (use assms in \<open>auto simp: Let_def world_ok_def\<close>)

lemma one_shot_safe:
  assumes "quiet api" "world_ok api F others w"
  shows "safe (\<lambda>(_, w). world_ok api F others w) (calltest_iterate_one_shot api av g gr tp ct w)"
proof -
  have stay: "safe (\<lambda>(_, w). world_ok api F others w) (r_bind m (\<lambda>(ct, w). Inr (Some ct, w)))"
    if "safe (\<lambda>(_, w). world_ok api F others w) m" for m :: "(call_tester \<times> 'a fstate) res"
    using that by (cases m) auto
  have e: "world_ok api F others (snd (do_entering api ct w))"
    using assms by (simp add: do_entering_def Let_def control_world)
  have r: "safe (\<lambda>(_, w). world_ok api F others w) (do_recording api tp ct w)"
    using assms by (auto simp: do_recording_def control_world intro!: safe_bind_pure no_uaf)
  have v: "safe (\<lambda>(_, w). world_ok api F others w) (do_saving av ct w)"
    using assms(2) by (auto simp: do_saving_def intro!: safe_bind_pure no_uaf)
  have d: "safe (\<lambda>(_, w). world_ok api F others w) (do_sending api g ct w)"
    unfolding do_sending_def by (rule safe_bind [OF send_path_safe [OF assms]]) simp
  show ?thesis
    using stay [OF greeter_safe [OF assms(1) e]] stay [OF greeter_safe [OF assms]] stay [OF r] stay [OF v]
      stay [OF d] stay [OF echoing_safe [OF assms]] control_world [OF assms]
    by (cases "step ct") (simp_all add: calltest_iterate_one_shot_def case_prod_unfold Let_def)
qed

lemma iterate_testers_safe:
  "quiet api \<Longrightarrow> world_ok api F others w \<Longrightarrow>
   safe (\<lambda>(_, w). world_ok api F others w) (iterate_testers api av g gr tp cts w)"
proof (induction cts arbitrary: w)
  case (Cons ct cts)
  show ?case unfolding iterate_testers.simps
  proof (rule safe_bind [OF one_shot_safe [OF Cons.prems]])
    fix x :: "call_tester option \<times> 'a fstate"
    assume "case x of (_, w) \<Rightarrow> world_ok api F others w"
    then have "safe (\<lambda>(_, w). world_ok api F others w) (iterate_testers api av g gr tp cts (snd x))"
      using Cons.IH [OF Cons.prems(1)] by (simp add: case_prod_unfold)
    then show "safe (\<lambda>(_, w). world_ok api F others w)
      (case x of (r, w) \<Rightarrow> r_bind (iterate_testers api av g gr tp cts w)
        (\<lambda>(cts, w). Inr (case r of None \<Rightarrow> cts | Some ct \<Rightarrow> ct # cts, w)))"
      by (cases "iterate_testers api av g gr tp cts (snd x)") (auto simp: case_prod_unfold)
  qed
qed simp

lemma calltest_iterate_safe:
  assumes "quiet api" "world_ok api F others (c_w s)"
  shows "safe (\<lambda>s'. world_ok api F others (c_w s')) (calltest_iterate api av g tp s)"
  unfolding calltest_iterate_def by (rule safe_bind [OF iterate_testers_safe [OF assms]]) auto

section \<open>Shared files\<close>

text \<open>
  A computation that owns the blocks \<open>ps\<close> changes and frees only those, and afterwards owns
  \<open>ps'\<close>, some of them and some new ones.
\<close>

definition confined :: "nat list \<Rightarrow> heap \<Rightarrow> nat list \<Rightarrow> heap \<Rightarrow> bool" where
  "confined ps h ps' h' \<longleftrightarrow> brk h \<le> brk h' \<and> (\<forall>q. q < brk h \<and> q \<notin> set ps \<longrightarrow> blk h' q = blk h q) \<and>
     (\<forall>q\<in>set ps'. q \<in> set ps \<or> brk h \<le> q)"

lemma confined_same: "set ps' \<subseteq> set ps \<Longrightarrow> confined ps h ps' h"
  by (auto simp: confined_def)

lemma confined_trans:
  assumes "confined ps h ps1 h1" "confined ps1 h1 ps2 h2"
  shows "confined ps h ps2 h2"
  unfolding confined_def
proof (intro conjI allI ballI impI)
  show "brk h \<le> brk h2" using assms by (simp add: confined_def)
  show "blk h2 q = blk h q" if "q < brk h \<and> q \<notin> set ps" for q
  proof -
    have "q \<notin> set ps1" "q < brk h1" using assms(1) that by (auto simp: confined_def)
    with assms that show ?thesis by (simp add: confined_def)
  qed
  show "q \<in> set ps \<or> brk h \<le> q" if "q \<in> set ps2" for q
    using assms that by (fastforce simp: confined_def)
qed

lemma confined_owned:
  assumes "owned (ps @ others) h" "owned ps' h'" "confined ps h ps' h'"
  shows "owned (ps' @ others) h'"
proof -
  have o: "q < brk h" "q \<notin> set ps" "blk h q \<noteq> None" if "q \<in> set others" for q
    using assms(1) that by (auto simp: owned_def)
  then have "q \<notin> set ps'" "q < brk h'" "blk h' q \<noteq> None" if "q \<in> set others" for q
    using assms(3) that by (fastforce simp: confined_def)+
  with assms(1,2) show ?thesis by (auto simp: owned_def)
qed

definition op_confined :: "op_state \<Rightarrow> op_state \<Rightarrow> bool" where
  "op_confined w w' \<longleftrightarrow>
     confined (node_hashes (shr_list w)) (op_heap w) (node_hashes (shr_list w')) (op_heap w')"

lemma op_confined_same:
  "set (node_hashes (shr_list w')) \<subseteq> set (node_hashes (shr_list w)) \<Longrightarrow> op_heap w' = op_heap w \<Longrightarrow> op_confined w w'"
  by (simp add: op_confined_def confined_same)

lemma op_confined_trans: "op_confined w1 w2 \<Longrightarrow> op_confined w2 w3 \<Longrightarrow> op_confined w1 w3"
  unfolding op_confined_def by (rule confined_trans)

lemma those_res_hashes:
  "those_res (map f xs) = Inr ys \<Longrightarrow> (\<And>x y. f x = Inr y \<Longrightarrow> node_hash y = node_hash x) \<Longrightarrow>
   node_hashes ys = node_hashes xs"
  by (induction xs arbitrary: ys) (auto simp: r_bind_eq_Inr)

lemma exists_shared_confined: "file_exists_shared w = Inr w' \<Longrightarrow> op_confined w w'"
  by (rule op_confined_same)
    (auto simp: file_exists_shared_def r_bind_eq_Inr node_hash_def dest!: those_res_hashes)

lemma walk_callback_same:
  "file_walk_callback path mtime sz type w = Inr (rc, w') \<Longrightarrow> shr_list w' = shr_list w \<and> op_heap w' = op_heap w"
  by (auto simp: file_walk_callback_def r_bind_eq_Inr split: if_splits option.splits)

lemma ftw_same: "ftw es w = Inr (rc, w') \<Longrightarrow> shr_list w' = shr_list w \<and> op_heap w' = op_heap w"
proof (induction es w rule: ftw.induct)
  case (2 path mtime sz type entries w)
  then obtain rc1 w1 where 1: "file_walk_callback path mtime sz type w = Inr (rc1, w1)"
    "(if rc1 \<noteq> 0 then Inr (rc1, w1) else ftw entries w1) = Inr (rc, w')" by (auto simp: r_bind_eq_Inr)
  show ?case
  proof (cases "rc1 = 0")
    case True
    with 2(1) [of "(rc1, w1)" rc1 w1] 1 walk_callback_same [OF 1(1)] show ?thesis by simp
  qed (use 1 walk_callback_same [OF 1(1)] in simp)
qed simp

lemma walk_shared_confined: "file_walk_shared walk w = Inr (rc, w') \<Longrightarrow> op_confined w w'"
  by (rule op_confined_same)
    (auto simp: file_walk_shared_def r_bind_eq_Inr dest!: ftw_same split: option.splits if_splits)

lemma node_hashes_update_sub:
  "set (node_hashes (l[t := x])) \<subseteq> set (node_hashes l) \<union> set (node_hash x)"
  using set_update_subset_insert [of l t x] by (force simp: node_hashes_def)

lemma take_new_confined:
  assumes wf: "op_wf w" and ne: "new_list w \<noteq> []" and r: "file_take_new g w = Inr w'"
  shows "op_confined w w'"
proof -
  define new where "new = last (new_list w)"
  have h: "node_hash new = []" using wf ne by (auto simp: op_wf_def new_def list_all_iff node_hash_def)
  have l: "new_list w ! (length (new_list w) - 1) = new" using ne by (simp add: last_conv_nth new_def)
  from r obtain n w1 where 1: "shared_index new w = Inr n" "place_new new n w = Inr w1"
    unfolding file_take_new_def Let_def l by (auto simp: r_bind_eq_Inr)
  obtain p h' where a: "alloc (map g [0..<TOX_FILE_ID_LENGTH]) (op_heap w1) = (p, h')" by fastforce
  have c1: "op_confined w w1"
  proof (cases n)
    case None
    with 1 h show ?thesis by (intro op_confined_same) (auto simp: place_new_def)
  next
    case (Some t)
    with 1 obtain h1 where f: "free_opt (fn_BLAKE2b (shr_list w ! t)) (op_heap w) = Inr h1"
      and w1: "op_heap w1 = h1" "shr_list w1 = (shr_list w)[t := new]" by (auto simp: place_new_def r_bind_eq_Inr)
    have t: "t < length (shr_list w)"
    proof -
      have "\<forall>fn\<in>set (shr_list w). r_bind (node_path new) (\<lambda>a. r_bind (node_path fn) (\<lambda>b. Inr (a = b)))
          = Inr (path_of new = path_of fn)"
        using wf ne by (auto simp: op_wf_def list_all_iff node_path_has_file new_def)
      from find_index_res_pure [OF this, of 0] 1(1) Some show ?thesis by (auto simp: shared_index_def)
    qed
    have sub: "set (node_hashes ((shr_list w)[t := new])) \<subseteq> set (node_hashes (shr_list w))"
      using node_hashes_update_sub [of "shr_list w" t new] h by simp
    have "confined (node_hashes (shr_list w)) (op_heap w) (node_hashes ((shr_list w)[t := new])) h1"
    proof (cases "fn_BLAKE2b (shr_list w ! t)")
      case None
      with f sub show ?thesis by (simp add: free_opt_def confined_same)
    next
      case (Some q)
      from f Some have "brk h1 = brk (op_heap w)" "blk h1 = (blk (op_heap w))(q := None)"
        by (auto simp: free_opt_def free_block_def split: option.splits)
      with sub node_hashes_mem [OF t Some] show ?thesis by (auto simp: confined_def)
    qed
    with w1 show ?thesis by (simp add: op_confined_def)
  qed
  have w': "op_heap w' = h'" "shr_list w' = (shr_list w1)[last_one w1 := (shr_list w1 ! last_one w1)\<lparr>fn_BLAKE2b := Some p\<rparr>]"
    using r 1 a unfolding file_take_new_def Let_def l by auto
  have "op_confined w1 w'"
    using a node_hashes_update_sub [of "shr_list w1" "last_one w1" "(shr_list w1 ! last_one w1)\<lparr>fn_BLAKE2b := Some p\<rparr>"]
    by (auto simp: op_confined_def confined_def w' alloc_def node_hash_def)
  with c1 show ?thesis by (rule op_confined_trans)
qed

lemma store_block_effect:
  "store_block p bs h = Inr h' \<Longrightarrow> brk h' = brk h \<and> (\<forall>q. q \<noteq> p \<longrightarrow> blk h' q = blk h q)"
  by (cases "blk h p") (auto simp: store_block_def)

lemma checksum_confined:
  assumes "file_checksumcalc_noblock sod g p path w = Inr (rc, w')" "p \<in> set (node_hashes (shr_list w))"
  shows "op_confined w w'"
proof (cases "case ck_file w of Some f \<Rightarrow> Some (f, ck_state w)
    | None \<Rightarrow> map_option (\<lambda>f. (f, [])) (fopen_read path (op_fs w))")
  case None
  with assms(1) show ?thesis by (auto simp: file_checksumcalc_noblock_def intro: op_confined_same)
next
  case (Some x)
  obtain f state where x: "x = (f, state)" by fastforce
  show ?thesis
  proof (cases "fread_at f HASHING_BUFSIZE (op_fs w) = []")
    case False
    with assms(1) Some x show ?thesis
      by (auto simp: file_checksumcalc_noblock_def Let_def intro: op_confined_same)
  next
    case True
    with assms(1) Some x obtain h where h: "store_block p (crypto_generichash sod state) (op_heap w) = Inr h"
      "op_heap w' = h" "shr_list w' = shr_list w" by (auto simp: file_checksumcalc_noblock_def Let_def r_bind_eq_Inr)
    then have "brk h = brk (op_heap w)" "\<forall>q. q \<noteq> p \<longrightarrow> blk h q = blk (op_heap w) q"
      using store_block_effect [OF h(1)] by simp_all
    with h assms(2) show ?thesis by (auto simp: op_confined_def confined_def)
  qed
qed

lemma hash_step_confined:
  assumes "file_hash_step sod g w = Inr (rc, w')"
  shows "op_confined w w'"
proof -
  have l: "last_one w < length (shr_list w)" using assms by (auto simp: file_hash_step_def split: if_splits)
  with assms obtain p where p: "fn_BLAKE2b (shr_list w ! last_one w) = Some p"
    by (auto simp: file_hash_step_def Let_def split: option.splits)
  define post where "post rc w1 = (if rc \<le> 0
      then (let w = w1\<lparr>hashing := - 1\<rparr>; w = (if new_list w = [] then w\<lparr>file_recheck := False\<rparr> else w) in
            if file_new_c w then w\<lparr>notified := notified w @ [(shr_list w ! last_one w, int (last_one w))]\<rparr> else w)
      else w1)" for rc :: int and w1 :: op_state
  have post: "shr_list (post rc w1) = shr_list w1" "op_heap (post rc w1) = op_heap w1" for rc w1
    by (simp_all add: post_def Let_def)
  have "file_hash_step sod g w = r_bind (node_path (shr_list w ! last_one w)) (\<lambda>path.
      r_bind (file_checksumcalc_noblock sod g p path w) (\<lambda>(rc, w1). Inr (if rc < 0 then - 1 else 0, post rc w1)))"
    using l p unfolding file_hash_step_def post_def by (simp add: Let_def)
  with assms obtain path rc1 w1 where 1: "file_checksumcalc_noblock sod g p path w = Inr (rc1, w1)" "w' = post rc1 w1"
    by (auto simp: r_bind_eq_Inr)
  have "op_confined w w1" by (rule checksum_confined [OF 1(1) node_hashes_mem [OF l p]])
  with 1(2) post show ?thesis by (simp add: op_confined_def)
qed

lemma file_do_confined:
  assumes wf: "op_wf w" and r: "file_do sod g walk w = Inr (rc, w')"
  shows "op_confined w w'"
proof -
  define walks where "walks \<longleftrightarrow> file_recheck w \<and> new_list w = [] \<and> hashing w = - 1"
  from r obtain w1 w2 where
    1: "(if walks then r_bind (file_exists_shared w) (\<lambda>w. r_bind (file_walk_shared walk w) (\<lambda>(_, w). Inr w))
         else Inr w) = Inr w1" and
    2: "(if new_list w1 \<noteq> [] \<and> hashing w1 = - 1 then file_take_new g w1 else Inr w1) = Inr w2" and
    3: "(if 0 \<le> hashing w2 then file_hash_step sod g w2 else Inr (0, w2)) = Inr (rc, w')"
    unfolding file_do_def walks_def [symmetric] r_bind_eq_Inr by blast
  have c1: "op_confined w w1 \<and> op_wf w1"
  proof (cases walks)
    case True
    with 1 obtain wa rc1 where a: "file_exists_shared w = Inr wa" "file_walk_shared walk wa = Inr (rc1, w1)"
      by (auto simp: r_bind_eq_Inr)
    with file_exists_shared_wf [OF wf] have "op_wf wa" by auto
    with file_walk_shared_wf [of wa walk] a have "op_wf w1" by auto
    with op_confined_trans [OF exists_shared_confined [OF a(1)] walk_shared_confined [OF a(2)]] show ?thesis by simp
  qed (use 1 wf in \<open>simp add: op_confined_same\<close>)
  have c2: "op_confined w1 w2"
    using 2 take_new_confined [of w1 g w2] c1 by (cases "new_list w1 \<noteq> [] \<and> hashing w1 = - 1") (auto simp: op_confined_same)
  have "op_confined w2 w'"
    using 3 hash_step_confined [of sod g w2] by (cases "0 \<le> hashing w2") (auto simp: op_confined_same)
  with c1 c2 op_confined_trans show ?thesis by blast
qed

end
