(* ===== verification/System.thy ===== *)
theory System
  imports Memory_Safety Command_Properties
begin

text \<open>
  The components together: what holds of the state of the whole program
  (\<^verbatim>\<open>struct suit_info\<close> and the static variables of the files) from the moment that
  \<^verbatim>\<open>main\<close> enters the polling loop until it leaves it. The invariant \<open>suit_ok\<close> joins
  those of the components; every callback, command and pass of the loop keeps it and uses no
  freed hash block, as long as no friend sends one of the two commands that break it.
\<close>

section \<open>The invariant\<close>

text \<open>The hash blocks that do not belong to the active transfers.\<close>

definition parts :: "'t suit \<Rightarrow> nat list" where
  "parts s = hashes (su_loaded s) @ node_hashes (shr_list (su_op s))"

definition suit_ok :: "'t toxcore \<Rightarrow> 't suit \<Rightarrow> bool" where
  "suit_ok api s \<longleftrightarrow> agrees api (su_tox s, su_friends s) \<and> calls_ok (su_calls s) \<and>
     op_wf ((su_op s)\<lparr>op_heap := w_heap (su_w s)\<rparr>) \<and> queue_wf (parts s) (su_w s)"

lemma su_w_other [simp]:
  "su_w (s\<lparr>su_friends := fs\<rparr>) = su_w s" "su_w (s\<lparr>su_op := ops\<rparr>) = su_w s" "su_w (s\<lparr>su_loaded := l\<rparr>) = su_w s"
  "su_w (s\<lparr>su_save := b\<rparr>) = su_w s" "su_w (s\<lparr>su_xdcc := b\<rparr>) = su_w s" "su_w (s\<lparr>su_exit := b\<rparr>) = su_w s"
  "su_w (s\<lparr>su_calls := c\<rparr>) = c_w c"
  by (simp_all add: su_w_def)

lemma parts_other [simp]:
  "parts (s\<lparr>su_friends := fs\<rparr>) = parts s" "parts (s\<lparr>su_save := b\<rparr>) = parts s" "parts (s\<lparr>su_xdcc := b\<rparr>) = parts s"
  "parts (s\<lparr>su_exit := b\<rparr>) = parts s" "parts (s\<lparr>su_calls := c\<rparr>) = parts s" "parts (set_w w s) = parts s"
  "parts (set_tox t s) = parts s"
  by (simp_all add: parts_def set_w_def set_tox_def)

lemma calls_set_w [simp]: "calls_ok (su_calls (set_w w s)) = calls_ok (su_calls s)"
  by (simp add: set_w_def)

abbreviation friends_of :: "'t suit \<Rightarrow> u32 set" where
  "friends_of s \<equiv> set (numbers (su_friends s))"

lemma suit_ok_iff:
  "suit_ok api s \<longleftrightarrow> registry_ok (su_friends s) \<and> world_ok api (friends_of s) (parts s) (su_w s) \<and>
     calls_ok (su_calls s) \<and> op_wf ((su_op s)\<lparr>op_heap := w_heap (su_w s)\<rparr>)"
  by (auto simp: suit_ok_def agrees_def world_ok_def friends_in_def su_tox_def)

lemma suit_world: "suit_ok api s \<Longrightarrow> world_ok api (friends_of s) (parts s) (su_w s)"
  by (simp add: suit_ok_iff)

lemma op_wf_heap:
  "op_wf (ops\<lparr>op_heap := h\<rparr>) \<Longrightarrow> owned (node_hashes (shr_list ops)) h' \<Longrightarrow> op_wf (ops\<lparr>op_heap := h'\<rparr>)"
  by (simp add: op_wf_def)

lemma owned_parts: "queue_wf (parts s) w \<Longrightarrow> owned (node_hashes (shr_list (su_op s))) (w_heap w)"
  by (auto simp: queue_wf_def parts_def owned_def)

text \<open>Replacing one part of the state.\<close>

lemma suit_set_calls:
  assumes "suit_ok api s" "calls_ok c" "world_ok api (friends_of s) (parts s) (c_w c)"
  shows "suit_ok api (s\<lparr>su_calls := c\<rparr>)"
  using assms op_wf_heap owned_parts [of s "c_w c"] by (auto simp: suit_ok_iff world_ok_def)

lemma suit_set_w:
  assumes "suit_ok api s" "world_ok api (friends_of s) (parts s) w"
  shows "suit_ok api (set_w w s)"
  unfolding set_w_def using assms by (intro suit_set_calls) (simp_all add: suit_ok_iff)

lemma suit_set_tox:
  assumes "suit_ok api s" "friends_in api t = friends_in api (su_tox s)"
  shows "suit_ok api (set_tox t s)"
  unfolding set_tox_def using assms by (intro suit_set_w) (auto simp: suit_ok_iff world_ok_def su_tox_def queue_wf_def)

lemma suit_set_friends:
  assumes "suit_ok api s" "numbers fs = numbers (su_friends s)"
  shows "suit_ok api (s\<lparr>su_friends := fs\<rparr>)"
  using assms by (simp add: suit_ok_iff registry_ok_def)

lemma suit_flags [simp]:
  "suit_ok api (s\<lparr>su_save := b\<rparr>) = suit_ok api s" "suit_ok api (s\<lparr>su_xdcc := b\<rparr>) = suit_ok api s"
  "suit_ok api (s\<lparr>su_exit := b\<rparr>) = suit_ok api s"
  by (simp_all add: suit_ok_iff)

text \<open>Friends that were added or deleted in both places.\<close>

lemma suit_new_friends:
  assumes "suit_ok api s" "agrees api (t, fs)"
  shows "suit_ok api ((set_tox t s)\<lparr>su_friends := fs\<rparr>)"
  using assms
  by (auto simp: suit_ok_iff agrees_def world_ok_def friends_in_def queue_wf_def set_tox_def)

section \<open>Messages\<close>

text \<open>What a message asks for: the options it has, and whether it requests a pack.\<close>

definition asks :: "char \<Rightarrow> string \<Rightarrow> nat \<Rightarrow> bool" where
  "asks c message len \<longleftrightarrow> (case argexp message len (CHR ''!'') of
     Inr (Some argv) \<Rightarrow> c \<in> fst ` set (fst (getopt_long (tl argv))) | _ \<Rightarrow> False)"

definition pack_request :: "string \<Rightarrow> bool" where
  "pack_request message \<longleftrightarrow>
     (case parse_command message (replicate (MAX_ARGS_NUM * MAX_ARGS_SIZE) NUL) of
        Inl _ \<Rightarrow> False | Inr (_, args) \<Rightarrow> arg args 0 = ''send'' \<and> 0 \<le> atoi (arg args 1))"

text \<open>The file server cuts the message at its first blank before the rest of the callback reads it.\<close>

definition peaceful_message :: "string \<Rightarrow> nat \<Rightarrow> bool" where
  "peaceful_message message len \<longleftrightarrow> \<not> pack_request message \<and> \<not> asks (CHR ''g'') message len \<and>
     \<not> asks (CHR ''g'') (takeWhile (\<lambda>c. c \<noteq> CHR '' '') (cstr message) @ [NUL]) len"

fun peaceful :: "tox_event \<Rightarrow> bool" where
  "peaceful (FriendMessage n message len) = peaceful_message message len"
| "peaceful _ = True"

primrec ends_ok :: "('s \<Rightarrow> bool) \<Rightarrow> 's outcome \<Rightarrow> bool" where
  "ends_ok P (Running s) = P s"
| "ends_ok P (Exited code s) = P s"

lemma send_text_ok: "quiet api \<Longrightarrow> suit_ok api s \<Longrightarrow> suit_ok api (send_text api n txt s)"
  by (simp add: send_text_def suit_set_tox quietD(1))

lemma invite_ok: "quiet api \<Longrightarrow> suit_ok api s \<Longrightarrow> suit_ok api (cmd_invite api n s)"
  by (simp add: cmd_invite_def suit_set_tox quietD(5))

lemma bad_pack_index:
  assumes "\<not> bad_pack w 0 k shr"
  shows "0 \<le> k" "nat k < length shr"
proof -
  have "to_i32 (int n) \<le> int n" for n
    using minus_mod_eq_mult_div [of "int n + 2 ^ 31" "2 ^ 32"]
    by (auto simp: to_i32_def minus_mod_eq_mult_div [symmetric] algebra_simps zmod_le_nonneg_dividend)
  then have "to_i32 (int (length shr)) \<le> int (length shr)" .
  then show "0 \<le> k" "nat k < length shr" using assms by (auto simp: bad_pack_def)
qed

lemma shared_block_owned:
  assumes "suit_ok api s" "k < length (shr_list (su_op s))"
  shows "nouaf (hash_bytes (fn_BLAKE2b (shr_list (su_op s) ! k)) (w_heap (su_w s)))"
proof (cases "fn_BLAKE2b (shr_list (su_op s) ! k)")
  case (Some p)
  from node_hashes_mem [OF assms(2) Some] owned_parts [of s "su_w s"] assms(1)
  have "blk (w_heap (su_w s)) p \<noteq> None" by (auto simp: suit_ok_def owned_def)
  with Some show ?thesis by (auto simp: hash_bytes_def load_block_def)
qed (simp add: hash_bytes_def)

lemma cmd_info_safe:
  assumes "quiet api" "suit_ok api s"
  shows "safe (suit_ok api) (cmd_info api sod lib g n argc args s)"
proof -
  let ?k = "atoi (arg args 1)" and ?shr = "shr_list (su_op s)"
  show ?thesis
  proof (cases "argc \<noteq> 1 \<or> bad_pack (arg args 1) 0 ?k ?shr")
    case True
    with assms show ?thesis by (auto simp: cmd_info_def Let_def file_get_shared_def send_text_ok)
  next
    case False
    have "nouaf (hash_bytes (fn_BLAKE2b (?shr ! nat ?k)) (w_heap (su_w s)))"
      using False by (intro shared_block_owned [OF assms(2)] bad_pack_index) auto
    with False assms show ?thesis
      by (auto simp: cmd_info_def Let_def file_get_shared_def send_text_ok intro!: safe_bind_pure no_uaf)
  qed
qed

lemma cmd_send_safe:
  assumes "quiet api" "suit_ok api s" "atoi (arg args 1) < 0"
  shows "safe (suit_ok api) (cmd_send api g n argc args s)"
proof -
  let ?shr = "file_get_shared (su_op s)"
  have "safe (suit_ok api) (r_bind (file_sender_new api g n ?shr (atoi (arg args 1)) (su_w s)) (\<lambda>(rc, w).
      let s = set_w w s in
      Inr (if rc = FILESEND_OK then s
           else if rc = FILESEND_ERR_FILEIO then send_text api n NOTFND_F_MSG s
           else if rc = FILESEND_ERR_FULL then send_text api n QUEUEFULL_F_MSG s
           else send_text api n SRVERR_F_MSG s)))"
    by (rule safe_bind [OF pack_list_safe [OF assms(1) suit_world [OF assms(2)] assms(3)]])
      (use assms in \<open>auto simp: Let_def suit_set_w send_text_ok\<close>)
  with assms show ?thesis by (simp add: cmd_send_def send_text_ok Let_def)
qed

lemma execute_safe:
  assumes "quiet api" "suit_ok api s" "\<not> pack_request message"
  shows "safe (suit_ok api) (execute api sod lib g message n s)"
  unfolding execute_def
proof (rule safe_bind_pure [OF parse_command_safe])
  fix x :: "nat \<times> string"
  obtain k args where x: "x = (k, args)" by (cases x)
  assume "parse_command message (replicate (MAX_ARGS_NUM * MAX_ARGS_SIZE) NUL) = Inr x"
  with assms(3) have "arg args 0 = ''send'' \<Longrightarrow> atoi (arg args 1) < 0" by (auto simp: pack_request_def x)
  with assms show "safe (suit_ok api) (case x of (num_args, args) \<Rightarrow>
      let argc = int num_args - 1; name = arg args 0 in
      if name = ''invite'' then Inr (cmd_invite api n s)
      else if name = ''help'' then Inr (cmd_help api n s)
      else if name = ''info'' then cmd_info api sod lib g n argc args s
      else if name = ''send'' then cmd_send api g n argc args s
      else Inr s)"
    by (simp add: x Let_def invite_ok cmd_help_def send_text_ok cmd_info_safe cmd_send_safe)
qed

lemma run_option_safe:
  assumes "quiet api" "suit_ok api s" "fst r \<noteq> CHR ''g''"
  shows "safe (\<lambda>(_, after). ends_ok (suit_ok api) after) (run_option api lib g n f argv r out s)"
proof -
  have t: "safe (\<lambda>(_, after). ends_ok (suit_ok api) after)
      (r_bind (send_path api g n path name (su_w s)) (\<lambda>w. Inr (out, Running (set_w w s))))" for path name
    by (rule safe_bind [OF send_path_safe [OF assms(1) suit_world [OF assms(2)]]])
      (simp add: suit_set_w assms(2))
  have c: "suit_ok api (set_tox (toxav_call api n AUDIO_BITRATE 0 (su_tox s)) s)"
    by (rule suit_set_tox [OF assms(2)]) (rule quietD(7) [OF assms(1)])
  show ?thesis
    using assms(2,3) t c
    by (auto simp: run_option_def Let_def case_prod_unfold intro!: safe_bind_pure no_uaf split: option.splits)
qed

lemma run_options_safe:
  assumes "quiet api" "suit_ok api s" "CHR ''g'' \<notin> fst ` set rs"
  shows "safe (\<lambda>(_, after). ends_ok (suit_ok api) after) (run_options api lib g n f argv rs out s)"
  using assms(2,3)
proof (induction rs arbitrary: out s)
  case (Cons r rs)
  have "fst r \<noteq> CHR ''g''" using Cons.prems(2) by auto
  show ?case unfolding run_options.simps
  proof (rule safe_bind [OF run_option_safe [OF assms(1) Cons.prems(1) \<open>fst r \<noteq> CHR ''g''\<close>]])
    fix x :: "string \<times> 'a suit outcome"
    assume "case x of (_, after) \<Rightarrow> ends_ok (suit_ok api) after"
    with Cons show "safe (\<lambda>(_, after). ends_ok (suit_ok api) after) (case x of (out, after) \<Rightarrow>
      (case after of Running s \<Rightarrow> run_options api lib g n f argv rs out s | Exited code s \<Rightarrow> Inr (out, Exited code s)))"
      by (cases x; cases "snd x") auto
  qed
qed simp

lemma toxstream_quiet:
  "quiet api \<Longrightarrow> friends_in api (snd (toxstream_loop api cookie message sz offset t)) = friends_in api t"
proof (induction api cookie message sz offset t rule: toxstream_loop.induct)
  case (1 api cookie message sz offset t)
  let ?len = "if sz - offset > TOX_MAX_MESSAGE_LENGTH then TOX_MAX_MESSAGE_LENGTH else sz - offset"
  obtain ok t1 where t1: "tox_friend_send_message api (ck_friend_number cookie) (ck_type cookie)
      (take ?len (drop offset message)) t = (ok, t1)" by fastforce
  have fr: "friends_in api t1 = friends_in api t"
    using quietD(1) [OF 1(2), of "ck_friend_number cookie" "ck_type cookie" "take ?len (drop offset message)" t]
    by (simp only: t1 snd_conv)
  show ?case
  proof (cases "offset < sz \<and> ok")
    case True
    have "friends_in api (snd (toxstream_loop api cookie message sz (offset + ?len) t1)) = friends_in api t1"
      by (rule 1(1) [OF _ refl t1 [symmetric] refl _ 1(2)]) (use True in simp_all)
    with True fr show ?thesis
      by (subst toxstream_loop.simps) (simp only: if_True if_False Let_def t1 prod.case not_True_eq_False)
  next
    case False
    with t1 fr show ?thesis
      by (subst toxstream_loop.simps) (auto simp only: if_True if_False Let_def t1 prod.case snd_conv split: if_splits)
  qed
qed

lemma flush_safe:
  assumes "quiet api" "suit_ok api s"
  shows "safe (suit_ok api) (flush_stream api n out s)"
  using assms by (auto simp: flush_stream_def toxstream_write_def case_prod_unfold intro!: suit_set_tox toxstream_quiet)

lemma run_command_safe:
  assumes "quiet api" "suit_ok api s" "CHR ''g'' \<notin> fst ` set (fst (getopt_long (tl argv)))"
  shows "safe (ends_ok (suit_ok api)) (run_command api lib g n f argv s)"
proof -
  obtain rs others where rs: "getopt_long (tl argv) = (rs, others)" by fastforce
  have f: "safe (ends_ok (suit_ok api)) (r_bind (flush_stream api n out s) (\<lambda>s. Inr (k s)))"
    if "suit_ok api s" "\<And>s. suit_ok api s \<Longrightarrow> ends_ok (suit_ok api) (k s)" for out s and k :: "'a suit \<Rightarrow> 'a suit outcome"
    by (rule safe_bind [OF flush_safe [OF assms(1) that(1)]]) (simp add: that(2))
  show ?thesis unfolding run_command_def rs Let_def prod.case
  proof (rule safe_bind [OF run_options_safe [OF assms(1,2)]])
    show "CHR ''g'' \<notin> fst ` set rs" using assms(3) by (simp add: rs)
    fix x :: "string \<times> 'a suit outcome"
    assume "case x of (_, after) \<Rightarrow> ends_ok (suit_ok api) after"
    then show "safe (ends_ok (suit_ok api)) (case x of (out, after) \<Rightarrow>
        case after of
          Running s \<Rightarrow>
            r_bind (flush_stream api n (if others = [] then out
              else out @ ''non-option ARGV-elements: '' @ concat (map (\<lambda>a. a @ '' '') others) @ [NL]) s)
              (\<lambda>s. Inr (Running s))
        | Exited code s \<Rightarrow> r_bind (flush_stream api n out s) (\<lambda>s. Inr (Exited code s)))"
      by (cases x; cases "snd x") (simp_all add: Let_def f)
  qed
qed

lemma friend_message_safe:
  assumes "quiet api" "suit_ok api s" "peaceful_message message len"
  shows "safe (ends_ok (suit_ok api)) (friend_message api sod lib g n message len s)"
proof -
  have rest: "safe (ends_ok (suit_ok api))
      (r_bind (argexp m len (CHR ''!'')) (\<lambda>argv. case argv of None \<Rightarrow> Inr (Running s)
         | Some argv \<Rightarrow> run_command api lib g n (friend_info_by_friend_number (su_friends s) n) argv s))"
    if "suit_ok api s" "\<not> asks (CHR ''g'') m len" for m s
  proof (rule safe_bind_pure [OF argexp_safe])
    fix argv
    assume a: "argexp m len (CHR ''!'') = Inr argv"
    show "safe (ends_ok (suit_ok api)) (case argv of None \<Rightarrow> Inr (Running s)
         | Some argv \<Rightarrow> run_command api lib g n (friend_info_by_friend_number (su_friends s) n) argv s)"
      using that a by (cases argv) (simp_all add: asks_def run_command_safe assms(1))
  qed
  show ?thesis
  proof (cases "su_xdcc s")
    case False
    with rest [OF assms(2), of message] assms(3) show ?thesis
      by (simp add: friend_message_def peaceful_message_def Let_def)
  next
    case True
    show ?thesis
    proof (cases "NUL \<in> set message")
      case n: True
      have "\<not> pack_request message" using assms(3) by (simp add: peaceful_message_def)
      have "safe (ends_ok (suit_ok api)) (r_bind (execute api sod lib g message n s) (\<lambda>s.
          r_bind (argexp (takeWhile (\<lambda>c. c \<noteq> CHR '' '') (cstr message) @ [NUL]) len (CHR ''!'')) (\<lambda>argv.
            case argv of None \<Rightarrow> Inr (Running s)
            | Some argv \<Rightarrow> run_command api lib g n (friend_info_by_friend_number (su_friends s) n) argv s)))"
        by (rule safe_bind [OF execute_safe [OF assms(1,2) \<open>\<not> pack_request message\<close>]])
          (use assms(3) in \<open>simp add: rest peaceful_message_def\<close>)
      with True n show ?thesis by (simp add: friend_message_def r_bind_assoc Let_def)
    qed (use True in \<open>simp add: friend_message_def\<close>)
  qed
qed

section \<open>Events\<close>

lemma update_first_world:
  assumes "suit_ok api s" "numbers fs = numbers (su_friends s)"
    "world_ok api (friends_of s) (hashes loaded @ node_hashes (shr_list (su_op s))) w"
  shows "suit_ok api ((set_w w s)\<lparr>su_friends := fs, su_loaded := loaded\<rparr>)"
proof -
  have "owned (node_hashes (shr_list (su_op s))) (w_heap w)"
    using assms(3) by (auto simp: world_ok_def queue_wf_def owned_def)
  then have "op_wf ((su_op s)\<lparr>op_heap := w_heap w\<rparr>)"
    using assms(1) op_wf_heap by (auto simp: suit_ok_iff)
  with assms show ?thesis
    by (simp add: suit_ok_iff registry_ok_def parts_def)
qed

lemma connection_safe:
  assumes "quiet api" "suit_ok api s"
  shows "safe (\<lambda>(fs, loaded, w). suit_ok api ((set_w w s)\<lparr>su_friends := fs, su_loaded := loaded\<rparr>))
    (friend_connection_status_cb api g n cs (su_friends s) (su_loaded s) (su_w s))"
  unfolding friend_connection_status_cb_def
proof (rule safe_bind_pure)
  show "nouaf (update_first (\<lambda>f. friend_number f = n) (\<lambda>f. Inr (f\<lparr>connection_status := Some cs\<rparr>)) (su_friends s))"
    by (rule update_first_safe) simp
  fix fs
  assume "update_first (\<lambda>f. friend_number f = n) (\<lambda>f. Inr (f\<lparr>connection_status := Some cs\<rparr>)) (su_friends s) = Inr fs"
  then have fs: "numbers fs = numbers (su_friends s)" by (rule numbers_update_first) auto
  have w: "world_ok api (friends_of s) (hashes (su_loaded s) @ node_hashes (shr_list (su_op s))) (su_w s)"
    using suit_world [OF assms(2)] by (simp add: parts_def)
  have "safe (\<lambda>(fs, loaded, w). suit_ok api ((set_w w s)\<lparr>su_friends := fs, su_loaded := loaded\<rparr>))
      (r_bind (resume_send api g n (su_loaded s) (su_w s)) (\<lambda>(loaded, w). Inr (fs, loaded, w)))"
    by (rule safe_bind [OF resume_send_safe [OF assms(1) w]])
      (auto intro: update_first_world [OF assms(2) fs])
  moreover have "suit_ok api ((set_w (su_w s) s)\<lparr>su_friends := fs, su_loaded := su_loaded s\<rparr>)"
    by (rule update_first_world [OF assms(2) fs w])
  ultimately show "safe (\<lambda>(fs, loaded, w). suit_ok api ((set_w w s)\<lparr>su_friends := fs, su_loaded := loaded\<rparr>))
     (if cs = TOX_CONNECTION_TCP \<or> cs = TOX_CONNECTION_UDP
      then r_bind (resume_send api g n (su_loaded s) (su_w s)) (\<lambda>(loaded, w). Inr (fs, loaded, w))
      else Inr (fs, su_loaded s, su_w s))" by simp
qed

lemma on_friends_safe:
  assumes "suit_ok api s" "nouaf r" "\<And>fs. r = Inr fs \<Longrightarrow> numbers fs = numbers (su_friends s)"
  shows "safe (ends_ok (suit_ok api)) (on_friends r s)"
  unfolding on_friends_def by (rule safe_bind_pure [OF assms(2)]) (simp add: suit_set_friends [OF assms(1)] assms(3))

lemma on_files_safe:
  assumes "suit_ok api s" "safe (world_ok api (friends_of s) (parts s)) r"
  shows "safe (ends_ok (suit_ok api)) (on_files r s)"
  unfolding on_files_def by (rule safe_bind [OF assms(2)]) (simp add: suit_set_w [OF assms(1)])

lemma handle_tox_safe:
  assumes "quiet (e_api e)" "friend_laws (e_api e)" "suit_ok (e_api e) s" "peaceful ev"
  shows "safe (ends_ok (suit_ok (e_api e))) (handle_tox e ev s)"
proof (cases ev)
  case (FriendMessage n message len)
  with assms show ?thesis by (simp add: friend_message_safe)
next
  case (FriendRequest pk)
  have "agrees (e_api e) (friend_request_cb (e_api e) pk (su_tox s) (su_friends s))"
    using agrees_request [OF assms(2)] assms(3) by (simp add: suit_ok_def)
  with suit_new_friends [OF assms(3)] FriendRequest show ?thesis by (simp add: case_prod_unfold Let_def)
next
  case (FriendName n name len)
  with assms(3) show ?thesis by (auto intro!: on_friends_safe no_uaf simp: numbers_callbacks)
next
  case (FriendStatusMessage n msg len)
  with assms(3) show ?thesis by (auto intro!: on_friends_safe no_uaf simp: numbers_callbacks)
next
  case (FriendStatus n st)
  with assms(3) show ?thesis by (auto intro!: on_friends_safe no_uaf simp: numbers_callbacks)
next
  case (FriendConnection n cs)
  show ?thesis unfolding FriendConnection handle_tox.simps
    by (rule safe_bind [OF connection_safe [OF assms(1,3)]]) auto
next
  case (NeedChunk n f pos len)
  with assms show ?thesis by (simp add: on_files_safe chunk_request_safe suit_world)
next
  case (RecvControl n f c)
  with assms show ?thesis by (simp add: on_files_safe recv_control_safe suit_world)
next
  case (RecvOffer n f k)
  with assms show ?thesis by (simp add: on_files_safe recv_ok suit_world)
next
  case (RecvChunk n f pos bs len)
  with assms show ?thesis by (simp add: on_files_safe recv_chunk_ok suit_world)
qed (use assms(3) in simp)

lemma handle_all_tox_safe:
  assumes "quiet (e_api e)" "friend_laws (e_api e)" "suit_ok (e_api e) s" "list_all peaceful evs"
  shows "safe (ends_ok (suit_ok (e_api e))) (handle_all_tox e evs s)"
  using assms(3,4)
proof (induction evs arbitrary: s)
  case (Cons ev evs)
  have p: "peaceful ev" "list_all peaceful evs" using Cons.prems(2) by simp_all
  show ?case unfolding handle_all_tox.simps
  proof (rule safe_bind [OF handle_tox_safe [OF assms(1,2) Cons.prems(1) p(1)]])
    fix r
    assume "ends_ok (suit_ok (e_api e)) r"
    with Cons.IH p(2) show "safe (ends_ok (suit_ok (e_api e)))
        (case r of Running s \<Rightarrow> handle_all_tox e evs s | Exited code s \<Rightarrow> Inr (Exited code s))"
      by (cases r) simp_all
  qed
qed simp

text \<open>The callbacks of \<^verbatim>\<open>toxav\<close> are moves of the call machine.\<close>

lemma call_move_ok: "call_move api av g s t \<Longrightarrow> calls_ok s \<Longrightarrow> calls_ok t"
  by (rule calls.move_ok)

lemma handle_av_safe:
  assumes "quiet (e_api e)" "suit_ok (e_api e) s"
  shows "safe (suit_ok (e_api e)) (handle_av e ev s)"
proof -
  have c: "calls_ok (su_calls s)" and w: "world_ok (e_api e) (friends_of s) (parts s) (c_w (su_calls s))"
    using assms(2) by (simp_all add: suit_ok_iff su_w_def)
  show ?thesis
  proof (cases ev)
    case (IncomingCall n a v)
    have "calls_ok (call (e_api e) (e_av e) n a v (su_calls s))"
      by (rule call_move_ok [OF call_move.incoming c])
    with IncomingCall suit_set_calls [OF assms(2)] call_world [OF assms(1) w] show ?thesis by simp
  next
    case (CallState n st)
    have "calls_ok (call_state (e_api e) (e_av e) n st (su_calls s))"
      by (rule call_move_ok [OF call_move.reported c])
    with CallState suit_set_calls [OF assms(2)] call_state_world [OF assms(1) w] show ?thesis by simp
  next
    case (AudioFrame n sound cnt ch rate)
    show ?thesis unfolding AudioFrame handle_av.simps
    proof (rule safe_bind_pure [OF audio_receive_frame_safe])
      fix t
      assume t: "audio_receive_frame n sound cnt ch rate (su_calls s) = Inr t"
      then have "c_w t = c_w (su_calls s)" by (auto simp: audio_receive_frame_def r_bind_eq_Inr)
      with suit_set_calls [OF assms(2) call_move_ok [OF call_move.framed [OF t] c]] w
      show "safe (suit_ok (e_api e)) (Inr (s\<lparr>su_calls := t\<rparr>))" by simp
    qed
  qed (use assms(2) in simp)
qed

lemma handle_all_av_safe:
  assumes "quiet (e_api e)"
  shows "suit_ok (e_api e) s \<Longrightarrow> safe (suit_ok (e_api e)) (handle_all_av e evs s)"
proof (induction evs arbitrary: s)
  case (Cons ev evs)
  show ?case unfolding handle_all_av.simps
    by (rule safe_bind [OF handle_av_safe [OF assms Cons.prems] Cons.IH])
qed simp

section \<open>The polling loop\<close>

text \<open>
  What the libraries promise: no call but those for friends changes the friend list, polling
  does not either, and what the friends send is peaceful.
\<close>

definition env_ok :: "'t env \<Rightarrow> bool" where
  "env_ok e \<longleftrightarrow> quiet (e_api e) \<and> friend_laws (e_api e) \<and>
     (\<forall>t. friends_in (e_api e) (snd (tox_iterate e t)) = friends_in (e_api e) t) \<and>
     (\<forall>t. friends_in (e_api e) (snd (toxav_iterate e t)) = friends_in (e_api e) t) \<and>
     (\<forall>t. list_all peaceful (fst (tox_iterate e t)))"

lemma env_okD:
  assumes "env_ok e"
  shows "quiet (e_api e)" "friend_laws (e_api e)"
    "friends_in (e_api e) (snd (tox_iterate e t)) = friends_in (e_api e) t"
    "friends_in (e_api e) (snd (toxav_iterate e t)) = friends_in (e_api e) t"
    "list_all peaceful (fst (tox_iterate e t))"
  using assms by (simp_all add: env_ok_def)

lemma calls_due_safe:
  assumes "env_ok e" "suit_ok (e_api e) s"
  shows "safe (\<lambda>c. suit_ok (e_api e) (s\<lparr>su_calls := c\<rparr>)) (calltest_iterate (e_api e) (e_av e) (e_g e) tp (su_calls s))"
proof -
  have c: "calls_ok (su_calls s)" and w: "world_ok (e_api e) (friends_of s) (parts s) (c_w (su_calls s))"
    using assms(2) by (simp_all add: suit_ok_iff su_w_def)
  have "calls_ok t" if "calltest_iterate (e_api e) (e_av e) (e_g e) tp (su_calls s) = Inr t" for t
    by (rule call_move_ok [OF call_move.visited [OF that] c])
  from safe_conj [OF calltest_iterate_safe [OF env_okD(1) [OF assms(1)] w] this] show ?thesis
    by (rule safe_mono) (auto intro: suit_set_calls [OF assms(2)])
qed

lemma run_file_do_safe:
  assumes "suit_ok (e_api e) s"
  shows "safe (suit_ok (e_api e)) (run_file_do e s)"
proof -
  define w ops where "w = su_w s" and "ops = (su_op s)\<lparr>op_fs := w_fs w, op_heap := w_heap w\<rparr>"
  have wf: "op_wf ops" using assms by (simp add: suit_ok_def op_wf_def ops_def w_def)
  from file_do_wf [OF this] obtain rc ops' where
    d: "file_do (e_sod e) (e_g e) (e_walk e (w_fs w)) ops = Inr (rc, ops')" "op_wf ops'" by blast
  have r: "run_file_do e s = Inr ((set_w (w\<lparr>w_fs := op_fs ops', w_heap := op_heap ops'\<rparr>) s)\<lparr>su_op := ops'\<rparr>)"
    using d(1) by (simp add: run_file_do_def Let_def w_def [symmetric] ops_def [symmetric])
  let ?rest = "hashes (w_senders w) @ hashes (su_loaded s)"
  have "mset (node_hashes (shr_list ops) @ ?rest) = mset (hashes (w_senders w) @ parts s)"
    by (simp add: ops_def parts_def)
  from owned_perm [OF this] have "owned (node_hashes (shr_list ops) @ ?rest) (op_heap ops)"
    using assms by (simp add: suit_ok_def queue_wf_def ops_def w_def)
  moreover have "owned (node_hashes (shr_list ops')) (op_heap ops')" using d(2) by (simp add: op_wf_def)
  moreover have "confined (node_hashes (shr_list ops)) (op_heap ops) (node_hashes (shr_list ops')) (op_heap ops')"
    using file_do_confined [OF wf d(1)] by (simp add: op_confined_def)
  ultimately have o: "owned (node_hashes (shr_list ops') @ ?rest) (op_heap ops')" by (rule confined_owned)
  have "mset (hashes (w_senders w) @ hashes (su_loaded s) @ node_hashes (shr_list ops')) =
      mset (node_hashes (shr_list ops') @ ?rest)" by simp
  from owned_perm [OF this] o have "owned (hashes (w_senders w) @ hashes (su_loaded s) @ node_hashes (shr_list ops')) (op_heap ops')"
    by (rule iffD2)
  then show ?thesis
    using assms d(2) by (simp add: r suit_ok_iff world_ok_def queue_wf_def parts_def w_def)
qed

lemma save_pass_nothing: "save_pass e passphrase s = Inr (s\<lparr>su_save := False\<rparr>)"
  by (simp add: save_pass_def)

abbreviation loop_ok :: "'t env \<Rightarrow> 't loop \<Rightarrow> bool" where
  "loop_ok e l \<equiv> suit_ok (e_api e) (lp_suit l)"

lemma rest_pass_safe:
  assumes "loop_ok e l"
  shows "safe (ends_ok (\<lambda>(_, l). loop_ok e l)) (rest_pass e passphrase tpnow l)"
proof -
  have d: "safe (suit_ok (e_api e)) (if due then run_file_do e (lp_suit l) else Inr (lp_suit l))" for due
    using run_file_do_safe [OF assms] assms by simp
  show ?thesis
    unfolding rest_pass_def Let_def save_pass_nothing sleep_time_def
    by (intro safe_bind_pure [OF timespec_safe(3)] safe_bind [OF d])
      (auto intro!: safe_bind_pure no_uaf)
qed

lemma purge_pass_safe:
  assumes "env_ok e" "loop_ok e l"
  shows "safe (ends_ok (\<lambda>(_, l). loop_ok e l)) (purge_pass e tpnow l)"
  unfolding purge_pass_def Let_def
proof (rule safe_bind_pure [OF timespec_safe(1)], rule safe_bind_pure [OF friend_cleanup_safe])
  fix ns and x :: "'a \<times> friend_info list"
  obtain t fs where x: "x = (t, fs)" by (cases x)
  assume "friend_cleanup (e_api e) (word_of_int FRIEND_PURGE_INTERVAL) (word_of_int ns) (su_tox (lp_suit l))
      (su_friends (lp_suit l)) = Inr x"
  from agrees_purge [OF env_okD(2) [OF assms(1)] _ this] assms(2) have "agrees (e_api e) (t, fs)"
    by (simp add: suit_ok_def x)
  from suit_new_friends [OF assms(2) this] show "safe (ends_ok (\<lambda>(_, l). loop_ok e l)) (case x of (tox, fs) \<Rightarrow>
      Inr (Running (Purge, l\<lparr>lp_suit := (set_tox tox (lp_suit l))\<lparr>su_friends := fs, su_save := True\<rparr>, tsfriend := tpnow\<rparr>)))"
    by (simp add: x)
qed

lemma loop_pass_safe:
  assumes "env_ok e" "loop_ok e l"
  shows "safe (ends_ok (\<lambda>(_, l). loop_ok e l)) (loop_pass e passphrase tpnow l)"
proof -
  let ?s = "lp_suit l" and ?P = "ends_ok (\<lambda>(_, l). loop_ok e l)"
  have 1: "safe ?P (r_bind (calltest_iterate (e_api e) (e_av e) (e_g e) tpnow (su_calls ?s)) (\<lambda>c.
      Inr (Running (Calls, l\<lparr>lp_suit := ?s\<lparr>su_calls := c\<rparr>, tscalltest := tpnow\<rparr>))))"
    by (rule safe_bind [OF calls_due_safe [OF assms]]) simp
  have 2: "safe ?P (case tox_iterate e (su_tox ?s) of (evs, tox) \<Rightarrow>
      r_bind (handle_all_tox e evs (set_tox tox ?s)) (\<lambda>r. Inr (case r of
        Running s \<Rightarrow> Running (Toxcore, l\<lparr>lp_suit := s, tstox := tpnow\<rparr>)
      | Exited code s \<Rightarrow> Exited code (Toxcore, l\<lparr>lp_suit := s\<rparr>))))"
  proof -
    obtain evs t where t: "tox_iterate e (su_tox ?s) = (evs, t)" by fastforce
    have "suit_ok (e_api e) (set_tox t ?s)"
      using suit_set_tox [OF assms(2), of t] env_okD(3) [OF assms(1), of "su_tox ?s"] by (simp add: t)
    moreover have "list_all peaceful evs" using env_okD(5) [OF assms(1), of "su_tox ?s"] by (simp add: t)
    ultimately have "safe (ends_ok (suit_ok (e_api e))) (handle_all_tox e evs (set_tox t ?s))"
      by (rule handle_all_tox_safe [OF env_okD(1,2) [OF assms(1)]])
    then show ?thesis unfolding t prod.case by (rule safe_bind) (auto split: outcome.splits)
  qed
  have 3: "safe ?P (case toxav_iterate e (su_tox ?s) of (evs, tox) \<Rightarrow>
      r_bind (handle_all_av e evs (set_tox tox ?s)) (\<lambda>s.
        Inr (Running (Toxav, l\<lparr>lp_suit := s, tsav := tpnow\<rparr>))))"
  proof -
    obtain evs t where t: "toxav_iterate e (su_tox ?s) = (evs, t)" by fastforce
    have "suit_ok (e_api e) (set_tox t ?s)"
      using suit_set_tox [OF assms(2), of t] env_okD(4) [OF assms(1), of "su_tox ?s"] by (simp add: t)
    from handle_all_av_safe [OF env_okD(1) [OF assms(1)] this, of evs] show ?thesis
      unfolding t prod.case by (rule safe_bind) simp
  qed
  show ?thesis
    unfolding loop_pass_def Let_def
    by (intro safe_bind_pure [OF timespec_safe(3)])
      (auto simp only: 1 2 3 purge_pass_safe [OF assms] rest_pass_safe [OF assms(2)] if_True if_False
        intro!: safe_bind_pure [OF timespec_safe(3)] split: if_split)
qed

text \<open>A machine whose moves are the passes that go on.\<close>

inductive pass_move :: "'t env \<Rightarrow> string option \<Rightarrow> 't loop \<Rightarrow> 't loop \<Rightarrow> bool" for e passphrase where
  signalled: "pass_move e passphrase l (l\<lparr>lp_suit := handle_signal (lp_suit l)\<rparr>)"
| passed: "loop_pass e passphrase tpnow l = Inr (Running (k, l')) \<Longrightarrow> pass_move e passphrase l l'"

inductive_cases pass_moveE: "pass_move e passphrase l l'"

interpretation passes: machine_invariant "pass_move e passphrase" "\<lambda>l. env_ok e \<and> loop_ok e l" for e passphrase
proof
  fix l l' :: "'a loop"
  assume "pass_move e passphrase l l'" and ok: "env_ok e \<and> loop_ok e l"
  then show "env_ok e \<and> loop_ok e l'"
  proof cases
    case signalled
    with ok show ?thesis by (simp add: handle_signal_def)
  next
    case (passed tpnow k)
    from safe_Inr [OF passed] loop_pass_safe [of e l] ok show ?thesis by fastforce
  qed
qed

lemma loop_run_safe:
  assumes "env_ok e"
  shows "loop_ok e l \<Longrightarrow> safe (ends_ok (suit_ok (e_api e))) (loop_run e passphrase tps l)"
proof (induction tps arbitrary: l)
  case (Cons x tps)
  obtain sig tpnow where x: "x = (sig, tpnow)" by fastforce
  define s where "s = (if sig then handle_signal (lp_suit l) else lp_suit l)"
  have s: "suit_ok (e_api e) s" using Cons.prems by (simp add: s_def handle_signal_def)
  have "safe (ends_ok (suit_ok (e_api e))) (r_bind (loop_pass e passphrase tpnow (l\<lparr>lp_suit := s\<rparr>)) (\<lambda>r. case r of
          Running (_, l) \<Rightarrow> loop_run e passphrase tps l
        | Exited code (_, l) \<Rightarrow> Inr (Exited code (lp_suit l))))"
  proof (rule safe_bind [OF loop_pass_safe [OF assms]])
    show "loop_ok e (l\<lparr>lp_suit := s\<rparr>)" using s by simp
    fix r
    assume "ends_ok (\<lambda>(_, l). loop_ok e l) r"
    with Cons.IH show "safe (ends_ok (suit_ok (e_api e))) (case r of
          Running (_, l) \<Rightarrow> loop_run e passphrase tps l
        | Exited code (_, l) \<Rightarrow> Inr (Exited code (lp_suit l)))"
      by (cases r) (auto split: prod.splits)
  qed
  with s show ?case by (simp add: x s_def Let_def)
qed simp

end
