(* ===== verification/Lifecycle.thy ===== *)
theory Lifecycle
  imports System Suit_Properties
begin

text \<open>
  The life of the process: \<^verbatim>\<open>main\<close> from the change into the home directory through
  the loading of the profile, the polling loop and the shut-down to its exit code. The state
  that the start builds from arbitrary files has the invariant of \<open>System\<close>, and the writers of
  the shut-down only read blocks that it says are there.
\<close>

section \<open>The whole of main\<close>

text \<open>
  How a run ends, with the files that are left: with an exit code, or not yet when the readings
  of the clock are used up. \<open>chdir\<close> gives the files as they are seen from the home directory.
\<close>

datatype 't ending = Exit int fs | StillRunning "'t suit"

definition suit_main ::
  "'t env \<Rightarrow> (string option \<Rightarrow> fs option) \<Rightarrow> string \<Rightarrow> string \<Rightarrow> (string \<Rightarrow> string option) \<Rightarrow>
   (nat \<Rightarrow> string) \<Rightarrow> fs \<Rightarrow> heap \<Rightarrow> (bool \<times> timespec) list \<Rightarrow> 't ending res" where
  "suit_main e chdir version git_version getenv fresh root h tps =
     (let passphrase = getenv ''SUIT_PASSPHRASE''; nm = getenv ''SUIT_NAME'';
          status_msg = getenv ''SUIT_STATUSMSG'' in
      case chdir (getenv ''SUIT_HOME'') of
        None \<Rightarrow> Inr (Exit EXIT_FAILURE root)
      | Some files \<Rightarrow>
          r_bind (suit_start e version git_version passphrase nm status_msg files h) (\<lambda>r.
            case r of
              None \<Rightarrow> Inr (Exit EXIT_FAILURE files)
            | Some s \<Rightarrow>
                r_bind (loop_run e passphrase tps (loop_start s)) (\<lambda>r.
                  case r of
                    Exited code s \<Rightarrow> Inr (Exit (int code) (w_fs (su_w s)))
                  | Running s \<Rightarrow>
                      if su_exit s then r_bind (shut_down e fresh passphrase s) (\<lambda>files. Inr (Exit 0 files))
                      else Inr (StillRunning s))))"

section \<open>Loading\<close>

lemma strtoll_safe [no_uaf]: "nouaf (strtoll s)"
  by (auto simp: strtoll_def Let_def split: list.splits)

lemma strlen_at_safe [no_uaf]: "nouaf (strlen_at mem p)"
  by (auto simp: strlen_at_def Let_def)

lemma be_decode_int_safe [no_uaf]: "nouaf (be_decode_int data n)"
  by (auto simp: be_decode_int_def intro!: safe_bind_pure no_uaf)

lemma be_decode_str_safe [no_uaf]: "nouaf (be_decode_str data n)"
  by (auto simp: be_decode_str_def Let_def intro!: safe_bind_pure no_uaf split: list.splits)

lemma be_decode_safe:
  "(\<forall>data n. nouaf (be_decode_node k data n)) \<and> (\<forall>data n. nouaf (be_decode_list k data n)) \<and>
   (\<forall>data n. nouaf (be_decode_dict k data n))"
proof (induction k)
  case (Suc k)
  then have ih: "nouaf (be_decode_node k data n)" "nouaf (be_decode_list k data n)" "nouaf (be_decode_dict k data n)"
    for data n by simp_all
  have "nouaf (be_decode_node (Suc k) data n)" "nouaf (be_decode_list (Suc k) data n)"
    "nouaf (be_decode_dict (Suc k) data n)" for data n
    by (cases data; auto intro!: safe_bind_pure ih no_uaf split: list.split option.split)+
  then show ?case by blast
qed simp

lemma be_decoden_safe [no_uaf]: "nouaf (be_decoden data n)"
  unfolding be_decoden_def by (rule safe_bind_pure) (simp_all only: be_decode_safe, simp add: case_prod_unfold)

lemma loadfile_safe [no_uaf]: "nouaf (be_node_loadfile filename files)"
  by (auto simp: be_node_loadfile_def Let_def intro!: no_uaf split: option.splits)

lemma val_safe [no_uaf]: "nouaf (val_s v)" "nouaf (val_i v)" "nouaf (val_l v)" "nouaf (val_d v)"
  by (simp_all add: val_s_def val_i_def val_l_def val_d_def split: be_node.splits)

lemma deref_safe [no_uaf]: "nouaf (deref s)"
  by (simp add: deref_def split: option.splits)

text \<open>The block a dictionary brings belongs to the node it is read into.\<close>

lemma owned_mono: "owned (qs @ ps) h \<Longrightarrow> owned ps h"
  by (simp add: owned_def)

lemma node_hash_update [simp]:
  "node_hash (f\<lparr>fn_file := x\<rparr>) = node_hash f" "node_hash (f\<lparr>fn_length := i\<rparr>) = node_hash f"
  "node_hash (f\<lparr>fn_BLAKE2b := Some p\<rparr>) = [p]"
  by (simp_all add: node_hash_def)

lemma decode_pairs_safe:
  "owned ((if k then node_hash f else []) @ ps) h \<Longrightarrow>
   safe (\<lambda>(f, h). owned ((if k then node_hash f else []) @ ps) h) (decode_pairs f d h)"
proof (induction d arbitrary: f h)
  case (Cons x d)
  obtain key v where x: "x = (key, v)" by (cases x)
  have a: "safe (\<lambda>(f, h). owned ((if k then node_hash f else []) @ ps) h)
      (case alloc b h of (p, h) \<Rightarrow> decode_pairs (f\<lparr>fn_BLAKE2b := Some p\<rparr>) d h)" for b
  proof -
    obtain p h1 where a: "alloc b h = (p, h1)" by fastforce
    from owned_alloc [OF owned_mono [OF Cons.prems] a] Cons.IH [of "f\<lparr>fn_BLAKE2b := Some p\<rparr>" h1]
    show ?thesis using owned_mono [of "[p]" ps h1] by (auto simp: a)
  qed
  have k: "safe (\<lambda>(f, h). owned ((if k then node_hash f else []) @ ps) h) (decode_pairs f' d h)" if "node_hash f' = node_hash f" for f'
    using Cons.IH [of f' h] Cons.prems that by (cases k) simp_all
  consider "cstr key = ''name''" | "cstr key = ''length''" | "cstr key = ''hash''"
    | "cstr key \<noteq> ''name''" "cstr key \<noteq> ''length''" "cstr key \<noteq> ''hash''" by blast
  then show ?case
  proof cases
    case 1
    then show ?thesis
      by (simp add: x) (intro safe_bind_pure val_safe deref_safe k, simp)
  next
    case 2
    then show ?thesis
      by (simp add: x) (intro safe_bind_pure val_safe k, simp)
  next
    case 3
    then show ?thesis
      by (simp add: x del: safe_simps) (intro safe_bind_pure val_safe deref_safe, simp add: a)
  next
    case 4
    then show ?thesis by (simp add: x k)
  qed
qed simp

lemma decode_node_safe:
  "owned (node_hash f @ ps) h \<Longrightarrow> safe (\<lambda>(f, h). owned (node_hash f @ ps) h) (decode_FileNode f v h)"
  by (auto simp: decode_FileNode_def intro!: safe_bind_pure no_uaf decode_pairs_safe [where k = True, simplified])

text \<open>A node that nobody reads may hold anything where its hash would be.\<close>

lemma decode_unread_safe: "owned ps h \<Longrightarrow> safe (\<lambda>(_, h). owned ps h) (decode_FileNode f v h)"
  by (auto simp: decode_FileNode_def intro!: safe_bind_pure no_uaf decode_pairs_safe [where k = False, simplified])

lemma decode_nodes_safe: "owned ps h \<Longrightarrow> safe (\<lambda>(_, h). owned ps h) (decode_nodes g vs h)"
proof (induction vs arbitrary: h)
  case (Cons v vs)
  from decode_unread_safe [OF Cons.prems, of "g (length vs)" v] show ?case unfolding decode_nodes.simps
    by (rule safe_bind) (auto simp: case_prod_unfold intro!: safe_bind [OF Cons.IH])
qed simp

lemma load_shrlist_safe:
  "owned ps h \<Longrightarrow> safe (\<lambda>(_, shr, h). shr = [] \<and> owned ps h) (load_shrlist g filename files [] h)"
  unfolding load_shrlist_def
  by (rule safe_bind_pure [OF loadfile_safe])
    (auto intro!: safe_bind_pure [OF val_safe(3)] safe_bind [OF decode_nodes_safe] split: option.split)

lemma hash_of_node: "hash_of f = node_hash (s_info f)"
  by (simp add: hash_of_def node_hash_def)

lemma find_res_safe: "(\<And>x. nouaf (P x)) \<Longrightarrow> nouaf (find_res P xs)"
  by (induction xs) (auto intro!: safe_bind_pure)

lemma by_keybin_safe [no_uaf]: "nouaf (friend_info_by_public_keybin fs key)"
  unfolding friend_info_by_public_keybin_def by (intro find_res_safe safe_bind_pure fget_safe) simp

definition opt_hashes :: "file_sender option \<Rightarrow> nat list" where
  "opt_hashes f = (case f of None \<Rightarrow> [] | Some f \<Rightarrow> hash_of f)"

lemma load_fields_safe:
  "owned (hash_of f @ ps) h \<Longrightarrow> safe (\<lambda>(f, h). owned (opt_hashes f @ ps) h) (load_fields friends d f h)"
proof (induction d arbitrary: f h)
  case (Cons x d)
  obtain key v where x: "x = (key, v)" by (cases x)
  have r: "safe (\<lambda>(f, h). owned (opt_hashes f @ ps) h) (r_bind (FileSender_release f h) (\<lambda>h. Inr (None, h)))"
    using FileSender_release_owned [OF Cons.prems] by (auto simp: opt_hashes_def)
  have i: "safe (\<lambda>(f, h). owned (opt_hashes f @ ps) h) (r_bind (decode_FileNode (s_info f) v h)
      (\<lambda>(fn, h). load_fields friends d (f\<lparr>s_info := fn\<rparr>) h))"
    by (rule safe_bind [OF decode_node_safe]) (use Cons in \<open>auto simp: hash_of_node\<close>)
  have l: "safe (\<lambda>(f, h). owned (opt_hashes f @ ps) h) (load_fields friends d (f\<lparr>s_friend_number := n\<rparr>) h)"
    "safe (\<lambda>(f, h). owned (opt_hashes f @ ps) h) (load_fields friends d (f\<lparr>s_pathname := b\<rparr>) h)" for n b
    using Cons by (simp_all add: hash_of_def)
  from Cons.IH [OF Cons.prems] r i l show ?case
    by (auto simp: x intro!: safe_bind_pure no_uaf split: option.split)
qed (simp add: opt_hashes_def)

lemma load_nodes_safe:
  "owned (hashes q) h \<Longrightarrow> safe (\<lambda>(q, h). owned (hashes q) h) (load_nodes friends vs q h)"
proof (induction vs arbitrary: q h)
  case (Cons v vs)
  show ?case
  proof (cases v)
    case (BE_DICT d)
    have "owned (hash_of file_sender_zero @ hashes q) h" using Cons.prems by simp
    from load_fields_safe [OF this, of friends d] show ?thesis unfolding BE_DICT load_nodes.simps be_node.case
      by (rule safe_bind) (auto simp: opt_hashes_def intro!: Cons.IH split: option.splits)
  qed (use Cons.prems in simp_all)
qed simp

lemma load_senders_safe:
  "owned [] h \<Longrightarrow> safe (\<lambda>(_, q, h). owned (hashes q) h) (load_senders [] friends h files)"
  unfolding load_senders_def
  by (rule safe_bind_pure [OF loadfile_safe])
    (auto intro!: safe_bind_pure [OF val_safe(3)] safe_bind [OF load_nodes_safe] split: option.split)

section \<open>The start\<close>

lemma registry_fold_add:
  "distinct ns \<Longrightarrow> set ns \<inter> set (numbers fs) = {} \<Longrightarrow> registry_ok fs \<Longrightarrow>
   registry_ok (fold friend_info_add_entry ns fs) \<and>
   set (numbers (fold friend_info_add_entry ns fs)) = set ns \<union> set (numbers fs)"
  by (induction ns arbitrary: fs) (auto simp: registry_ok_add)

lemma friends_init_agrees:
  assumes "distinct (tox_self_get_friend_list api tox)" and "friends_info_init api sod g tox [] = Inr (fs, k)"
  shows "agrees api (tox, fs)"
proof -
  let ?fs = "fold friend_info_add_entry (tox_self_get_friend_list api tox) []"
  have "friends_info_update api sod g tox ?fs = Inr fs"
    using assms(2) by (auto simp: friends_info_init_def Let_def r_bind_eq_Inr)
  then have "numbers fs = numbers ?fs" by (rule numbers_friends_info_update)
  with registry_fold_add [OF assms(1), of "[]"] show ?thesis
    by (auto simp: agrees_def registry_ok_def numbers_def)
qed

lemma info_update_safe [no_uaf]:
  "nouaf (friend_info_update api sod g tox f)" "nouaf (client_info_update api sod g tox ci)"
  by (auto simp: friend_info_update_def client_info_update_def Let_def intro!: safe_bind_pure no_uaf)

lemma friends_update_safe [no_uaf]: "nouaf (friends_info_update api sod g tox fs)"
  by (induction fs) (auto intro!: safe_bind_pure no_uaf)

lemma friends_init_safe [no_uaf]: "nouaf (friends_info_init api sod g tox fs)"
  by (auto simp: friends_info_init_def Let_def intro!: safe_bind_pure no_uaf)

lemma open_profile_safe [no_uaf]: "nouaf (open_profile e passphrase files)"
  by (auto simp: open_profile_def load_profile_def Let_def intro!: safe_bind_pure no_uaf split: option.splits)

lemma info_new_safe [no_uaf]: "nouaf (suit_info_new version git_version)"
  by (simp add: suit_info_new_def Let_def)

text \<open>\<^verbatim>\<open>toxcore\<close> does not list a friend twice.\<close>

definition friends_distinct :: "'t toxcore \<Rightarrow> bool" where
  "friends_distinct api \<longleftrightarrow> (\<forall>t. distinct (tox_self_get_friend_list api t))"

lemma safe_option: "(r = None \<Longrightarrow> safe P a) \<Longrightarrow> (\<And>x. r = Some x \<Longrightarrow> safe P (f x)) \<Longrightarrow> safe P (case_option a f r)"
  by (cases r) simp_all

lemma safe_pair: "(\<And>a b. x = (a, b) \<Longrightarrow> safe P (f a b)) \<Longrightarrow> safe P (case_prod f x)"
  by (cases x) simp

lemma suit_start_safe:
  assumes "friends_distinct (e_api e)"
  shows "safe (pred_option (suit_ok (e_api e))) (suit_start e version git_version passphrase nm status_msg files h)"
proof -
  have l: "safe (pred_option (suit_ok (e_api e))) (r_bind (load_senders [] friends h1 files) (\<lambda>(_, loaded, h).
      Inr (Some \<lparr>su_calls = (calltest_init (e_av e) \<lparr>w_tox = tox, w_fs = files, w_heap = h0, w_senders = []\<rparr>)
          \<lparr>c_w := (c_w (calltest_init (e_av e) \<lparr>w_tox = tox, w_fs = files, w_heap = h0, w_senders = []\<rparr>))\<lparr>w_heap := h\<rparr>\<rparr>,
        su_friends = friends, su_op = file_recheck_callback SIGUSR1 ((op_start files h1)\<lparr>shr_list := shr\<rparr>),
        su_loaded = loaded, su_own = own_info, su_version = version, su_xdcc = False, su_group = - 1,
        su_save = save, su_exit = False\<rparr>)))"
    if "agrees (e_api e) (tox, friends)" "shr = []" for tox friends h0 h1 own_info version save shr
    by (rule safe_bind [OF load_senders_safe])
      (use that in \<open>auto simp: owned_def suit_ok_def calltest_init_def su_tox_def su_w_def calls_ok_def
        testers_ok_def op_wf_def file_recheck_callback_def op_start_def queue_wf_def parts_def\<close>)
  have f: "agrees (e_api e) (tox, fs)" if "friends_info_init (e_api e) (e_sod e) (e_g e) tox [] = Inr (fs, k)" for fs k tox
    using friends_init_agrees [OF _ that] assms by (simp add: friends_distinct_def)
  show ?thesis
    unfolding suit_start_def Let_def
    by (rule safe_bind_pure [OF info_new_safe], rule safe_bind_pure [OF open_profile_safe], rule safe_option, simp,
      rule safe_pair, rule safe_bind_pure [OF info_update_safe(2)], rule safe_bind_pure [OF friends_init_safe],
      rule safe_pair, rule safe_bind [OF load_shrlist_safe [of "[]"]], simp add: owned_def,
      rule safe_pair, rule safe_pair, rule l) (auto intro: f)
qed

section \<open>Shutting down\<close>

text \<open>The writers read the blocks of the nodes they encode, and nothing else of the store.\<close>

lemma snprintf_safe [no_uaf]: "nouaf (snprintf_at mem p n txt)"
  by (auto simp: snprintf_at_def Let_def intro!: no_uaf)

lemma loc_add_safe [no_uaf]: "nouaf (loc_add loc n)"
  by (simp add: loc_add_def)

lemma be_encode_safe [no_uaf]:
  "nouaf (be_encode v mem p len)" "nouaf (be_encode_list l mem p len loc)" "nouaf (be_encode_dict d mem p len loc)"
  by (induction v mem p len and l mem p len loc and d mem p len loc
      rule: be_encode_be_encode_list_be_encode_dict.induct)
    (auto intro!: safe_bind_pure safe_pair no_uaf)

lemma chk32_safe [no_uaf]: "nouaf (chk32 x)"
  by (simp add: chk32_def)

lemma encode_alloc_safe [no_uaf]: "nouaf (be_encode_alloc g v)"
  by (auto simp: be_encode_alloc_def Let_def intro!: safe_bind_pure no_uaf)

lemma str_wlen_safe [no_uaf]: "nouaf (be_create_str_wlen s n)"
  by (simp add: be_create_str_wlen_def)

lemma encode_node_safe:
  assumes "owned (node_hash fn @ ps) h"
  shows "nouaf (encode_FileNode info fn h)"
proof -
  have "nouaf (hash_bytes (fn_BLAKE2b fn) h)"
    using assms by (auto simp: hash_bytes_def load_block_def node_hash_def owned_def split: option.splits)
  then show ?thesis
    by (auto simp: encode_FileNode_def Let_def case_prod_unfold intro!: safe_bind_pure no_uaf split: option.split)
qed

lemma shrlist_node_safe: "owned (node_hashes fns @ ps) h \<Longrightarrow> nouaf (shrlist_node root fns h)"
proof (induction fns arbitrary: root)
  case (Cons fn fns)
  then have "owned (node_hash fn @ node_hashes fns @ ps) h" "owned (node_hashes fns @ ps) h"
    by (simp_all add: owned_def)
  with Cons.IH encode_node_safe show ?case by (auto simp: new_dict intro!: safe_bind_pure)
qed simp

lemma senders_node_safe: "owned (hashes q @ ps) h \<Longrightarrow> nouaf (senders_node root friends q h)"
proof (induction q arbitrary: root)
  case (Cons f q)
  then have "owned (node_hash (s_info f) @ hashes q @ ps) h" "owned (hashes q @ ps) h"
    by (simp_all add: owned_def hash_of_node)
  with Cons.IH encode_node_safe show ?case
    by (auto simp: new_dict encode_sender_def case_prod_unfold Let_def intro!: safe_bind_pure no_uaf split: option.split)
qed simp

lemma dump_shrlist_safe: "owned (node_hashes shr @ ps) h \<Longrightarrow> nouaf (dump_shrlist g filename shr h files)"
  by (auto simp: dump_shrlist_def new_list_node intro!: safe_bind_pure no_uaf shrlist_node_safe split: option.split)

lemma save_senders_safe: "owned (hashes q @ ps) h \<Longrightarrow> nouaf (save_senders g q friends h files)"
  by (auto simp: save_senders_def new_list_node intro!: safe_bind_pure no_uaf senders_node_safe split: option.split)

lemma save_profile_safe [no_uaf]: "nouaf (save_profile api sod g tox filename passphrase files)"
  by (auto simp: save_profile_def Let_def intro!: safe_bind_pure no_uaf split: option.split sum.split)

lemma FileQueue_destroy_safe:
  "owned (hashes q @ ps) h \<Longrightarrow> safe (owned ps) (FileQueue_destroy q h)"
  using FileQueue_destroy_owned by fastforce

lemma shut_down_safe:
  assumes "suit_ok api s"
  shows "nouaf (shut_down e fresh passphrase s)"
proof -
  let ?w = "su_w s" and ?shr = "node_hashes (shr_list (su_op s))"
  have o: "owned (hashes (w_senders ?w) @ hashes (su_loaded s) @ ?shr) (w_heap ?w)"
    using assms by (simp add: suit_ok_def queue_wf_def parts_def)
  then have "owned (?shr @ []) (w_heap ?w)" by (auto simp: owned_def)
  then show ?thesis
    unfolding shut_down_def Let_def
    by (intro safe_bind_pure [OF dump_shrlist_safe [where ps = "[]"]] safe_pair safe_bind_pure [OF save_senders_safe [OF o]]
        safe_bind_pure [OF save_profile_safe] safe_bind [OF FileQueue_destroy_safe [OF o]]
        safe_bind [OF FileQueue_destroy_safe]) simp_all
qed

lemma suit_main_safe:
  assumes "env_ok e" "friends_distinct (e_api e)"
  shows "safe (\<lambda>r. case r of StillRunning s \<Rightarrow> suit_ok (e_api e) s | Exit code files \<Rightarrow> True)
    (suit_main e chdir version git_version getenv fresh root h tps)"
  unfolding suit_main_def Let_def
proof (rule safe_option, simp, rule safe_bind [OF suit_start_safe [OF assms(2)]], rule safe_option, simp)
  fix files r and s :: "'a suit"
  assume "pred_option (suit_ok (e_api e)) r" "r = Some s"
  then have s: "suit_ok (e_api e) (lp_suit (loop_start s))" by (simp add: loop_start_def Let_def)
  let ?pp = "getenv ''SUIT_PASSPHRASE''"
  show "safe (\<lambda>r. case r of StillRunning s \<Rightarrow> suit_ok (e_api e) s | Exit code files \<Rightarrow> True)
    (r_bind (loop_run e ?pp tps (loop_start s)) (\<lambda>r. case r of
       Running s \<Rightarrow> if su_exit s then r_bind (shut_down e fresh ?pp s) (\<lambda>files. Inr (Exit 0 files))
                    else Inr (StillRunning s)
     | Exited code s \<Rightarrow> Inr (Exit (int code) (w_fs (su_w s)))))"
  proof (rule safe_bind [OF loop_run_safe [OF assms(1) s]])
    fix r
    assume "ends_ok (suit_ok (e_api e)) r"
    then show "safe (\<lambda>r. case r of StillRunning s \<Rightarrow> suit_ok (e_api e) s | Exit code files \<Rightarrow> True)
      (case r of Running s \<Rightarrow> if su_exit s then r_bind (shut_down e fresh ?pp s) (\<lambda>files. Inr (Exit 0 files))
                    else Inr (StillRunning s)
       | Exited code s \<Rightarrow> Inr (Exit (int code) (w_fs (su_w s))))"
      by (cases r) (auto intro!: safe_bind_pure [OF shut_down_safe])
  qed
qed

section \<open>An instance\<close>

text \<open>
  The sample libraries with a list of friends that names each once, and a network in which
  friend 1 comes online, changes its name, offers a file and calls.
\<close>

definition env1 :: "sample_tox env" where
  "env1 = env0\<lparr>e_api := sample\<lparr>tox_self_get_friend_list := (\<lambda>t. remdups (sm_friends t))\<rparr>,
     tox_iterate := (\<lambda>t. ([FriendConnection 1 1, FriendName 1 ''al'' 2, RecvOffer 1 7 0], t)),
     toxav_iterate := (\<lambda>t. ([IncomingCall 1 True False], t))\<rparr>"

lemma env1_ok: "env_ok env1" "friends_distinct (e_api env1)" "e_api env1 = sample\<lparr>tox_self_get_friend_list := (\<lambda>t. remdups (sm_friends t))\<rparr>"
  by (auto simp: env_ok_def friends_distinct_def env1_def env0_def quiet_def friends_in_def friend_laws_def
      sample_def Let_def split: if_splits)

lemma sample_distinct_same:
  "distinct (sm_friends t) \<Longrightarrow> tox_self_get_friend_list (e_api env1) t = sm_friends t"
  by (simp add: env1_def distinct_remdups_id)

section \<open>Properties\<close>

text \<open>
  C2 (type): whatever the files of the home directory hold, the state that the start of the
  program builds from them has the form that every later step relies on: the registry is
  strictly sorted and has the friends of \<^verbatim>\<open>toxcore\<close>, no friend has two call testers, the lists
  of the file sharing have the form of \<open>op_wf\<close>, and each hash block that was loaded has one
  owner; and the start uses no freed hash block.
\<close>

theorem suit_start_typed:
  assumes "friends_distinct (e_api e)"
  shows "suit_start e version git_version passphrase nm status_msg files h \<noteq> Inl UseAfterFree \<and>
    (\<forall>s. suit_start e version git_version passphrase nm status_msg files h = Inr (Some s) \<longrightarrow>
       suit_ok (e_api e) s)"
  using suit_start_safe [OF assms, of version git_version passphrase nm status_msg files h]
  by (cases "suit_start e version git_version passphrase nm status_msg files h") auto

theorem suit_start_typed_witness:
  "\<exists>s. suit_start env1 ''1'' ''0'' None None None files0 \<lparr>blk = Map.empty, brk = 0\<rparr> = Inr (Some s) \<and>
     suit_ok (e_api env1) s"
proof -
  have p: "fs_data files0 p = None" "fopen_read p files0 = None" for p
    by (simp_all add: files0_def fopen_read_def)
  have t: "text_laws (e_api env1) tox0"
    by (simp add: text_laws_def env1_def sample_def)
  from friends_info_init_mirrors [OF t, of "e_sod env1" "e_g env1"] obtain fs where
    f: "friends_info_init (e_api env1) (e_sod env1) (e_g env1) tox0 [] = Inr (fs, length (tox_self_get_friend_list (e_api env1) tox0))"
    by blast
  have n: "tox_new env1 None = Some tox0" "bootstrap_DHT env1 tox = tox" "set_user_config env1 None None tox = tox" for tox
    by (simp_all add: env1_def env0_def saved0_def bootstrap_DHT_def nodes_def set_user_config_def)
  have "\<exists>ci. client_info_update (e_api env1) (e_sod env1) (e_g env1) tox0 (client_info_new ci0) = Inr ci" for ci0
    by (simp add: client_info_update_def copy_text_def client_info_new_def env1_def sample_def
        realloc_buf_def mem_store_def Let_def)
  then obtain ci where "client_info_update (e_api env1) (e_sod env1) (e_g env1) tox0 (client_info_new
      \<lparr>ci_name = None, ci_status_message = None, ci_tox_id_bin = None, ci_tox_id_hex = None, ci_connect = None\<rparr>) = Inr ci"
    by blast
  then have "\<exists>s. suit_start env1 ''1'' ''0'' None None None files0 \<lparr>blk = Map.empty, brk = 0\<rparr> = Inr (Some s)"
    using f by (simp add: suit_start_def suit_info_new_def open_profile_def p n load_shrlist_def load_senders_def
        be_node_loadfile_def Let_def)
  with suit_start_typed [OF env1_ok(2), of "''1''" "''0''" None None None files0 "\<lparr>blk = Map.empty, brk = 0\<rparr>"]
  show ?thesis by blast
qed

text \<open>
  C3 (invariant): every event that \<^verbatim>\<open>toxcore\<close> or \<^verbatim>\<open>toxav\<close> reports keeps that form and uses
  no freed hash block, in whatever order the events come, unless a friend asks for a shared file or
  runs the command that deletes itself: of these, the first shares a hash block between two
  transfers and the second deletes the friend from \<^verbatim>\<open>toxcore\<close> only.
\<close>

theorem events_keep_form:
  assumes "quiet (e_api e)" and "friend_laws (e_api e)" and "suit_ok (e_api e) s" and "list_all peaceful evs"
  shows "handle_all_tox e evs s \<noteq> Inl UseAfterFree \<and> handle_all_av e avs s \<noteq> Inl UseAfterFree \<and>
    (\<forall>r. handle_all_tox e evs s = Inr r \<longrightarrow> ends_ok (suit_ok (e_api e)) r) \<and>
    (\<forall>s'. handle_all_av e avs s = Inr s' \<longrightarrow> suit_ok (e_api e) s')"
  using handle_all_tox_safe [OF assms] handle_all_av_safe [OF assms(1,3), of avs]
  by (cases "handle_all_tox e evs s"; cases "handle_all_av e avs s") auto

lemma suit0_ok: "suit_ok sample (suit0\<lparr>su_friends := [keyed0]\<rparr>)"
  by (simp add: suit_ok_def suit0_def agrees_def registry_ok_def numbers_def keyed0 sample_def su_tox_def su_w_def
      world0_def calls_ok_def testers_ok_def op_wf_def op0_def node0_def has_file_def path_of_def owned_def
      node_hash_def queue_wf_def parts_def)

theorem events_keep_form_witness:
  "handle_all_tox env0 [FriendConnection 1 1, FriendName 1 ''al'' 2, FriendRequest (CHR 0x05 # pad32 []), RecvOffer 1 7 0]
     (suit0\<lparr>su_friends := [keyed0]\<rparr>) \<noteq> Inl UseAfterFree"
proof -
  have "e_api env0 = sample" by (simp add: env0_def)
  then show ?thesis
    using events_keep_form [of env0 "suit0\<lparr>su_friends := [keyed0]\<rparr>"
       "[FriendConnection 1 1, FriendName 1 ''al'' 2, FriendRequest (CHR 0x05 # pad32 []), RecvOffer 1 7 0]" "[]"]
      quiet_sample friend_laws_sample suit0_ok by simp
qed

text \<open>
  C1 (safety): of the storage that the program allocates, the hash blocks are the blocks that several
  objects point to: a shared file, its transfers, the loaded transfers. No run of the program
  reads, writes or frees a hash block that was freed before, from the start through any number of
  passes of the loop to the end of the shut-down, whatever the files of the home directory hold,
  whatever the network reports in which order and whenever the signal comes, if what the friends
  send is peaceful. A run that has not ended is in a state in which every hash block has one
  owner. Other blocks have no lifetime in this model; those of the calls and of bencode have one
  in \<open>Call_Memory\<close> and \<open>Bencode_Heap\<close>.
\<close>

theorem main_hash_blocks_safe:
  assumes "env_ok e" and "friends_distinct (e_api e)"
  shows "suit_main e chdir version git_version getenv fresh root h tps \<noteq> Inl UseAfterFree \<and>
    (\<forall>s. suit_main e chdir version git_version getenv fresh root h tps = Inr (StillRunning s) \<longrightarrow>
       suit_ok (e_api e) s)"
  using suit_main_safe [OF assms, of chdir version git_version getenv fresh root h tps]
  by (cases "suit_main e chdir version git_version getenv fresh root h tps") auto

theorem main_hash_blocks_safe_witness:
  "suit_main env1 (map_option (\<lambda>_. files0)) ''1'' ''0'' (\<lambda>v. if v = ''SUIT_HOME'' then Some ''h'' else None)
     (\<lambda>n. replicate n CHR ''x'') files0 \<lparr>blk = Map.empty, brk = 0\<rparr>
     [(False, at 0), (False, at 1000), (False, at 2000), (True, at 3000)] \<noteq> Inl UseAfterFree"
  using main_hash_blocks_safe [OF env1_ok(1,2)] by blast

end
