(* ===== verification/Block_Memory.thy ===== *)
theory Block_Memory
  imports Prelude
begin

text \<open>
  A memory of blocks, for the structures whose release is followed: a block has an address and
  contents of some type \<open>'c\<close>; addresses are not used again. What a computation does to memory
  is said by \<open>changed\<close>: which blocks it started from and which it left.
\<close>

section \<open>Operations\<close>

record 'c block_mem =
  cells :: "nat \<Rightarrow> 'c option"
  btop :: nat

definition malloc :: "'c \<Rightarrow> 'c block_mem \<Rightarrow> nat \<times> 'c block_mem" where
  "malloc c m = (btop m, m\<lparr>cells := (cells m)(btop m := Some c), btop := Suc (btop m)\<rparr>)"

definition mfree :: "nat \<Rightarrow> 'c block_mem \<Rightarrow> 'c block_mem res" where
  "mfree p m = (case cells m p of None \<Rightarrow> Inl UseAfterFree
     | Some _ \<Rightarrow> Inr (m\<lparr>cells := (cells m)(p := None)\<rparr>))"

definition load_cell :: "nat \<Rightarrow> 'c block_mem \<Rightarrow> 'c res" where
  "load_cell p m = (case cells m p of None \<Rightarrow> Inl UseAfterFree | Some c \<Rightarrow> Inr c)"

definition store_cell :: "nat \<Rightarrow> 'c \<Rightarrow> 'c block_mem \<Rightarrow> 'c block_mem res" where
  "store_cell p c m = r_bind (load_cell p m) (\<lambda>_. Inr (m\<lparr>cells := (cells m)(p := Some c)\<rparr>))"

section \<open>What changes\<close>

text \<open>
  \<open>changed m F m' F'\<close>: a computation that owns the blocks \<open>F\<close> of \<open>m\<close> has left those in \<open>F'\<close> of
  \<open>m'\<close>, and the memory apart from them is the same. New blocks come from above \<open>btop\<close>.
\<close>

definition mem_ok :: "'c block_mem \<Rightarrow> bool" where
  "mem_ok m \<longleftrightarrow> (\<forall>a. btop m \<le> a \<longrightarrow> cells m a = None)"

definition changed :: "'c block_mem \<Rightarrow> nat set \<Rightarrow> 'c block_mem \<Rightarrow> nat set \<Rightarrow> bool" where
  "changed m F m' F' \<longleftrightarrow> mem_ok m' \<and> btop m \<le> btop m' \<and> cells m |` (- F) = cells m' |` (- F')"

lemma changed_refl: "mem_ok m \<Longrightarrow> changed m F m F"
  by (simp add: changed_def)

lemma changed_trans: "changed m F m1 G \<Longrightarrow> changed m1 G m2 H \<Longrightarrow> changed m F m2 H"
  by (simp add: changed_def)

lemma changed_frame: "changed m F m' F' \<Longrightarrow> changed m (F \<union> R) m' (F' \<union> R)"
  unfolding changed_def by (metis Compl_Un restrict_restrict)

lemma changed_cell: "changed m F m' F' \<Longrightarrow> a \<notin> F \<Longrightarrow> cells m a = Some c \<Longrightarrow> a \<notin> F' \<and> cells m' a = Some c"
  unfolding changed_def by (metis ComplI Compl_iff option.distinct(1) restrict_in restrict_out)

lemma changed_ok: "changed m F m' F' \<Longrightarrow> mem_ok m'"
  by (simp add: changed_def)

text \<open>Two steps, of which the second owns only some of what the first left.\<close>

lemma changed_then: "changed m F m1 (G \<union> R) \<Longrightarrow> changed m1 G m2 H \<Longrightarrow> changed m F m2 (H \<union> R)"
  using changed_trans changed_frame by blast

lemma malloc_changed:
  "mem_ok m \<Longrightarrow> malloc c m = (q, m') \<Longrightarrow>
   changed m F m' (insert q F) \<and> cells m' = (cells m)(q := Some c) \<and> q = btop m \<and> cells m q = None"
  by (auto simp: malloc_def changed_def mem_ok_def restrict_map_def fun_eq_iff)

lemmas malloc_frame = malloc_changed [THEN conjunct1]
  and malloc_cells = malloc_changed [THEN conjunct2, THEN conjunct1]
  and malloc_new = malloc_changed [THEN conjunct2, THEN conjunct2, THEN conjunct2]

lemma mfree_changed:
  "mem_ok m \<Longrightarrow> cells m q = Some c \<Longrightarrow>
   \<exists>m'. mfree q m = Inr m' \<and> changed m (insert q F) m' (F - {q}) \<and> cells m' = (cells m)(q := None)"
  by (auto simp: mfree_def changed_def mem_ok_def restrict_map_def fun_eq_iff)

lemma store_changed:
  "mem_ok m \<Longrightarrow> cells m q = Some c \<Longrightarrow> q \<in> F \<Longrightarrow>
   \<exists>m'. store_cell q d m = Inr m' \<and> changed m F m' F \<and> cells m' = (cells m)(q := Some d)"
  by (auto simp: store_cell_def load_cell_def changed_def mem_ok_def restrict_map_def fun_eq_iff)

text \<open>A memory without some blocks.\<close>

definition without :: "nat set \<Rightarrow> 'c block_mem \<Rightarrow> 'c block_mem" where
  "without F m = m\<lparr>cells := cells m |` (- F)\<rparr>"

lemma without_simps [simp]:
  "cells (without F m) a = (if a \<in> F then None else cells m a)" "btop (without F m) = btop m"
  "without F (without G m) = without (F \<union> G) m" "without {} m = m"
  by (auto simp: without_def restrict_map_def fun_eq_iff)

lemma mfree_without: "cells m p \<noteq> None \<Longrightarrow> mfree p m = Inr (without {p} m)"
  by (auto simp: mfree_def without_def restrict_map_def fun_eq_iff)

text \<open>What a computation does not own it leaves as it is.\<close>

lemma changed_same:
  assumes "changed m F m' F'" "G \<subseteq> dom (cells m)" "F \<inter> G = {}"
  shows "\<forall>a\<in>G. cells m' a = cells m a" and "F' \<inter> G = {}"
  using changed_cell [OF assms(1)] assms(2,3) by (fastforce simp: dom_def)+

lemma changed_dom: "changed m F m' F' \<Longrightarrow> dom (cells m) - F = dom (cells m') - F'"
  by (auto simp: changed_def dom_def restrict_map_def fun_eq_iff) (metis option.distinct(1))+

lemma update_changed:
  "mem_ok m \<Longrightarrow> cells m a = Some d \<Longrightarrow> a \<in> F \<Longrightarrow> changed m F (m\<lparr>cells := (cells m)(a := Some c)\<rparr>) F"
  by (auto simp: changed_def mem_ok_def restrict_map_def fun_eq_iff)

end
