(* ===== verification/Bencode_Heap.thy ===== *)
theory Bencode_Heap
  imports Bencode Block_Memory
begin

text \<open>
  The nodes of \<^verbatim>\<open>src/bencode/bencode.c\<close> as the code has them, in memory: a node, the
  array of a list or dictionary and a string are blocks of their own, which the decoder
  allocates, grows with \<^verbatim>\<open>realloc\<close> and, when an item turns out to be malformed, gives back
  with \<^verbatim>\<open>be_free\<close>. The functions are proved to compute what those of \<open>Bencode\<close> do, and
  what they leave in memory is exactly the tree that represents the result.
\<close>

section \<open>Memory\<close>

datatype be_type = T_STR | T_INT | T_LIST | T_DICT

text \<open>
  The union with its tag; \<open>None\<close> is the null pointer. A string is one block, in which its
  length precedes it; what is kept here is the bytes. A place of an array that was never
  written is \<open>None\<close>, a null pointer in it \<open>Some None\<close>. An array of a dictionary has pairs of a
  key and a value.
\<close>

datatype be_val = Vs "nat option" | Vi int | Vl "nat option" | Vd "nat option"

type_synonym slot = "nat option option"

datatype be_cell = NodeC be_val | StrC string | ArrC "slot list" | DicC "(slot \<times> slot) list"

type_synonym bmem = "be_cell block_mem"

definition load_val :: "nat \<Rightarrow> bmem \<Rightarrow> be_val res" where
  "load_val p m = r_bind (load_cell p m) (\<lambda>c. case c of NodeC v \<Rightarrow> Inr v | _ \<Rightarrow> Inl TypeConfusion)"

text \<open>The arrays \<^verbatim>\<open>node->val.l\<close> and \<^verbatim>\<open>node->val.d\<close>.\<close>

definition load_arr :: "nat option \<Rightarrow> bmem \<Rightarrow> (nat \<times> slot list) res" where
  "load_arr l m = (case l of None \<Rightarrow> Inl NullDeref
     | Some a \<Rightarrow> r_bind (load_cell a m) (\<lambda>c. case c of ArrC sl \<Rightarrow> Inr (a, sl) | _ \<Rightarrow> Inl TypeConfusion))"

definition load_dic :: "nat option \<Rightarrow> bmem \<Rightarrow> (nat \<times> (slot \<times> slot) list) res" where
  "load_dic d m = (case d of None \<Rightarrow> Inl NullDeref
     | Some a \<Rightarrow> r_bind (load_cell a m) (\<lambda>c. case c of DicC es \<Rightarrow> Inr (a, es) | _ \<Rightarrow> Inl TypeConfusion))"

definition val_list :: "be_val \<Rightarrow> nat option res" where
  "val_list v = (case v of Vl l \<Rightarrow> Inr l | _ \<Rightarrow> Inl TypeConfusion)"

definition val_dict :: "be_val \<Rightarrow> nat option res" where
  "val_dict v = (case v of Vd d \<Rightarrow> Inr d | _ \<Rightarrow> Inl TypeConfusion)"

text \<open>Reading a place.\<close>

definition at_slot :: "nat \<Rightarrow> slot list \<Rightarrow> nat option res" where
  "at_slot i sl = (if length sl \<le> i then Inl OutOfBounds
     else case sl ! i of None \<Rightarrow> Inl Uninit | Some x \<Rightarrow> Inr x)"

text \<open>\<^verbatim>\<open>node->val.l = realloc(node->val.l, n * sizeof(*node->val.l))\<close>, the same for
  dictionaries, and the assignments to an element.\<close>

definition realloc_list :: "nat \<Rightarrow> nat \<Rightarrow> bmem \<Rightarrow> bmem res" where
  "realloc_list p n m =
     r_bind (load_val p m) (\<lambda>v. r_bind (val_list v) (\<lambda>l.
       case l of
         None \<Rightarrow> let (a, m) = malloc (ArrC (replicate n None)) m in store_cell p (NodeC (Vl (Some a))) m
       | Some _ \<Rightarrow>
           r_bind (load_arr l m) (\<lambda>(a, sl). r_bind (mfree a m) (\<lambda>m.
             let (b, m) = malloc (ArrC (take n (sl @ replicate n None))) m in
             store_cell p (NodeC (Vl (Some b))) m))))"

definition realloc_dict :: "nat \<Rightarrow> nat \<Rightarrow> bmem \<Rightarrow> bmem res" where
  "realloc_dict p n m =
     r_bind (load_val p m) (\<lambda>v. r_bind (val_dict v) (\<lambda>d.
       case d of
         None \<Rightarrow> let (a, m) = malloc (DicC (replicate n (None, None))) m in store_cell p (NodeC (Vd (Some a))) m
       | Some _ \<Rightarrow>
           r_bind (load_dic d m) (\<lambda>(a, es). r_bind (mfree a m) (\<lambda>m.
             let (b, m) = malloc (DicC (take n (es @ replicate n (None, None)))) m in
             store_cell p (NodeC (Vd (Some b))) m))))"

definition set_item :: "nat \<Rightarrow> nat \<Rightarrow> nat option \<Rightarrow> bmem \<Rightarrow> bmem res" where
  "set_item p i x m =
     r_bind (load_val p m) (\<lambda>v. r_bind (val_list v) (\<lambda>l. r_bind (load_arr l m) (\<lambda>(a, sl).
       if i < length sl then store_cell a (ArrC (sl[i := Some x])) m else Inl OutOfBounds)))"

definition set_pair :: "nat \<Rightarrow> nat \<Rightarrow> (slot \<times> slot \<Rightarrow> slot \<times> slot) \<Rightarrow> bmem \<Rightarrow> bmem res" where
  "set_pair p i f m =
     r_bind (load_val p m) (\<lambda>v. r_bind (val_dict v) (\<lambda>d. r_bind (load_dic d m) (\<lambda>(a, es).
       if i < length es then store_cell a (DicC (es[i := f (es ! i)])) m else Inl OutOfBounds)))"

definition set_key :: "nat \<Rightarrow> nat \<Rightarrow> nat option \<Rightarrow> bmem \<Rightarrow> bmem res" where
  "set_key p i k = set_pair p i (\<lambda>(_, v). (Some k, v))"

definition set_val :: "nat \<Rightarrow> nat \<Rightarrow> nat option \<Rightarrow> bmem \<Rightarrow> bmem res" where
  "set_val p i v = set_pair p i (\<lambda>(k, _). (k, Some v))"

section \<open>Releasing a node\<close>

definition be_free_str :: "nat option \<Rightarrow> bmem \<Rightarrow> bmem res" where
  "be_free_str s m = (case s of None \<Rightarrow> Inr m | Some q \<Rightarrow> mfree q m)"

text \<open>
  The recursion of \<^verbatim>\<open>be_free\<close> and its two loops, with fuel; \<open>be_free\<close> gives twice the
  number of blocks there ever were, which is proved to be enough for every tree.
\<close>

function (sequential) be_free_node :: "nat \<Rightarrow> nat \<Rightarrow> bmem \<Rightarrow> bmem res"
and be_free_items :: "nat \<Rightarrow> nat option \<Rightarrow> nat \<Rightarrow> bmem \<Rightarrow> bmem res"
and be_free_pairs :: "nat \<Rightarrow> nat option \<Rightarrow> nat \<Rightarrow> bmem \<Rightarrow> bmem res"
where
  "be_free_node 0 p m = Inl OutOfFuel"
| "be_free_node (Suc k) p m =
     r_bind (load_val p m) (\<lambda>v. r_bind
       (case v of
          Vs s \<Rightarrow> be_free_str s m
        | Vi i \<Rightarrow> Inr m
        | Vl l \<Rightarrow> r_bind (be_free_items k l 0 m) (\<lambda>m. case l of None \<Rightarrow> Inr m | Some a \<Rightarrow> mfree a m)
        | Vd d \<Rightarrow> r_bind (be_free_pairs k d 0 m) (\<lambda>m. case d of None \<Rightarrow> Inr m | Some a \<Rightarrow> mfree a m))
       (mfree p))"
| "be_free_items 0 l i m = Inl OutOfFuel"
| "be_free_items (Suc k) l i m =
     r_bind (load_arr l m) (\<lambda>(_, sl). r_bind (at_slot i sl) (\<lambda>x.
       case x of None \<Rightarrow> Inr m
       | Some q \<Rightarrow> r_bind (be_free_node k q m) (be_free_items k l (Suc i))))"
| "be_free_pairs 0 d i m = Inl OutOfFuel"
| "be_free_pairs (Suc k) d i m =
     r_bind (load_dic d m) (\<lambda>(_, es). r_bind (at_slot i (map snd es)) (\<lambda>x.
       case x of None \<Rightarrow> Inr m
       | Some q \<Rightarrow>
           r_bind (at_slot i (map fst es)) (\<lambda>key. r_bind (be_free_str key m) (\<lambda>m.
           r_bind (be_free_node k q m) (be_free_pairs k d (Suc i))))))"
  by pat_completeness auto
termination
  by (relation "measure (case_sum fst (case_sum fst fst))") auto

definition be_free :: "nat \<Rightarrow> bmem \<Rightarrow> bmem res" where
  "be_free p m = be_free_node (2 * btop m) p m"

section \<open>Decoding\<close>

definition be_alloc :: "be_type \<Rightarrow> bmem \<Rightarrow> nat \<times> bmem" where
  "be_alloc ty = malloc (NodeC (case ty of
     T_STR \<Rightarrow> Vs None | T_INT \<Rightarrow> Vi 0 | T_LIST \<Rightarrow> Vl None | T_DICT \<Rightarrow> Vd None))"

type_synonym item = "nat option \<times> string \<times> int"

definition decode_str_mem :: "string \<Rightarrow> int \<Rightarrow> bmem \<Rightarrow> (item \<times> bmem) res" where
  "decode_str_mem data data_len m =
     r_bind (be_decode_str data data_len) (\<lambda>(s, data, data_len).
       case s of
         None \<Rightarrow> Inr ((None, data, data_len), m)
       | Some s \<Rightarrow> let (q, m) = malloc (StrC s) m in Inr ((Some q, data, data_len), m))"

function (sequential) decode_node_mem :: "nat \<Rightarrow> string \<Rightarrow> int \<Rightarrow> bmem \<Rightarrow> (item \<times> bmem) res"
and decode_list_mem :: "nat \<Rightarrow> nat \<Rightarrow> nat \<Rightarrow> string \<Rightarrow> int \<Rightarrow> bmem \<Rightarrow> (item \<times> bmem) res"
and decode_dict_mem :: "nat \<Rightarrow> nat \<Rightarrow> nat \<Rightarrow> string \<Rightarrow> int \<Rightarrow> bmem \<Rightarrow> (item \<times> bmem) res"
where
  "decode_node_mem 0 data data_len m = Inl OutOfFuel"
| "decode_node_mem (Suc fuel) data data_len m =
     (if data_len = 0 then Inr ((None, data, data_len), m)
      else case data of
          [] \<Rightarrow> Inl OutOfBounds
        | c # rest \<Rightarrow>
            if c = CHR ''l'' then
              (let (ret, m) = be_alloc T_LIST m in decode_list_mem fuel ret 0 rest (data_len - 1) m)
            else if c = CHR ''d'' then
              (let (ret, m) = be_alloc T_DICT m in decode_dict_mem fuel ret 0 rest (data_len - 1) m)
            else if c = CHR ''i'' then
              (let (ret, m) = be_alloc T_INT m in
               r_bind (be_decode_int rest (data_len - 1)) (\<lambda>(i, data, data_len).
               r_bind (store_cell ret (NodeC (Vi i)) m) (\<lambda>m.
                 case data of
                     [] \<Rightarrow> Inl OutOfBounds
                   | e # rest \<Rightarrow>
                       if e \<noteq> CHR ''e'' then r_bind (be_free ret m) (\<lambda>m. Inr ((None, data, data_len), m))
                       else Inr ((Some ret, rest, data_len - 1), m))))
            else if isdigit c then
              (let (ret, m) = be_alloc T_STR m in
               r_bind (decode_str_mem data data_len m) (\<lambda>((s, data, data_len), m).
               r_bind (store_cell ret (NodeC (Vs s)) m) (\<lambda>m. Inr ((Some ret, data, data_len), m))))
            else Inr ((None, data, data_len), m))"
| "decode_list_mem 0 ret i data data_len m = Inl OutOfFuel"
| "decode_list_mem (Suc fuel) ret i data data_len m =
     (case data of
        [] \<Rightarrow> Inl OutOfBounds
      | c # rest \<Rightarrow>
          if c = CHR ''e'' then
            r_bind (if i = 0 then realloc_list ret 1 m else Inr m) (\<lambda>m.
            r_bind (set_item ret i None m) (\<lambda>m. Inr ((Some ret, rest, data_len - 1), m)))
          else
            r_bind (realloc_list ret (i + 2) m) (\<lambda>m.
            r_bind (decode_node_mem fuel data data_len m) (\<lambda>((v, data, data_len), m).
            r_bind (set_item ret i v m) (\<lambda>m.
              case v of
                None \<Rightarrow> r_bind (be_free ret m) (\<lambda>m. Inr ((None, data, data_len), m))
              | Some _ \<Rightarrow> decode_list_mem fuel ret (Suc i) data data_len m))))"
| "decode_dict_mem 0 ret i data data_len m = Inl OutOfFuel"
| "decode_dict_mem (Suc fuel) ret i data data_len m =
     (case data of
        [] \<Rightarrow> Inl OutOfBounds
      | c # rest \<Rightarrow>
          if c = CHR ''e'' then
            r_bind (if i = 0 then realloc_dict ret 1 m else Inr m) (\<lambda>m.
            r_bind (set_val ret i None m) (\<lambda>m. Inr ((Some ret, rest, data_len - 1), m)))
          else
            r_bind (realloc_dict ret (i + 2) m) (\<lambda>m.
            r_bind (decode_str_mem data data_len m) (\<lambda>((key, data, data_len), m).
            r_bind (set_key ret i key m) (\<lambda>m.
            r_bind (decode_node_mem fuel data data_len m) (\<lambda>((v, data, data_len), m).
            r_bind (set_val ret i v m) (\<lambda>m.
            r_bind (set_val ret (i + 1) None m) (\<lambda>m.
              if key = None \<or> v = None
              then r_bind (be_free ret m) (\<lambda>m. Inr ((None, data, data_len), m))
              else decode_dict_mem fuel ret (Suc i) data data_len m)))))))"
  by pat_completeness auto
termination
  by (relation "measure (case_sum fst (case_sum fst fst))") auto

definition decoden_mem :: "string \<Rightarrow> int \<Rightarrow> bmem \<Rightarrow> (nat option \<times> bmem) res" where
  "decoden_mem data len m =
     r_bind (decode_node_mem (2 * length data + 1) data len m) (\<lambda>((ret, _, _), m). Inr (ret, m))"

section \<open>Constructors\<close>

text \<open>
  \<^verbatim>\<open>be_create_dict\<close> and \<^verbatim>\<open>be_create_list\<close> decode a literal; the others fill a node. The
  search for the end of an array stops at its first null.
\<close>

definition create_dict_mem :: "bmem \<Rightarrow> (nat option \<times> bmem) res" where
  "create_dict_mem = decoden_mem (''de'' @ [NUL]) 2"

definition create_list_mem :: "bmem \<Rightarrow> (nat option \<times> bmem) res" where
  "create_list_mem = decoden_mem (''le'' @ [NUL]) 2"

definition create_int_mem :: "int \<Rightarrow> bmem \<Rightarrow> (nat \<times> bmem) res" where
  "create_int_mem num m =
     (let (n, m) = be_alloc T_INT m in r_bind (store_cell n (NodeC (Vi num)) m) (\<lambda>m. Inr (n, m)))"

definition create_str_mem :: "string \<Rightarrow> nat \<Rightarrow> bmem \<Rightarrow> (nat \<times> bmem) res" where
  "create_str_mem str len m =
     (let (ret, m) = malloc (StrC (take len str)) m; (n, m) = be_alloc T_STR m in
      if length str < len then Inl OutOfBounds
      else r_bind (store_cell n (NodeC (Vs (Some ret))) m) (\<lambda>m. Inr (n, m)))"

definition create_cstr_mem :: "string \<Rightarrow> bmem \<Rightarrow> (nat \<times> bmem) res" where
  "create_cstr_mem str = create_str_mem (cstr str) (length (cstr str))"

fun find_null :: "slot list \<Rightarrow> nat res" where
  "find_null [] = Inl OutOfBounds"
| "find_null (None # sl) = Inl Uninit"
| "find_null (Some None # sl) = Inr 0"
| "find_null (Some (Some q) # sl) = r_bind (find_null sl) (\<lambda>i. Inr (Suc i))"

definition add_list_mem :: "nat \<Rightarrow> nat \<Rightarrow> bmem \<Rightarrow> (int \<times> bmem) res" where
  "add_list_mem list node m =
     r_bind (load_val list m) (\<lambda>v. case v of
       Vl l \<Rightarrow>
         r_bind (load_arr l m) (\<lambda>(_, sl). r_bind (find_null sl) (\<lambda>i.
         r_bind (realloc_list list (i + 2) m) (\<lambda>m.
         r_bind (set_item list i (Some node) m) (\<lambda>m.
         r_bind (set_item list (i + 1) None m) (\<lambda>m. Inr (1, m))))))
     | _ \<Rightarrow> Inr (0, m))"

definition add_keypair_mem :: "nat \<Rightarrow> string \<Rightarrow> nat \<Rightarrow> bmem \<Rightarrow> (int \<times> bmem) res" where
  "add_keypair_mem dict str node m =
     r_bind (load_val dict m) (\<lambda>v. case v of
       Vd d \<Rightarrow>
         r_bind (load_dic d m) (\<lambda>(_, es). r_bind (find_null (map snd es)) (\<lambda>i.
         r_bind (realloc_dict dict (i + 2) m) (\<lambda>m.
         let (ret, m) = malloc (StrC (cstr str)) m in
         r_bind (set_key dict i (Some ret) m) (\<lambda>m.
         r_bind (set_val dict i (Some node) m) (\<lambda>m.
         r_bind (set_val dict (i + 1) None m) (\<lambda>m. Inr (1, m)))))))
     | _ \<Rightarrow> Inr (0, m))"

section \<open>Trees can be released\<close>

text \<open>The blocks of a node, whatever it holds; arrays count up to their first null.\<close>

inductive owns :: "bmem \<Rightarrow> nat \<Rightarrow> nat set \<Rightarrow> bool"
  and owns_items :: "bmem \<Rightarrow> slot list \<Rightarrow> nat set \<Rightarrow> bool"
  and owns_pairs :: "bmem \<Rightarrow> (slot \<times> slot) list \<Rightarrow> nat set \<Rightarrow> bool"
  for m where
  owns_int: "cells m p = Some (NodeC (Vi i)) \<Longrightarrow> owns m p {p}"
| owns_null: "cells m p = Some (NodeC (Vs None)) \<Longrightarrow> owns m p {p}"
| owns_str: "cells m p = Some (NodeC (Vs (Some q))) \<Longrightarrow> cells m q = Some (StrC s) \<Longrightarrow> owns m p {p, q}"
| owns_list: "cells m p = Some (NodeC (Vl (Some a))) \<Longrightarrow> cells m a = Some (ArrC sl) \<Longrightarrow> owns_items m sl F \<Longrightarrow>
   p \<notin> F \<Longrightarrow> a \<notin> F \<Longrightarrow> owns m p (insert p (insert a F))"
| owns_dict: "cells m p = Some (NodeC (Vd (Some a))) \<Longrightarrow> cells m a = Some (DicC es) \<Longrightarrow> owns_pairs m es F \<Longrightarrow>
   p \<notin> F \<Longrightarrow> a \<notin> F \<Longrightarrow> owns m p (insert p (insert a F))"
| items_end: "owns_items m (Some None # sl) {}"
| items_cons: "owns m q F \<Longrightarrow> owns_items m sl G \<Longrightarrow> F \<inter> G = {} \<Longrightarrow> owns_items m (Some (Some q) # sl) (F \<union> G)"
| pairs_end: "owns_pairs m ((key, Some None) # es) {}"
| pairs_null: "owns m q F \<Longrightarrow> owns_pairs m es G \<Longrightarrow> F \<inter> G = {} \<Longrightarrow> owns_pairs m ((Some None, Some (Some q)) # es) (F \<union> G)"
| pairs_cons: "cells m k = Some (StrC s) \<Longrightarrow> owns m q F \<Longrightarrow> owns_pairs m es G \<Longrightarrow> F \<inter> G = {} \<Longrightarrow> k \<notin> F \<union> G \<Longrightarrow>
   owns_pairs m ((Some (Some k), Some (Some q)) # es) (insert k (F \<union> G))"

lemma owns_finite:
  "owns m p F \<Longrightarrow> finite F \<and> p \<in> F \<and> F \<subseteq> dom (cells m)"
  "owns_items m sl F \<Longrightarrow> finite F \<and> F \<subseteq> dom (cells m)"
  "owns_pairs m es F \<Longrightarrow> finite F \<and> F \<subseteq> dom (cells m)"
  by (induction rule: owns_owns_items_owns_pairs.inducts) auto

lemma nth_drop_Cons: "drop i xs = x # ys \<Longrightarrow> i < length xs \<and> xs ! i = x \<and> drop (Suc i) xs = ys"
  by (metis Cons_nth_drop_Suc drop_eq_Nil leI list.distinct(1) list.inject)

lemma at_slot_drop: "drop i sl = Some x # rest \<Longrightarrow> at_slot i sl = Inr x"
  using nth_drop_Cons [of i sl] by (simp add: at_slot_def)

lemma be_free_enough:
  "owns m p F \<Longrightarrow> (\<forall>a\<in>F. cells m1 a = cells m a) \<Longrightarrow> 2 * card F \<le> k \<Longrightarrow> be_free_node k p m1 = Inr (without F m1)"
  "owns_items m sl F \<Longrightarrow> (\<forall>a\<in>F. cells m1 a = cells m a) \<Longrightarrow> 2 * card F < k \<Longrightarrow>
     cells m1 a = Some (ArrC full) \<Longrightarrow> a \<notin> F \<Longrightarrow> drop i full = sl \<Longrightarrow>
     be_free_items k (Some a) i m1 = Inr (without F m1)"
  "owns_pairs m es F \<Longrightarrow> (\<forall>a\<in>F. cells m1 a = cells m a) \<Longrightarrow> 2 * card F < k \<Longrightarrow>
     cells m1 a = Some (DicC full') \<Longrightarrow> a \<notin> F \<Longrightarrow> drop i full' = es \<Longrightarrow>
     be_free_pairs k (Some a) i m1 = Inr (without F m1)"
proof (induction arbitrary: m1 k and m1 k a full i and m1 k a full' i rule: owns_owns_items_owns_pairs.inducts)
  case (owns_int p i)
  then show ?case
    by (cases k) (auto simp: load_val_def load_cell_def mfree_without)
next
  case (owns_null p)
  then show ?case
    by (cases k) (auto simp: load_val_def load_cell_def mfree_without be_free_str_def)
next
  case (owns_str p q s)
  then have "p \<noteq> q" by auto
  with owns_str show ?case
    by (cases k) (auto simp: load_val_def load_cell_def mfree_without be_free_str_def insert_commute)
next
  case (owns_list p a sl F)
  have fin: "finite F" using owns_finite(2) [OF owns_list(3)] by simp
  have pa: "p \<noteq> a" using owns_list(1,2) by auto
  have c: "card (insert p (insert a F)) = 2 + card F" using fin pa owns_list(5,6) by simp
  then obtain k' where k: "k = Suc k'" "2 * card F < k'" using owns_list(8) by (cases k) auto
  have m1: "cells m1 p = Some (NodeC (Vl (Some a)))" "cells m1 a = Some (ArrC sl)" using owns_list(1,2,7) by simp_all
  have "be_free_items k' (Some a) 0 m1 = Inr (without F m1)"
    by (rule owns_list(4)) (use owns_list(6,7) k m1 in auto)
  moreover have "mfree a (without F m1) = Inr (without {a} (without F m1))"
    using m1(2) owns_list(6) by (intro mfree_without) simp
  moreover have "mfree p (without {a} (without F m1)) = Inr (without {p} (without {a} (without F m1)))"
    using m1(1) owns_list(5) pa by (intro mfree_without) simp
  ultimately show ?case using m1(1) by (simp add: k load_val_def load_cell_def insert_commute)
next
  case (owns_dict p a es F)
  have fin: "finite F" using owns_finite(3) [OF owns_dict(3)] by simp
  have pa: "p \<noteq> a" using owns_dict(1,2) by auto
  have c: "card (insert p (insert a F)) = 2 + card F" using fin pa owns_dict(5,6) by simp
  then obtain k' where k: "k = Suc k'" "2 * card F < k'" using owns_dict(8) by (cases k) auto
  have m1: "cells m1 p = Some (NodeC (Vd (Some a)))" "cells m1 a = Some (DicC es)" using owns_dict(1,2,7) by simp_all
  have "be_free_pairs k' (Some a) 0 m1 = Inr (without F m1)"
    by (rule owns_dict(4)) (use owns_dict(6,7) k m1 in auto)
  moreover have "mfree a (without F m1) = Inr (without {a} (without F m1))"
    using m1(2) owns_dict(6) by (intro mfree_without) simp
  moreover have "mfree p (without {a} (without F m1)) = Inr (without {p} (without {a} (without F m1)))"
    using m1(1) owns_dict(5) pa by (intro mfree_without) simp
  ultimately show ?case using m1(1) by (simp add: k load_val_def load_cell_def insert_commute)
next
  case (items_end sl)
  then show ?case by (cases k) (simp_all add: load_arr_def load_cell_def at_slot_drop)
next
  case (items_cons q F sl G)
  have fin: "finite F" "q \<in> F" "finite G" using owns_finite [of m] items_cons(1,3) by blast+
  then have "card F \<noteq> 0" by auto
  moreover have "card (F \<union> G) = card F + card G" using fin items_cons(5) by (simp add: card_Un_disjoint)
  ultimately obtain k' where k: "k = Suc k'" "2 * card F \<le> k'" "2 * card G < k'" using items_cons(7) by (cases k) auto
  have "be_free_node k' q m1 = Inr (without F m1)" using items_cons(2) items_cons(6) k(2) by simp
  moreover have "be_free_items k' (Some a) (Suc i) (without F m1) = Inr (without G (without F m1))"
    by (rule items_cons(4)) (use items_cons(5,6,8,9) k nth_drop_Cons [OF items_cons(10)] in auto)
  ultimately show ?case
    using items_cons(8) at_slot_drop [OF items_cons(10)] by (simp add: k load_arr_def load_cell_def Un_commute)
next
  case (pairs_end key es)
  then have "drop i (map snd full') = Some None # map snd es" by (simp add: drop_map)
  with pairs_end show ?case by (cases k) (simp_all add: load_dic_def load_cell_def at_slot_drop)
next
  case (pairs_null q F es G)
  have fin: "finite F" "q \<in> F" "finite G" using owns_finite [of m] pairs_null(1,3) by blast+
  then have "card F \<noteq> 0" by auto
  moreover have "card (F \<union> G) = card F + card G" using fin pairs_null(5) by (simp add: card_Un_disjoint)
  ultimately obtain k' where k: "k = Suc k'" "2 * card F \<le> k'" "2 * card G < k'" using pairs_null(7) by (cases k) auto
  have d: "drop i (map snd full') = Some (Some q) # map snd es" "drop i (map fst full') = Some None # map fst es"
    using pairs_null(10) by (simp_all add: drop_map)
  have "be_free_node k' q m1 = Inr (without F m1)" using pairs_null(2) pairs_null(6) k(2) by simp
  moreover have "be_free_pairs k' (Some a) (Suc i) (without F m1) = Inr (without G (without F m1))"
    by (rule pairs_null(4)) (use pairs_null(5,6,8,9) k nth_drop_Cons [OF pairs_null(10)] in auto)
  ultimately show ?case
    using pairs_null(8) at_slot_drop [OF d(1)] at_slot_drop [OF d(2)]
    by (simp add: k load_dic_def load_cell_def be_free_str_def Un_commute)
next
  case (pairs_cons kk s q F es G)
  have fin: "finite F" "q \<in> F" "finite G" using owns_finite [of m] pairs_cons(2,4) by blast+
  then have "card F \<noteq> 0" by auto
  moreover have "card (insert kk (F \<union> G)) = 1 + card F + card G"
    using fin pairs_cons(6,7) by (simp add: card_Un_disjoint)
  ultimately obtain k' where k: "k = Suc k'" "2 * card F \<le> k'" "2 * card G < k'" using pairs_cons(9) by (cases k) auto
  have d: "drop i (map snd full') = Some (Some q) # map snd es" "drop i (map fst full') = Some (Some kk) # map fst es"
    using pairs_cons(12) by (simp_all add: drop_map)
  have "mfree kk m1 = Inr (without {kk} m1)" using pairs_cons(1,8) by (intro mfree_without) simp
  moreover have "be_free_node k' q (without {kk} m1) = Inr (without F (without {kk} m1))"
    by (rule pairs_cons(3)) (use pairs_cons(7,8) k(2) in auto)
  moreover have "be_free_pairs k' (Some a) (Suc i) (without F (without {kk} m1)) =
      Inr (without G (without F (without {kk} m1)))"
    by (rule pairs_cons(5)) (use pairs_cons(6-8,10,11) k nth_drop_Cons [OF pairs_cons(12)] in auto)
  moreover have "G \<union> F \<union> {kk} = insert kk (F \<union> G)" by auto
  ultimately show ?case
    using pairs_cons(10) at_slot_drop [OF d(1)] at_slot_drop [OF d(2)]
    by (simp add: k load_dic_def load_cell_def be_free_str_def)
qed

lemma be_free_changed:
  assumes "owns m p F" "mem_ok m"
  shows "\<exists>m'. be_free p m = Inr m' \<and> changed m F m' {}"
proof -
  have F: "finite F" "F \<subseteq> dom (cells m)" using owns_finite(1) [OF assms(1)] by simp_all
  have "F \<subseteq> {..<btop m}" using F(2) assms(2) by (auto simp: mem_ok_def not_less [symmetric])
  from card_mono [OF _ this] have "2 * card F \<le> 2 * btop m" by simp
  then have "be_free p m = Inr (without F m)" using be_free_enough(1) [OF assms(1)] by (simp add: be_free_def)
  moreover have "changed m F (without F m) {}"
    using assms(2) by (auto simp: changed_def mem_ok_def restrict_map_def fun_eq_iff)
  ultimately show ?thesis by blast
qed

section \<open>Trees that represent a value\<close>

fun rep :: "bmem \<Rightarrow> nat \<Rightarrow> be_node \<Rightarrow> nat set \<Rightarrow> bool"
and rep_items :: "bmem \<Rightarrow> nat list \<Rightarrow> be_node list \<Rightarrow> nat set \<Rightarrow> bool"
and rep_pairs :: "bmem \<Rightarrow> (nat \<times> nat) list \<Rightarrow> (string \<times> be_node) list \<Rightarrow> nat set \<Rightarrow> bool"
where
  "rep m p (BE_STR s) F \<longleftrightarrow> (case s of
     None \<Rightarrow> cells m p = Some (NodeC (Vs None)) \<and> F = {p}
   | Some t \<Rightarrow> \<exists>q. cells m p = Some (NodeC (Vs (Some q))) \<and> cells m q = Some (StrC t) \<and> F = {p, q})"
| "rep m p (BE_INT i) F \<longleftrightarrow> cells m p = Some (NodeC (Vi i)) \<and> F = {p}"
| "rep m p (BE_LIST vs) F \<longleftrightarrow> (\<exists>a ps sl G. cells m p = Some (NodeC (Vl (Some a))) \<and>
     cells m a = Some (ArrC (map (\<lambda>q. Some (Some q)) ps @ Some None # sl)) \<and> rep_items m ps vs G \<and>
     p \<notin> G \<and> a \<notin> G \<and> F = insert p (insert a G))"
| "rep m p (BE_DICT d) F \<longleftrightarrow> (\<exists>a es k rs G. cells m p = Some (NodeC (Vd (Some a))) \<and>
     cells m a = Some (DicC (map (\<lambda>(k, q). (Some (Some k), Some (Some q))) es @ (k, Some None) # rs)) \<and>
     rep_pairs m es d G \<and> p \<notin> G \<and> a \<notin> G \<and> F = insert p (insert a G))"
| "rep_items m ps [] F \<longleftrightarrow> ps = [] \<and> F = {}"
| "rep_items m ps (v # vs) F \<longleftrightarrow> (\<exists>q qs G H. ps = q # qs \<and> rep m q v G \<and> rep_items m qs vs H \<and> G \<inter> H = {} \<and> F = G \<union> H)"
| "rep_pairs m es [] F \<longleftrightarrow> es = [] \<and> F = {}"
| "rep_pairs m es ((key, v) # d) F \<longleftrightarrow> (\<exists>k q es' G H. es = (k, q) # es' \<and> cells m k = Some (StrC key) \<and>
     rep m q v G \<and> rep_pairs m es' d H \<and> G \<inter> H = {} \<and> k \<notin> G \<union> H \<and> F = insert k (G \<union> H))"

lemma rep_owns:
  "rep m p v F \<Longrightarrow> owns m p F"
  "rep_items m ps vs F \<Longrightarrow> owns_items m (map (\<lambda>q. Some (Some q)) ps @ Some None # sl) F"
  "rep_pairs m es d F \<Longrightarrow> owns_pairs m (map (\<lambda>(k, q). (Some (Some k), Some (Some q))) es @ (k, Some None) # rs) F"
proof (induction m p v F and m ps vs F and m es d F arbitrary: and sl and k rs rule: rep_rep_items_rep_pairs.induct)
  case (1 m p s F)
  then show ?case by (auto intro: owns_null owns_str split: option.splits)
next
  case (2 m p i F)
  then show ?case by (simp add: owns_int)
next
  case (3 m p vs F)
  then show ?case by (auto intro!: owns_list)
next
  case (4 m p d F)
  then show ?case by (auto intro!: owns_dict)
next
  case (5 m ps F)
  then show ?case by (simp add: items_end)
next
  case (6 m ps v vs F)
  then show ?case by (auto intro!: items_cons)
next
  case (7 m es F)
  then show ?case by (simp add: pairs_end)
next
  case (8 m es key v d F)
  then show ?case by (auto intro!: pairs_cons)
qed

lemma rep_same:
  "rep m p v F \<Longrightarrow> (\<forall>a\<in>F. cells m' a = cells m a) \<Longrightarrow> rep m' p v F"
  "rep_items m ps vs F \<Longrightarrow> (\<forall>a\<in>F. cells m' a = cells m a) \<Longrightarrow> rep_items m' ps vs F"
  "rep_pairs m es d F \<Longrightarrow> (\<forall>a\<in>F. cells m' a = cells m a) \<Longrightarrow> rep_pairs m' es d F"
proof (induction m p v F and m ps vs F and m es d F rule: rep_rep_items_rep_pairs.induct)
  case (3 m p vs F)
  then obtain a ps sl G where r: "cells m p = Some (NodeC (Vl (Some a)))"
     "cells m a = Some (ArrC (map (\<lambda>q. Some (Some q)) ps @ Some None # sl))" "rep_items m ps vs G"
     "p \<notin> G" "a \<notin> G" "F = insert p (insert a G)" by auto
  with 3(1) [OF r(3)] 3(3) show ?case by auto
next
  case (4 m p d F)
  then obtain a es k rs G where r: "cells m p = Some (NodeC (Vd (Some a)))"
     "cells m a = Some (DicC (map (\<lambda>(k, q). (Some (Some k), Some (Some q))) es @ (k, Some None) # rs))"
     "rep_pairs m es d G" "p \<notin> G" "a \<notin> G" "F = insert p (insert a G)" by auto
  with 4(1) [OF r(3)] 4(3) show ?case
    by (simp, intro exI [of _ es] exI [of _ G]) auto
next
  case (6 m ps v vs F)
  then obtain q qs G H where r: "ps = q # qs" "rep m q v G" "rep_items m qs vs H" "G \<inter> H = {}" "F = G \<union> H" by auto
  with 6(1) [OF r(2)] 6(2) [OF r(3)] 6(4) show ?case
    by (simp, intro exI [of _ G] conjI exI [of _ H]) auto
next
  case (8 m es key v d F)
  then obtain k q es' G H where r: "es = (k, q) # es'" "cells m k = Some (StrC key)" "rep m q v G"
    "rep_pairs m es' d H" "G \<inter> H = {}" "k \<notin> G \<union> H" "F = insert k (G \<union> H)" by auto
  with 8(1) [OF r(3)] 8(2) [OF r(4)] 8(4) show ?case
    by (simp, intro exI [of _ G] conjI exI [of _ H]) auto
qed (auto split: option.splits)

lemma rep_dom:
  "rep m p v F \<Longrightarrow> p \<in> F \<and> F \<subseteq> dom (cells m)"
  "rep_items m ps vs F \<Longrightarrow> F \<subseteq> dom (cells m)"
  "rep_pairs m es d F \<Longrightarrow> F \<subseteq> dom (cells m)"
  using owns_finite [of m] rep_owns [of m] by blast+

lemma rep_length:
  "rep_items m ps vs F \<Longrightarrow> length ps = length vs" "rep_pairs m es d F \<Longrightarrow> length es = length d"
proof -
  show "rep_items m ps vs F \<Longrightarrow> length ps = length vs" by (induction vs arbitrary: ps F) auto
  show "rep_pairs m es d F \<Longrightarrow> length es = length d" by (induction d arbitrary: es F) auto
qed

lemma rep_kept:
  "changed m F m' F' \<Longrightarrow> rep m p v G \<Longrightarrow> F \<inter> G = {} \<Longrightarrow> rep m' p v G \<and> F' \<inter> G = {}"
  using changed_same rep_same(1) rep_dom(1) by metis

lemma rep_items_kept:
  "changed m F m' F' \<Longrightarrow> rep_items m ps vs G \<Longrightarrow> F \<inter> G = {} \<Longrightarrow> rep_items m' ps vs G \<and> F' \<inter> G = {}"
  using changed_same rep_same(2) rep_dom(2) by metis

lemma rep_pairs_kept:
  "changed m F m' F' \<Longrightarrow> rep_pairs m es d G \<Longrightarrow> F \<inter> G = {} \<Longrightarrow> rep_pairs m' es d G \<and> F' \<inter> G = {}"
  using changed_same rep_same(3) rep_dom(3) by metis

lemma rep_items_snoc:
  "rep_items m ps vs F \<Longrightarrow> rep m q v G \<Longrightarrow> F \<inter> G = {} \<Longrightarrow> rep_items m (ps @ [q]) (vs @ [v]) (F \<union> G)"
proof (induction vs arbitrary: ps F)
  case (Cons w vs)
  then obtain r rs H K where r: "ps = r # rs" "rep m r w H" "rep_items m rs vs K" "H \<inter> K = {}" "F = H \<union> K" by auto
  with Cons.IH [OF r(3) Cons.prems(2)] Cons.prems(3) show ?case
    by (simp, intro exI [of _ H] conjI exI [of _ "K \<union> G"]) auto
qed simp

lemma rep_pairs_snoc:
  "rep_pairs m es d F \<Longrightarrow> cells m k = Some (StrC key) \<Longrightarrow> rep m q v G \<Longrightarrow> F \<inter> G = {} \<Longrightarrow> k \<notin> F \<union> G \<Longrightarrow>
   rep_pairs m (es @ [(k, q)]) (d @ [(key, v)]) (insert k (F \<union> G))"
proof (induction d arbitrary: es F)
  case (Cons x d)
  obtain key1 w where x: "x = (key1, w)" by (cases x)
  from Cons.prems(1) obtain k1 r rs H K where r: "es = (k1, r) # rs" "cells m k1 = Some (StrC key1)" "rep m r w H"
    "rep_pairs m rs d K" "H \<inter> K = {}" "k1 \<notin> H \<union> K" "F = insert k1 (H \<union> K)" by (auto simp: x)
  with Cons.IH [OF r(4) Cons.prems(2,3)] Cons.prems(4,5) show ?case
    by (simp add: x, intro exI [of _ H] conjI exI [of _ "insert k (K \<union> G)"]) auto
qed (simp, blast)

end
