(* ===== verification/Bencode_Heap_Properties.thy ===== *)
theory Bencode_Heap_Properties
  imports Bencode_Heap
begin

text \<open>
  What the decoder and the constructors leave in memory: the proofs that they compute what the
  functions of \<open>Bencode\<close> do, by one lemma for each round of the loops over lists and
  dictionaries.
\<close>

section \<open>Growing an array\<close>

text \<open>The node \<open>p\<close> at the head of the loop, with the items \<open>ps\<close> read.\<close>

definition items_at :: "bmem \<Rightarrow> nat \<Rightarrow> nat list \<Rightarrow> nat set \<Rightarrow> bool" where
  "items_at m p ps A \<longleftrightarrow>
     (ps = [] \<and> cells m p = Some (NodeC (Vl None)) \<and> A = {p}) \<or>
     (ps \<noteq> [] \<and> (\<exists>a x. cells m p = Some (NodeC (Vl (Some a))) \<and>
        cells m a = Some (ArrC (map (\<lambda>q. Some (Some q)) ps @ [x])) \<and> A = {p, a}))"

lemma realloc_list_ok:
  assumes "mem_ok m" "items_at m p ps A" "n = length ps + 2 \<or> ps = [] \<and> n = 1"
  shows "\<exists>m' b x. realloc_list p n m = Inr m' \<and> changed m A m' {p, b} \<and> cells m' p = Some (NodeC (Vl (Some b))) \<and>
    cells m' b = Some (ArrC (map (\<lambda>q. Some (Some q)) ps @ x)) \<and> length x = n - length ps"
proof (cases "ps = []")
  case True
  with assms(2) have "cells m p = Some (NodeC (Vl None))" "A = {p}" by (simp_all add: items_at_def)
  with assms(1,3) True show ?thesis
    by (auto simp: realloc_list_def load_val_def load_cell_def val_list_def malloc_def store_cell_def Let_def
        changed_def mem_ok_def restrict_map_def fun_eq_iff)
next
  case False
  with assms(2) obtain a x where a: "cells m p = Some (NodeC (Vl (Some a)))"
    "cells m a = Some (ArrC (map (\<lambda>q. Some (Some q)) ps @ [x]))" "A = {p, a}"
    by (auto simp: items_at_def)
  have "p < btop m" "a < btop m" "p \<noteq> a" using a assms(1) by (auto simp: mem_ok_def not_less [symmetric])
  with a assms(1,3) False show ?thesis
    by (auto simp: realloc_list_def load_val_def load_cell_def val_list_def load_arr_def malloc_def mfree_def
        store_cell_def Let_def changed_def mem_ok_def restrict_map_def fun_eq_iff)
qed

lemma set_item_ok:
  assumes "cells m p = Some (NodeC (Vl (Some a)))" "cells m a = Some (ArrC (map (\<lambda>q. Some (Some q)) ps @ y # sl))"
  shows "set_item p (length ps) x m =
    Inr (m\<lparr>cells := (cells m)(a := Some (ArrC (map (\<lambda>q. Some (Some q)) ps @ Some x # sl)))\<rparr>)"
  using assms by (simp add: set_item_def load_val_def load_cell_def val_list_def load_arr_def store_cell_def
      list_update_append)

definition pairs_at :: "bmem \<Rightarrow> nat \<Rightarrow> (nat \<times> nat) list \<Rightarrow> nat set \<Rightarrow> bool" where
  "pairs_at m p es A \<longleftrightarrow>
     (es = [] \<and> cells m p = Some (NodeC (Vd None)) \<and> A = {p}) \<or>
     (es \<noteq> [] \<and> (\<exists>a k. cells m p = Some (NodeC (Vd (Some a))) \<and>
        cells m a = Some (DicC (map (\<lambda>(k, q). (Some (Some k), Some (Some q))) es @ [(k, Some None)])) \<and> A = {p, a}))"

lemma realloc_dict_ok:
  assumes "mem_ok m" "pairs_at m p es A" "n = length es + 2 \<or> es = [] \<and> n = 1"
  shows "\<exists>m' b x. realloc_dict p n m = Inr m' \<and> changed m A m' {p, b} \<and> cells m' p = Some (NodeC (Vd (Some b))) \<and>
    cells m' b = Some (DicC (map (\<lambda>(k, q). (Some (Some k), Some (Some q))) es @ x)) \<and> length x = n - length es"
proof (cases "es = []")
  case True
  with assms(2) have "cells m p = Some (NodeC (Vd None))" "A = {p}" by (simp_all add: pairs_at_def)
  with assms(1,3) True show ?thesis
    by (auto simp: realloc_dict_def load_val_def load_cell_def val_dict_def malloc_def store_cell_def Let_def
        changed_def mem_ok_def restrict_map_def fun_eq_iff)
next
  case False
  with assms(2) obtain a k where a: "cells m p = Some (NodeC (Vd (Some a)))"
    "cells m a = Some (DicC (map (\<lambda>(k, q). (Some (Some k), Some (Some q))) es @ [(k, Some None)]))" "A = {p, a}"
    by (auto simp: pairs_at_def)
  have "p < btop m" "a < btop m" "p \<noteq> a" using a assms(1) by (auto simp: mem_ok_def not_less [symmetric])
  with a assms(1,3) False show ?thesis
    by (auto simp: realloc_dict_def load_val_def load_cell_def val_dict_def load_dic_def malloc_def mfree_def
        store_cell_def Let_def changed_def mem_ok_def restrict_map_def fun_eq_iff)
qed

lemma set_pair_ok:
  assumes "cells m p = Some (NodeC (Vd (Some a)))" "cells m a = Some (DicC (es @ y # rs))" "i = length es"
  shows "set_pair p i f m = Inr (m\<lparr>cells := (cells m)(a := Some (DicC (es @ f y # rs)))\<rparr>)"
  using assms by (simp add: set_pair_def load_val_def load_cell_def val_dict_def load_dic_def store_cell_def
      list_update_append)

section \<open>What the decoder leaves\<close>

definition strs :: "bmem \<Rightarrow> nat set \<Rightarrow> bool" where
  "strs m L \<longleftrightarrow> (\<forall>a\<in>L. \<exists>s. cells m a = Some (StrC s))"

text \<open>
  \<open>item_ok m F P pure r\<close>: the computation \<open>r\<close> from the blocks \<open>F\<close> of \<open>m\<close> has the result \<open>pure\<close>; if
  that is a value then the blocks left are those that represent it, if it is null then only
  strings are left.
\<close>

definition item_ok :: "bmem \<Rightarrow> nat set \<Rightarrow> (bmem \<Rightarrow> nat \<Rightarrow> 'v \<Rightarrow> nat set \<Rightarrow> bool) \<Rightarrow>
    ('v option \<times> string \<times> int) res \<Rightarrow> (item \<times> bmem) res \<Rightarrow> bool" where
  "item_ok m F P pure r \<longleftrightarrow> (case pure of
     Inl e \<Rightarrow> r = Inl e
   | Inr (None, d, n) \<Rightarrow> \<exists>m' L. r = Inr ((None, d, n), m') \<and> changed m F m' L \<and> strs m' L
   | Inr (Some v, d, n) \<Rightarrow> \<exists>m' p F'. r = Inr ((Some p, d, n), m') \<and> changed m F m' F' \<and> P m' p v F')"

lemma item_ok_simps [simp]:
  "item_ok m F P (Inl e) r \<longleftrightarrow> r = Inl e"
  "item_ok m F P (Inr (None, d, n)) r \<longleftrightarrow> (\<exists>m' L. r = Inr ((None, d, n), m') \<and> changed m F m' L \<and> strs m' L)"
  "item_ok m F P (Inr (Some v, d, n)) r \<longleftrightarrow> (\<exists>m' p F'. r = Inr ((Some p, d, n), m') \<and> changed m F m' F' \<and> P m' p v F')"
  by (simp_all add: item_ok_def)

lemma item_cases:
  obtains (fault) e where "r = Inl e" | (null) d n where "r = Inr (None, d, n)"
    | (item) v d n where "r = Inr (Some v, d, n)"
  by (cases r; metis (no_types) option.exhaust prod.exhaust)

lemma item_ok_before: "changed m F m1 G \<Longrightarrow> item_ok m1 G P pure r \<Longrightarrow> item_ok m F P pure r"
  by (cases pure rule: item_cases) (auto intro: changed_trans)

lemma item_ok_map:
  assumes "item_ok m F Q pure r" "\<And>m p w F. Q m p w F \<Longrightarrow> P m p (f w) F"
  shows "item_ok m F P (r_bind pure (\<lambda>(l, d, n). Inr (map_option f l, d, n))) r"
  using assms by (cases pure rule: item_cases) (simp_all, blast)

lemma strs_kept: "changed m F m' F' \<Longrightarrow> strs m L \<Longrightarrow> F \<inter> L = {} \<Longrightarrow> strs m' L"
  unfolding strs_def using changed_cell [of m F m' F'] by blast

definition node_spec :: "nat \<Rightarrow> bool" where
  "node_spec k \<longleftrightarrow> (\<forall>data n m. mem_ok m \<longrightarrow> item_ok m {} rep (be_decode_node k data n) (decode_node_mem k data n m))"

definition list_spec :: "nat \<Rightarrow> bool" where
  "list_spec k \<longleftrightarrow> (\<forall>data n m p ps vs A G. mem_ok m \<longrightarrow> items_at m p ps A \<longrightarrow> rep_items m ps vs G \<longrightarrow> A \<inter> G = {} \<longrightarrow>
     item_ok m (A \<union> G) (\<lambda>m' q ws F. q = p \<and> rep m' p (BE_LIST (vs @ ws)) F)
       (be_decode_list k data n) (decode_list_mem k p (length ps) data n m))"

definition dict_spec :: "nat \<Rightarrow> bool" where
  "dict_spec k \<longleftrightarrow> (\<forall>data n m p es d A G. mem_ok m \<longrightarrow> pairs_at m p es A \<longrightarrow> rep_pairs m es d G \<longrightarrow> A \<inter> G = {} \<longrightarrow>
     item_ok m (A \<union> G) (\<lambda>m' q ds F. q = p \<and> rep m' p (BE_DICT (d @ ds)) F)
       (be_decode_dict k data n) (decode_dict_mem k p (length es) data n m))"

lemma node_specD: "node_spec k \<Longrightarrow> mem_ok m \<Longrightarrow> item_ok m {} rep (be_decode_node k data n) (decode_node_mem k data n m)"
  by (simp add: node_spec_def)

lemma list_specD:
  assumes "list_spec k" "mem_ok m" "items_at m p ps A" "rep_items m ps vs G" "A \<inter> G = {}"
  shows "item_ok m (A \<union> G) (\<lambda>m' q ws F. q = p \<and> rep m' p (BE_LIST (vs @ ws)) F)
    (be_decode_list k data n) (decode_list_mem k p (length ps) data n m)"
  using assms unfolding list_spec_def by blast

lemma dict_specD:
  assumes "dict_spec k" "mem_ok m" "pairs_at m p es A" "rep_pairs m es d G" "A \<inter> G = {}"
  shows "item_ok m (A \<union> G) (\<lambda>m' q ds F. q = p \<and> rep m' p (BE_DICT (d @ ds)) F)
    (be_decode_dict k data n) (decode_dict_mem k p (length es) data n m)"
  using assms unfolding dict_spec_def by blast

lemma decode_str_ok:
  assumes "mem_ok m"
  shows "item_ok m {} (\<lambda>m' q s F. F = {q} \<and> cells m' q = Some (StrC s)) (be_decode_str data n) (decode_str_mem data n m)"
proof (cases "be_decode_str data n" rule: item_cases)
  case (item v d n)
  then show ?thesis
    using malloc_changed [OF assms] by (auto simp: decode_str_mem_def Let_def split: prod.splits)
qed (use assms in \<open>auto simp: decode_str_mem_def strs_def intro!: exI [of _ "{}"] changed_refl\<close>)

lemma free_rest:
  assumes "owns m1 p U" "changed m F m1 (U \<union> W)" "U \<inter> W = {}" "strs m1 W"
  shows "\<exists>m2. be_free p m1 = Inr m2 \<and> changed m F m2 W \<and> strs m2 W"
proof -
  from be_free_changed [OF assms(1) changed_ok [OF assms(2)]] obtain m2
    where m2: "be_free p m1 = Inr m2" "changed m1 U m2 {}" by blast
  have "changed m1 (U \<union> W) m2 W" using changed_frame [OF m2(2), of W] by simp
  with assms(2) have "changed m F m2 W" by (rule changed_trans)
  with m2(1) strs_kept [OF m2(2) assms(4,3)] show ?thesis by blast
qed

lemma list_done:
  assumes "mem_ok m" "items_at m p ps A" "rep_items m ps vs G" "A \<inter> G = {}"
  shows "\<exists>m' F. r_bind (if length ps = 0 then realloc_list p 1 m else Inr m) (set_item p (length ps) None) = Inr m' \<and>
    changed m (A \<union> G) m' F \<and> rep m' p (BE_LIST vs) F"
proof -
  obtain m1 b x where m1: "(if length ps = 0 then realloc_list p 1 m else Inr m) = Inr m1" "changed m A m1 {p, b}"
    "cells m1 p = Some (NodeC (Vl (Some b)))" "cells m1 b = Some (ArrC (map (\<lambda>q. Some (Some q)) ps @ [x]))"
  proof (cases "ps = []")
    case True
    with realloc_list_ok [OF assms(1,2), of 1] that show ?thesis by (auto simp: length_Suc_conv)
  next
    case False
    with assms(2) that changed_refl [OF assms(1)] show ?thesis by (auto simp: items_at_def)
  qed
  from rep_items_kept [OF m1(2) assms(3,4)] have G: "rep_items m1 ps vs G" "{p, b} \<inter> G = {}" by simp_all
  let ?m' = "m1\<lparr>cells := (cells m1)(b := Some (ArrC (map (\<lambda>q. Some (Some q)) ps @ [Some None])))\<rparr>"
  have c: "changed m1 {p, b} ?m' {p, b}" by (rule update_changed [OF changed_ok [OF m1(2)] m1(4)]) simp
  have "rep_items ?m' ps vs G" using rep_items_kept [OF c G] by simp
  moreover have "p \<noteq> b" using m1(3,4) by auto
  ultimately have "rep ?m' p (BE_LIST vs) (insert p (insert b G))" using m1(3) G(2) by auto
  moreover have "changed m (A \<union> G) ?m' ({p, b} \<union> G)"
    by (rule changed_frame [OF changed_trans [OF m1(2) c]])
  ultimately show ?thesis using set_item_ok [OF m1(3), of ps x "[]" None] m1(1,4)
    by (intro exI [of _ ?m'] exI [of _ "insert p (insert b G)"]) simp
qed

text \<open>
  A list in a round of the loop: \<open>x\<close> is in the place of the next item, \<open>W\<close> are blocks that do not
  belong to the node yet.
\<close>

definition item_state ::
  "bmem \<Rightarrow> nat set \<Rightarrow> nat \<Rightarrow> nat \<Rightarrow> nat list \<Rightarrow> be_node list \<Rightarrow> nat set \<Rightarrow> nat set \<Rightarrow> slot \<Rightarrow> slot \<Rightarrow> bmem \<Rightarrow> bool" where
  "item_state m F p b ps vs G W x y m1 \<longleftrightarrow> changed m F m1 ({p, b} \<union> G \<union> W) \<and> ({p, b} \<union> G) \<inter> W = {} \<and>
     cells m1 p = Some (NodeC (Vl (Some b))) \<and> cells m1 b = Some (ArrC (map (\<lambda>q. Some (Some q)) ps @ [x, y])) \<and>
     rep_items m1 ps vs G \<and> {p, b} \<inter> G = {}"

lemma list_open:
  assumes "mem_ok m" "items_at m p ps A" "rep_items m ps vs G" "A \<inter> G = {}"
  obtains m1 b x y where "realloc_list p (length ps + 2) m = Inr m1"
    "item_state m (A \<union> G) p b ps vs G {} x y m1"
proof -
  obtain m1 b x y where m1: "realloc_list p (length ps + 2) m = Inr m1" "changed m A m1 {p, b}"
    "cells m1 p = Some (NodeC (Vl (Some b)))" "cells m1 b = Some (ArrC (map (\<lambda>q. Some (Some q)) ps @ [x, y]))"
    using realloc_list_ok [OF assms(1,2), of "length ps + 2"] by (auto simp: length_Suc_conv numeral_2_eq_2)
  have "item_state m (A \<union> G) p b ps vs G {} x y m1"
    using m1(2-4) rep_items_kept [OF m1(2) assms(3,4)] changed_frame [OF m1(2), of G] by (simp add: item_state_def)
  with m1(1) show ?thesis by (rule that)
qed

lemma list_set:
  assumes st: "item_state m F p b ps vs G {} x y m1" and c: "changed m1 {} m2 X"
  shows "\<exists>m3. set_item p (length ps) v m2 = Inr m3 \<and> item_state m F p b ps vs G X (Some v) y m3 \<and>
    (\<forall>a\<in>X. cells m3 a = cells m2 a)"
proof -
  let ?R = "{p, b} \<union> G" and ?m3 = "m2\<lparr>cells := (cells m2)(b := Some (ArrC (map (\<lambda>q. Some (Some q)) ps @ [Some v, y])))\<rparr>"
  have "rep_items m1 ps vs G" using st by (simp add: item_state_def)
  with st rep_dom(2) [OF this] have R: "?R \<subseteq> dom (cells m1)" "rep_items m1 ps vs G" by (auto simp: item_state_def)
  note same = changed_same [OF c R(1)]
  have a: "cells m2 p = Some (NodeC (Vl (Some b)))" "cells m2 b = Some (ArrC (map (\<lambda>q. Some (Some q)) ps @ [x, y]))"
    using same(1) st by (simp_all add: item_state_def)
  have c3: "changed m2 {p, b} ?m3 {p, b}" by (rule update_changed [OF changed_ok [OF c] a(2)]) simp
  have "changed m1 ?R m2 ({p, b} \<union> (G \<union> X))" using changed_frame [OF c, of ?R] by (simp add: Un_ac)
  with st changed_frame [OF c3, of "G \<union> X"] have "changed m F ?m3 ({p, b} \<union> G \<union> X)"
    by (simp add: item_state_def Un_assoc) (blast intro: changed_trans)
  moreover have "rep_items ?m3 ps vs G"
    using rep_items_kept [OF c3] rep_items_kept [OF c R(2)] st by (simp add: item_state_def)
  moreover have "p \<noteq> b" using a by auto
  ultimately have "item_state m F p b ps vs G X (Some v) y ?m3" using a same(2) st by (auto simp: item_state_def)
  with set_item_ok [OF a, of v] same(2) show ?thesis by auto
qed

lemma list_null:
  assumes "item_state m F p b ps vs G W (Some None) y m1" "strs m1 W"
  shows "\<exists>m2. be_free p m1 = Inr m2 \<and> changed m F m2 W \<and> strs m2 W"
proof -
  have "owns m1 p (insert p (insert b G))"
    using assms(1) by (intro rep_owns(1) [of m1 p "BE_LIST vs"]) (auto simp: item_state_def)
  from free_rest [OF this, of m F W] assms show ?thesis by (auto simp: item_state_def)
qed

lemma list_item:
  assumes "item_state m F p b ps vs G X (Some (Some q)) y m1" "rep m1 q v X"
  shows "items_at m1 p (ps @ [q]) {p, b}" and "rep_items m1 (ps @ [q]) (vs @ [v]) (G \<union> X)"
    and "{p, b} \<inter> (G \<union> X) = {}" and "changed m F m1 ({p, b} \<union> (G \<union> X))"
  using assms by (auto simp: item_state_def items_at_def Un_assoc intro!: rep_items_snoc)

lemma list_step:
  assumes spec: "node_spec k" "list_spec k"
    and m: "mem_ok m" "items_at m p ps A" "rep_items m ps vs G" "A \<inter> G = {}"
  shows "item_ok m (A \<union> G) (\<lambda>m' q ws F. q = p \<and> rep m' p (BE_LIST (vs @ ws)) F)
    (r_bind (be_decode_node k data n) (\<lambda>(v, data, n). case v of None \<Rightarrow> Inr (None, data, n)
       | Some v \<Rightarrow> r_bind (be_decode_list k data n) (\<lambda>(l, data, n). Inr (map_option (\<lambda>l. v # l) l, data, n))))
    (r_bind (realloc_list p (length ps + 2) m) (\<lambda>m. r_bind (decode_node_mem k data n m) (\<lambda>((v, data, n), m).
       r_bind (set_item p (length ps) v m) (\<lambda>m. case v of
         None \<Rightarrow> r_bind (be_free p m) (\<lambda>m. Inr ((None, data, n), m))
       | Some _ \<Rightarrow> decode_list_mem k p (Suc (length ps)) data n m))))"
proof -
  obtain m1 b x y where m1: "realloc_list p (length ps + 2) m = Inr m1" "item_state m (A \<union> G) p b ps vs G {} x y m1"
    by (rule list_open [OF m])
  then have "mem_ok m1" using changed_ok by (auto simp: item_state_def)
  note child = node_specD [OF spec(1) this, of data n]
  show ?thesis
  proof (cases "be_decode_node k data n" rule: item_cases)
    case (fault e)
    with child m1(1) show ?thesis by simp
  next
    case (null d n')
    with child obtain m2 L where m2: "decode_node_mem k data n m1 = Inr ((None, d, n'), m2)" "changed m1 {} m2 L" "strs m2 L"
      by auto
    from list_set [OF m1(2) m2(2), of None] obtain m3 where m3: "set_item p (length ps) None m2 = Inr m3"
      "item_state m (A \<union> G) p b ps vs G L (Some None) y m3" "\<forall>a\<in>L. cells m3 a = cells m2 a" by blast
    then have "strs m3 L" using m2(3) by (simp add: strs_def)
    from list_null [OF m3(2) this] show ?thesis using null m1(1) m2(1) m3(1) by auto
  next
    case (item v d n')
    with child obtain m2 q X where m2: "decode_node_mem k data n m1 = Inr ((Some q, d, n'), m2)" "changed m1 {} m2 X" "rep m2 q v X"
      by auto
    from list_set [OF m1(2) m2(2), of "Some q"] obtain m3 where m3: "set_item p (length ps) (Some q) m2 = Inr m3"
      "item_state m (A \<union> G) p b ps vs G X (Some (Some q)) y m3" "\<forall>a\<in>X. cells m3 a = cells m2 a" by blast
    note i = list_item [OF m3(2) rep_same(1) [OF m2(3) m3(3)]]
    note item_ok_before [OF i(4) list_specD [OF spec(2) changed_ok [OF i(4)] i(1-3), of d n']]
    then have "item_ok m (A \<union> G) (\<lambda>m' q ws F. q = p \<and> rep m' p (BE_LIST (vs @ ws)) F)
        (r_bind (be_decode_list k d n') (\<lambda>(l, data, n). Inr (map_option (\<lambda>l. v # l) l, data, n)))
        (decode_list_mem k p (Suc (length ps)) d n' m3)"
      unfolding length_append_singleton append_assoc append_Cons append_Nil by (rule item_ok_map)
    then show ?thesis by (simp only: item m1(1) m2(1) m3(1) r_bind_Inr prod.case option.case)
  qed
qed

text \<open>The pairs of a dictionary in its array.\<close>

definition written :: "(nat \<times> nat) list \<Rightarrow> (slot \<times> slot) list" where
  "written es = map (\<lambda>(k, q). (Some (Some k), Some (Some q))) es"

lemma written_simps [simp]:
  "written [] = []" "written ((k, q) # es) = (Some (Some k), Some (Some q)) # written es"
  "written (es @ es') = written es @ written es'" "length (written es) = length es"
  by (simp_all add: written_def)

lemma owns_written:
  "rep_pairs m es d G \<Longrightarrow> owns_pairs m rest H \<Longrightarrow> G \<inter> H = {} \<Longrightarrow> owns_pairs m (written es @ rest) (G \<union> H)"
proof (induction d arbitrary: es G)
  case (Cons x d)
  obtain key v where x: "x = (key, v)" by (cases x)
  from Cons.prems(1) obtain k q es' F K where r: "es = (k, q) # es'" "cells m k = Some (StrC key)" "rep m q v F"
    "rep_pairs m es' d K" "F \<inter> K = {}" "k \<notin> F \<union> K" "G = insert k (F \<union> K)" by (auto simp: x)
  from r(7) Cons.prems(3) have "K \<inter> H = {}" by auto
  note ih = Cons.IH [OF r(4) Cons.prems(2) this]
  have "owns_pairs m ((Some (Some k), Some (Some q)) # written es' @ rest) (insert k (F \<union> (K \<union> H)))"
    by (rule pairs_cons [OF r(2) rep_owns(1) [OF r(3)] ih]) (use r(5-7) Cons.prems(3) in auto)
  then show ?case by (simp add: r(1,7) Un_assoc)
qed simp

text \<open>A dictionary in a round of the loop, with the next pair \<open>(Some ko, x)\<close> and the one after it.\<close>

definition pair_state ::
  "bmem \<Rightarrow> nat set \<Rightarrow> nat \<Rightarrow> nat \<Rightarrow> (nat \<times> nat) list \<Rightarrow> (string \<times> be_node) list \<Rightarrow> nat set \<Rightarrow> nat set \<Rightarrow>
   slot \<times> slot \<Rightarrow> slot \<times> slot \<Rightarrow> bmem \<Rightarrow> bool" where
  "pair_state m F p b es dd G W x y m1 \<longleftrightarrow> changed m F m1 ({p, b} \<union> G \<union> W) \<and> ({p, b} \<union> G) \<inter> W = {} \<and>
     cells m1 p = Some (NodeC (Vd (Some b))) \<and> cells m1 b = Some (DicC (written es @ [x, y])) \<and>
     rep_pairs m1 es dd G \<and> {p, b} \<inter> G = {}"

lemma dict_open:
  assumes "mem_ok m" "pairs_at m p es A" "rep_pairs m es dd G" "A \<inter> G = {}"
  obtains m1 b x y where "realloc_dict p (length es + 2) m = Inr m1"
    "pair_state m (A \<union> G) p b es dd G {} x y m1"
proof -
  obtain m1 b x y where m1: "realloc_dict p (length es + 2) m = Inr m1" "changed m A m1 {p, b}"
    "cells m1 p = Some (NodeC (Vd (Some b)))" "cells m1 b = Some (DicC (written es @ [x, y]))"
    using realloc_dict_ok [OF assms(1,2), of "length es + 2"] by (auto simp: length_Suc_conv numeral_2_eq_2 written_def)
  have "pair_state m (A \<union> G) p b es dd G {} x y m1"
    using m1(2-4) rep_pairs_kept [OF m1(2) assms(3,4)] changed_frame [OF m1(2), of G] by (simp add: pair_state_def)
  with m1(1) show ?thesis by (rule that)
qed

text \<open>Anything else may allocate in between, and the two pairs may be written.\<close>

lemma pair_alloc:
  assumes st: "pair_state m F p b es dd G W x y m1" and c: "changed m1 {} m2 X" and W: "W \<subseteq> dom (cells m1)"
  shows "pair_state m F p b es dd G (W \<union> X) x y m2" and "W \<inter> X = {}" and "\<forall>a\<in>W. cells m2 a = cells m1 a"
proof -
  let ?R = "{p, b} \<union> G \<union> W"
  have "rep_pairs m1 es dd G" using st by (simp add: pair_state_def)
  with st W rep_dom(3) [OF this] have R: "?R \<subseteq> dom (cells m1)" "rep_pairs m1 es dd G" by (auto simp: pair_state_def)
  note same = changed_same [OF c R(1)]
  have "changed m1 ?R m2 ({p, b} \<union> G \<union> (W \<union> X))" using changed_frame [OF c, of ?R] by (simp add: Un_ac)
  with st have "changed m F m2 ({p, b} \<union> G \<union> (W \<union> X))"
    unfolding pair_state_def by (blast intro: changed_trans)
  moreover have "rep_pairs m2 es dd G" using rep_pairs_kept [OF c R(2)] by simp
  ultimately show "pair_state m F p b es dd G (W \<union> X) x y m2" using same st by (auto simp: pair_state_def)
  show "W \<inter> X = {}" "\<forall>a\<in>W. cells m2 a = cells m1 a" using same by auto
qed

lemma pair_write:
  assumes st: "pair_state m F p b es dd G W x y m1"
  shows "pair_state m F p b es dd G W x' y' (m1\<lparr>cells := (cells m1)(b := Some (DicC (written es @ [x', y'])))\<rparr>)"
proof -
  let ?m2 = "m1\<lparr>cells := (cells m1)(b := Some (DicC (written es @ [x', y'])))\<rparr>"
  have c: "changed m1 {p, b} ?m2 {p, b}"
    by (rule update_changed) (use st changed_ok in \<open>auto simp: pair_state_def\<close>)
  from changed_frame [OF this, of "G \<union> W"] st have "changed m F ?m2 ({p, b} \<union> G \<union> W)"
    by (simp add: pair_state_def Un_assoc) (blast intro: changed_trans)
  moreover have "rep_pairs ?m2 es dd G" using rep_pairs_kept [OF c] st by (simp add: pair_state_def)
  moreover have "p \<noteq> b" using st by (auto simp: pair_state_def)
  ultimately show ?thesis using st by (simp add: pair_state_def)
qed

lemma dict_key:
  assumes st: "pair_state m F p b es dd G {} x y m1" and str: "be_decode_str data n = Inr (key, d, n')"
  obtains m2 m3 ko K where "decode_str_mem data n m1 = Inr ((ko, d, n'), m2)" "set_key p (length es) ko m2 = Inr m3"
    "pair_state m F p b es dd G K (Some ko, snd x) y m3" "strs m3 K"
    "case key of None \<Rightarrow> ko = None | Some s \<Rightarrow> \<exists>k. ko = Some k \<and> K = {k} \<and> cells m3 k = Some (StrC s)"
proof -
  have "mem_ok m1" using st changed_ok by (auto simp: pair_state_def)
  with str obtain m2 ko K where m2: "decode_str_mem data n m1 = Inr ((ko, d, n'), m2)" "changed m1 {} m2 K" "strs m2 K"
    "case key of None \<Rightarrow> ko = None | Some s \<Rightarrow> \<exists>k. ko = Some k \<and> K = {k} \<and> cells m2 k = Some (StrC s)"
    using decode_str_ok [of m1 data n] by (cases key) (auto simp: strs_def)
  have st2: "pair_state m F p b es dd G K x y m2" using pair_alloc(1) [OF st m2(2)] by simp
  let ?m3 = "m2\<lparr>cells := (cells m2)(b := Some (DicC (written es @ [(Some ko, snd x), y])))\<rparr>"
  have "set_key p (length es) ko m2 = Inr ?m3"
    using set_pair_ok [of m2 p b "written es" x "[y]" "length es"] st2
    by (simp add: set_key_def case_prod_unfold pair_state_def)
  moreover have "b \<notin> K" using st2 by (simp add: pair_state_def)
  then have "strs ?m3 K" "\<forall>a\<in>K. cells ?m3 a = cells m2 a" using m2(3) by (auto simp: strs_def)
  ultimately show ?thesis using that [OF m2(1) _ pair_write [OF st2]] m2(4) by (auto split: option.splits)
qed

lemma dict_vals:
  assumes "cells m p = Some (NodeC (Vd (Some b)))" "cells m b = Some (DicC (written es @ [(ko, x), y]))"
  obtains m1 where "set_val p (length es) v m = Inr m1"
    "set_val p (length es + 1) None m1 =
       Inr (m\<lparr>cells := (cells m)(b := Some (DicC (written es @ [(ko, Some v), (fst y, Some None)])))\<rparr>)"
proof -
  let ?m1 = "m\<lparr>cells := (cells m)(b := Some (DicC (written es @ [(ko, Some v), y])))\<rparr>"
  have "set_val p (length es) v m = Inr ?m1"
    using set_pair_ok [OF assms(1), of "written es" "(ko, x)" "[y]"] assms(2) by (simp add: set_val_def)
  moreover have "p \<noteq> b" using assms by auto
  then have "set_val p (length es + 1) None ?m1 =
      Inr (m\<lparr>cells := (cells m)(b := Some (DicC (written es @ [(ko, Some v), (fst y, Some None)])))\<rparr>)"
    using set_pair_ok [of ?m1 p b "written es @ [(ko, Some v)]" y "[]" "length es + 1"] assms(1)
    by (simp add: set_val_def case_prod_unfold)
  ultimately show thesis by (rule that)
qed

lemma dict_value:
  assumes st: "pair_state m F p b es dd G K (Some ko, x) y m1" and K: "strs m1 K" and c: "changed m1 {} m2 X"
  obtains m3 m4 where "set_val p (length es) v m2 = Inr m3" "set_val p (length es + 1) None m3 = Inr m4"
    "pair_state m F p b es dd G (K \<union> X) (Some ko, Some v) (fst y, Some None) m4" "K \<inter> X = {}"
    "\<forall>a\<in>K. cells m4 a = cells m1 a" "\<forall>a\<in>X. cells m4 a = cells m2 a"
proof -
  have "K \<subseteq> dom (cells m1)" using K by (auto simp: strs_def)
  note st2 = pair_alloc [OF st c this]
  then have a: "cells m2 p = Some (NodeC (Vd (Some b)))" "cells m2 b = Some (DicC (written es @ [(Some ko, x), y]))"
    "b \<notin> K \<union> X" by (auto simp: pair_state_def)
  obtain m3 where "set_val p (length es) v m2 = Inr m3" "set_val p (length es + 1) None m3 =
      Inr (m2\<lparr>cells := (cells m2)(b := Some (DicC (written es @ [(Some ko, Some v), (fst y, Some None)])))\<rparr>)"
    by (rule dict_vals [OF a(1,2)])
  from that [OF this pair_write [OF st2(1)]] st2(2,3) a(3) show ?thesis by auto
qed

lemma dict_null:
  assumes "pair_state m F p b es dd G W (Some ko, Some None) y m1" "strs m1 W"
  shows "\<exists>m2. be_free p m1 = Inr m2 \<and> changed m F m2 W \<and> strs m2 W"
proof -
  have "owns_pairs m1 (written es @ [(Some ko, Some None), y]) (G \<union> {})"
    using assms(1) by (intro owns_written pairs_end) (auto simp: pair_state_def)
  then have "owns m1 p (insert p (insert b G))"
    using assms(1) by (intro owns_dict) (auto simp: pair_state_def)
  from free_rest [OF this, of m F W] assms show ?thesis by (auto simp: pair_state_def)
qed

lemma dict_no_key:
  assumes "pair_state m F p b es dd G (K \<union> X) (Some None, Some (Some q)) (k, Some None) m1" "rep m1 q v X"
    "strs m1 K" "K \<inter> X = {}"
  shows "\<exists>m2. be_free p m1 = Inr m2 \<and> changed m F m2 K \<and> strs m2 K"
proof -
  have "owns_pairs m1 ([(Some None, Some (Some q)), (k, Some None)]) (X \<union> {})"
    by (rule pairs_null [OF rep_owns(1) [OF assms(2)] pairs_end]) simp
  then have "owns_pairs m1 (written es @ [(Some None, Some (Some q)), (k, Some None)]) (G \<union> X)"
    using assms(1) by (intro owns_written) (auto simp: pair_state_def)
  then have "owns m1 p (insert p (insert b (G \<union> X)))"
    using assms(1) by (intro owns_dict) (auto simp: pair_state_def)
  from free_rest [OF this, of m F K] assms show ?thesis by (auto simp: pair_state_def Un_ac)
qed

lemma dict_pair:
  assumes "pair_state m F p b es dd G ({kk} \<union> X) (Some (Some kk), Some (Some q)) (k, Some None) m1" "rep m1 q v X"
    "cells m1 kk = Some (StrC t)" "{kk} \<inter> X = {}"
  shows "pairs_at m1 p (es @ [(kk, q)]) {p, b}" and "rep_pairs m1 (es @ [(kk, q)]) (dd @ [(t, v)]) (insert kk (G \<union> X))"
    and "{p, b} \<inter> insert kk (G \<union> X) = {}" and "changed m F m1 ({p, b} \<union> insert kk (G \<union> X))"
proof -
  show "rep_pairs m1 (es @ [(kk, q)]) (dd @ [(t, v)]) (insert kk (G \<union> X))"
    by (rule rep_pairs_snoc [OF _ assms(3,2)]) (use assms in \<open>auto simp: pair_state_def\<close>)
qed (use assms in \<open>auto simp: pair_state_def pairs_at_def written_def\<close>)

lemma dict_step:
  assumes spec: "node_spec k" "dict_spec k"
    and m: "mem_ok m" "pairs_at m p es A" "rep_pairs m es dd G" "A \<inter> G = {}"
  shows "item_ok m (A \<union> G) (\<lambda>m' q ds F. q = p \<and> rep m' p (BE_DICT (dd @ ds)) F)
    (r_bind (be_decode_str data n) (\<lambda>(key, data, n). r_bind (be_decode_node k data n) (\<lambda>(v, data, n). case (key, v) of
         (Some key, Some v) \<Rightarrow>
           r_bind (be_decode_dict k data n) (\<lambda>(d, data, n). Inr (map_option (\<lambda>d. (key, v) # d) d, data, n))
       | _ \<Rightarrow> Inr (None, data, n))))
    (r_bind (realloc_dict p (length es + 2) m) (\<lambda>m. r_bind (decode_str_mem data n m) (\<lambda>((key, data, n), m).
       r_bind (set_key p (length es) key m) (\<lambda>m. r_bind (decode_node_mem k data n m) (\<lambda>((v, data, n), m).
       r_bind (set_val p (length es) v m) (\<lambda>m. r_bind (set_val p (length es + 1) None m) (\<lambda>m.
         if key = None \<or> v = None then r_bind (be_free p m) (\<lambda>m. Inr ((None, data, n), m))
         else decode_dict_mem k p (Suc (length es)) data n m)))))))"
proof -
  obtain m1 b x y where m1: "realloc_dict p (length es + 2) m = Inr m1" "pair_state m (A \<union> G) p b es dd G {} x y m1"
    by (rule dict_open [OF m])
  have ok1: "mem_ok m1" using m1(2) changed_ok by (auto simp: pair_state_def)
  show ?thesis
  proof (cases "be_decode_str data n")
    case (Inl e)
    with m1(1) decode_str_ok [OF ok1, of data n] show ?thesis by simp
  next
    case (Inr r)
    obtain key d n1 where str: "be_decode_str data n = Inr (key, d, n1)" using Inr by (cases r) auto
    obtain m2 m3 ko K where k: "decode_str_mem data n m1 = Inr ((ko, d, n1), m2)" "set_key p (length es) ko m2 = Inr m3"
      "pair_state m (A \<union> G) p b es dd G K (Some ko, snd x) y m3" "strs m3 K"
      "case key of None \<Rightarrow> ko = None | Some s \<Rightarrow> \<exists>k. ko = Some k \<and> K = {k} \<and> cells m3 k = Some (StrC s)"
      by (rule dict_key [OF m1(2) str])
    have "mem_ok m3" using k(3) changed_ok by (auto simp: pair_state_def)
    note child = node_specD [OF spec(1) this, of d n1]
    show ?thesis
    proof (cases "be_decode_node k d n1" rule: item_cases)
      case (fault e)
      with child m1(1) k(1,2) show ?thesis by (simp add: str)
    next
      case (null d2 n2)
      with child obtain m4 X where m4: "decode_node_mem k d n1 m3 = Inr ((None, d2, n2), m4)" "changed m3 {} m4 X" "strs m4 X"
        by auto
      obtain m5 m6 where m6: "set_val p (length es) None m4 = Inr m5" "set_val p (length es + 1) None m5 = Inr m6"
        "pair_state m (A \<union> G) p b es dd G (K \<union> X) (Some ko, Some None) (fst y, Some None) m6"
        "\<forall>a\<in>K. cells m6 a = cells m3 a" "\<forall>a\<in>X. cells m6 a = cells m4 a"
        by (rule dict_value [OF k(3,4) m4(2), of None])
      have "strs m6 (K \<union> X)" using k(4) m4(3) m6(4,5) by (auto simp: strs_def)
      from dict_null [OF m6(3) this] obtain m7 where
        "be_free p m6 = Inr m7" "changed m (A \<union> G) m7 (K \<union> X)" "strs m7 (K \<union> X)" by blast
      with null m1(1) k(1,2) m4(1) m6(1,2) show ?thesis by (cases key) (auto simp: str)
    next
      case (item v d2 n2)
      with child obtain m4 q X where m4: "decode_node_mem k d n1 m3 = Inr ((Some q, d2, n2), m4)" "changed m3 {} m4 X" "rep m4 q v X"
        by auto
      obtain m5 m6 where m6: "set_val p (length es) (Some q) m4 = Inr m5" "set_val p (length es + 1) None m5 = Inr m6"
        "pair_state m (A \<union> G) p b es dd G (K \<union> X) (Some ko, Some (Some q)) (fst y, Some None) m6" "K \<inter> X = {}"
        "\<forall>a\<in>K. cells m6 a = cells m3 a" "\<forall>a\<in>X. cells m6 a = cells m4 a"
        by (rule dict_value [OF k(3,4) m4(2), of "Some q"])
      have v: "rep m6 q v X" by (rule rep_same(1) [OF m4(3) m6(6)])
      show ?thesis
      proof (cases key)
        case None
        have "strs m6 K" using k(4) m6(5) by (simp add: strs_def)
        moreover have "ko = None" using k(5) None by simp
        ultimately obtain m7 where "be_free p m6 = Inr m7" "changed m (A \<union> G) m7 K" "strs m7 K"
          using dict_no_key [OF _ v _ m6(4)] m6(3) by blast
        with None item m1(1) k(1,2) m4(1) m6(1,2) k(5) show ?thesis by (auto simp: str)
      next
        case (Some t)
        with k(5) obtain kk where kk: "ko = Some kk" "K = {kk}" "cells m3 kk = Some (StrC t)" by auto
        note i = dict_pair [OF m6(3) [unfolded kk(1,2)] v _ m6(4) [unfolded kk(2)], of t]
        have c: "cells m6 kk = Some (StrC t)" using m6(5) kk(2,3) by simp
        note item_ok_before [OF i(4) [OF c] dict_specD [OF spec(2) changed_ok [OF i(4) [OF c]] i(1-3) [OF c], of d2 n2]]
        then have "item_ok m (A \<union> G) (\<lambda>m' q ds F. q = p \<and> rep m' p (BE_DICT (dd @ ds)) F)
            (r_bind (be_decode_dict k d2 n2) (\<lambda>(d, data, n). Inr (map_option (\<lambda>d. (t, v) # d) d, data, n)))
            (decode_dict_mem k p (Suc (length es)) d2 n2 m6)"
          unfolding length_append_singleton append_assoc append_Cons append_Nil by (rule item_ok_map)
        then show ?thesis
          using Some kk(1) by (simp only: str item m1(1) k(1) k(2) [unfolded kk(1)] m4(1) m6(1,2) r_bind_Inr prod.case
              option.case option.distinct if_False simp_thms)
      qed
    qed
  qed
qed

lemma dict_done:
  assumes "mem_ok m" "pairs_at m p es A" "rep_pairs m es d G" "A \<inter> G = {}"
  shows "\<exists>m' F. r_bind (if length es = 0 then realloc_dict p 1 m else Inr m) (set_val p (length es) None) = Inr m' \<and>
    changed m (A \<union> G) m' F \<and> rep m' p (BE_DICT d) F"
proof -
  obtain m1 b x where m1: "(if length es = 0 then realloc_dict p 1 m else Inr m) = Inr m1" "changed m A m1 {p, b}"
    "cells m1 p = Some (NodeC (Vd (Some b)))" "cells m1 b = Some (DicC (written es @ [x]))"
  proof (cases "es = []")
    case True
    with realloc_dict_ok [OF assms(1,2), of 1] that show ?thesis by (auto simp: length_Suc_conv)
  next
    case False
    then obtain a k where "cells m p = Some (NodeC (Vd (Some a)))" "cells m a = Some (DicC (written es @ [(k, Some None)]))"
      "A = {p, a}" using assms(2) by (auto simp: pairs_at_def written_def)
    with False that [of m a] changed_refl [OF assms(1)] show ?thesis by simp
  qed
  from rep_pairs_kept [OF m1(2) assms(3,4)] have G: "rep_pairs m1 es d G" "{p, b} \<inter> G = {}" by simp_all
  let ?m' = "m1\<lparr>cells := (cells m1)(b := Some (DicC (written es @ [(fst x, Some None)])))\<rparr>"
  have c: "changed m1 {p, b} ?m' {p, b}" by (rule update_changed [OF changed_ok [OF m1(2)] m1(4)]) simp
  have "rep_pairs ?m' es d G" using rep_pairs_kept [OF c G] by simp
  moreover have "p \<noteq> b" using m1(3,4) by auto
  ultimately have "rep ?m' p (BE_DICT d) (insert p (insert b G))" using m1(3) G(2) by (auto simp: written_def)
  moreover have "changed m (A \<union> G) ?m' ({p, b} \<union> G)"
    by (rule changed_frame [OF changed_trans [OF m1(2) c]])
  ultimately show ?thesis using set_pair_ok [OF m1(3,4), of "length es"] m1(1)
    by (intro exI [of _ ?m'] exI [of _ "insert p (insert b G)"]) (simp add: set_val_def case_prod_unfold)
qed

lemma be_alloc_ok:
  assumes "mem_ok m" "be_alloc ty m = (p, m1)"
  shows "changed m {} m1 {p}" and "cells m1 p = Some (NodeC (case ty of
    T_STR \<Rightarrow> Vs None | T_INT \<Rightarrow> Vi 0 | T_LIST \<Rightarrow> Vl None | T_DICT \<Rightarrow> Vd None))"
  using malloc_changed [OF assms(1) assms(2) [unfolded be_alloc_def], of "{}"] by auto

lemma node_list:
  assumes "list_spec k" "mem_ok m" "data = c # rest" "n \<noteq> 0" "c = CHR ''l''"
  shows "item_ok m {} rep (be_decode_node (Suc k) data n) (decode_node_mem (Suc k) data n m)"
proof -
  note ok = \<open>mem_ok m\<close> and d = \<open>data = c # rest\<close> \<open>n \<noteq> 0\<close> and kind = \<open>c = CHR ''l''\<close>
  obtain p m1 where a: "be_alloc T_LIST m = (p, m1)" by fastforce
  note b = be_alloc_ok [OF ok a]
  have "items_at m1 p [] {p}" using b(2) by (simp add: items_at_def)
  from list_specD [OF assms(1) changed_ok [OF b(1)] this, of "[]" "{}" rest "n - 1"]
  have "item_ok m1 {p} (\<lambda>m' q ws F. q = p \<and> rep m' p (BE_LIST ws) F)
      (be_decode_list k rest (n - 1)) (decode_list_mem k p 0 rest (n - 1) m1)" by simp
  from item_ok_map [OF item_ok_before [OF b(1) this], of rep BE_LIST] show ?thesis
    using d by (simp add: kind a)
qed

lemma node_dict:
  assumes "dict_spec k" "mem_ok m" "data = c # rest" "n \<noteq> 0" "c = CHR ''d''"
  shows "item_ok m {} rep (be_decode_node (Suc k) data n) (decode_node_mem (Suc k) data n m)"
proof -
  note ok = \<open>mem_ok m\<close> and d = \<open>data = c # rest\<close> \<open>n \<noteq> 0\<close> and kind = \<open>c = CHR ''d''\<close>
  obtain p m1 where a: "be_alloc T_DICT m = (p, m1)" by fastforce
  note b = be_alloc_ok [OF ok a]
  have "pairs_at m1 p [] {p}" using b(2) by (simp add: pairs_at_def)
  from dict_specD [OF assms(1) changed_ok [OF b(1)] this, of "[]" "{}" rest "n - 1"]
  have "item_ok m1 {p} (\<lambda>m' q ws F. q = p \<and> rep m' p (BE_DICT ws) F)
      (be_decode_dict k rest (n - 1)) (decode_dict_mem k p 0 rest (n - 1) m1)" by simp
  from item_ok_map [OF item_ok_before [OF b(1) this], of rep BE_DICT] show ?thesis
    using d by (simp add: kind a)
qed

lemma node_int:
  assumes "mem_ok m" "data = c # rest" "n \<noteq> 0" "c = CHR ''i''"
  shows "item_ok m {} rep (be_decode_node (Suc k) data n) (decode_node_mem (Suc k) data n m)"
proof -
  note ok = \<open>mem_ok m\<close> and d = \<open>data = c # rest\<close> \<open>n \<noteq> 0\<close> and kind = \<open>c = CHR ''i''\<close>
  obtain p m1 where a: "be_alloc T_INT m = (p, m1)" by fastforce
  note b = be_alloc_ok [OF ok a]
  show ?thesis
  proof (cases "be_decode_int rest (n - 1)")
    case (Inr x)
    obtain i d1 n1 where x: "x = (i, d1, n1)" by (cases x)
    let ?m2 = "m1\<lparr>cells := (cells m1)(p := Some (NodeC (Vi i)))\<rparr>"
    have s: "store_cell p (NodeC (Vi i)) m1 = Inr ?m2" using b(2) by (simp add: store_cell_def load_cell_def)
    have c: "changed m {} ?m2 {p}"
      by (rule changed_trans [OF b(1) update_changed [OF changed_ok [OF b(1)] b(2)]]) simp
    have "owns ?m2 p {p}" by (rule owns_int) simp
    from be_free_changed [OF this changed_ok [OF c]] obtain m3 where
      "be_free p ?m2 = Inr m3" "changed ?m2 {p} m3 {}" by blast
    with changed_trans [OF c] have "be_free p ?m2 = Inr m3" "changed m {} m3 {}" by blast+
    with s c d show ?thesis
      by (auto simp: kind a Inr x strs_def split: list.split intro!: exI [of _ "{}"])
  qed (use d in \<open>simp add: kind a\<close>)
qed

lemma node_str:
  assumes "mem_ok m" "data = c # rest" "n \<noteq> 0" "isdigit c"
  shows "item_ok m {} rep (be_decode_node (Suc k) data n) (decode_node_mem (Suc k) data n m)"
proof -
  note ok = \<open>mem_ok m\<close> and d = \<open>data = c # rest\<close> \<open>n \<noteq> 0\<close> and kind = isdigit_not [OF \<open>isdigit c\<close>] \<open>isdigit c\<close>
  obtain p m1 where a: "be_alloc T_STR m = (p, m1)" by fastforce
  note b = be_alloc_ok [OF ok a]
  show ?thesis
  proof (cases "be_decode_str data n" rule: item_cases)
    case (fault e)
    with decode_str_ok [OF changed_ok [OF b(1)], of data n] kind d show ?thesis by (simp add: a)
  next
    case (null d1 n1)
    let ?m2 = "m1\<lparr>cells := (cells m1)(p := Some (NodeC (Vs None)))\<rparr>"
    have "decode_str_mem data n m1 = Inr ((None, d1, n1), m1)" by (simp add: decode_str_mem_def null)
    moreover have "store_cell p (NodeC (Vs None)) m1 = Inr ?m2" using b(2) by (simp add: store_cell_def load_cell_def)
    moreover have "changed m {} ?m2 {p}"
      by (rule changed_trans [OF b(1) update_changed [OF changed_ok [OF b(1)] b(2)]]) simp
    ultimately show ?thesis using kind d null by (auto simp: a)
  next
    case (item t d1 n1)
    with decode_str_ok [OF changed_ok [OF b(1)], of data n] obtain q m2 where m2:
      "decode_str_mem data n m1 = Inr ((Some q, d1, n1), m2)" "changed m1 {} m2 {q}" "cells m2 q = Some (StrC t)" by auto
    have p: "cells m2 p = cells m1 p" "p \<noteq> q"
      using changed_same [OF m2(2), of "{p}"] b(2) by auto
    let ?m3 = "m2\<lparr>cells := (cells m2)(p := Some (NodeC (Vs (Some q))))\<rparr>"
    have "store_cell p (NodeC (Vs (Some q))) m2 = Inr ?m3" using b(2) p by (simp add: store_cell_def load_cell_def)
    moreover have "changed m1 {p} m2 {q, p}" using changed_frame [OF m2(2), of "{p}"] by (simp add: insert_commute)
    then have "changed m {} ?m3 {p, q}"
      using changed_trans [OF changed_trans [OF b(1)] update_changed [OF changed_ok [OF m2(2)], of p]] b(2) p(1)
      by (simp add: insert_commute)
    ultimately show ?thesis using kind d m2 item p(2) by (auto simp: a)
  qed
qed

lemma node_step:
  assumes "list_spec k" "dict_spec k"
  shows "node_spec (Suc k)"
  unfolding node_spec_def
proof (intro allI impI)
  fix data n and m :: bmem
  assume ok: "mem_ok m"
  have skip: "item_ok m {} rep (Inr (None, data, n)) (Inr ((None, data, n), m))"
    using changed_refl [OF ok] by (auto simp: strs_def intro!: exI [of _ "{}"])
  show "item_ok m {} rep (be_decode_node (Suc k) data n) (decode_node_mem (Suc k) data n m)"
  proof (cases "n = 0 \<or> data = []")
    case True
    with skip show ?thesis by (auto split: list.split)
  next
    case False
    then obtain c rest where d: "data = c # rest" "n \<noteq> 0" by (cases data) auto
    consider "c = CHR ''l''" | "c = CHR ''d''" | "c = CHR ''i''" | "isdigit c"
      | "c \<notin> {CHR ''l'', CHR ''d'', CHR ''i''}" "\<not> isdigit c" by blast
    then show ?thesis
    proof cases
      case 5
      with skip d show ?thesis by simp
    qed (rule node_list [OF assms(1) ok d] node_dict [OF assms(2) ok d] node_int [OF ok d] node_str [OF ok d], assumption)+
  qed
qed

lemma specs_hold: "node_spec k \<and> list_spec k \<and> dict_spec k"
proof (induction k)
  case 0
  show ?case by (simp add: node_spec_def list_spec_def dict_spec_def)
next
  case (Suc k)
  have "list_spec (Suc k)"
    unfolding list_spec_def
  proof (intro allI impI)
    fix data n m p ps vs A G
    assume m: "mem_ok m" "items_at m p ps A" "rep_items m ps vs G" "A \<inter> G = {}"
    show "item_ok m (A \<union> G) (\<lambda>m' q ws F. q = p \<and> rep m' p (BE_LIST (vs @ ws)) F)
       (be_decode_list (Suc k) data n) (decode_list_mem (Suc k) p (length ps) data n m)"
    proof (cases data)
      case (Cons c rest)
      show ?thesis
      proof (cases "c = CHR ''e''")
        case True
        with list_done [OF m] Cons show ?thesis by (auto simp: r_bind_eq_Inr simp del: rep.simps)
      next
        case False
        with list_step [OF _ _ m, of k data n] Suc Cons show ?thesis by simp
      qed
    qed simp
  qed
  moreover have "dict_spec (Suc k)"
    unfolding dict_spec_def
  proof (intro allI impI)
    fix data n m p es d A G
    assume m: "mem_ok m" "pairs_at m p es A" "rep_pairs m es d G" "A \<inter> G = {}"
    show "item_ok m (A \<union> G) (\<lambda>m' q ds F. q = p \<and> rep m' p (BE_DICT (d @ ds)) F)
       (be_decode_dict (Suc k) data n) (decode_dict_mem (Suc k) p (length es) data n m)"
    proof (cases data)
      case (Cons c rest)
      show ?thesis
      proof (cases "c = CHR ''e''")
        case True
        with dict_done [OF m] Cons show ?thesis by (auto simp: r_bind_eq_Inr simp del: rep.simps)
      next
        case False
        with dict_step [OF _ _ m, of k data n] Suc Cons show ?thesis by simp
      qed
    qed simp
  qed
  ultimately show ?case using node_step Suc by blast
qed

section \<open>Building nodes\<close>

text \<open>They build what their models build, and take over the blocks of what they are given.\<close>

lemma find_null_items: "find_null (map (\<lambda>q. Some (Some q)) ps @ Some None # sl) = Inr (length ps)"
  by (induction ps) simp_all

lemma take_two: "\<exists>y. take (length xs + 2) (xs @ x # ys @ replicate (length xs + 2) z) = xs @ [x, y]"
  by (cases ys) auto

lemma realloc_list_any:
  assumes "mem_ok m" "cells m p = Some (NodeC (Vl (Some a)))" "cells m a = Some (ArrC sl)"
  shows "\<exists>m' b. realloc_list p n m = Inr m' \<and> changed m {p, a} m' {p, b} \<and>
    cells m' p = Some (NodeC (Vl (Some b))) \<and> cells m' b = Some (ArrC (take n (sl @ replicate n None)))"
proof -
  have "p < btop m" "a < btop m" "p \<noteq> a" using assms by (auto simp: mem_ok_def not_less [symmetric])
  with assms show ?thesis
    by (auto simp: realloc_list_def load_val_def load_cell_def val_list_def load_arr_def malloc_def mfree_def
        store_cell_def Let_def changed_def mem_ok_def restrict_map_def fun_eq_iff)
qed

lemma realloc_dict_any:
  assumes "mem_ok m" "cells m p = Some (NodeC (Vd (Some a)))" "cells m a = Some (DicC es)"
  shows "\<exists>m' b. realloc_dict p n m = Inr m' \<and> changed m {p, a} m' {p, b} \<and>
    cells m' p = Some (NodeC (Vd (Some b))) \<and> cells m' b = Some (DicC (take n (es @ replicate n (None, None))))"
proof -
  have "p < btop m" "a < btop m" "p \<noteq> a" using assms by (auto simp: mem_ok_def not_less [symmetric])
  with assms show ?thesis
    by (auto simp: realloc_dict_def load_val_def load_cell_def val_dict_def load_dic_def malloc_def mfree_def
        store_cell_def Let_def changed_def mem_ok_def restrict_map_def fun_eq_iff)
qed

lemma add_list_ok:
  assumes "mem_ok m" "rep m p (BE_LIST vs) F" "rep m q w G" "F \<inter> G = {}"
  shows "\<exists>m' H. add_list_mem p q m = Inr (1, m') \<and> rep m' p (BE_LIST (vs @ [w])) H \<and> changed m (F \<union> G) m' H"
proof -
  from assms(2) obtain a ps sl K where F: "cells m p = Some (NodeC (Vl (Some a)))"
    "cells m a = Some (ArrC (map (\<lambda>q. Some (Some q)) ps @ Some None # sl))" "rep_items m ps vs K"
    "{p, a} \<inter> K = {}" "F = {p, a} \<union> K" by auto
  let ?n = "length ps + 2"
  obtain y where y: "take ?n ((map (\<lambda>q. Some (Some q)) ps @ Some None # sl) @ replicate ?n None) =
      map (\<lambda>q. Some (Some q)) ps @ [Some None, y]"
    using take_two [of "map (\<lambda>q. Some (Some q)) ps" "Some None" sl None] by auto
  obtain m1 b where m1: "realloc_list p ?n m = Inr m1" "changed m {p, a} m1 {p, b}"
    "cells m1 p = Some (NodeC (Vl (Some b)))" "cells m1 b = Some (ArrC (map (\<lambda>q. Some (Some q)) ps @ [Some None, y]))"
    using realloc_list_any [OF assms(1) F(1,2), of ?n] unfolding y by blast
  let ?m2 = "m1\<lparr>cells := (cells m1)(b := Some (ArrC (map (\<lambda>q. Some (Some q)) (ps @ [q]) @ [y])))\<rparr>"
  let ?m3 = "m1\<lparr>cells := (cells m1)(b := Some (ArrC (map (\<lambda>q. Some (Some q)) (ps @ [q]) @ [Some None])))\<rparr>"
  have pb: "p \<noteq> b" using m1(3,4) by auto
  have s: "set_item p (length ps) (Some q) m1 = Inr ?m2" "set_item p (length ps + 1) None ?m2 = Inr ?m3"
    using set_item_ok [OF m1(3,4), of "Some q"] set_item_ok [of ?m2 p b "ps @ [q]" y "[]" None] m1(3) pb by simp_all
  have c: "changed m1 {p, b} ?m3 {p, b}" by (rule update_changed [OF changed_ok [OF m1(2)] m1(4)]) simp
  note c13 = changed_trans [OF m1(2) c]
  have d: "{p, a} \<inter> G = {}" "K \<inter> G = {}" using assms(4) F(5) by auto
  have "rep_items ?m3 (ps @ [q]) (vs @ [w]) (K \<union> G)"
    using rep_items_kept [OF c13 F(3,4)] rep_kept [OF c13 assms(3) d(1)] d(2) by (intro rep_items_snoc) auto
  moreover have "{p, b} \<inter> (K \<union> G) = {}"
    using rep_items_kept [OF c13 F(3,4)] rep_kept [OF c13 assms(3) d(1)] by auto
  ultimately have "rep ?m3 p (BE_LIST (vs @ [w])) (insert p (insert b (K \<union> G)))"
    using m1(3) pb by (auto simp del: map_append)
  moreover have "changed m (F \<union> G) ?m3 (insert p (insert b (K \<union> G)))"
    using changed_frame [OF c13, of "K \<union> G"] by (simp add: F(5) Un_assoc)
  moreover have "add_list_mem p q m = Inr (1, ?m3)"
    using F(1,2) m1(1) s by (simp add: add_list_mem_def load_val_def load_cell_def load_arr_def find_null_items)
  ultimately show ?thesis by blast
qed

lemma add_keypair_ok:
  assumes "mem_ok m" "rep m p (BE_DICT d) F" "rep m q w G" "F \<inter> G = {}"
  shows "\<exists>m' H. add_keypair_mem p str q m = Inr (1, m') \<and> rep m' p (BE_DICT (d @ [(cstr str, w)])) H \<and>
    changed m (F \<union> G) m' H"
proof -
  from assms(2) obtain a es k rs K where F: "cells m p = Some (NodeC (Vd (Some a)))"
    "cells m a = Some (DicC (written es @ (k, Some None) # rs))" "rep_pairs m es d K"
    "{p, a} \<inter> K = {}" "F = {p, a} \<union> K" by (auto simp: written_def)
  let ?n = "length es + 2"
  obtain y where y: "take ?n ((written es @ (k, Some None) # rs) @ replicate ?n (None, None)) = written es @ [(k, Some None), y]"
    using take_two [of "written es" "(k, Some None)" rs "(None, None)"] by auto
  obtain m1 b where m1: "realloc_dict p ?n m = Inr m1" "changed m {p, a} m1 {p, b}"
    "cells m1 p = Some (NodeC (Vd (Some b)))" "cells m1 b = Some (DicC (written es @ [(k, Some None), y]))"
    using realloc_dict_any [OF assms(1) F(1,2), of ?n] unfolding y by blast
  obtain r m2 where r: "malloc (StrC (cstr str)) m1 = (r, m2)" by fastforce
  note m2 = malloc_changed [OF changed_ok [OF m1(2)] r]
  have pb: "p \<noteq> b" "r \<noteq> p" "r \<noteq> b" using m1(3,4) m2 [of "{}"] by auto
  have a2: "cells m2 p = Some (NodeC (Vd (Some b)))" "cells m2 b = Some (DicC (written es @ [(k, Some None), y]))"
    using m2 [of "{}"] m1(3,4) pb by auto
  let ?m3 = "m2\<lparr>cells := (cells m2)(b := Some (DicC (written es @ [(Some (Some r), Some None), y])))\<rparr>"
  let ?m5 = "m2\<lparr>cells := (cells m2)(b := Some (DicC (written (es @ [(r, q)]) @ [(fst y, Some None)])))\<rparr>"
  have s3: "set_key p (length es) (Some r) m2 = Inr ?m3"
    using set_pair_ok [OF a2(1), of "written es" "(k, Some None)" "[y]" "length es"] a2(2) by (simp add: set_key_def)
  have a3: "cells ?m3 p = Some (NodeC (Vd (Some b)))" using a2 pb by simp
  have "cells ?m3 b = Some (DicC (written es @ [(Some (Some r), Some None), y]))" by simp
  from dict_vals [OF a3 this] obtain m4 where s5: "set_val p (length es) (Some q) ?m3 = Inr m4"
    "set_val p (length es + 1) None m4 = Inr ?m5" by (auto simp: fun_upd_upd)
  have "changed m2 {p, b, r} ?m5 {p, b, r}"
    by (rule update_changed [OF changed_ok [OF conjunct1 [OF m2]] a2(2)]) simp
  moreover have "changed m1 {p, b} m2 {p, b, r}" using conjunct1 [OF m2 [of "{p, b}"]] by (simp only: insert_commute)
  ultimately have c: "changed m {p, a} ?m5 {p, b, r}" using m1(2) by (blast intro: changed_trans)
  have d: "{p, a} \<inter> G = {}" "K \<inter> G = {}" using assms(4) F(5) by auto
  note kept = rep_pairs_kept [OF c F(3,4)] rep_kept [OF c assms(3) d(1)]
  have "rep_pairs ?m5 (es @ [(r, q)]) (d @ [(cstr str, w)]) (insert r (K \<union> G))"
    by (rule rep_pairs_snoc) (use kept d(2) m2 [of "{}"] pb in auto)
  moreover have "p \<notin> insert r (K \<union> G)" "b \<notin> insert r (K \<union> G)" using kept pb by auto
  ultimately have "rep ?m5 p (BE_DICT (d @ [(cstr str, w)])) (insert p (insert b (insert r (K \<union> G))))"
    using a2(1) pb by (auto simp: written_def simp del: map_append)
  moreover have "changed m (F \<union> G) ?m5 (insert p (insert b (insert r (K \<union> G))))"
    using changed_frame [OF c, of "K \<union> G"] by (simp add: F(5) Un_assoc)
  moreover have n: "find_null (map snd (written es) @ Some None # map snd rs) = Inr (length es)"
    using find_null_items [of "map snd es" "map snd rs"] by (simp add: written_def case_prod_unfold comp_def)
  have "add_keypair_mem p str q m = Inr (1, ?m5)"
    using F(1,2) m1(1) r s3 s5 n by (simp add: add_keypair_mem_def load_val_def load_cell_def load_dic_def)
  ultimately show ?thesis by blast
qed

text \<open>Creating a node leaves the blocks of that node and nothing else.\<close>

lemma create_int_ok:
  assumes "mem_ok m"
  shows "\<exists>p m' F. create_int_mem num m = Inr (p, m') \<and> rep m' p (be_create_int num) F \<and> changed m {} m' F"
proof -
  obtain p m1 where a: "be_alloc T_INT m = (p, m1)" by fastforce
  note m1 = malloc_changed [OF assms a [unfolded be_alloc_def], of "{}"]
  from store_changed [OF changed_ok [OF conjunct1 [OF m1]], of p _ "{p}" "NodeC (Vi num)"] m1
  obtain m2 where m2: "store_cell p (NodeC (Vi num)) m1 = Inr m2" "changed m1 {p} m2 {p}"
    "cells m2 = (cells m1)(p := Some (NodeC (Vi num)))" by auto
  from m1 m2(2) have "changed m {} m2 {p}" by (blast intro: changed_trans)
  with a m2 show ?thesis
    by (intro exI [of _ p] exI [of _ m2] exI [of _ "{p}"]) (simp add: create_int_mem_def be_create_int_def)
qed

lemma create_str_ok:
  assumes "mem_ok m"
  shows "case be_create_str_wlen str len of Inl e \<Rightarrow> create_str_mem str len m = Inl e
    | Inr v \<Rightarrow> \<exists>p m' F. create_str_mem str len m = Inr (p, m') \<and> rep m' p v F \<and> changed m {} m' F"
proof -
  obtain r m1 where r: "malloc (StrC (take len str)) m = (r, m1)" by fastforce
  note m1 = malloc_changed [OF assms r, of "{}"]
  obtain p m2 where a: "be_alloc T_STR m1 = (p, m2)" by fastforce
  note m2 = malloc_changed [OF changed_ok [OF conjunct1 [OF m1]] a [unfolded be_alloc_def], of "{r}"]
  have pr: "p \<noteq> r" using m1 m2 by auto
  from store_changed [OF changed_ok [OF conjunct1 [OF m2]], of p _ "{p, r}" "NodeC (Vs (Some r))"] m2
  obtain m3 where m3: "store_cell p (NodeC (Vs (Some r))) m2 = Inr m3" "changed m2 {p, r} m3 {p, r}"
    "cells m3 = (cells m2)(p := Some (NodeC (Vs (Some r))))" by auto
  have "changed m {} m3 {p, r}"
    using changed_trans [OF changed_trans [OF conjunct1 [OF m1] conjunct1 [OF m2]] m3(2)] .
  with r a m1 m2 m3(1,3) pr show ?thesis
    by (auto simp: create_str_mem_def be_create_str_wlen_def intro!: exI [of _ "{p, r}"])
qed

lemma create_empty_ok:
  assumes "mem_ok m"
  shows "\<exists>p m' F. create_list_mem m = Inr (Some p, m') \<and> rep m' p (BE_LIST []) F \<and> changed m {} m' F"
    and "\<exists>p m' F. create_dict_mem m = Inr (Some p, m') \<and> rep m' p (BE_DICT []) F \<and> changed m {} m' F"
proof -
  note spec = node_specD [OF conjunct1 [OF specs_hold [of 7]] assms, of "_ @ [NUL]" 2]
  have "be_decode_node 7 (''le'' @ [NUL]) 2 = Inr (Some (BE_LIST []), [NUL], 0)" by code_simp
  with spec [of "''le''"] show "\<exists>p m' F. create_list_mem m = Inr (Some p, m') \<and> rep m' p (BE_LIST []) F \<and> changed m {} m' F"
    by (auto simp: create_list_mem_def decoden_mem_def simp del: be_decode_node.simps decode_node_mem.simps rep.simps)
  have "be_decode_node 7 (''de'' @ [NUL]) 2 = Inr (Some (BE_DICT []), [NUL], 0)" by code_simp
  with spec [of "''de''"] show "\<exists>p m' F. create_dict_mem m = Inr (Some p, m') \<and> rep m' p (BE_DICT []) F \<and> changed m {} m' F"
    by (auto simp: create_dict_mem_def decoden_mem_def simp del: be_decode_node.simps decode_node_mem.simps rep.simps)
qed

section \<open>Properties\<close>

lemma free_restores:
  assumes "rep m' p v F" "changed m {} m' F"
  shows "\<exists>m''. be_free p m' = Inr m'' \<and> cells m'' = cells m"
proof -
  from be_free_changed [OF rep_owns(1) [OF assms(1)] changed_ok [OF assms(2)]] obtain m''
    where "be_free p m' = Inr m''" "changed m' F m'' {}" by blast
  moreover from changed_trans [OF assms(2) this(2)] have "cells m'' = cells m" by (simp add: changed_def restrict_map_def fun_eq_iff)
  ultimately show ?thesis by blast
qed

text \<open>
  C28 (refinement): the decoder in memory returns what its model returns, on every input, and
  faults only where that does. If the result is a node, then the blocks that were allocated and
  are still there are exactly those of the tree that represents it, and \<^verbatim>\<open>be_free\<close> gives all
  of them back: the memory is as before. If the result is null, whatever was built has been
  given back except for strings, the keys of dictionaries whose value was malformed.
\<close>

theorem be_decoden_memory:
  assumes "mem_ok m"
  shows "case be_decoden data len of
      Inl e \<Rightarrow> decoden_mem data len m = Inl e
    | Inr None \<Rightarrow> \<exists>m' L. decoden_mem data len m = Inr (None, m') \<and> changed m {} m' L \<and> strs m' L
    | Inr (Some v) \<Rightarrow> \<exists>p m' F m''. decoden_mem data len m = Inr (Some p, m') \<and> rep m' p v F \<and>
        changed m {} m' F \<and> be_free p m' = Inr m'' \<and> cells m'' = cells m"
proof -
  let ?k = "2 * length data + 1"
  note spec = node_specD [OF conjunct1 [OF specs_hold [of ?k]] assms, of data len]
  show ?thesis
  proof (cases "be_decode_node ?k data len" rule: item_cases)
    case (fault e)
    with spec show ?thesis
      by (simp add: be_decoden_def decoden_mem_def del: be_decode_node.simps decode_node_mem.simps)
  next
    case (null d n)
    with spec show ?thesis
      by (auto simp: be_decoden_def decoden_mem_def simp del: be_decode_node.simps decode_node_mem.simps)
  next
    case (item v d n)
    with spec obtain m' p F where r: "decode_node_mem ?k data len m = Inr ((Some p, d, n), m')"
      "changed m {} m' F" "rep m' p v F"
      by (auto simp del: be_decode_node.simps decode_node_mem.simps)
    with free_restores [OF r(3,2)] item show ?thesis
      by (simp add: be_decoden_def decoden_mem_def del: be_decode_node.simps decode_node_mem.simps) blast
  qed
qed

definition mem0 :: bmem where
  "mem0 = \<lparr>cells = (\<lambda>_. None), btop = 0\<rparr>"

lemma mem0_ok: "mem_ok mem0"
  by (simp add: mem_ok_def mem0_def)

theorem be_decoden_memory_witness:
  "\<exists>p m' m''. decoden_mem (''ld1:ai1eee'' @ [NUL]) 10 mem0 = Inr (Some p, m') \<and> be_free p m' = Inr m'' \<and>
     cells m'' = (\<lambda>_. None)"
proof -
  have "be_decoden (''ld1:ai1eee'' @ [NUL]) 10 = Inr (Some (BE_LIST [BE_DICT [(''a'', BE_INT 1)]]))" by code_simp
  with be_decoden_memory [OF mem0_ok, of "''ld1:ai1eee'' @ [NUL]" 10] show ?thesis
    by (auto simp: mem0_def)
qed

text \<open>
  A key that was read before its value turned out to be malformed is not given back: one block
  of the three that were allocated for this input stays.
\<close>

lemma decode_leaks_key:
  "case decoden_mem (''d1:ax'' @ [NUL]) 5 mem0 of
     Inr (None, m) \<Rightarrow> map (cells m) [0..<btop m] = [None, None, Some (StrC ''a'')] | _ \<Rightarrow> False"
  by code_simp

text \<open>
  C29 (functional): adding to a list or a dictionary in memory adds to the value it represents, at
  the end, and takes over the blocks of the node that is added: released together later, they
  leave nothing behind.
\<close>

theorem nodes_built_in_memory:
  assumes "mem_ok m" and "rep m p v F" and "rep m q w G" and "F \<inter> G = {}"
  shows "(case v of
      BE_LIST vs \<Rightarrow> \<exists>m' H. add_list_mem p q m = Inr (snd (be_add_list v w), m') \<and>
        rep m' p (fst (be_add_list v w)) H \<and> changed m (F \<union> G) m' H
    | BE_DICT d \<Rightarrow> \<exists>m' H. add_keypair_mem p str q m = Inr (snd (be_add_keypair v str w), m') \<and>
        rep m' p (fst (be_add_keypair v str w)) H \<and> changed m (F \<union> G) m' H
    | _ \<Rightarrow> add_list_mem p q m = Inr (snd (be_add_list v w), m) \<and>
        add_keypair_mem p str q m = Inr (snd (be_add_keypair v str w), m))"
proof (cases v)
  case (BE_LIST vs)
  with add_list_ok [OF assms(1)] assms(2-4) show ?thesis by (simp add: be_add_list_def del: rep.simps)
next
  case (BE_DICT d)
  with add_keypair_ok [OF assms(1)] assms(2-4) show ?thesis by (simp add: be_add_keypair_def del: rep.simps)
qed (use assms(2) in \<open>auto simp: add_list_mem_def add_keypair_mem_def load_val_def load_cell_def
    be_add_list_def be_add_keypair_def split: option.splits\<close>)

definition mem1 :: bmem where
  "mem1 = \<lparr>cells = [0 \<mapsto> NodeC (Vl (Some 1)), 1 \<mapsto> ArrC [Some None], 2 \<mapsto> NodeC (Vi 7)], btop = 3\<rparr>"

theorem nodes_built_in_memory_witness:
  "\<exists>m' H. add_list_mem 0 2 mem1 = Inr (1, m') \<and> rep m' 0 (BE_LIST [BE_INT 7]) H"
proof -
  have "mem_ok mem1" by (auto simp: mem_ok_def mem1_def)
  moreover have "rep mem1 0 (BE_LIST []) {0, 1}" "rep mem1 2 (BE_INT 7) {2}" by (simp_all add: mem1_def)
  ultimately show ?thesis
    using nodes_built_in_memory [of mem1 0 "BE_LIST []" "{0, 1}" 2 "BE_INT 7" "{2}" "[]"]
    by (auto simp: be_add_list_def simp del: rep.simps)
qed

end
