(* ===== verification/Tool.thy ===== *)
theory Tool
  imports Toxdata_Properties
begin

text \<open>
  The command line tool as a whole: the part of \<^verbatim>\<open>main\<close> in \<^verbatim>\<open>src/toxdatatool.c\<close>
  that reads the command line, in front of \<open>tool_main\<close>, and the functions of
  \<^verbatim>\<open>src/misc.c\<close> that print options and keys. It is proved what a run of the tool
  can change on the disk, and what its exit code says.
\<close>

section \<open>Printing\<close>

text \<open>The fields of \<^verbatim>\<open>struct Tox_Options\<close> that are printed are the arguments.\<close>

definition print_option :: "bool \<Rightarrow> bool \<Rightarrow> u16 \<Rightarrow> u16 \<Rightarrow> string" where
  "print_option ipv6_enabled udp_enabled start_port end_port =
     (if ipv6_enabled then ''ipv6 enabled,'' else []) @ '' '' @ (if udp_enabled then '' UDP enabled,'' else []) @
     '' Port range : ['' @ show_nat (unat start_port) @ '', '' @ show_nat (unat end_port) @ '']. '' @ [NL]"

text \<open>
  The buffer is as long as an address in hexadecimal, which is longer than a key; what is behind
  the key is whatever it held, in upper case. The last byte is not touched.
\<close>

abbreviation (input) TOX_ADDRESS_SIZE :: nat where "TOX_ADDRESS_SIZE \<equiv> 38"

definition print_secretkey :: "sodium \<Rightarrow> (nat \<Rightarrow> char) \<Rightarrow> string \<Rightarrow> string res" where
  "print_secretkey sod g secret_keybin =
     (let size = TOX_ADDRESS_SIZE * 2 + 1 in
      r_bind (mem_store (map g [0..<size]) 0 (sodium_bin2hex sod secret_keybin @ [NUL])) (\<lambda>secret_keyhex.
        Inr (''Secret key : '' @ cstr (map toupper (take (size - 1) secret_keyhex) @ drop (size - 1) secret_keyhex) @ [NL])))"

section \<open>The command line\<close>

text \<open>The message for a value of \<^verbatim>\<open>poptGetNextOpt\<close> that is not -1, the end of the options.\<close>

abbreviation (input) POPT_ERROR_NOARG :: int where "POPT_ERROR_NOARG \<equiv> - 10"
abbreviation (input) POPT_ERROR_BADOPT :: int where "POPT_ERROR_BADOPT \<equiv> - 11"
abbreviation (input) POPT_ERROR_BADNUMBER :: int where "POPT_ERROR_BADNUMBER \<equiv> - 17"
abbreviation (input) POPT_ERROR_OVERFLOW :: int where "POPT_ERROR_OVERFLOW \<equiv> - 18"

definition option_error :: "int \<Rightarrow> string" where
  "option_error val =
     (if val = POPT_ERROR_NOARG then ''Argument missing for an option'' @ [NL]
      else if val = POPT_ERROR_BADOPT then ''Option's argument could not be parsed'' @ [NL]
      else if val = POPT_ERROR_BADNUMBER \<or> val = POPT_ERROR_OVERFLOW
        then ''Option could not be converted to number'' @ [NL]
      else ''Unknown error in option processing'' @ [NL])"

text \<open>The loop that fetches the options: the first value that is negative ends it.\<close>

fun next_opts :: "int list \<Rightarrow> int" where
  "next_opts [] = - 1"
| "next_opts (val # vals) = (if 0 \<le> val then next_opts vals else val)"

text \<open>The loop over the other arguments: the last one is the file.\<close>

fun tool_args :: "string list \<Rightarrow> string option \<Rightarrow> string option" where
  "tool_args [] file = file"
| "tool_args (arg # args) file = tool_args args (Some arg)"

text \<open>
  \<^verbatim>\<open>popt\<close> is a parameter. For the options \<^verbatim>\<open>--help\<close> and \<^verbatim>\<open>--usage\<close> of
  \<^verbatim>\<open>POPT_AUTOHELP\<close> a call of \<^verbatim>\<open>poptGetNextOpt\<close> prints a text and ends the process with
  success: \<open>Inl\<close> the text. Else it gives, from the command line, the values that
  \<^verbatim>\<open>poptGetNextOpt\<close> returns one after the other, what it writes into the variables of
  the table, and the arguments that are no options. The usage without arguments goes to
  \<^verbatim>\<open>stderr\<close>.
\<close>

type_synonym popt = "string list \<Rightarrow> string + int list \<times> tool_options \<times> string list"

definition toxdatatool ::
  "'t toxcore \<Rightarrow> sodium \<Rightarrow> (nat \<Rightarrow> char) \<Rightarrow> (u64 \<Rightarrow> string) \<Rightarrow> (string option \<Rightarrow> 't option) \<Rightarrow> u64 \<Rightarrow>
   popt \<Rightarrow> string list \<Rightarrow> fs \<Rightarrow> (int \<times> fs \<times> string \<times> friend_info list) res" where
  "toxdatatool api sod g ctime tox_new current_time popt argv files =
     (if length argv < 2 then Inr (1, files, [], [])
      else case popt argv of
        Inl usage \<Rightarrow> Inr (0, files, usage, [])
      | Inr (vals, po, args) \<Rightarrow>
          let val = next_opts vals in
          if val \<noteq> - 1 then Inr (EXIT_FAILURE, files, option_error val, [])
          else tool_main api sod g ctime tox_new current_time (po\<lparr>toxfile := tool_args args None\<rparr>) files)"

section \<open>Lemmas\<close>

lemma print_secretkey_hex:
  assumes "length (sodium_bin2hex sod key) = 64" "no_nul (sodium_bin2hex sod key)"
  shows "print_secretkey sod g key = Inr (''Secret key : '' @ map toupper (sodium_bin2hex sod key) @ [NL])"
proof -
  let ?h = "sodium_bin2hex sod key"
  have "no_nul (map toupper ?h)" using assms(2) toupper_not_NUL by (auto simp: no_nul_def)
  then have "cstr (map toupper ?h @ NUL # xs) = map toupper ?h" for xs by (rule cstr_terminated)
  moreover have "toupper NUL = NUL" by (simp add: toupper_def byte_def)
  moreover have "mem_store (map g [0..<77]) 0 (?h @ [NUL]) = Inr (?h @ NUL # drop 65 (map g [0..<77]))"
    using assms(1) by (simp add: mem_store_def del: upt_conv_Cons_Cons)
  ultimately show ?thesis using assms(1) by (simp add: print_secretkey_def take_Cons')
qed

lemma tool_args_last: "tool_args args file = (if args = [] then file else Some (last args))"
  by (induction args "file" rule: tool_args.induct) auto

text \<open>Files that are not written keep their contents.\<close>

lemma append_bytes_other: "q \<noteq> p \<Longrightarrow> fs_data (append_bytes p bs f) q = fs_data f q"
  by (simp add: append_bytes_def)

lemma export_keys_other:
  "export_keys p fs files = Inr (r, files') \<Longrightarrow> q \<noteq> p \<Longrightarrow> fs_data files' q = fs_data files q"
  by (auto simp: export_keys_def r_bind_eq_Inr append_bytes_other split: option.splits
      dest!: fopen_write_bytes)

lemma save_profile_other:
  assumes "save_profile api sod g tox p pass files = Inr (r, files')" "q \<noteq> p"
  shows "fs_data files' q = fs_data files q"
proof (cases "fopen_write p files")
  case None
  with assms show ?thesis by (auto simp: save_profile_def r_bind_eq_Inr Let_def split: option.splits sum.splits)
next
  case (Some x)
  then obtain s f where x: "fopen_write p files = Some (s, f)" by (cases x) simp
  with assms have "files' = files \<or> (\<exists>bs. files' = append_bytes p bs f)"
    by (auto simp: save_profile_def r_bind_eq_Inr Let_def split: option.splits sum.splits)
  with fopen_write_bytes [OF x] assms(2) show ?thesis by (auto simp: append_bytes_other)
qed

text \<open>A run that gets to the end, taken apart.\<close>

lemma r_bindE:
  "r_bind x f = Inr y \<Longrightarrow> (\<And>z. x = Inr z \<Longrightarrow> f z = Inr y \<Longrightarrow> Q) \<Longrightarrow> Q"
  by (auto simp: r_bind_eq_Inr)

lemma case_prodE_Inr:
  "case_prod f z = Inr y \<Longrightarrow> (\<And>a b. z = (a, b) \<Longrightarrow> f a b = Inr y \<Longrightarrow> Q) \<Longrightarrow> Q"
  by (cases z) simp

lemma tool_main_runs:
  assumes "tool_main api sod g ctime tox_new current_time po files = Inr (code, files', out, friends)"
  obtains path loaded where "toxfile po = Some path" "load_profile sod g tox_new path (po_passphrase po) files = Inr loaded"
    and "code = (if snd loaded = None then EXIT_FAILURE else 0)"
    and "snd loaded = None \<Longrightarrow> files' = files"
    and "\<And>q. q \<noteq> path \<Longrightarrow> exportfile po \<noteq> Some q \<Longrightarrow> fs_data files' q = fs_data files q"
    and "po_passphrase po = None \<Longrightarrow> importfile po = None \<Longrightarrow> removefile po = None \<Longrightarrow> purge_delay po = 0 \<Longrightarrow>
      exportfile po \<noteq> Some path \<Longrightarrow> fs_data files' path = fs_data files path"
proof -
  from assms obtain path where p: "toxfile po = Some path"
    by (auto simp: tool_main_def split: option.splits)
  with assms obtain loaded where l: "load_profile sod g tox_new path (po_passphrase po) files = Inr loaded"
    by (auto simp: tool_main_def r_bind_eq_Inr split: if_splits)
  show thesis
  proof (cases "snd loaded")
    case None
    with assms p l show thesis
      by (intro that [OF p l]) (auto simp: tool_main_def split: if_splits prod.splits)
  next
    case (Some tox)
    from l obtain c where "load_profile sod g tox_new path (po_passphrase po) files = Inr (c, Some tox)"
      using Some by (cases loaded) simp
    with assms p have "\<exists>tox1 friends1 files1. code = 0 \<and>
      (case exportfile po of None \<Rightarrow> Inr files
          | Some f \<Rightarrow> r_bind (export_keys f friends1 files) (\<lambda>(_, files). Inr files)) = Inr files1 \<and>
      (if po_passphrase po \<noteq> None \<or> importfile po \<noteq> None \<or> removefile po \<noteq> None \<or> 0 < purge_delay po
          then r_bind (save_profile api sod g tox1 path (po_passphrase po) files1) (\<lambda>(_, files). Inr files)
          else Inr files1) = Inr files'"
      by (simp only: tool_main_def option.case prod.case r_bind_Inr if_True if_False sum.distinct split: if_split_asm)
        (elim r_bindE case_prodE_Inr, simp only: sum.inject prod.inject, elim conjE, hypsubst,
          intro exI conjI, rule refl, assumption+)
    then obtain tox1 friends1 files1 where r: "code = 0"
      "(case exportfile po of None \<Rightarrow> Inr files
          | Some f \<Rightarrow> r_bind (export_keys f friends1 files) (\<lambda>(_, files). Inr files)) = Inr files1"
      "(if po_passphrase po \<noteq> None \<or> importfile po \<noteq> None \<or> removefile po \<noteq> None \<or> 0 < purge_delay po
          then r_bind (save_profile api sod g tox1 path (po_passphrase po) files1) (\<lambda>(_, files). Inr files)
          else Inr files1) = Inr files'" by blast
    from r(2) have "fs_data files1 q = fs_data files q" if "exportfile po \<noteq> Some q" for q
      using that export_keys_other by (cases "exportfile po") (fastforce simp: r_bind_eq_Inr)+
    moreover from r(3) have "fs_data files' q = fs_data files1 q" if "q \<noteq> path" for q
      using that save_profile_other by (fastforce simp: r_bind_eq_Inr split: if_splits)
    ultimately show thesis using r Some
      by (intro that [OF p l]) (auto split: if_splits)
  qed
qed

section \<open>Properties\<close>

text \<open>
  C30 (safety): a run of the tool that comes to its end changes no file but the profile that is
  named last on the command line and the file that keys are exported to, and the profile only
  with a passphrase, an import, a removal or a purge, or if the keys are exported over it. Its
  exit code is 0 if a help text was asked for and printed, which changes no file, or if the
  profile was loaded, and nothing else: when it is not 0, no file was changed, and when it is,
  exporting, importing or saving may still have failed.
\<close>

theorem tool_writes_only:
  assumes "toxdatatool api sod g ctime tox_new current_time popt argv files = Inr (code, files', out, friends)"
  shows "(code = 0 \<longleftrightarrow> 2 \<le> length argv \<and> (case popt argv of Inl usage \<Rightarrow> out = usage
      | Inr (vals, po, args) \<Rightarrow> next_opts vals = - 1 \<and> (\<exists>path c tox. tool_args args None = Some path \<and>
          load_profile sod g tox_new path (po_passphrase po) files = Inr (c, Some tox)))) \<and>
    (code = 0 \<or> code = 1 \<and> files' = files) \<and>
    (case popt argv of Inl usage \<Rightarrow> files' = files
      | Inr (vals, po, args) \<Rightarrow>
          \<forall>q. fs_data files' q = fs_data files q \<or> exportfile po = Some q \<or> tool_args args None = Some q \<and>
            (po_passphrase po \<noteq> None \<or> importfile po \<noteq> None \<or> removefile po \<noteq> None \<or> purge_delay po \<noteq> 0))"
proof (cases "popt argv")
  case (Inl usage)
  with assms show ?thesis by (auto simp: toxdatatool_def split: if_splits)
next
  case (Inr x)
  obtain vals po args where x: "popt argv = Inr (vals, po, args)" using Inr by (cases x) simp
  show ?thesis
  proof (cases "2 \<le> length argv \<and> next_opts vals = - 1")
    case False
    with assms x show ?thesis by (auto simp: toxdatatool_def Let_def split: if_splits)
  next
    case True
    with assms x have "tool_main api sod g ctime tox_new current_time (po\<lparr>toxfile := tool_args args None\<rparr>) files =
        Inr (code, files', out, friends)" by (simp add: toxdatatool_def)
    then show ?thesis
    proof (rule tool_main_runs)
      fix path loaded
      assume r: "toxfile (po\<lparr>toxfile := tool_args args None\<rparr>) = Some path"
        "load_profile sod g tox_new path (po_passphrase (po\<lparr>toxfile := tool_args args None\<rparr>)) files = Inr loaded"
        "code = (if snd loaded = None then EXIT_FAILURE else 0)" "snd loaded = None \<Longrightarrow> files' = files"
      moreover assume "\<And>q. q \<noteq> path \<Longrightarrow> exportfile (po\<lparr>toxfile := tool_args args None\<rparr>) \<noteq> Some q \<Longrightarrow>
          fs_data files' q = fs_data files q"
        and "po_passphrase (po\<lparr>toxfile := tool_args args None\<rparr>) = None \<Longrightarrow>
          importfile (po\<lparr>toxfile := tool_args args None\<rparr>) = None \<Longrightarrow>
          removefile (po\<lparr>toxfile := tool_args args None\<rparr>) = None \<Longrightarrow>
          purge_delay (po\<lparr>toxfile := tool_args args None\<rparr>) = 0 \<Longrightarrow>
          exportfile (po\<lparr>toxfile := tool_args args None\<rparr>) \<noteq> Some path \<Longrightarrow> fs_data files' path = fs_data files path"
      ultimately show ?thesis using True x by (cases loaded) (auto split: if_splits, metis+)
    qed
  qed
qed

definition options0 :: tool_options where
  "options0 = \<lparr>po_passphrase = None, toxfile = None, exportfile = Some ''k'', importfile = None, removefile = None,
     purge_delay = 0, print_flag = False\<rparr>"

text \<open>A command line with \<^verbatim>\<open>--help\<close>, and any other one taken for \<^verbatim>\<open>-x k p\<close>.\<close>

definition popt0 :: popt where
  "popt0 argv = (if ''--help'' \<in> set argv then Inl ''Usage: t [OPTION...] <toxfile>'' else Inr ([11002], options0, [''p'']))"

theorem tool_writes_only_witness:
  "(\<exists>files' friends. toxdatatool sample sample_crypt (\<lambda>_. NUL) (\<lambda>_. []) saved0 0 popt0
      [''t'', ''-x'', ''k'', ''p''] (append_bytes ''p'' ''save'' files0) = Inr (0, files', [], friends) \<and>
    fs_data files' ''p'' = Some ''save'' \<and> fs_data files' ''k'' = Some []) \<and>
   (\<exists>files' out friends. toxdatatool sample sample_crypt (\<lambda>_. NUL) (\<lambda>_. []) saved0 0 popt0
      [''t'', ''--help''] files0 = Inr (0, files', out, friends) \<and> files' = files0 \<and> out = ''Usage: t [OPTION...] <toxfile>'')"
proof
  let ?files = "append_bytes ''p'' ''save'' files0"
  let ?run = "toxdatatool sample sample_crypt (\<lambda>_. NUL) (\<lambda>_. []) saved0 0 popt0 [''t'', ''-x'', ''k'', ''p''] ?files"
  have "case ?run of Inr (code, f, out, _) \<Rightarrow> code = 0 \<and> out = [] \<and> fs_data f ''k'' = Some [] | Inl _ \<Rightarrow> False"
    by code_simp
  then obtain files' friends where run: "?run = Inr (0, files', [], friends)" "fs_data files' ''k'' = Some []"
    by (auto split: sum.splits prod.splits)
  from tool_writes_only [OF this(1)] have "fs_data files' ''p'' = fs_data ?files ''p''"
    by (auto simp: options0_def popt0_def)
  also have "\<dots> = Some ''save''" by (simp add: append_bytes_def file_bytes_def files0_def)
  finally show "\<exists>files' friends. ?run = Inr (0, files', [], friends) \<and>
    fs_data files' ''p'' = Some ''save'' \<and> fs_data files' ''k'' = Some []" using run by blast
  let ?usage = "toxdatatool sample sample_crypt (\<lambda>_. NUL) (\<lambda>_. []) saved0 0 popt0 [''t'', ''--help''] files0"
  obtain files1 out1 friends1 where h: "?usage = Inr (0, files1, out1, friends1)"
    by (simp add: toxdatatool_def popt0_def)
  with tool_writes_only [OF h] show "\<exists>files' out friends. ?usage = Inr (0, files', out, friends) \<and> files' = files0 \<and>
    out = ''Usage: t [OPTION...] <toxfile>''" by (simp add: popt0_def)
qed

end
