(* ===== verification/Call_Memory.thy ===== *)
theory Call_Memory
  imports Call_Machine Block_Memory
begin

text \<open>
  The testers of \<^verbatim>\<open>src/call.c\<close> in memory. A tester, the record of its caller, the samples
  of a record, the record for playback, the name of the file and the record of the greeter are blocks of their own; the
  machine of \<open>Call\<close> is run on them, with what it allocates, reallocates and releases. It is
  proved to do what \<open>Call\<close> says, and how many blocks it loses.
\<close>

section \<open>Blocks\<close>

text \<open>\<^verbatim>\<open>struct call_tester\<close> with its pointers, and the same from a tester as a value.\<close>

record tester_cell =
  tc_friend_number :: u32
  tc_step :: callstep
  tc_samples_send :: "nat option"
  tc_ctrecord :: nat
  tc_playback :: "nat option"
  tc_tsprevious :: "timespec option"
  tc_callstart :: "timespec option"
  tc_delay :: u64
  tc_elapsed :: u64
  tc_outfilename :: nat

definition tester_fields :: "call_tester \<Rightarrow> nat \<Rightarrow> nat option \<Rightarrow> nat \<Rightarrow> tester_cell" where
  "tester_fields ct r pb nm =
     \<lparr>tc_friend_number = ct_friend_number ct, tc_step = step ct, tc_samples_send = samples_send ct, tc_ctrecord = r,
      tc_playback = pb, tc_tsprevious = tsprevious ct, tc_callstart = callstart ct, tc_delay = delay ct,
      tc_elapsed = elapsed ct, tc_outfilename = nm\<rparr>"

definition tester_view :: "tester_cell \<Rightarrow> pcm_record \<Rightarrow> pcm_record option \<Rightarrow> string \<Rightarrow> call_tester" where
  "tester_view t rec pb nm =
     \<lparr>ct_friend_number = tc_friend_number t, step = tc_step t, samples_send = tc_samples_send t, ctrecord = rec,
      playback = pb, callstart = tc_callstart t, tsprevious = tc_tsprevious t, delay = tc_delay t,
      elapsed = tc_elapsed t, outfilename = nm\<rparr>"

text \<open>A record has the pointer to its samples, and channels, count and rate.\<close>

datatype call_cell =
    PcmC "int option list"
  | RecordC "nat option" "u8 option" nat "u32 option"
  | NameC string
  | TesterC tester_cell

type_synonym cmem = "call_cell block_mem"

definition load_tester :: "nat \<Rightarrow> cmem \<Rightarrow> tester_cell res" where
  "load_tester p m = r_bind (load_cell p m) (\<lambda>c. case c of TesterC t \<Rightarrow> Inr t | _ \<Rightarrow> Inl TypeConfusion)"

definition load_name :: "nat \<Rightarrow> cmem \<Rightarrow> string res" where
  "load_name p m = r_bind (load_cell p m) (\<lambda>c. case c of NameC s \<Rightarrow> Inr s | _ \<Rightarrow> Inl TypeConfusion)"

definition load_pcm :: "nat option \<Rightarrow> cmem \<Rightarrow> int option list res" where
  "load_pcm a m = (case a of None \<Rightarrow> Inr []
     | Some a \<Rightarrow> r_bind (load_cell a m) (\<lambda>c. case c of PcmC xs \<Rightarrow> Inr xs | _ \<Rightarrow> Inl TypeConfusion))"

definition load_record :: "nat \<Rightarrow> cmem \<Rightarrow> (nat option \<times> pcm_record) res" where
  "load_record r m = r_bind (load_cell r m) (\<lambda>c. case c of
     RecordC a ch n rate \<Rightarrow> r_bind (load_pcm a m) (\<lambda>xs.
       Inr (a, \<lparr>pcm = xs, channels = ch, samples_count = n, samplerate = rate\<rparr>))
   | _ \<Rightarrow> Inl TypeConfusion)"

text \<open>The record behind the global pointer \<^verbatim>\<open>greeter\<close>.\<close>

definition load_greeter :: "nat option \<Rightarrow> cmem \<Rightarrow> pcm_record option res" where
  "load_greeter gr m = (case gr of None \<Rightarrow> Inr None
     | Some r \<Rightarrow> r_bind (load_record r m) (\<lambda>(_, rec). Inr (Some rec)))"

text \<open>All that a visit of a tester can read, and the fields that it writes.\<close>

definition load_view :: "nat \<Rightarrow> cmem \<Rightarrow> call_tester res" where
  "load_view p m =
     r_bind (load_tester p m) (\<lambda>t. r_bind (load_record (tc_ctrecord t) m) (\<lambda>(_, rec).
     r_bind (case tc_playback t of None \<Rightarrow> Inr None
             | Some q \<Rightarrow> r_bind (load_record q m) (\<lambda>(_, pb). Inr (Some pb))) (\<lambda>pb.
     r_bind (load_name (tc_outfilename t) m) (\<lambda>nm. Inr (tester_view t rec pb nm)))))"

definition put_fields :: "nat \<Rightarrow> call_tester \<Rightarrow> cmem \<Rightarrow> cmem res" where
  "put_fields p ct m =
     r_bind (load_tester p m) (\<lambda>t.
       store_cell p (TesterC (tester_fields ct (tc_ctrecord t) (tc_playback t) (tc_outfilename t))) m)"

section \<open>Operations\<close>

text \<open>\<^verbatim>\<open>malloc\<close> of a record with \<^verbatim>\<open>record_init\<close>, and \<^verbatim>\<open>record_free\<close>.\<close>

definition record_new :: "cmem \<Rightarrow> nat \<times> cmem" where
  "record_new m = malloc (RecordC None None 0 None) m"

definition free_opt :: "nat option \<Rightarrow> cmem \<Rightarrow> cmem res" where
  "free_opt a m = (case a of None \<Rightarrow> Inr m | Some a \<Rightarrow> mfree a m)"

definition record_free :: "nat option \<Rightarrow> cmem \<Rightarrow> cmem res" where
  "record_free r m = (case r of None \<Rightarrow> Inr m
     | Some r \<Rightarrow> r_bind (load_record r m) (\<lambda>(a, _). r_bind (free_opt a m) (mfree r)))"

record 't cm_state =
  cm_w :: "'t fstate"
  cm_list :: "nat list"
  cm_mem :: cmem
  cm_greeter :: "nat option"

definition find_tester :: "u32 \<Rightarrow> nat list \<Rightarrow> cmem \<Rightarrow> nat option res" where
  "find_tester n ps m = find_res (\<lambda>p. r_bind (load_tester p m) (\<lambda>t. Inr (tc_friend_number t = n))) ps"

fun insert_tester :: "nat \<Rightarrow> u32 \<Rightarrow> cmem \<Rightarrow> nat list \<Rightarrow> nat list res" where
  "insert_tester new n m [] = Inr [new]"
| "insert_tester new n m (p # ps) =
     r_bind (load_tester p m) (\<lambda>t.
       if tc_friend_number t > n then Inr (new # p # ps)
       else r_bind (insert_tester new n m ps) (\<lambda>ps. Inr (p # ps)))"

text \<open>
  The blocks of a new tester; the record comes before the tester that points to it, which the
  code allocates first.
\<close>

definition tester_alloc :: "u32 \<Rightarrow> string \<Rightarrow> cmem \<Rightarrow> nat \<times> cmem" where
  "tester_alloc n name m =
     (let (r, m) = record_new m; (nm, m) = malloc (NameC name) m in
      malloc (TesterC (tester_fields (call_tester_new n name) r None nm)) m)"

definition add_entry_mem :: "avlib \<Rightarrow> u32 \<Rightarrow> 't cm_state \<Rightarrow> 't cm_state res" where
  "add_entry_mem av n s =
     r_bind (find_tester n (cm_list s) (cm_mem s)) (\<lambda>r. case r of
       Some _ \<Rightarrow> Inr s
     | None \<Rightarrow>
         let (name, files) = mkstemps av ''/tmp/call-XXXXXX.wav'' (w_fs (cm_w s));
             (p, m) = tester_alloc n name (cm_mem s) in
         r_bind (insert_tester p n m (cm_list s)) (\<lambda>ps.
           Inr (s\<lparr>cm_w := (cm_w s)\<lparr>w_fs := files\<rparr>, cm_list := ps, cm_mem := m\<rparr>)))"

definition call_tester_destroy :: "nat \<Rightarrow> 't cm_state \<Rightarrow> 't cm_state res" where
  "call_tester_destroy p s =
     r_bind (load_tester p (cm_mem s)) (\<lambda>t.
     r_bind (record_free (Some (tc_ctrecord t)) (cm_mem s)) (\<lambda>m.
     r_bind (record_free (tc_playback t) m) (\<lambda>m.
     r_bind (mfree p m) (\<lambda>m. Inr (s\<lparr>cm_list := remove1 p (cm_list s), cm_mem := m\<rparr>)))))"

fun destroy_all :: "nat list \<Rightarrow> 't cm_state \<Rightarrow> 't cm_state res" where
  "destroy_all [] s = Inr s"
| "destroy_all (p # ps) s = r_bind (call_tester_destroy p s) (destroy_all ps)"

definition call_testers_destroy_mem :: "'t cm_state \<Rightarrow> 't cm_state res" where
  "call_testers_destroy_mem s = destroy_all (cm_list s) s"

section \<open>Callbacks and visits\<close>

definition call_mem ::
  "'t toxcore \<Rightarrow> avlib \<Rightarrow> u32 \<Rightarrow> bool \<Rightarrow> bool \<Rightarrow> 't cm_state \<Rightarrow> 't cm_state res" where
  "call_mem api av n audio_enabled video_enabled s =
     (let (_, tox) = toxav_answer api n (if audio_enabled then AUDIO_BITRATE else 0)
                       (if video_enabled then VIDEO_BITRATE else 0) (w_tox (cm_w s)) in
      add_entry_mem av n (s\<lparr>cm_w := (cm_w s)\<lparr>w_tox := tox\<rparr>\<rparr>))"

definition call_state_mem :: "'t toxcore \<Rightarrow> avlib \<Rightarrow> u32 \<Rightarrow> u32 \<Rightarrow> 't cm_state \<Rightarrow> 't cm_state res" where
  "call_state_mem api av n st s =
     (if state_error st then Inr s
      else if state_sending_a st then
        (let send_audio = state_sending_a st \<and> state_accepting_a st;
             send_video = state_sending_v st \<and> state_accepting_v st;
             tox = toxav_bit_rate_set api n (if send_audio then AUDIO_BITRATE else 0)
                     (if send_video then VIDEO_BITRATE else 0) (w_tox (cm_w s)) in
         add_entry_mem av n (s\<lparr>cm_w := (cm_w s)\<lparr>w_tox := tox\<rparr>\<rparr>))
      else if state_finished st then
        r_bind (find_tester n (cm_list s) (cm_mem s)) (\<lambda>r. case r of
          None \<Rightarrow> Inr s
        | Some p \<Rightarrow> r_bind (load_tester p (cm_mem s)) (\<lambda>t.
            r_bind (store_cell p (TesterC (t\<lparr>tc_step := BYE\<rparr>)) (cm_mem s)) (\<lambda>m. Inr (s\<lparr>cm_mem := m\<rparr>))))
      else Inr s)"

text \<open>
  \<^verbatim>\<open>realloc\<close> of the samples to \<open>n\<close> of them; with a size of 0 it releases the block (the null
  pointer is given a block of size 0).
\<close>

definition realloc_pcm :: "nat option \<Rightarrow> nat \<Rightarrow> cmem \<Rightarrow> (nat option \<times> cmem) res" where
  "realloc_pcm a n m = (case a of
       None \<Rightarrow> let (b, m) = malloc (PcmC (replicate n None)) m in Inr (Some b, m)
     | Some _ \<Rightarrow> r_bind (load_pcm a m) (\<lambda>xs. r_bind (free_opt a m) (\<lambda>m.
         if n = 0 then Inr (None, m)
         else let (b, m) = malloc (PcmC (take n (xs @ replicate n None))) m in Inr (Some b, m))))"

definition write_pcm :: "nat option \<Rightarrow> nat \<Rightarrow> int list \<Rightarrow> cmem \<Rightarrow> cmem res" where
  "write_pcm a at data m = (case a of
       None \<Rightarrow> if data = [] then Inr m else Inl NullDeref
     | Some q \<Rightarrow> r_bind (load_pcm a m) (\<lambda>xs.
         if length xs < at + length data then Inl OutOfBounds
         else store_cell q (PcmC (take at xs @ map Some data @ drop (at + length data) xs)) m))"

definition append_frame :: "int list \<Rightarrow> nat \<Rightarrow> u8 \<Rightarrow> u32 \<Rightarrow> nat \<Rightarrow> cmem \<Rightarrow> cmem res" where
  "append_frame data sample_count ch rate r m =
     r_bind (load_record r m) (\<lambda>(a, rec).
     r_bind (realloc_pcm a (unat ch * (sample_count + samples_count rec)) m) (\<lambda>(b, m).
     r_bind (write_pcm b (unat ch * samples_count rec) (take (unat ch * sample_count) data) m) (\<lambda>m.
       store_cell r (RecordC b (Some ch) (samples_count rec + sample_count) (Some rate)) m)))"

definition receive_frame_mem :: "int list \<Rightarrow> nat \<Rightarrow> u8 \<Rightarrow> u32 \<Rightarrow> nat \<Rightarrow> cmem \<Rightarrow> cmem res" where
  "receive_frame_mem data sample_count ch rate p m =
     r_bind (load_tester p m) (\<lambda>t.
       if tc_step t \<noteq> RECORDING then Inr m
       else if length data < unat ch * sample_count then Inl OutOfBounds
       else append_frame data sample_count ch rate (tc_ctrecord t) m)"

definition audio_receive_frame_mem :: "u32 \<Rightarrow> int list \<Rightarrow> nat \<Rightarrow> u8 \<Rightarrow> u32 \<Rightarrow> 't cm_state \<Rightarrow> 't cm_state res" where
  "audio_receive_frame_mem n data sample_count ch rate s =
     r_bind (find_tester n (cm_list s) (cm_mem s)) (\<lambda>r. case r of
       None \<Rightarrow> Inr s
     | Some p \<Rightarrow> r_bind (receive_frame_mem data sample_count ch rate p (cm_mem s)) (\<lambda>m. Inr (s\<lparr>cm_mem := m\<rparr>)))"

text \<open>The first step allocates the record for playback and overwrites the pointer to it.\<close>

definition entering_mem :: "nat \<Rightarrow> cmem \<Rightarrow> cmem res" where
  "entering_mem p m =
     r_bind (load_tester p m) (\<lambda>t. let (q, m) = record_new m in
       store_cell p (TesterC (t\<lparr>tc_playback := Some q, tc_samples_send := Some 0, tc_step := next_step (tc_step t)\<rparr>)) m)"

text \<open>The end of a visit: what it wrote into the tester.\<close>

definition stay_mem :: "nat \<Rightarrow> 't cm_state \<Rightarrow> cmem \<Rightarrow> (call_tester \<times> 't fstate) res \<Rightarrow> 't cm_state res" where
  "stay_mem p s m r =
     r_bind r (\<lambda>(ct, w). r_bind (put_fields p ct m) (\<lambda>m. Inr (s\<lparr>cm_w := w, cm_mem := m\<rparr>)))"

definition one_shot_mem ::
  "'t toxcore \<Rightarrow> avlib \<Rightarrow> (nat \<Rightarrow> char) \<Rightarrow> timespec \<Rightarrow> nat \<Rightarrow> 't cm_state \<Rightarrow> 't cm_state res" where
  "one_shot_mem api av g tp p s =
     (let w = cm_w s; m = cm_mem s in
      r_bind (load_view p m) (\<lambda>ct.
      case step ct of
        ENTERING \<Rightarrow> r_bind (entering_mem p m) (\<lambda>m. r_bind (load_view p m) (\<lambda>ct.
          r_bind (load_greeter (cm_greeter s) m) (\<lambda>gr.
          stay_mem p s m (do_greeter api gr tp ct (control api ct TOXAV_CALL_CONTROL_MUTE_AUDIO w)))))
      | GREETER \<Rightarrow> r_bind (load_greeter (cm_greeter s) m) (\<lambda>gr. stay_mem p s m (do_greeter api gr tp ct w))
      | RECORDING \<Rightarrow> stay_mem p s m (do_recording api tp ct w)
      | SAVING \<Rightarrow> stay_mem p s m (do_saving av ct w)
      | SENDING \<Rightarrow> stay_mem p s m (do_sending api g ct w)
      | ECHOING \<Rightarrow> stay_mem p s m (do_echoing api ct w)
      | BYE \<Rightarrow> call_tester_destroy p (s\<lparr>cm_w := control api ct TOXAV_CALL_CONTROL_CANCEL w\<rparr>)))"

fun iterate_mem ::
  "'t toxcore \<Rightarrow> avlib \<Rightarrow> (nat \<Rightarrow> char) \<Rightarrow> timespec \<Rightarrow> nat list \<Rightarrow> 't cm_state \<Rightarrow> 't cm_state res" where
  "iterate_mem api av g tp [] s = Inr s"
| "iterate_mem api av g tp (p # ps) s = r_bind (one_shot_mem api av g tp p s) (iterate_mem api av g tp ps)"

definition calltest_iterate_mem ::
  "'t toxcore \<Rightarrow> avlib \<Rightarrow> (nat \<Rightarrow> char) \<Rightarrow> timespec \<Rightarrow> 't cm_state \<Rightarrow> 't cm_state res" where
  "calltest_iterate_mem api av g tp s = iterate_mem api av g tp (cm_list s) s"

text \<open>
  \<^verbatim>\<open>audio_load\<close>: the record and the buffer of its samples, which the file is read into. No
  function of the program releases the record of the greeter.
\<close>

definition audio_load_mem :: "avlib \<Rightarrow> string \<Rightarrow> fs \<Rightarrow> cmem \<Rightarrow> (nat option \<times> cmem) res" where
  "audio_load_mem av filename files m =
     (case sf_read av filename files of
        None \<Rightarrow> Inr (None, m)
      | Some (rate, ch, frames, readf, samples) \<Rightarrow>
          (let (rec, m) = record_new m; n = frames * nat ch;
               (q, m) = malloc (PcmC (replicate n None)) m in
           r_bind (store_cell q (PcmC (take n (map Some samples @ replicate n None))) m) (\<lambda>m.
           r_bind (store_cell rec (RecordC (Some q) (Some (word_of_int ch)) readf (Some (word_of_int rate))) m) (\<lambda>m.
             Inr (Some rec, m)))))"

definition calltest_init_mem :: "avlib \<Rightarrow> 't fstate \<Rightarrow> 't cm_state res" where
  "calltest_init_mem av w =
     r_bind (audio_load_mem av ''greeter.wav'' (w_fs w) \<lparr>cells = Map.empty, btop = 0\<rparr>) (\<lambda>(gr, m).
       Inr \<lparr>cm_w = w, cm_list = [], cm_mem = m, cm_greeter = gr\<rparr>)"

end
