(* ===== verification/Call_Memory_Properties.thy ===== *)
theory Call_Memory_Properties
  imports Call_Memory
begin

text \<open>
  The machine of \<open>Call_Memory\<close> does what that of \<open>Call\<close> does: \<open>call_rep\<close> relates their states,
  every operation keeps it. Besides the blocks of the testers there are only the two of the
  greeter, if its file could be read, and names of files, one for each call that has ended.
\<close>

section \<open>Testers and their blocks\<close>

definition rep_pcm :: "cmem \<Rightarrow> nat option \<Rightarrow> int option list \<Rightarrow> nat set \<Rightarrow> bool" where
  "rep_pcm m a xs F \<longleftrightarrow> (case a of None \<Rightarrow> xs = [] \<and> F = {} | Some q \<Rightarrow> cells m q = Some (PcmC xs) \<and> F = {q})"

definition rep_record :: "cmem \<Rightarrow> nat \<Rightarrow> pcm_record \<Rightarrow> nat set \<Rightarrow> bool" where
  "rep_record m r rec F \<longleftrightarrow> (\<exists>a G. cells m r = Some (RecordC a (channels rec) (samples_count rec) (samplerate rec)) \<and>
     rep_pcm m a (pcm rec) G \<and> F = insert r G)"

definition rep_playback :: "cmem \<Rightarrow> nat option \<Rightarrow> pcm_record option \<Rightarrow> nat set \<Rightarrow> bool" where
  "rep_playback m pb v F \<longleftrightarrow> (case pb of None \<Rightarrow> v = None \<and> F = {}
     | Some q \<Rightarrow> \<exists>rec. v = Some rec \<and> rep_record m q rec F)"

definition rep_tester :: "cmem \<Rightarrow> nat \<Rightarrow> call_tester \<Rightarrow> nat set \<Rightarrow> bool" where
  "rep_tester m p ct F \<longleftrightarrow> (\<exists>r pb nm R P. cells m p = Some (TesterC (tester_fields ct r pb nm)) \<and>
     cells m nm = Some (NameC (outfilename ct)) \<and> rep_record m r (ctrecord ct) R \<and>
     rep_playback m pb (playback ct) P \<and> R \<inter> P = {} \<and> F = {p, nm} \<union> R \<union> P)"

lemma rep_testerI:
  assumes "cells m p = Some (TesterC (tester_fields ct r pb nm))" "cells m nm = Some (NameC (outfilename ct))"
    and "rep_record m r (ctrecord ct) R" "rep_playback m pb (playback ct) P" "R \<inter> P = {}" "F = {p, nm} \<union> R \<union> P"
  shows "rep_tester m p ct F"
  unfolding rep_tester_def using assms by blast

lemma rep_testerE:
  assumes "rep_tester m p ct F"
  obtains r pb nm R P where "cells m p = Some (TesterC (tester_fields ct r pb nm))"
    "cells m nm = Some (NameC (outfilename ct))" "rep_record m r (ctrecord ct) R" "rep_playback m pb (playback ct) P"
    "R \<inter> P = {}" "F = {p, nm} \<union> R \<union> P"
  using assms unfolding rep_tester_def by blast

lemma rep_pcm_same: "rep_pcm m a xs F \<Longrightarrow> (\<forall>a\<in>F. cells m' a = cells m a) \<Longrightarrow> rep_pcm m' a xs F"
  by (auto simp: rep_pcm_def split: option.splits)

lemma rep_record_same: "rep_record m r rec F \<Longrightarrow> (\<forall>a\<in>F. cells m' a = cells m a) \<Longrightarrow> rep_record m' r rec F"
  unfolding rep_record_def using rep_pcm_same by fastforce

lemma rep_playback_same: "rep_playback m pb v F \<Longrightarrow> (\<forall>a\<in>F. cells m' a = cells m a) \<Longrightarrow> rep_playback m' pb v F"
  unfolding rep_playback_def using rep_record_same by (fastforce split: option.splits)

lemma rep_tester_same:
  assumes "rep_tester m p ct F" "\<forall>a\<in>F. cells m' a = cells m a"
  shows "rep_tester m' p ct F"
  using assms(1)
proof (rule rep_testerE)
  fix r pb nm R P
  assume t: "cells m p = Some (TesterC (tester_fields ct r pb nm))" "cells m nm = Some (NameC (outfilename ct))"
    "rep_record m r (ctrecord ct) R" "rep_playback m pb (playback ct) P" "R \<inter> P = {}" "F = {p, nm} \<union> R \<union> P"
  show ?thesis
    by (rule rep_testerI [OF _ _ rep_record_same [OF t(3)] rep_playback_same [OF t(4)] t(5,6)])
      (use t(1,2,6) assms(2) in auto)
qed

text \<open>The kinds of blocks differ, so most disjointness needs no assumption.\<close>

definition kind :: "call_cell \<Rightarrow> nat" where
  "kind c = (case c of PcmC _ \<Rightarrow> 0 | RecordC _ _ _ _ \<Rightarrow> 1 | NameC _ \<Rightarrow> 2 | TesterC _ \<Rightarrow> 3)"

lemma rep_record_dom: "rep_record m r rec F \<Longrightarrow> r \<in> F \<and> (\<forall>a\<in>F. \<exists>c. cells m a = Some c \<and> kind c < 2)"
  by (auto simp: rep_record_def rep_pcm_def kind_def split: option.splits)

lemma rep_playback_dom: "rep_playback m pb v F \<Longrightarrow> \<forall>a\<in>F. \<exists>c. cells m a = Some c \<and> kind c < 2"
  using rep_record_dom by (auto simp: rep_playback_def split: option.splits)

lemma rep_tester_dom: "rep_tester m p ct F \<Longrightarrow> p \<in> F \<and> F \<subseteq> dom (cells m)"
  using rep_record_dom rep_playback_dom by (fastforce simp: rep_tester_def)

section \<open>Reading\<close>

lemma load_pcm_ok: "rep_pcm m a xs F \<Longrightarrow> load_pcm a m = Inr xs"
  by (auto simp: rep_pcm_def load_pcm_def load_cell_def split: option.splits)

lemma load_record_ok:
  "rep_record m r rec F \<Longrightarrow> \<exists>a G. load_record r m = Inr (a, rec) \<and> rep_pcm m a (pcm rec) G \<and> F = insert r G"
  using load_pcm_ok by (fastforce simp: rep_record_def load_record_def load_cell_def)

lemma tester_view_fields:
  "tester_view (tester_fields ct r pb nm) (ctrecord ct) (playback ct) (outfilename ct) = ct"
  by (simp add: tester_view_def tester_fields_def)

lemma load_tester_ok:
  "rep_tester m p ct F \<Longrightarrow> \<exists>r pb nm. load_tester p m = Inr (tester_fields ct r pb nm)"
  by (erule rep_testerE) (simp add: load_tester_def load_cell_def, blast)

lemma load_view_ok:
  assumes "rep_tester m p ct F"
  shows "load_view p m = Inr ct"
proof -
  from assms obtain r pb nm R P where t: "cells m p = Some (TesterC (tester_fields ct r pb nm))"
    "cells m nm = Some (NameC (outfilename ct))" "rep_record m r (ctrecord ct) R"
    "rep_playback m pb (playback ct) P" by (auto simp: rep_tester_def)
  from load_record_ok [OF t(3)] obtain a where "load_record r m = Inr (a, ctrecord ct)" by blast
  moreover have "(case pb of None \<Rightarrow> Inr None | Some q \<Rightarrow> r_bind (load_record q m) (\<lambda>(_, pb). Inr (Some pb))) = Inr (playback ct)"
    using t(4) by (auto simp: rep_playback_def dest!: load_record_ok split: option.splits)
  ultimately show ?thesis using t(1,2)
    by (simp add: load_view_def load_tester_def load_cell_def load_name_def tester_fields_def [of ct r pb nm])
      (simp add: tester_view_fields [unfolded tester_fields_def])
qed

section \<open>One tester\<close>

text \<open>Writing the fields that are no pointers.\<close>

lemma tester_update:
  assumes "rep_tester m p ct F" "mem_ok m" "load_tester p m = Inr t"
    and "t' = tester_fields ct' (tc_ctrecord t) (tc_playback t) (tc_outfilename t)"
    and "ctrecord ct' = ctrecord ct" "playback ct' = playback ct" "outfilename ct' = outfilename ct"
  shows "\<exists>m'. store_cell p (TesterC t') m = Inr m' \<and> changed m F m' F \<and> rep_tester m' p ct' F"
proof -
  obtain r pb nm R P where t: "cells m p = Some (TesterC (tester_fields ct r pb nm))"
    "cells m nm = Some (NameC (outfilename ct))" "rep_record m r (ctrecord ct) R"
    "rep_playback m pb (playback ct) P" "R \<inter> P = {}" "F = {p, nm} \<union> R \<union> P" by (rule rep_testerE [OF assms(1)])
  have t': "t' = tester_fields ct' r pb nm"
    using t(1) assms(3,4) by (auto simp: load_tester_def load_cell_def tester_fields_def)
  from store_changed [OF assms(2) t(1), of F "TesterC t'"] t(6) obtain m' where m': "store_cell p (TesterC t') m = Inr m'"
    "changed m F m' F" "cells m' = (cells m)(p := Some (TesterC t'))" by auto
  have "p \<notin> R \<union> P" "p \<noteq> nm" using t(1,2) rep_record_dom [OF t(3)] rep_playback_dom [OF t(4)] by (auto simp: kind_def)
  then have u: "rep_record m' r (ctrecord ct') R" "rep_playback m' pb (playback ct') P"
    using m'(3) assms(5,6) by (auto intro!: rep_record_same [OF t(3)] rep_playback_same [OF t(4)])
  have "rep_tester m' p ct' F"
    by (rule rep_testerI [OF _ _ u t(5,6)]) (use m'(3) t(2) assms(7) \<open>p \<noteq> nm\<close> in \<open>simp_all add: t'\<close>)
  with m'(1,2) show ?thesis by blast
qed

lemma put_fields_ok:
  assumes "rep_tester m p ct F" "mem_ok m"
    and "ctrecord ct' = ctrecord ct" "playback ct' = playback ct" "outfilename ct' = outfilename ct"
  shows "\<exists>m'. put_fields p ct' m = Inr m' \<and> changed m F m' F \<and> rep_tester m' p ct' F"
proof -
  obtain t where "load_tester p m = Inr t" using load_tester_ok [OF assms(1)] by blast
  with tester_update [OF assms(1,2) this refl assms(3-5)] show ?thesis by (simp add: put_fields_def)
qed

text \<open>The first step: a new block is taken over. The record of an earlier one would be lost.\<close>

lemma entering_ok:
  assumes "rep_tester m p ct F" "mem_ok m" "playback ct = None"
  shows "\<exists>m' F'. entering_mem p m = Inr m' \<and> changed m F m' F' \<and>
    rep_tester m' p (ct\<lparr>playback := Some record_init, samples_send := Some 0, step := next_step (step ct)\<rparr>) F'"
proof -
  let ?ct = "ct\<lparr>playback := Some record_init, samples_send := Some 0, step := next_step (step ct)\<rparr>"
  obtain r pb nm R P where t: "cells m p = Some (TesterC (tester_fields ct r pb nm))"
    "cells m nm = Some (NameC (outfilename ct))" "rep_record m r (ctrecord ct) R"
    "rep_playback m pb (playback ct) P" "R \<inter> P = {}" "F = {p, nm} \<union> R \<union> P" by (rule rep_testerE [OF assms(1)])
  with assms(3) have P: "P = {}" by (auto simp: rep_playback_def split: option.splits)
  obtain q m1 where q: "record_new m = (q, m1)" by fastforce
  note m1 = malloc_changed [OF assms(2) q [unfolded record_new_def], of F]
  have qF: "q \<notin> F" using m1 rep_tester_dom [OF assms(1)] by auto
  let ?c = "TesterC (tester_fields ?ct r (Some q) nm)"
  from store_changed [OF changed_ok [OF conjunct1 [OF m1]], of p _ "insert q F" ?c] m1 t(1,6) qF
  obtain m2 where m2: "store_cell p ?c m1 = Inr m2" "changed m1 (insert q F) m2 (insert q F)"
    "cells m2 = (cells m1)(p := Some ?c)" by auto
  have p: "p \<notin> R" "p \<noteq> nm" using t(1,2) rep_record_dom [OF t(3)] by (auto simp: kind_def)
  have c: "changed m F m2 (insert q F)" using m1 m2(2) by (blast intro: changed_trans)
  have "\<forall>a\<in>R. cells m2 a = cells m a"
    using conjunct1 [OF conjunct2 [OF m1]] m2(3) p(1) qF t(6) by auto
  then have "rep_record m2 r (ctrecord ?ct) R" using rep_record_same [OF t(3)] by simp
  moreover have "rep_playback m2 (Some q) (playback ?ct) {q}"
    using m1 m2(3) qF t(6) by (auto simp: rep_playback_def rep_record_def rep_pcm_def record_init_def)
  ultimately have "rep_tester m2 p ?ct (insert q F)"
    by (rule rep_testerI [rotated 2]) (use m1 m2(3) t(2,6) p(2) qF P in auto)
  moreover have "tester_fields ?ct r (Some q) nm = (tester_fields ct r pb nm)
      \<lparr>tc_playback := Some q, tc_samples_send := Some 0, tc_step := next_step (step ct)\<rparr>"
    by (simp add: tester_fields_def)
  then have "entering_mem p m = Inr m2"
    using t(1) q m2(1) by (simp add: entering_mem_def load_tester_def load_cell_def)
      (simp add: tester_fields_def)
  ultimately show ?thesis using c by blast
qed

text \<open>Releasing.\<close>

lemma record_free_ok:
  assumes "rep_record m r rec F" "mem_ok m"
  shows "\<exists>m'. record_free (Some r) m = Inr m' \<and> changed m F m' {}"
proof -
  from assms(1) obtain a G where r: "cells m r = Some (RecordC a (channels rec) (samples_count rec) (samplerate rec))"
    "rep_pcm m a (pcm rec) G" "F = insert r G" by (auto simp: rep_record_def)
  then have l: "load_record r m = Inr (a, rec)" using load_pcm_ok [OF r(2)] by (simp add: load_record_def load_cell_def)
  have "r \<notin> G" using r(1,2) by (auto simp: rep_pcm_def split: option.splits)
  have "free_opt a m = Inr (without G m)"
    using r(2) by (auto simp: free_opt_def rep_pcm_def mfree_without split: option.splits)
  moreover have "mfree r (without G m) = Inr (without {r} (without G m))"
    using r(1) \<open>r \<notin> G\<close> by (intro mfree_without) simp
  moreover have "changed m F (without F m) {}"
    using assms(2) by (auto simp: changed_def mem_ok_def restrict_map_def fun_eq_iff)
  ultimately show ?thesis using l r(3) by (simp add: record_free_def)
qed

lemma playback_free_ok:
  assumes "rep_playback m pb v F" "mem_ok m"
  shows "\<exists>m'. record_free pb m = Inr m' \<and> changed m F m' {}"
  using assms record_free_ok changed_refl
  by (cases pb) (auto simp: rep_playback_def record_free_def [of None])

lemma call_tester_destroy_ok:
  assumes "rep_tester (cm_mem s) p ct F" "mem_ok (cm_mem s)"
  shows "\<exists>m' nm. call_tester_destroy p s = Inr (s\<lparr>cm_list := remove1 p (cm_list s), cm_mem := m'\<rparr>) \<and>
    changed (cm_mem s) F m' {nm} \<and> nm \<in> F \<and> cells m' nm = Some (NameC (outfilename ct))"
proof -
  let ?m = "cm_mem s"
  obtain r pb nm R P where t: "cells ?m p = Some (TesterC (tester_fields ct r pb nm))"
    "cells ?m nm = Some (NameC (outfilename ct))" "rep_record ?m r (ctrecord ct) R"
    "rep_playback ?m pb (playback ct) P" "R \<inter> P = {}" "F = {p, nm} \<union> R \<union> P" by (rule rep_testerE [OF assms(1)])
  have d: "p \<notin> R" "p \<notin> P" "p \<noteq> nm" "nm \<notin> R" "nm \<notin> P"
    using t(1,2) rep_record_dom [OF t(3)] rep_playback_dom [OF t(4)] by (auto simp: kind_def)
  from record_free_ok [OF t(3) assms(2)] obtain m1 where m1: "record_free (Some r) ?m = Inr m1" "changed ?m R m1 {}" by blast
  have "P \<subseteq> dom (cells ?m)" using rep_playback_dom [OF t(4)] by auto
  from changed_same(1) [OF m1(2) this t(5)] have "rep_playback m1 pb (playback ct) P"
    by (intro rep_playback_same [OF t(4)]) simp
  from playback_free_ok [OF this changed_ok [OF m1(2)]] obtain m2
    where m2: "record_free pb m1 = Inr m2" "changed m1 P m2 {}" by blast
  have c: "changed ?m (R \<union> P) m2 {}"
    using changed_frame [OF m1(2), of P] m2(2) by (auto intro: changed_trans)
  then have k: "cells m2 p = cells ?m p" "cells m2 nm = cells ?m nm"
    using changed_cell [OF c _ t(1)] changed_cell [OF c _ t(2)] d t(1,2) by auto
  from mfree_changed [OF changed_ok [OF c], of p] k t(1) obtain m3 where m3: "mfree p m2 = Inr m3"
    "changed m2 (insert p {p, nm}) m3 ({p, nm} - {p})" "cells m3 = (cells m2)(p := None)"
    using mfree_changed [OF changed_ok [OF c], of p] by auto
  have "changed ?m F m3 {nm}"
    using changed_frame [OF c, of "{p, nm}"] m3(2) d(3) t(6) by (auto simp: Un_ac insert_Diff_if intro: changed_trans)
  moreover have "cells m3 nm = Some (NameC (outfilename ct))" using m3(3) k(2) t(2) d(3) by simp
  moreover have "call_tester_destroy p s = Inr (s\<lparr>cm_list := remove1 p (cm_list s), cm_mem := m3\<rparr>)"
    using t(1) m1(1) m2(1) m3(1)
    by (simp add: call_tester_destroy_def load_tester_def load_cell_def tester_fields_def)
  ultimately show ?thesis using t(6) by blast
qed

text \<open>A frame: the samples move to a new block.\<close>

lemma realloc_pcm_ok:
  assumes "rep_pcm m a xs G" "mem_ok m"
  shows "\<exists>b m' H. realloc_pcm a n m = Inr (b, m') \<and> rep_pcm m' b (take n (xs @ replicate n None)) H \<and> changed m G m' H"
proof (cases a)
  case None
  with assms(1) have "xs = []" "G = {}" by (simp_all add: rep_pcm_def)
  moreover obtain q m1 where q: "malloc (PcmC (replicate n None)) m = (q, m1)" by fastforce
  moreover have "changed m {} m1 {q}" "cells m1 q = Some (PcmC (replicate n None))"
    using conjunct1 [OF malloc_changed [OF assms(2) q, of "{}"]] conjunct2 [OF malloc_changed [OF assms(2) q, of "{}"]]
    by simp_all
  ultimately show ?thesis using None
    by (intro exI [of _ "Some q"] exI [of _ m1] exI [of _ "{q}"]) (simp add: realloc_pcm_def rep_pcm_def)
next
  case (Some q)
  with assms(1) have x: "cells m q = Some (PcmC xs)" "G = {q}" by (simp_all add: rep_pcm_def)
  from mfree_changed [OF assms(2) x(1), of "{}"] obtain m1 where m1: "mfree q m = Inr m1" "changed m {q} m1 {}" by auto
  have l: "load_pcm a m = Inr xs" by (rule load_pcm_ok [OF assms(1)])
  show ?thesis
  proof (cases "n = 0")
    case True
    with Some m1 l x(2) show ?thesis
      by (intro exI [of _ None] exI [of _ m1]) (simp add: realloc_pcm_def free_opt_def rep_pcm_def)
  next
    case False
    obtain b m2 where b: "malloc (PcmC (take n (xs @ replicate n None))) m1 = (b, m2)" by fastforce
    note m2 = malloc_changed [OF changed_ok [OF m1(2)] b, of "{}"]
    with m1(2) x(2) have "changed m G m2 {b}" by (blast intro: changed_trans)
    with False Some m1(1) l b m2 show ?thesis
      by (intro exI [of _ "Some b"] exI [of _ m2] exI [of _ "{b}"])
        (simp add: realloc_pcm_def free_opt_def rep_pcm_def)
  qed
qed

lemma write_pcm_ok:
  assumes "rep_pcm m b xs H" "mem_ok m" "length xs = at + length data"
  shows "\<exists>m'. write_pcm b at data m = Inr m' \<and> rep_pcm m' b (take at xs @ map Some data) H \<and> changed m H m' H"
proof (cases b)
  case None
  with assms changed_refl [OF assms(2)] show ?thesis by (simp add: write_pcm_def rep_pcm_def)
next
  case (Some q)
  with assms(1) have x: "cells m q = Some (PcmC xs)" "H = {q}" by (simp_all add: rep_pcm_def)
  from store_changed [OF assms(2) x(1), of H] x(2) Some load_pcm_ok [OF assms(1)] assms(3) show ?thesis
    by (fastforce simp: write_pcm_def rep_pcm_def)
qed

lemma append_frame_ok:
  assumes "rep_record m r rec R" "mem_ok m" "unat ch * n \<le> length data"
  shows "\<exists>m' R'. append_frame data n ch rate r m = Inr m' \<and> changed m R m' R' \<and>
    rep_record m' r \<lparr>pcm = append_samples (unat ch) n data rec, channels = Some ch,
      samples_count = samples_count rec + n, samplerate = Some rate\<rparr> R'"
proof -
  let ?n = "unat ch * (n + samples_count rec)"
  let ?xs = "take ?n (pcm rec @ replicate ?n None)" and ?c = "\<lambda>b. RecordC b (Some ch) (samples_count rec + n) (Some rate)"
  from load_record_ok [OF assms(1)] obtain a G where a: "load_record r m = Inr (a, rec)" "rep_pcm m a (pcm rec) G"
    "R = insert r G" by blast
  from realloc_pcm_ok [OF a(2) assms(2), of ?n] obtain b m1 H where
    b: "realloc_pcm a ?n m = Inr (b, m1)" "rep_pcm m1 b ?xs H" "changed m G m1 H" by blast
  have "length ?xs = unat ch * samples_count rec + length (take (unat ch * n) data)"
    using assms(3) by (simp add: add_mult_distrib2)
  from write_pcm_ok [OF b(2) changed_ok [OF b(3)] this] obtain m2 where
    m2: "write_pcm b (unat ch * samples_count rec) (take (unat ch * n) data) m1 = Inr m2"
    "rep_pcm m2 b (append_samples (unat ch) n data rec) H" "changed m1 H m2 H"
    by (auto simp: append_samples_def Let_def)
  have c2: "changed m G m2 H" by (rule changed_trans [OF b(3) m2(3)])
  have "r \<notin> G" using a(2) assms(1) by (auto simp: rep_pcm_def rep_record_def split: option.splits)
  moreover obtain c where "cells m r = Some c" using assms(1) by (auto simp: rep_record_def)
  ultimately have H: "r \<notin> H" "cells m2 r = Some c" using changed_cell [OF c2] by blast+
  from store_changed [OF changed_ok [OF c2] H(2), of "insert r H" "?c b"] obtain m3 where
    m3: "store_cell r (?c b) m2 = Inr m3" "changed m2 (insert r H) m3 (insert r H)" "cells m3 = (cells m2)(r := Some (?c b))"
    by auto
  have "rep_pcm m3 b (append_samples (unat ch) n data rec) H" using rep_pcm_same [OF m2(2), of m3] m3(3) H(1) by auto
  with m3(3) have "rep_record m3 r \<lparr>pcm = append_samples (unat ch) n data rec, channels = Some ch,
      samples_count = samples_count rec + n, samplerate = Some rate\<rparr> (insert r H)" by (auto simp: rep_record_def)
  moreover have "changed m R m3 (insert r H)"
    using changed_trans [OF changed_frame [OF c2, of "{r}"]] m3(2) a(3) by simp
  ultimately show ?thesis using a(1) b(1) m2(1) m3(1) by (auto simp: append_frame_def)
qed

lemma tester_record_changed:
  assumes "cells m p = Some (TesterC (tester_fields ct r pb nm))" "cells m nm = Some (NameC (outfilename ct))"
    and "rep_record m r (ctrecord ct) R" "rep_playback m pb (playback ct) P" "R \<inter> P = {}"
    and "changed m R m' R'" "rep_record m' r rec R'"
  shows "changed m ({p, nm} \<union> R \<union> P) m' ({p, nm} \<union> R' \<union> P) \<and>
    rep_tester m' p (ct\<lparr>ctrecord := rec\<rparr>) ({p, nm} \<union> R' \<union> P)"
proof
  have "{p, nm} \<union> P \<subseteq> dom (cells m)" "R \<inter> ({p, nm} \<union> P) = {}"
    using assms(1,2,5) rep_record_dom [OF assms(3)] rep_playback_dom [OF assms(4)] by (auto simp: kind_def)
  note same = changed_same [OF assms(6) this]
  have "rep_playback m' pb (playback ct) P" using same(1) by (intro rep_playback_same [OF assms(4)]) simp
  then show "rep_tester m' p (ct\<lparr>ctrecord := rec\<rparr>) ({p, nm} \<union> R' \<union> P)"
    using same assms(1,2,7) by (intro rep_testerI [of _ _ _ r pb nm R' P]) (auto simp: tester_fields_def)
  show "changed m ({p, nm} \<union> R \<union> P) m' ({p, nm} \<union> R' \<union> P)"
    using changed_frame [OF assms(6), of "{p, nm} \<union> P"] by (simp add: Un_ac)
qed

lemma receive_frame_ok_mem:
  assumes "rep_tester m p ct F" "mem_ok m"
  shows "case receive_frame data n ch rate ct of
      Inl e \<Rightarrow> receive_frame_mem data n ch rate p m = Inl e
    | Inr ct' \<Rightarrow> \<exists>m' F'. receive_frame_mem data n ch rate p m = Inr m' \<and> changed m F m' F' \<and> rep_tester m' p ct' F'"
proof -
  obtain r pb nm R P where t: "cells m p = Some (TesterC (tester_fields ct r pb nm))"
    "cells m nm = Some (NameC (outfilename ct))" "rep_record m r (ctrecord ct) R"
    "rep_playback m pb (playback ct) P" "R \<inter> P = {}" "F = {p, nm} \<union> R \<union> P" by (rule rep_testerE [OF assms(1)])
  have l: "load_tester p m = Inr (tester_fields ct r pb nm)" using t(1) by (simp add: load_tester_def load_cell_def)
  have f: "tc_step (tester_fields ct r pb nm) = step ct" "tc_ctrecord (tester_fields ct r pb nm) = r"
    by (simp_all add: tester_fields_def)
  consider (skip) "step ct \<noteq> RECORDING" | (bad) "step ct = RECORDING" "length data < unat ch * n"
    | (frame) "step ct = RECORDING" "unat ch * n \<le> length data" by linarith
  then show ?thesis
  proof cases
    case skip
    with l f assms changed_refl [OF assms(2)] show ?thesis by (auto simp: receive_frame_def receive_frame_mem_def)
  next
    case bad
    with l f show ?thesis by (simp add: receive_frame_def receive_frame_mem_def)
  next
    case frame
    from append_frame_ok [OF t(3) assms(2) frame(2), of rate] obtain m' R' where
      m': "append_frame data n ch rate r m = Inr m'" "changed m R m' R'" "rep_record m' r
        \<lparr>pcm = append_samples (unat ch) n data (ctrecord ct), channels = Some ch,
         samples_count = samples_count (ctrecord ct) + n, samplerate = Some rate\<rparr> R'" by blast
    from tester_record_changed [OF t(1-5) m'(2,3)] m'(1) frame l f t(6) show ?thesis
      by (simp add: receive_frame_def receive_frame_mem_def Let_def) blast
  qed
qed

section \<open>The list of testers\<close>

fun rep_testers :: "cmem \<Rightarrow> nat list \<Rightarrow> call_tester list \<Rightarrow> nat set \<Rightarrow> bool" where
  "rep_testers m [] [] F \<longleftrightarrow> F = {}"
| "rep_testers m (p # ps) (ct # cts) F \<longleftrightarrow>
     (\<exists>G H. rep_tester m p ct G \<and> rep_testers m ps cts H \<and> G \<inter> H = {} \<and> F = G \<union> H)"
| "rep_testers m _ _ F \<longleftrightarrow> False"

lemma rep_testers_Nil [simp]:
  "rep_testers m [] cts F \<longleftrightarrow> cts = [] \<and> F = {}" "rep_testers m ps [] F \<longleftrightarrow> ps = [] \<and> F = {}"
  by (cases cts; simp) (cases ps; simp)

lemma rep_testers_dom: "rep_testers m ps cts F \<Longrightarrow> set ps \<subseteq> F \<and> F \<subseteq> dom (cells m)"
proof (induction m ps cts F rule: rep_testers.induct)
  case (2 m p ps ct cts F)
  then obtain G H where g: "rep_tester m p ct G" "rep_testers m ps cts H" "F = G \<union> H" by auto
  with 2(1) [OF g(2)] rep_tester_dom [OF g(1)] show ?case by auto
qed auto

lemma rep_testers_same:
  "rep_testers m ps cts F \<Longrightarrow> (\<forall>a\<in>F. cells m' a = cells m a) \<Longrightarrow> rep_testers m' ps cts F"
proof (induction m ps cts F rule: rep_testers.induct)
  case (2 m p ps ct cts F)
  then obtain G H where g: "rep_tester m p ct G" "rep_testers m ps cts H" "G \<inter> H = {}" "F = G \<union> H" by auto
  with 2(1) [OF g(2)] rep_tester_same [OF g(1)] 2(3) show ?case by auto
qed auto

lemma rep_testers_append:
  "length ps = length as \<Longrightarrow> rep_testers m (ps @ qs) (as @ bs) F \<longleftrightarrow>
     (\<exists>G H. rep_testers m ps as G \<and> rep_testers m qs bs H \<and> G \<inter> H = {} \<and> F = G \<union> H)"
proof (induction ps as arbitrary: F rule: list_induct2)
  case (Cons p ps ct as)
  show ?case
  proof
    assume "rep_testers m ((p # ps) @ qs) ((ct # as) @ bs) F"
    then obtain X G H where x: "rep_tester m p ct X" "rep_testers m ps as G" "rep_testers m qs bs H" "G \<inter> H = {}"
      "X \<inter> (G \<union> H) = {}" "F = X \<union> (G \<union> H)" by (auto simp: Cons.IH)
    then show "\<exists>G H. rep_testers m (p # ps) (ct # as) G \<and> rep_testers m qs bs H \<and> G \<inter> H = {} \<and> F = G \<union> H"
      by (intro exI [of _ "X \<union> G"] exI [of _ H]) auto
  next
    assume "\<exists>G H. rep_testers m (p # ps) (ct # as) G \<and> rep_testers m qs bs H \<and> G \<inter> H = {} \<and> F = G \<union> H"
    then obtain X G H where x: "rep_tester m p ct X" "rep_testers m ps as G" "rep_testers m qs bs H" "X \<inter> G = {}"
      "(X \<union> G) \<inter> H = {}" "F = X \<union> G \<union> H" by auto
    then have "rep_testers m (ps @ qs) (as @ bs) (G \<union> H)" by (auto simp: Cons.IH)
    with x show "rep_testers m ((p # ps) @ qs) ((ct # as) @ bs) F"
      by (simp, intro exI [of _ X] conjI exI [of _ "G \<union> H"]) auto
  qed
qed simp

text \<open>
  The memory of the machine: the blocks of the testers and, apart from them, the blocks \<open>L\<close>:
  the record of the greeter with its samples, if it was loaded, and names that were lost. Before its first step a tester has no record for playback.
\<close>

definition fresh :: "call_tester \<Rightarrow> bool" where
  "fresh ct \<longleftrightarrow> (step ct = ENTERING \<longrightarrow> playback ct = None)"

type_synonym greeting = "nat option \<times> pcm_record option"

definition greeter_count :: "pcm_record option \<Rightarrow> nat" where
  "greeter_count gr = (case gr of None \<Rightarrow> 0 | Some _ \<Rightarrow> 2)"

definition lost :: "greeting \<Rightarrow> cmem \<Rightarrow> nat set \<Rightarrow> bool" where
  "lost gr m L \<longleftrightarrow> (\<exists>G. rep_playback m (fst gr) (snd gr) G \<and> card G = greeter_count (snd gr) \<and> G \<subseteq> L \<and>
     (\<forall>a\<in>L - G. \<exists>s. cells m a = Some (NameC s)))"

lemma lost_same: "lost gr m L \<Longrightarrow> \<forall>a\<in>L. cells m' a = cells m a \<Longrightarrow> lost gr m' L"
  unfolding lost_def by (metis DiffD1 rep_playback_same subsetD)

lemma lost_insert:
  assumes "lost gr m L" "\<forall>a\<in>L. cells m' a = cells m a" "cells m' nm = Some (NameC s)"
  shows "lost gr m' (insert nm L)"
proof -
  from lost_same [OF assms(1,2)] obtain G where
    "rep_playback m' (fst gr) (snd gr) G" "card G = greeter_count (snd gr)" "G \<subseteq> L" "\<forall>a\<in>L - G. \<exists>s. cells m' a = Some (NameC s)"
    unfolding lost_def by blast
  with assms(3) show ?thesis unfolding lost_def by (intro exI [of _ G]) auto
qed

definition mem_rep :: "greeting \<Rightarrow> cmem \<Rightarrow> nat list \<Rightarrow> call_tester list \<Rightarrow> nat set \<Rightarrow> bool" where
  "mem_rep gr m ps cts L \<longleftrightarrow> mem_ok m \<and> lost gr m L \<and> list_all fresh cts \<and>
     (\<exists>F. rep_testers m ps cts F \<and> dom (cells m) = F \<union> L \<and> F \<inter> L = {})"

lemma mem_rep_greeter: "mem_rep gr m ps cts L \<Longrightarrow> load_greeter (fst gr) m = Inr (snd gr)"
  by (auto simp: mem_rep_def lost_def rep_playback_def load_greeter_def dest!: load_record_ok split: option.splits)

lemma mem_rep_ok: "mem_rep gr m ps cts L \<Longrightarrow> mem_ok m"
  by (simp add: mem_rep_def)

lemma mem_rep_finite: "mem_rep gr m ps cts L \<Longrightarrow> finite L"
proof -
  assume r: "mem_rep gr m ps cts L"
  then have "L \<subseteq> dom (cells m)" unfolding mem_rep_def by blast
  moreover have "dom (cells m) \<subseteq> {..<btop m}"
  proof
    fix a assume "a \<in> dom (cells m)"
    moreover have "btop m \<le> a \<Longrightarrow> cells m a = None" using mem_rep_ok [OF r] by (simp add: mem_ok_def)
    ultimately show "a \<in> {..<btop m}" by (cases "btop m \<le> a") auto
  qed
  ultimately have "L \<subseteq> {..<btop m}" by (rule subset_trans)
  then show "finite L" by (rule finite_subset) simp
qed

text \<open>The tester at some place, and the rest.\<close>

lemma mem_rep_at:
  assumes "mem_rep gr m (ds @ p # qs) (as @ ct # bs) L" "length ds = length as"
  obtains X R where "rep_tester m p ct X" "fresh ct" "p \<notin> set ds" "dom (cells m) = X \<union> R \<union> L" "X \<inter> (R \<union> L) = {}" "R \<inter> L = {}"
    and "\<And>m'. \<forall>a\<in>R. cells m' a = cells m a \<Longrightarrow> rep_testers m' (ds @ qs) (as @ bs) R"
    and "\<And>m' ct' X'. \<forall>a\<in>R. cells m' a = cells m a \<Longrightarrow> rep_tester m' p ct' X' \<Longrightarrow> X' \<inter> R = {} \<Longrightarrow>
      rep_testers m' (ds @ p # qs) (as @ ct' # bs) (X' \<union> R)"
proof -
  from assms(1) obtain F where F: "rep_testers m (ds @ p # qs) (as @ ct # bs) F" "dom (cells m) = F \<union> L" "F \<inter> L = {}"
    unfolding mem_rep_def by blast
  from F(1) obtain A H where "rep_testers m ds as A" "rep_testers m (p # qs) (ct # bs) H" "A \<inter> H = {}" "F = A \<union> H"
    unfolding rep_testers_append [OF assms(2)] by blast
  moreover from this(2) obtain X B where "rep_tester m p ct X" "rep_testers m qs bs B" "X \<inter> B = {}" "H = X \<union> B"
    by (simp only: rep_testers.simps) blast
  ultimately have x: "rep_testers m ds as A" "rep_tester m p ct X" "rep_testers m qs bs B"
    "X \<inter> B = {}" "A \<inter> (X \<union> B) = {}" "dom (cells m) = A \<union> (X \<union> B) \<union> L" "(A \<union> (X \<union> B)) \<inter> L = {}"
    using F(2,3) by blast+
  note kept = rep_testers_same [OF x(1)] rep_testers_same [OF x(3)]
  have "p \<notin> set ds" using rep_testers_dom [OF x(1)] rep_tester_dom [OF x(2)] x(5) by auto
  moreover have "fresh ct" using assms(1) by (simp add: mem_rep_def)
  moreover have "rep_testers m' (ds @ qs) (as @ bs) (A \<union> B)" if "\<forall>a\<in>A \<union> B. cells m' a = cells m a" for m'
    using kept [of m'] that x(5) by (auto simp: rep_testers_append [OF assms(2)])
  moreover have "rep_testers m' (ds @ p # qs) (as @ ct' # bs) (X' \<union> (A \<union> B))"
    if "\<forall>a\<in>A \<union> B. cells m' a = cells m a" "rep_tester m' p ct' X'" "X' \<inter> (A \<union> B) = {}" for m' ct' X'
    using kept [of m'] that x(5) unfolding rep_testers_append [OF assms(2)]
    by (intro exI [of _ A] exI [of _ "X' \<union> B"]) auto
  ultimately show thesis using x(2,4-7) by (intro that [of X "A \<union> B"]) auto
qed

text \<open>An operation on a tester that stays, and one after which only its name is left.\<close>

lemma mem_rep_stay:
  assumes "mem_rep gr m (ds @ p # qs) (as @ ct # bs) L" "length ds = length as" "fresh ct'"
    and op: "\<And>X. rep_tester m p ct X \<Longrightarrow> \<exists>X'. changed m X m' X' \<and> rep_tester m' p ct' X'"
  shows "mem_rep gr m' (ds @ p # qs) (as @ ct' # bs) L"
  using assms(1,2)
proof (rule mem_rep_at)
  fix X R
  assume x: "rep_tester m p ct X" "dom (cells m) = X \<union> R \<union> L" "X \<inter> (R \<union> L) = {}" "R \<inter> L = {}"
    and r: "\<And>m' ct' X'. \<forall>a\<in>R. cells m' a = cells m a \<Longrightarrow> rep_tester m' p ct' X' \<Longrightarrow> X' \<inter> R = {} \<Longrightarrow>
      rep_testers m' (ds @ p # qs) (as @ ct' # bs) (X' \<union> R)"
  from op [OF x(1)] obtain X' where c: "changed m X m' X'" "rep_tester m' p ct' X'" by blast
  have "R \<union> L \<subseteq> dom (cells m)" using x(2) by auto
  note same = changed_same [OF c(1) this x(3)]
  have "rep_testers m' (ds @ p # qs) (as @ ct' # bs) (X' \<union> R)" using same by (intro r c(2)) auto
  moreover have "dom (cells m') = X' \<union> R \<union> L"
    using changed_dom [OF c(1)] rep_tester_dom [OF c(2)] x(2,3) same(2) by auto
  moreover have "(X' \<union> R) \<inter> L = {}" using same(2) x(4) by auto
  moreover have "lost gr m' L" using assms(1) same(1) by (auto simp: mem_rep_def intro: lost_same)
  ultimately show ?thesis using assms(1,3) changed_ok [OF c(1)] by (auto simp: mem_rep_def)
qed

lemma mem_rep_gone:
  assumes "mem_rep gr m (ds @ p # qs) (as @ ct # bs) L" "length ds = length as"
    and op: "\<And>X. rep_tester m p ct X \<Longrightarrow> \<exists>nm. changed m X m' {nm} \<and> nm \<in> X \<and> cells m' nm = Some (NameC s)"
  shows "\<exists>nm. mem_rep gr m' (ds @ qs) (as @ bs) (insert nm L) \<and> nm \<notin> L"
  using assms(1,2)
proof (rule mem_rep_at)
  fix X R
  assume x: "rep_tester m p ct X" "dom (cells m) = X \<union> R \<union> L" "X \<inter> (R \<union> L) = {}" "R \<inter> L = {}"
    and r: "\<And>m'. \<forall>a\<in>R. cells m' a = cells m a \<Longrightarrow> rep_testers m' (ds @ qs) (as @ bs) R"
  from op [OF x(1)] obtain nm where c: "changed m X m' {nm}" "nm \<in> X" "cells m' nm = Some (NameC s)" by blast
  have "R \<union> L \<subseteq> dom (cells m)" using x(2) by auto
  note same = changed_same [OF c(1) this x(3)]
  have "rep_testers m' (ds @ qs) (as @ bs) R" using same(1) by (intro r) simp
  moreover have "dom (cells m') = R \<union> insert nm L" using changed_dom [OF c(1)] c(3) x(2,3) same(2) by auto
  moreover have "R \<inter> insert nm L = {}" using same(2) x(4) by auto
  moreover have "lost gr m' (insert nm L)" using assms(1) same(1) c(3) by (auto simp: mem_rep_def intro: lost_insert)
  moreover have "nm \<notin> L" using c(2) x(3) by auto
  ultimately show ?thesis using assms(1) changed_ok [OF c(1)] by (auto simp: mem_rep_def)
qed

end
