(* ===== verification/Call_Memory_Refinement.thy ===== *)
theory Call_Memory_Refinement
  imports Call_Memory_Properties Call_Properties
begin

text \<open>
  Every callback and every visit of the machine in memory does what \<open>Call\<close> says, with the same
  faults; a call that ends loses one block.
\<close>

section \<open>Searching and inserting\<close>

definition call_rep :: "'t cstate \<Rightarrow> 't cm_state \<Rightarrow> nat set \<Rightarrow> bool" where
  "call_rep c s L \<longleftrightarrow> c_w c = cm_w s \<and> mem_rep (cm_greeter s, greeter c) (cm_mem s) (cm_list s) (calltesters c) L"

lemma load_number:
  "rep_tester m p ct F \<Longrightarrow> \<exists>t. load_tester p m = Inr t \<and> tc_friend_number t = ct_friend_number ct \<and> tc_step t = step ct"
  using load_tester_ok by (fastforce simp: tester_fields_def)

lemma find_tester_cases:
  assumes "rep_testers m ps cts F"
  obtains (missing) "call_tester_by_friend_number cts n = None" "find_tester n ps m = Inr None"
    | (found) ds p qs as ct bs where "ps = ds @ p # qs" "cts = as @ ct # bs" "length ds = length as"
      "ct_friend_number ct = n" "\<forall>a\<in>set as. ct_friend_number a \<noteq> n" "find_tester n ps m = Inr (Some p)"
      "call_tester_by_friend_number cts n = Some ct"
  using assms
proof (induction m ps cts F arbitrary: thesis rule: rep_testers.induct)
  case (1 m F)
  then show ?case by (simp add: call_tester_by_friend_number_def find_tester_def)
next
  case (2 m p ps ct cts F)
  from 2(4) obtain G H where g: "rep_tester m p ct G" "rep_testers m ps cts H" by auto
  from load_number [OF g(1)] obtain t where t: "load_tester p m = Inr t" "tc_friend_number t = ct_friend_number ct" by blast
  show ?case
  proof (cases "ct_friend_number ct = n")
    case True
    show ?thesis
      by (rule 2(3) [of "[]" p ps "[]" ct cts]) (use True t in \<open>simp_all add: find_tester_def call_tester_by_friend_number_def\<close>)
  next
    case False
    with t have f: "find_tester n (p # ps) m = find_tester n ps m"
      "call_tester_by_friend_number (ct # cts) n = call_tester_by_friend_number cts n"
      by (simp_all add: find_tester_def call_tester_by_friend_number_def)
    show ?thesis
    proof (rule 2(1) [OF _ _ g(2)])
      assume "call_tester_by_friend_number cts n = None" "find_tester n ps m = Inr None"
      then show ?thesis by (intro 2(2)) (simp_all add: f)
    next
      fix ds q qs as a bs
      assume "ps = ds @ q # qs" "cts = as @ a # bs" "length ds = length as" "ct_friend_number a = n"
        "\<forall>a\<in>set as. ct_friend_number a \<noteq> n" "find_tester n ps m = Inr (Some q)" "call_tester_by_friend_number cts n = Some a"
      then show ?thesis by (intro 2(3) [of "p # ds" q qs "ct # as" a bs]) (use False f in simp_all)
    qed
  qed
qed simp_all

lemma update_tester_at:
  "\<forall>a\<in>set as. ct_friend_number a \<noteq> n \<Longrightarrow> ct_friend_number ct = n \<Longrightarrow>
   update_tester n f (as @ ct # bs) = r_bind (f ct) (\<lambda>ct'. Inr (as @ ct' # bs))"
  by (induction as) (simp_all add: r_bind_assoc)

lemma update_tester_missing:
  "call_tester_by_friend_number cts n = None \<Longrightarrow> update_tester n f cts = Inr cts"
  by (induction cts) (auto simp: call_tester_by_friend_number_def split: if_splits)

lemma set_first_at:
  "\<forall>a\<in>set as. ct_friend_number a \<noteq> n \<Longrightarrow> ct_friend_number ct = n \<Longrightarrow>
   set_first (\<lambda>ct. ct_friend_number ct = n) f (as @ ct # bs) = as @ f ct # bs"
  by (induction as) simp_all

lemma insert_tester_ok:
  "rep_testers m ps cts F \<Longrightarrow> rep_tester m p ct X \<Longrightarrow> F \<inter> X = {} \<Longrightarrow>
   \<exists>ps'. insert_tester p (ct_friend_number ct) m ps = Inr ps' \<and> rep_testers m ps' (tester_insert ct cts) (F \<union> X)"
proof (induction m ps cts F rule: rep_testers.induct)
  case (2 m q ps a cts F)
  from 2(2) obtain G H where g: "rep_tester m q a G" "rep_testers m ps cts H" "G \<inter> H = {}" "F = G \<union> H" by auto
  from load_number [OF g(1)] obtain t where t: "load_tester q m = Inr t" "tc_friend_number t = ct_friend_number a" by blast
  show ?case
  proof (cases "ct_friend_number a > ct_friend_number ct")
    case True
    have "rep_testers m (p # q # ps) (ct # a # cts) (F \<union> X)"
      unfolding rep_testers.simps(2) [of m p] using 2(2-4) by (intro exI [of _ X] exI [of _ F]) auto
    with True t show ?thesis by auto
  next
    case False
    have "H \<inter> X = {}" using 2(4) g(4) by auto
    from 2(1) [OF g(2) 2(3) this] obtain ps' where i: "insert_tester p (ct_friend_number ct) m ps = Inr ps'"
      "rep_testers m ps' (tester_insert ct cts) (H \<union> X)" by blast
    have "rep_testers m (q # ps') (a # tester_insert ct cts) (F \<union> X)"
      unfolding rep_testers.simps(2) [of m q] using g i(2) 2(4) by (intro exI [of _ G] exI [of _ "H \<union> X"]) auto
    with False t i(1) show ?thesis by auto
  qed
qed auto

lemma tester_alloc_ok:
  assumes "mem_ok m" "tester_alloc n name m = (p, m')"
  shows "\<exists>X. changed m {} m' X \<and> rep_tester m' p (call_tester_new n name) X"
proof -
  obtain r m1 where r: "record_new m = (r, m1)" by fastforce
  note r = r [unfolded record_new_def] and ok = assms(1)
  obtain nm m2 where nm: "malloc (NameC name) m1 = (nm, m2)" by fastforce
  let ?t = "TesterC (tester_fields (call_tester_new n name) r None nm)"
  have p: "malloc ?t m2 = (p, m')" using assms(2) r nm by (simp add: tester_alloc_def record_new_def)
  note c1 = malloc_frame [OF ok r, of "{}"] note ok1 = changed_ok [OF c1]
  note c2 = malloc_frame [OF ok1 nm, of "{r}"] note ok2 = changed_ok [OF c2]
  note c3 = malloc_frame [OF ok2 p, of "{nm, r}"]
  have c: "changed m {} m' {p, nm, r}" by (rule changed_trans [OF changed_trans [OF c1 c2] c3])
  have m1: "cells m1 r = Some (RecordC None None 0 None)" by (simp add: malloc_cells [OF ok r])
  with malloc_new [OF ok1 nm] have d: "r \<noteq> nm" by auto
  then have m2: "cells m2 r = Some (RecordC None None 0 None)" "cells m2 nm = Some (NameC name)"
    using m1 by (simp_all add: malloc_cells [OF ok1 nm])
  with malloc_new [OF ok2 p] have "p \<noteq> r" "p \<noteq> nm" by auto
  then have "cells m' p = Some ?t" "cells m' nm = Some (NameC name)" "cells m' r = Some (RecordC None None 0 None)"
    using m2 by (simp_all add: malloc_cells [OF ok2 p])
  then have "rep_tester m' p (call_tester_new n name) {p, nm, r}"
    by (intro rep_testerI [of _ _ _ r None nm "{r}" "{}"])
      (auto simp: rep_record_def rep_pcm_def rep_playback_def record_init_def call_tester_new_def)
  with c show ?thesis by blast
qed

lemma fresh_new [simp]: "fresh (call_tester_new n name)"
  by (simp add: fresh_def call_tester_new_def)

lemma add_entry_refines:
  assumes "call_rep c s L"
  shows "\<exists>s'. add_entry_mem av n s = Inr s' \<and> call_rep (call_tester_add_entry av n c) s' L"
proof -
  let ?m = "cm_mem s"
  from assms obtain F where F: "rep_testers ?m (cm_list s) (calltesters c) F" "dom (cells ?m) = F \<union> L" "F \<inter> L = {}"
    unfolding call_rep_def mem_rep_def by blast
  let ?gr = "(cm_greeter s, greeter c)"
  have w: "c_w c = cm_w s" "mem_rep ?gr ?m (cm_list s) (calltesters c) L"
    using assms by (simp_all add: call_rep_def)
  from F(1) show ?thesis
  proof (cases rule: find_tester_cases [where n = n])
    case found
    with assms show ?thesis by (simp add: add_entry_mem_def call_tester_add_entry_def)
  next
    case missing
    obtain name files where k: "mkstemps av ''/tmp/call-XXXXXX.wav'' (w_fs (cm_w s)) = (name, files)" by fastforce
    obtain p m' where a: "tester_alloc n name ?m = (p, m')" by fastforce
    from tester_alloc_ok [OF mem_rep_ok [OF w(2)] a] obtain X where
      x: "changed ?m {} m' X" "rep_tester m' p (call_tester_new n name) X" by blast
    have sub: "F \<union> L \<subseteq> dom (cells ?m)" using F(2) by simp
    note same = changed_same [OF x(1) sub]
    have "rep_testers m' (cm_list s) (calltesters c) F" using same(1) by (intro rep_testers_same [OF F(1)]) simp
    moreover have "F \<inter> X = {}" using same(2) by auto
    moreover have number: "ct_friend_number (call_tester_new n name) = n" by (simp add: call_tester_new_def)
    ultimately obtain ps where i: "insert_tester p n m' (cm_list s) = Inr ps"
      "rep_testers m' ps (tester_insert (call_tester_new n name) (calltesters c)) (F \<union> X)"
      using insert_tester_ok [OF _ x(2)] unfolding number by blast
    have "dom (cells m') = F \<union> X \<union> L" "(F \<union> X) \<inter> L = {}"
      using changed_dom [OF x(1)] rep_tester_dom [OF x(2)] F(2,3) same(2) by auto
    moreover have "lost ?gr m' L" using w(2) same(1) by (auto simp: mem_rep_def intro: lost_same)
    moreover have "list_all fresh (tester_insert (call_tester_new n name) (calltesters c))"
      using w(2) by (simp add: mem_rep_def list_all_iff testers.set_insert)
    ultimately have "mem_rep ?gr m' ps (tester_insert (call_tester_new n name) (calltesters c)) L"
      using i(2) changed_ok [OF x(1)] unfolding mem_rep_def by blast
    with missing k a i(1) w(1) show ?thesis
      by (simp add: add_entry_mem_def call_tester_add_entry_def call_rep_def)
  qed
qed

section \<open>Visits\<close>

text \<open>A step leaves the pointers of a tester as they are, and only the first one is \<open>ENTERING\<close>.\<close>

definition same_pointers :: "call_tester \<Rightarrow> call_tester \<Rightarrow> bool" where
  "same_pointers ct ct' \<longleftrightarrow> ctrecord ct' = ctrecord ct \<and> playback ct' = playback ct \<and> outfilename ct' = outfilename ct \<and>
     (step ct \<noteq> ENTERING \<longrightarrow> step ct' \<noteq> ENTERING)"

lemma next_step_not_ENTERING [simp]: "next_step st \<noteq> ENTERING"
  by (cases st) simp_all

definition stays :: "call_tester \<Rightarrow> (call_tester \<times> 't fstate) res \<Rightarrow> bool" where
  "stays ct r \<longleftrightarrow> (\<forall>ct' w'. r = Inr (ct', w') \<longrightarrow> same_pointers ct ct')"

lemma steps_stay [simp]:
  "stays ct (do_greeter api gr tp ct w)" "stays ct (do_recording api tp ct w)" "stays ct (do_saving av ct w)"
  "stays ct (do_sending api g ct w)" "stays ct (do_echoing api ct w)"
proof -
  show "stays ct (do_greeter api gr tp ct w)"
    unfolding stays_def by (auto simp: same_pointers_def dest!: greeter_result)
  show "stays ct (do_echoing api ct w)"
    unfolding stays_def by (auto simp: same_pointers_def dest!: echoing_result)
qed (auto simp: do_recording_def do_saving_def do_sending_def r_bind_eq_Inr same_pointers_def stays_def split: if_splits)

lemma stay_refines:
  assumes "mem_rep gr m (ds @ p # qs) (as @ ct # bs) L" "length ds = length as" "step ct \<noteq> ENTERING"
    and "stays ct r"
  shows "case r of Inl e \<Rightarrow> stay_mem p s m r = Inl e
    | Inr (ct', w') \<Rightarrow> \<exists>m'. stay_mem p s m r = Inr (s\<lparr>cm_w := w', cm_mem := m'\<rparr>) \<and>
        mem_rep gr m' (ds @ p # qs) (as @ ct' # bs) L"
proof (cases r)
  case (Inr x)
  obtain ct' w' where x: "x = (ct', w')" by (cases x)
  from assms(1,2) obtain X where X: "rep_tester m p ct X" by (rule mem_rep_at)
  from assms(4) Inr x have sp: "same_pointers ct ct'" by (simp add: stays_def)
  then have e: "ctrecord ct' = ctrecord ct" "playback ct' = playback ct" "outfilename ct' = outfilename ct"
    by (simp_all add: same_pointers_def)
  from put_fields_ok [OF X mem_rep_ok [OF assms(1)] e] obtain m' where m': "put_fields p ct' m = Inr m'" by blast
  have "fresh ct'" using sp assms(3) by (simp add: fresh_def same_pointers_def)
  with assms(1,2) have "mem_rep gr m' (ds @ p # qs) (as @ ct' # bs) L"
  proof (rule mem_rep_stay)
    fix X assume "rep_tester m p ct X"
    from put_fields_ok [OF this mem_rep_ok [OF assms(1)] e] m'
    show "\<exists>X'. changed m X m' X' \<and> rep_tester m' p ct' X'" by auto
  qed
  with m' Inr x show ?thesis by (auto simp: stay_mem_def)
qed (simp add: stay_mem_def)

text \<open>The first step up to the greeting.\<close>

lemma entering_refines:
  assumes "mem_rep gr m (ds @ p # qs) (as @ ct # bs) L" "length ds = length as" "step ct = ENTERING"
    and "do_entering api ct w = (ct1, w1)"
  shows "\<exists>m1. entering_mem p m = Inr m1 \<and> load_view p m1 = Inr ct1 \<and> mem_rep gr m1 (ds @ p # qs) (as @ ct1 # bs) L"
proof -
  have ct1: "ct1 = ct\<lparr>playback := Some record_init, samples_send := Some 0, step := next_step (step ct)\<rparr>"
    using assms(4) by (simp add: do_entering_def Let_def)
  from assms(1,2) obtain X where X: "rep_tester m p ct X" "fresh ct" by (rule mem_rep_at)
  then have pb: "playback ct = None" using assms(3) by (simp add: fresh_def)
  from entering_ok [OF X(1) mem_rep_ok [OF assms(1)] pb] obtain m1 X1 where
    m1: "entering_mem p m = Inr m1" "rep_tester m1 p ct1 X1" unfolding ct1 by blast
  have "fresh ct1" by (simp add: ct1 fresh_def)
  with assms(1,2) have "mem_rep gr m1 (ds @ p # qs) (as @ ct1 # bs) L"
  proof (rule mem_rep_stay)
    fix X assume "rep_tester m p ct X"
    from entering_ok [OF this mem_rep_ok [OF assms(1)] pb] m1(1)
    show "\<exists>X'. changed m X m1 X' \<and> rep_tester m1 p ct1 X'" unfolding ct1 by auto
  qed
  with m1(1) load_view_ok [OF m1(2)] show ?thesis by blast
qed

lemma destroy_refines:
  assumes "mem_rep gr (cm_mem s) (ds @ p # qs) (as @ ct # bs) L" "length ds = length as" "cm_list s = ds @ p # qs"
  shows "\<exists>m' nm. call_tester_destroy p s = Inr (s\<lparr>cm_list := ds @ qs, cm_mem := m'\<rparr>) \<and>
    mem_rep gr m' (ds @ qs) (as @ bs) (insert nm L) \<and> nm \<notin> L"
proof -
  from assms(1,2) obtain X where X: "rep_tester (cm_mem s) p ct X" "p \<notin> set ds" by (rule mem_rep_at)
  note ok = mem_rep_ok [OF assms(1)]
  from call_tester_destroy_ok [OF X(1) ok] obtain m' where
    m': "call_tester_destroy p s = Inr (s\<lparr>cm_list := remove1 p (cm_list s), cm_mem := m'\<rparr>)" by blast
  have "\<exists>nm. mem_rep gr m' (ds @ qs) (as @ bs) (insert nm L) \<and> nm \<notin> L"
    using assms(1,2)
  proof (rule mem_rep_gone)
    fix X assume "rep_tester (cm_mem s) p ct X"
    from call_tester_destroy_ok [OF this ok] obtain m2 nm where
      k: "call_tester_destroy p s = Inr (s\<lparr>cm_list := remove1 p (cm_list s), cm_mem := m2\<rparr>)"
      "changed (cm_mem s) X m2 {nm}" "nm \<in> X" "cells m2 nm = Some (NameC (outfilename ct))" by blast
    from k(1) m' have "s\<lparr>cm_list := remove1 p (cm_list s), cm_mem := m2\<rparr> = s\<lparr>cm_list := remove1 p (cm_list s), cm_mem := m'\<rparr>"
      by simp
    from arg_cong [OF this, of cm_mem] have "m2 = m'" by simp
    with k(2-4) show "\<exists>nm. changed (cm_mem s) X m' {nm} \<and> nm \<in> X \<and> cells m' nm = Some (NameC (outfilename ct))" by blast
  qed
  moreover have "remove1 p (cm_list s) = ds @ qs" using X(2) by (simp add: assms(3) remove1_append)
  ultimately show ?thesis using m' by auto
qed

text \<open>One visit, and all of them: the tester that a visit ends is gone, and its name is lost.\<close>

lemma one_shot_refines:
  assumes "mem_rep (cm_greeter s, gv) (cm_mem s) (ds @ p # qs) (as @ ct # bs) L" "length ds = length as" "cm_list s = ds @ p # qs"
  shows "case calltest_iterate_one_shot api av g gv tp ct (cm_w s) of
      Inl e \<Rightarrow> one_shot_mem api av g tp p s = Inl e
    | Inr (Some ct', w') \<Rightarrow> \<exists>m'. one_shot_mem api av g tp p s = Inr (s\<lparr>cm_w := w', cm_mem := m'\<rparr>) \<and>
        mem_rep (cm_greeter s, gv) m' (ds @ p # qs) (as @ ct' # bs) L
    | Inr (None, w') \<Rightarrow> \<exists>m' nm. one_shot_mem api av g tp p s = Inr (s\<lparr>cm_w := w', cm_list := ds @ qs, cm_mem := m'\<rparr>) \<and>
        mem_rep (cm_greeter s, gv) m' (ds @ qs) (as @ bs) (insert nm L) \<and> nm \<notin> L"
proof -
  from assms(1,2) obtain X where X: "rep_tester (cm_mem s) p ct X" by (rule mem_rep_at)
  note view = load_view_ok [OF this]
  note stay = stay_refines [OF assms(1,2)] and gv = mem_rep_greeter [OF assms(1), simplified]
  show ?thesis
  proof (cases "step ct")
    case ENTERING
    obtain ct1 w1 where e: "do_entering api ct (cm_w s) = (ct1, w1)" by fastforce
    then have w1: "w1 = control api ct1 TOXAV_CALL_CONTROL_MUTE_AUDIO (cm_w s)" "step ct1 \<noteq> ENTERING"
      by (auto simp: do_entering_def Let_def control_def)
    from entering_refines [OF assms(1,2) ENTERING e] obtain m1 where
      m1: "entering_mem p (cm_mem s) = Inr m1" "load_view p m1 = Inr ct1" "mem_rep (cm_greeter s, gv) m1 (ds @ p # qs) (as @ ct1 # bs) L" by blast
    from stay_refines [OF m1(3) assms(2) w1(2), of "do_greeter api gv tp ct1 w1" s]
      ENTERING view m1(1,2) mem_rep_greeter [OF m1(3), simplified] e w1(1) show ?thesis
      by (auto simp: one_shot_mem_def calltest_iterate_one_shot_def split: sum.splits)
  next
    case BYE
    let ?w = "control api ct TOXAV_CALL_CONTROL_CANCEL (cm_w s)"
    from destroy_refines [where s = "s\<lparr>cm_w := ?w\<rparr>", OF _ assms(2)] assms(1,3) BYE view show ?thesis
      by (auto simp: one_shot_mem_def calltest_iterate_one_shot_def)
  next
    case GREETER
    with stay [of "do_greeter api gv tp ct (cm_w s)" s] view gv show ?thesis
      by (auto simp: one_shot_mem_def calltest_iterate_one_shot_def split: sum.splits)
  next
    case RECORDING
    with stay [of "do_recording api tp ct (cm_w s)" s] view show ?thesis
      by (auto simp: one_shot_mem_def calltest_iterate_one_shot_def split: sum.splits)
  next
    case SAVING
    with stay [of "do_saving av ct (cm_w s)" s] view show ?thesis
      by (auto simp: one_shot_mem_def calltest_iterate_one_shot_def split: sum.splits)
  next
    case SENDING
    with stay [of "do_sending api g ct (cm_w s)" s] view show ?thesis
      by (auto simp: one_shot_mem_def calltest_iterate_one_shot_def split: sum.splits)
  next
    case ECHOING
    with stay [of "do_echoing api ct (cm_w s)" s] view show ?thesis
      by (auto simp: one_shot_mem_def calltest_iterate_one_shot_def split: sum.splits)
  qed
qed

lemma iterate_refines:
  "mem_rep (cm_greeter s, gv) (cm_mem s) (ds @ qs) (as @ bs) L \<Longrightarrow> length ds = length as \<Longrightarrow> cm_list s = ds @ qs \<Longrightarrow> length qs = length bs \<Longrightarrow>
   case iterate_testers api av g gv tp bs (cm_w s) of
     Inl e \<Rightarrow> iterate_mem api av g tp qs s = Inl e
   | Inr (bs', w') \<Rightarrow> \<exists>s' L'. iterate_mem api av g tp qs s = Inr s' \<and> cm_w s' = w' \<and> cm_greeter s' = cm_greeter s \<and>
       mem_rep (cm_greeter s, gv) (cm_mem s') (cm_list s') (as @ bs') L' \<and> L \<subseteq> L' \<and> card L' + length bs' = card L + length bs"
proof (induction qs arbitrary: s ds as bs L)
  case (Cons p qs)
  from Cons.prems(4) obtain ct bs0 where bs: "bs = ct # bs0" "length qs = length bs0" by (cases bs) auto
  note one = one_shot_refines [OF Cons.prems(1) [unfolded bs] Cons.prems(2,3), of api av g tp]
  show ?case
  proof (cases "calltest_iterate_one_shot api av g gv tp ct (cm_w s)")
    case (Inl e)
    with one show ?thesis by (simp add: bs)
  next
    case (Inr x)
    obtain r w1 where x: "x = (r, w1)" by (cases x)
    show ?thesis
    proof (cases r)
      case (Some ct1)
      with one Inr x obtain m1 where m1: "one_shot_mem api av g tp p s = Inr (s\<lparr>cm_w := w1, cm_mem := m1\<rparr>)"
        "mem_rep (cm_greeter s, gv) m1 (ds @ p # qs) (as @ ct1 # bs0) L" by auto
      with Cons.IH [of "s\<lparr>cm_w := w1, cm_mem := m1\<rparr>" "ds @ [p]" "as @ [ct1]" bs0 L] Cons.prems(2,3) bs(2)
      show ?thesis by (simp add: bs Inr x Some split: sum.splits) force
    next
      case None
      with one Inr x obtain m1 nm where m1: "one_shot_mem api av g tp p s = Inr (s\<lparr>cm_w := w1, cm_list := ds @ qs, cm_mem := m1\<rparr>)"
        "mem_rep (cm_greeter s, gv) m1 (ds @ qs) (as @ bs0) (insert nm L)" "nm \<notin> L" by auto
      have "card (insert nm L) = Suc (card L)" using m1(3) mem_rep_finite [OF Cons.prems(1)] by simp
      with m1 Cons.IH [of "s\<lparr>cm_w := w1, cm_list := ds @ qs, cm_mem := m1\<rparr>" ds as bs0 "insert nm L"] Cons.prems(2) bs(2)
      show ?thesis by (simp add: bs Inr x None split: sum.splits) force
    qed
  qed
qed (simp, blast)


section \<open>Events\<close>

text \<open>What can happen to the testers: the three callbacks, and a pass of the main loop.\<close>

datatype tester_event =
  Incoming u32 bool bool | Reported u32 u32 | Framed u32 "int list" nat u8 u32 | Visited timespec

fun tester_step ::
  "'t toxcore \<Rightarrow> avlib \<Rightarrow> (nat \<Rightarrow> char) \<Rightarrow> tester_event \<Rightarrow> 't cstate \<Rightarrow> 't cstate res" where
  "tester_step api av g (Incoming n audio video) c = Inr (call api av n audio video c)"
| "tester_step api av g (Reported n st) c = Inr (call_state api av n st c)"
| "tester_step api av g (Framed n data k ch rate) c = audio_receive_frame n data k ch rate c"
| "tester_step api av g (Visited tp) c = calltest_iterate api av g tp c"

fun tester_step_mem ::
  "'t toxcore \<Rightarrow> avlib \<Rightarrow> (nat \<Rightarrow> char) \<Rightarrow> tester_event \<Rightarrow> 't cm_state \<Rightarrow> 't cm_state res" where
  "tester_step_mem api av g (Incoming n audio video) s = call_mem api av n audio video s"
| "tester_step_mem api av g (Reported n st) s = call_state_mem api av n st s"
| "tester_step_mem api av g (Framed n data k ch rate) s = audio_receive_frame_mem n data k ch rate s"
| "tester_step_mem api av g (Visited tp) s = calltest_iterate_mem api av g tp s"

text \<open>A step that neither adds nor removes a tester loses nothing; an incoming call does not either.\<close>

lemma length_tester_insert [simp]: "length (tester_insert ct cts) = Suc (length cts)"
  by (induction cts) simp_all

lemma add_entry_more: "length (calltesters c) \<le> length (calltesters (call_tester_add_entry av n c))"
  by (simp add: call_tester_add_entry_def case_prod_unfold Let_def split: option.splits)

lemma call_rep_w: "call_rep c s L \<Longrightarrow> c_w c = cm_w s"
  by (simp add: call_rep_def)

lemma call_rep_world: "call_rep c s L \<Longrightarrow> call_rep (c\<lparr>c_w := w\<rparr>) (s\<lparr>cm_w := w\<rparr>) L"
  by (simp add: call_rep_def)

lemma incoming_refines:
  assumes "call_rep c s L"
  shows "\<exists>s'. call_mem api av n audio video s = Inr s' \<and> call_rep (call api av n audio video c) s' L"
  using add_entry_refines [OF call_rep_world [OF assms]] call_rep_w [OF assms]
  by (simp add: call_mem_def call_def case_prod_unfold Let_def)

lemma hangup_refines:
  assumes "call_rep c s L"
  shows "\<exists>s'. r_bind (find_tester n (cm_list s) (cm_mem s)) (\<lambda>r. case r of
          None \<Rightarrow> Inr s
        | Some p \<Rightarrow> r_bind (load_tester p (cm_mem s)) (\<lambda>t.
            r_bind (store_cell p (TesterC (t\<lparr>tc_step := BYE\<rparr>)) (cm_mem s)) (\<lambda>m. Inr (s\<lparr>cm_mem := m\<rparr>)))) = Inr s' \<and>
    call_rep (case call_tester_by_friend_number (calltesters c) n of None \<Rightarrow> c
      | Some _ \<Rightarrow> c\<lparr>calltesters := set_first (\<lambda>ct. ct_friend_number ct = n) (\<lambda>ct. ct\<lparr>step := BYE\<rparr>) (calltesters c)\<rparr>) s' L"
proof -
  let ?m = "cm_mem s"
  let ?gr = "(cm_greeter s, greeter c)"
  have r: "mem_rep ?gr ?m (cm_list s) (calltesters c) L" using assms by (simp add: call_rep_def)
  then obtain F where "rep_testers ?m (cm_list s) (calltesters c) F" unfolding mem_rep_def by blast
  then show ?thesis
  proof (cases rule: find_tester_cases [where n = n])
    case missing
    with assms show ?thesis by simp
  next
    case (found ds p qs as ct bs)
    note r = r [unfolded found(1,2)]
    from r found(3) obtain X where X: "rep_tester ?m p ct X" by (rule mem_rep_at)
    from load_tester_ok [OF X] obtain t where t: "load_tester p ?m = Inr t"
      "t\<lparr>tc_step := BYE\<rparr> = tester_fields (ct\<lparr>step := BYE\<rparr>) (tc_ctrecord t) (tc_playback t) (tc_outfilename t)"
      by (auto simp: tester_fields_def)
    note upd = tester_update [OF _ mem_rep_ok [OF r] t]
    from upd [OF X] obtain m' where m': "store_cell p (TesterC (t\<lparr>tc_step := BYE\<rparr>)) ?m = Inr m'" by auto
    have "mem_rep ?gr m' (ds @ p # qs) (as @ ct\<lparr>step := BYE\<rparr> # bs) L"
      using r found(3)
    proof (rule mem_rep_stay)
      show "fresh (ct\<lparr>step := BYE\<rparr>)" by (simp add: fresh_def)
      fix X assume "rep_tester ?m p ct X"
      from upd [OF this] m' show "\<exists>X'. changed ?m X m' X' \<and> rep_tester m' p (ct\<lparr>step := BYE\<rparr>) X'" by auto
    qed
    with assms found t(1) m' show ?thesis by (simp add: call_rep_def set_first_at)
  qed
qed

lemma frame_refines:
  assumes "call_rep c s L"
  shows "case audio_receive_frame n data k ch rate c of
      Inl e \<Rightarrow> audio_receive_frame_mem n data k ch rate s = Inl e
    | Inr c' \<Rightarrow> \<exists>s'. audio_receive_frame_mem n data k ch rate s = Inr s' \<and> call_rep c' s' L \<and>
        length (calltesters c') = length (calltesters c)"
proof -
  let ?m = "cm_mem s"
  let ?gr = "(cm_greeter s, greeter c)"
  have r: "mem_rep ?gr ?m (cm_list s) (calltesters c) L" using assms by (simp add: call_rep_def)
  then obtain F where "rep_testers ?m (cm_list s) (calltesters c) F" unfolding mem_rep_def by blast
  then show ?thesis
  proof (cases rule: find_tester_cases [where n = n])
    case missing
    with assms show ?thesis by (simp add: audio_receive_frame_def audio_receive_frame_mem_def update_tester_missing)
  next
    case (found ds p qs as ct bs)
    note r = r [unfolded found(1,2)]
    from r found(3) obtain X where X: "rep_tester ?m p ct X" by (rule mem_rep_at)
    note frame = receive_frame_ok_mem [OF _ mem_rep_ok [OF r], where data = data and n = k and ch = ch and rate = rate]
    note pure = update_tester_at [OF found(5,4), of "receive_frame data k ch rate" bs, folded found(2)]
    show ?thesis
    proof (cases "receive_frame data k ch rate ct")
      case (Inl e)
      with frame [OF X] pure found(6) show ?thesis by (simp add: audio_receive_frame_def audio_receive_frame_mem_def)
    next
      case (Inr ct')
      with frame [OF X] obtain m' where m': "receive_frame_mem data k ch rate p ?m = Inr m'" by auto
      have "fresh ct" using r by (simp add: mem_rep_def)
      then have "fresh ct'" using Inr by (auto simp: receive_frame_def fresh_def Let_def split: if_splits)
      with r found(3) have "mem_rep ?gr m' (ds @ p # qs) (as @ ct' # bs) L"
      proof (rule mem_rep_stay)
        fix X assume "rep_tester ?m p ct X"
        from frame [OF this] Inr m' show "\<exists>X'. changed ?m X m' X' \<and> rep_tester m' p ct' X'" by auto
      qed
      with assms found(1,2,6) pure Inr m' show ?thesis
        by (simp add: audio_receive_frame_def audio_receive_frame_mem_def call_rep_def)
    qed
  qed
qed

lemma mem_rep_length: "mem_rep gr m ps cts L \<Longrightarrow> length ps = length cts"
proof -
  have "rep_testers m ps cts F \<Longrightarrow> length ps = length cts" for F
    by (induction m ps cts F rule: rep_testers.induct) auto
  then show "mem_rep gr m ps cts L \<Longrightarrow> length ps = length cts" unfolding mem_rep_def by blast
qed

lemma visit_refines:
  assumes "call_rep c s L"
  shows "case calltest_iterate api av g tp c of
      Inl e \<Rightarrow> calltest_iterate_mem api av g tp s = Inl e
    | Inr c' \<Rightarrow> \<exists>s' L'. calltest_iterate_mem api av g tp s = Inr s' \<and> call_rep c' s' L' \<and> L \<subseteq> L' \<and>
        card L' = card L + (length (calltesters c) - length (calltesters c'))"
proof -
  have r: "mem_rep (cm_greeter s, greeter c) (cm_mem s) (cm_list s) (calltesters c) L" "c_w c = cm_w s"
    using assms by (simp_all add: call_rep_def)
  note it = iterate_refines [of s "greeter c" "[]" "cm_list s" "[]" "calltesters c" L api av g tp, simplified, OF r(1) mem_rep_length [OF r(1)]]
  show ?thesis
  proof (cases "iterate_testers api av g (greeter c) tp (calltesters c) (c_w c)")
    case (Inl e)
    with it r(2) show ?thesis by (simp add: calltest_iterate_def calltest_iterate_mem_def)
  next
    case (Inr x)
    obtain bs w where x: "x = (bs, w)" by (cases x)
    from it r(2) Inr x obtain s' L' where l: "iterate_mem api av g tp (cm_list s) s = Inr s'" "cm_w s' = w"
      "cm_greeter s' = cm_greeter s" "mem_rep (cm_greeter s, greeter c) (cm_mem s') (cm_list s') bs L'" "L \<subseteq> L'"
      "card L' + length bs = card L + length (calltesters c)" by auto
    have "card L \<le> card L'" by (rule card_mono [OF mem_rep_finite [OF l(4)] l(5)])
    with l(6) have "card L' = card L + (length (calltesters c) - length bs)" by simp
    with l Inr x show ?thesis
      by (auto simp: calltest_iterate_def calltest_iterate_mem_def call_rep_def)
  qed
qed

text \<open>All events.\<close>

lemma step_refines:
  assumes "call_rep c s L"
  shows "case tester_step api av g e c of
      Inl f \<Rightarrow> tester_step_mem api av g e s = Inl f
    | Inr c' \<Rightarrow> \<exists>s' L'. tester_step_mem api av g e s = Inr s' \<and> call_rep c' s' L' \<and> L \<subseteq> L' \<and>
        card L' = card L + (length (calltesters c) - length (calltesters c'))"
proof (cases e)
  case (Incoming n audio video)
  from incoming_refines [OF assms] obtain s' where
    "call_mem api av n audio video s = Inr s'" "call_rep (call api av n audio video c) s' L" by blast
  moreover have "length (calltesters c) \<le> length (calltesters (call api av n audio video c))"
    using add_entry_more [of "c\<lparr>c_w := _\<rparr>"] by (simp add: call_def case_prod_unfold Let_def)
  ultimately show ?thesis by (auto simp: Incoming)
next
  case (Reported n st)
  have "\<exists>s'. call_state_mem api av n st s = Inr s' \<and> call_rep (call_state api av n st c) s' L"
    using assms add_entry_refines [OF call_rep_world [OF assms]] hangup_refines [OF assms] call_rep_w [OF assms]
    by (simp add: call_state_mem_def call_state_def Let_def)
  moreover have "length (calltesters c) \<le> length (calltesters (call_state api av n st c))"
    using add_entry_more [of "c\<lparr>c_w := _\<rparr>"]
      arg_cong [OF hang_up_ok(1) [of "\<lambda>ct. ct_friend_number ct = n" "calltesters c"], of length]
    by (simp add: call_state_def Let_def split: option.splits)
  ultimately show ?thesis by (auto simp: Reported)
next
  case (Framed n data k ch rate)
  with frame_refines [OF assms, of n data k ch rate] show ?thesis by (auto split: sum.splits)
next
  case (Visited tp)
  with visit_refines [OF assms, of api av g tp] show ?thesis by (simp only: tester_step.simps tester_step_mem.simps)
qed






lemma audio_load_rep:
  "\<exists>gr m G. audio_load_mem av path files \<lparr>cells = Map.empty, btop = 0\<rparr> = Inr (gr, m) \<and> mem_ok m \<and>
     rep_playback m gr (audio_load av path files) G \<and> dom (cells m) = G \<and> card G = greeter_count (audio_load av path files)"
proof (cases "sf_read av path files")
  case None
  then show ?thesis
    by (simp add: audio_load_mem_def audio_load_def rep_playback_def greeter_count_def mem_ok_def)
next
  case (Some x)
  obtain rate ch frames readf samples where x: "x = (rate, ch, frames, readf, samples)" by (cases x)
  let ?n = "frames * nat ch"
  let ?xs = "take ?n (map Some samples @ replicate ?n None)"
  let ?m = "\<lparr>cells = [0 \<mapsto> RecordC (Some 1) (Some (word_of_int ch)) readf (Some (word_of_int rate)), 1 \<mapsto> PcmC ?xs],
      btop = 2\<rparr> :: cmem"
  have "audio_load_mem av path files \<lparr>cells = Map.empty, btop = 0\<rparr> = Inr (Some 0, ?m)"
    by (simp add: audio_load_mem_def Some x record_new_def malloc_def store_cell_def load_cell_def Let_def
        fun_upd_twist numeral_2_eq_2)
  moreover have "rep_playback ?m (Some 0) (audio_load av path files) {0, 1}"
    by (simp add: rep_playback_def rep_record_def rep_pcm_def audio_load_def Some x Let_def)
  moreover have "mem_ok ?m" by (simp add: mem_ok_def)
  moreover have "dom (cells ?m) = {0, 1}" by auto
  ultimately show ?thesis by (auto simp: audio_load_def Some x greeter_count_def Let_def)
qed

lemma init_rep:
  "\<exists>s L. calltest_init_mem av w = Inr s \<and> call_rep (calltest_init av w) s L \<and>
     card L = greeter_count (greeter (calltest_init av w))"
proof -
  from audio_load_rep [of av "''greeter.wav''" "w_fs w"] obtain gr m G where
    g: "audio_load_mem av ''greeter.wav'' (w_fs w) \<lparr>cells = Map.empty, btop = 0\<rparr> = Inr (gr, m)" "mem_ok m"
    "rep_playback m gr (audio_load av ''greeter.wav'' (w_fs w)) G" "dom (cells m) = G"
    "card G = greeter_count (audio_load av ''greeter.wav'' (w_fs w))" by blast
  have "lost (gr, audio_load av ''greeter.wav'' (w_fs w)) m G" using g(3,5) by (auto simp: lost_def)
  with g show ?thesis
    by (auto simp: calltest_init_mem_def call_rep_def calltest_init_def mem_rep_def)
qed




section \<open>Properties\<close>

text \<open>
  C8 (refinement): the machine on blocks of memory does what the machine on values does: from
  states that correspond every callback and every pass of the main loop has the same fault or
  ends in states that correspond. No record, sample or tester is used after it was released, and
  none is released twice; the blocks that no tester owns are those of the greeter and names of
  files, one more for each tester that the step has destroyed.
\<close>

theorem call_memory_refines:
  assumes "call_rep c s L"
  shows "case tester_step api av g e c of
      Inl f \<Rightarrow> tester_step_mem api av g e s = Inl f
    | Inr c' \<Rightarrow> \<exists>s' L'. tester_step_mem api av g e s = Inr s' \<and> call_rep c' s' L' \<and> L \<subseteq> L' \<and>
        card L' = card L + (length (calltesters c) - length (calltesters c'))"
  by (rule step_refines [OF assms])

text \<open>The first call: a friend calls, and is in the list of the machine in memory.\<close>

theorem call_memory_refines_witness:
  "\<exists>s s' L'. calltest_init_mem sample_av world0 = Inr s \<and>
     tester_step_mem sample sample_av (\<lambda>_. NUL) (Incoming 5 True False) s = Inr s' \<and>
     call_rep (call sample sample_av 5 True False (calltest_init sample_av world0)) s' L' \<and> length (cm_list s') = 1"
proof -
  let ?c = "call sample sample_av 5 True False (calltest_init sample_av world0)"
  from init_rep [of sample_av world0] obtain s L where s: "calltest_init_mem sample_av world0 = Inr s"
    "call_rep (calltest_init sample_av world0) s L" by blast
  from call_memory_refines [OF s(2), of sample sample_av "\<lambda>_. NUL" "Incoming 5 True False"]
  obtain s' L' where s': "tester_step_mem sample sample_av (\<lambda>_. NUL) (Incoming 5 True False) s = Inr s'"
    "call_rep ?c s' L'" by auto
  have "length (calltesters ?c) = 1"
    by (simp add: call_def call_tester_add_entry_def calltest_init_def call_tester_by_friend_number_def case_prod_unfold Let_def)
  with s'(2) mem_rep_length have "length (cm_list s') = 1" unfolding call_rep_def by metis
  with s(1) s' show ?thesis by blast
qed





end
