(* ===== verification/Spec2Isabelle.thy ===== *)
theory Spec2Isabelle
  imports Timespec Bencode_Encode Registry Conf Friend_Registry File_Transfer Fileop_Sharing Tsfiles_Roundtrip
    Call_Properties Command_Properties Ylog Toxdata_Properties Suit_Properties List_Entries Hlist Time64 Timesp
    Lifecycle Bencode_Heap_Properties Tool Call_Memory_Refinement
begin

text \<open>
  ToxSuite is a bot for the Tox network, in C. It keeps a registry of its friends, serves the
  files of a shared directory, answers calls with an echo test and takes commands as messages.
  One thread polls: the loop of \<^verbatim>\<open>main\<close> in \<^verbatim>\<open>src/suit.c\<close> gives time to the
  call tester, to \<^verbatim>\<open>toxcore\<close>, to \<^verbatim>\<open>toxav\<close>, to the purge of old friends and to the
  hashing of files, and everything else happens in callbacks.

  This library models the program function by function and proves what it does, where it is
  right and where it is not. The definitions are translated from the sources named below; the
  theorems are about them.

  \<^bold>\<open>Conventions.\<close> Unsigned integers are words of their width, signed ones are integers with
  the overflow of arithmetic as a fault (\<open>Prelude\<close>). A function that can run into undefined
  behaviour has a result \<open>'a res = fault + 'a\<close>; the faults are null pointers, accesses outside
  of an allocation, overflow, unwritten values, freed memory, wrong union members. Memory whose
  contents are not written is a parameter \<open>g\<close>, so a theorem holds for whatever is in it, or is
  \<open>None\<close> in a field, so that reading it is a fault. A \<open>char\<close> is a byte and a
  \<open>string\<close> a sequence of bytes. Log messages are left out, except in \<open>Ylog\<close>; \<^verbatim>\<open>malloc\<close>
  does not fail, and releasing memory shows only where blocks have more than one owner (the
  hash blocks of files), which are in a store (\<open>World\<close>), and in \<open>Bencode_Heap\<close> and
  \<open>Call_Memory\<close>. So what is said of freed blocks outside of those two theories is about hash
  blocks: transfers, nodes, names, entries of the registry and streams are values without a
  lifetime.

  \<^bold>\<open>Libraries.\<close> The C library is modelled as far as it is used (\<open>C_Lib\<close>, \<open>World\<close>,
  \<^verbatim>\<open>getopt_long\<close> in \<open>Command\<close>, \<^verbatim>\<open>getline\<close> in \<open>Toxdata\<close>).
  \<^verbatim>\<open>toxcore\<close>, \<^verbatim>\<open>toxav\<close>, \<^verbatim>\<open>libsodium\<close>, \<^verbatim>\<open>libsndfile\<close>,
  \<^verbatim>\<open>popt\<close>, \<^verbatim>\<open>ftw\<close> and \<^verbatim>\<open>fnmatch\<close> are parameters: records of functions on an
  abstract state (\<open>toxcore\<close>, \<open>sodium\<close>, \<open>avlib\<close>, \<open>clib\<close>, \<open>env\<close>) or arguments. What a property
  needs of them is a named hypothesis (\<open>friend_laws\<close>, \<open>quiet\<close>, \<open>friends_distinct\<close>,
  \<open>text_laws\<close>, \<open>hex_laws\<close>, \<open>deletes\<close>, \<open>crypt_laws\<close>, \<open>posix_fnmatch\<close>), and \<open>sample\<close>, \<open>sample_sodium\<close> and their kind are instances that satisfy it.

  \<^bold>\<open>Theories\<close>, from the bottom to the top.

  \<^item> \<open>Prelude\<close>: machine types, faults, results, searches that may fault, and the
    locale \<open>machine_invariant\<close>: what every step keeps holds in every reachable state. The call
    tester (\<open>calls\<close>), the logger (\<open>logger\<close>) and the polling loop (\<open>passes\<close>) interpret it.
  \<^item> \<open>Block_Memory\<close>: allocation and release of blocks, and \<open>changed\<close>, which says what blocks a
    computation started from and left; for the two theories that follow memory block by block.
  \<^item> \<open>C_Lib\<close>, \<open>World\<close>: strings, numbers as text, buffers; blocks, files and streams; the
    interfaces of the other libraries and an instance of each.
  \<^item> \<open>Timespec\<close> (\<^verbatim>\<open>timespec.c\<close>, \<^verbatim>\<open>timespec.h\<close>): arithmetic on clock readings; what the
    time-out test of the loop means, the division by subtraction, the additions.
    \<open>Time64\<close> (\<^verbatim>\<open>time64.h\<close>): the same for seconds of 64 bits, on platforms of both widths
    of \<^verbatim>\<open>long\<close>; the strict test keeps the conversion to nanoseconds from overflowing.
  \<^item> \<open>Bencode\<close>, \<open>Bencode_Encode\<close> (\<^verbatim>\<open>bencode/bencode.c\<close>, and the size of a node
    in \<^verbatim>\<open>tsfiles.c\<close>): decoder, node constructors, encoder. The decoder has fuel, twice the
    length of the input and one, and is proved to need no more; it is safe on terminated
    buffers, and decoding undoes encoding.
  \<^item> \<open>Bencode_Heap\<close>, \<open>Bencode_Heap_Properties\<close> (the same file): nodes, arrays and strings as
    blocks of a memory, with \<^verbatim>\<open>realloc\<close> and \<^verbatim>\<open>be_free\<close>; the decoder in memory
    refines that of \<open>Bencode\<close> (\<open>rep\<close> relates a node to its blocks) and what it leaves is the
    tree of its result, except that keys of malformed dictionaries are lost. \<open>be_free\<close> has fuel,
    twice the number of blocks there ever were, which is enough for every tree.
  \<^item> \<open>Linux_List\<close>, \<open>Registry\<close> (\<^verbatim>\<open>list.h\<close> and the loops over it): pointer functions
    and, proved equal to them, list functions, through the locales \<open>intrusive_list\<close> (interpreted
    by the operations of \<open>Linux_List\<close>) and \<open>sorted_registry\<close> (interpreted by the friends and by
    the call testers). The theories above work on lists.
  \<^item> \<open>List_Entries\<close>, \<open>Hlist\<close> (the rest of \<^verbatim>\<open>list.h\<close>): the loops over the
    structures that contain a list (locale \<open>container\<close>, interpreted by the pointer arithmetic of
    \<^verbatim>\<open>container_of\<close>), those that allow their body to remove the entry they are at, and the
    lists whose head is one pointer, with their accesses through null and poison as faults.
  \<^item> \<open>Misc\<close> (\<^verbatim>\<open>misc.c\<close>) and \<open>Conf\<close> (\<^verbatim>\<open>conf.c\<close>): texts, the stream that cuts output into
    messages, the record of the client; the configuration file.
  \<^item> \<open>Friend\<close>, \<open>Friend_Registry\<close> (\<^verbatim>\<open>friend.c\<close>): the registry, its invariant against
    \<^verbatim>\<open>toxcore\<close> through every sequence of callbacks, refresh, purge and searches.
  \<^item> \<open>File_Queue\<close>, \<open>File_Transfer\<close> (\<^verbatim>\<open>file.c\<close>, \<^verbatim>\<open>filesend.c\<close>): the queue
    of transfers and its callbacks; a served file arrives complete, and which transfers use a freed
    hash block; the blocks that are allocated are exactly those of the transfers and of the other parts.
  \<^item> \<open>Fileop\<close>, \<open>Fileop_Sharing\<close> (\<^verbatim>\<open>fileop.c\<close>): shared files, hashed a buffer at a time; the
    ownership of hash blocks is an invariant; what the hash is a hash of.
  \<^item> \<open>Tsfiles\<close>, \<open>Tsfiles_Roundtrip\<close> (\<^verbatim>\<open>tsfiles.c\<close>): saved transfers and shared lists, what
    comes back of them, and which transfers a returning friend gets.
  \<^item> \<open>Call\<close>, \<open>Call_Machine\<close>, \<open>Call_Properties\<close> (\<^verbatim>\<open>call.c\<close>): the call tester as a state
    machine, the order of its steps, its invariant, what is recorded, and the end of every call: after
    a bounded number of visits its tester is gone, or, if nothing was ever heard and the caller
    did not hang up, the format of an empty record is read, which is a fault.
  \<^item> \<open>Call_Memory\<close>, \<open>Call_Memory_Properties\<close>, \<open>Call_Memory_Refinement\<close> (the same file): the testers,
    their records and samples as blocks; \<open>call_rep\<close> relates them to the testers of \<open>Call\<close>, every
    event keeps it, and what no tester owns any more is one file name for each call that ended;
    at the end the greeting stays as well, two blocks that nothing releases.
  \<^item> \<open>Suit_State\<close>, \<open>Callbacks\<close>, \<open>Command\<close>, \<open>Command_Properties\<close> (\<^verbatim>\<open>suit.h\<close>,
    \<^verbatim>\<open>callbacks.c\<close>, \<^verbatim>\<open>command.c\<close>): the state of the program and the commands of friends.
  \<^item> \<open>Ylog\<close> (\<^verbatim>\<open>ylog/ylog.c\<close>, \<^verbatim>\<open>ylog/ylog.h\<close>): the logger; its cache of levels is
    never stale, and its configuration string means what its documentation says for plain
    names and for stars in front. A star behind a directory also matches what is in
    subdirectories, which the documentation excludes (\<open>documented_match\<close>).
  \<^item> \<open>Toxdata\<close>, \<open>Toxdata_Properties\<close> (\<^verbatim>\<open>toxdata.c\<close>, \<^verbatim>\<open>toxdatatool.c\<close>): the profile,
    lists of keys, and the command line tool. \<open>Tool\<close>: its \<^verbatim>\<open>main\<close> as a whole, the
    help of \<^verbatim>\<open>popt\<close> included, which files it can change, what its exit code says.
  \<^item> \<open>Suit\<close>, \<open>Suit_Properties\<close> (\<^verbatim>\<open>suit.c\<close>): start, dispatch of callbacks, polling loop and
    shut-down; how often each kind of work with a delay is done, how long the loop sleeps, what the first
    purge removes and what is lost at the end. \<open>Timesp\<close> (\<^verbatim>\<open>timesp.c\<close>) is an earlier main.
  \<^item> \<open>Memory_Safety\<close>, \<open>System\<close>, \<open>Lifecycle\<close>: the components together. The judgement
    \<open>safe P m\<close> (no use of a freed hash block, and a result that satisfies \<open>P\<close>) has a rule for every
    operation; \<open>suit_ok\<close> joins the invariants of the components, every event and pass keeps it,
    the start establishes it whatever the files hold, and the shut-down needs it: \<open>suit_main\<close>,
    which is \<^verbatim>\<open>main\<close> from the environment to the exit code, never uses a freed hash block while
    the messages of friends are \<open>peaceful\<close> (none asks for a shared file or deletes its sender).

  \<^bold>\<open>State.\<close> \<open>fstate\<close> holds \<^verbatim>\<open>toxcore\<close>, files, blocks and the queue
  \<^verbatim>\<open>FilesSender\<close>; \<open>cstate\<close> adds the call testers of \<^verbatim>\<open>call.c\<close>; \<open>suit\<close> adds the
  registry, the shared files (\<open>op_state\<close>), \<^verbatim>\<open>FileQueueLoaded\<close> and the static flags;
  \<open>loop\<close> adds the time stamps of \<^verbatim>\<open>main\<close>. The shared files have a copy of files and blocks
  of their own that \<open>run_file_do\<close> synchronises.

  \<^bold>\<open>Loops.\<close> Loops over lists are structural recursion; the others have a
  measure, except the pointer loops of \<open>Registry\<close>, \<open>List_Entries\<close> and \<open>Hlist\<close> and the division of \<open>Timespec\<close>, which may run
  forever and are partial functions with their end proved, and the decoder, which has fuel. The
  polling loop runs over the list of its clock readings.

  \<^bold>\<open>Not modelled.\<close> \<^verbatim>\<open>redirect_output\<close>, which is not called, and callbacks that
  only log; the captcha and JSON code, whose libraries are empty submodules. The home directory
  is a function from its name to the files seen from it. A friend's reply is
  taken to fit the buffer of its stream; messages that \<^verbatim>\<open>toxcore\<close> delivers in one iteration
  are handled after its own state changed.
\<close>

end
